(* ===== verification/Prelude.thy ===== *)
theory Prelude
  imports Main "HOL-Library.Word"
begin

text \<open>
  Shared vocabulary of the development.  It fixes how the Go runtime is read in HOL: machine
  integers (\<open>uint64\<close> and \<open>int64\<close> are both 64-bit words, \<open>int64\<close> read with \<open>sint\<close>; a Go \<open>int\<close> is
  an \<open>int\<close> whose wrap-around is written with \<open>wrap_int\<close>), run-time panics as the left summand of a
  result, indexing with Go's bound checks, and decimal printing (\<open>strconv.Itoa\<close> and
  \<open>FormatInt\<close>).  The lemmas about lists, results and words that several components use live here,
  in the collection \<open>go_simps\<close> (evaluation of run-time operations).  A byte is a \<open>char\<close>, so
  Go strings and byte slices are both \<open>string\<close>.
\<close>

named_theorems go_simps

type_synonym uint64 = "64 word"
type_synonym int64 = "64 word"
type_synonym bytes = string

section \<open>Panics and results\<close>

datatype panic =
    IndexOutOfRange
  | SliceOutOfRange
  | NilDereference
  | DivideByZero
  | FailedTypeAssertion
  | CloseOfClosedChannel
  | SendOnClosedChannel
  | NegativeWaitGroup
  | MakeLenOutOfRange
  | PanicCall

type_synonym 'a res = "panic + 'a"

fun bindR :: "'e + 'a \<Rightarrow> ('a \<Rightarrow> 'e + 'b) \<Rightarrow> 'e + 'b" where
  "bindR (Inl e) f = Inl e"
| "bindR (Inr x) f = f x"

lemma bindR_Inr_iff [go_simps]:
  "bindR m f = Inr y \<longleftrightarrow> (\<exists>x. m = Inr x \<and> f x = Inr y)"
  by (cases m) auto

lemma bindR_Inl_iff [go_simps]:
  "bindR m f = Inl e \<longleftrightarrow> m = Inl e \<or> (\<exists>x. m = Inr x \<and> f x = Inl e)"
  by (cases m) auto

lemma bindR_assoc: "bindR (bindR m f) g = bindR m (\<lambda>x. bindR (f x) g)"
  by (cases m) auto

lemma bindR_cong [fundef_cong]:
  "m = m' \<Longrightarrow> (\<And>x. m' = Inr x \<Longrightarrow> f x = g x) \<Longrightarrow> bindR m f = bindR m' g"
  by (cases m') auto

section \<open>Indexing with Go's bound checks\<close>

definition in_range :: "int \<Rightarrow> 'a list \<Rightarrow> bool" where
  "in_range i xs \<longleftrightarrow> 0 \<le> i \<and> nat i < length xs"

definition index :: "'a list \<Rightarrow> int \<Rightarrow> 'a res" where
  "index xs i = (if in_range i xs then Inr (xs ! nat i) else Inl IndexOutOfRange)"

definition assign :: "'a list \<Rightarrow> int \<Rightarrow> 'a \<Rightarrow> 'a list res" where
  "assign xs i v = (if in_range i xs then Inr (xs[nat i := v]) else Inl IndexOutOfRange)"

lemma in_range_of_nat [simp]: "in_range (int n) xs \<longleftrightarrow> n < length xs"
  by (simp add: in_range_def)

lemma in_range_list_update [simp]: "in_range i (xs[k := v]) \<longleftrightarrow> in_range i xs"
  by (simp add: in_range_def)

lemma in_range_replicate [simp]: "in_range i (replicate n x) \<longleftrightarrow> 0 \<le> i \<and> nat i < n"
  by (simp add: in_range_def)

lemma index_Inr_iff [go_simps]: "index xs i = Inr x \<longleftrightarrow> in_range i xs \<and> x = xs ! nat i"
  by (auto simp: index_def)

lemma index_Inl_iff [go_simps]: "index xs i = Inl e \<longleftrightarrow> \<not> in_range i xs \<and> e = IndexOutOfRange"
  by (auto simp: index_def)

lemma assign_Inr_iff [go_simps]: "assign xs i v = Inr ys \<longleftrightarrow> in_range i xs \<and> ys = xs[nat i := v]"
  by (auto simp: assign_def)

lemma assign_Inl_iff [go_simps]: "assign xs i v = Inl e \<longleftrightarrow> \<not> in_range i xs \<and> e = IndexOutOfRange"
  by (auto simp: assign_def)

lemma index_in_range [simp]: "in_range i xs \<Longrightarrow> index xs i = Inr (xs ! nat i)"
  by (simp add: index_def)

lemma assign_in_range [simp]: "in_range i xs \<Longrightarrow> assign xs i v = Inr (xs[nat i := v])"
  by (simp add: assign_def)

section \<open>Machine integers\<close>

definition wrap_int :: "int \<Rightarrow> int" where
  "wrap_int x = signed_take_bit 63 x"

definition go_rem :: "int \<Rightarrow> int \<Rightarrow> int" where
  "go_rem a b = sgn a * (\<bar>a\<bar> mod \<bar>b\<bar>)"

lemma wrap_int_id: "- (2 ^ 63) \<le> x \<Longrightarrow> x < 2 ^ 63 \<Longrightarrow> wrap_int x = x"
  by (simp add: wrap_int_def signed_take_bit_int_eq_self)

lemma go_rem_nonneg: "0 \<le> a \<Longrightarrow> 0 < b \<Longrightarrow> go_rem a b = a mod b"
  by (cases "a = 0") (auto simp: go_rem_def)

lemma sint_nonneg_uint:
  fixes w :: int64
  assumes "0 \<le> sint w"
  shows "sint w = uint w"
proof -
  have "sint w < 2 ^ 63" using sint_lt [of w] by simp
  then show ?thesis using assms by (simp add: uint_sint take_bit_int_eq_self)
qed

section \<open>Types of all programs\<close>

text \<open>The event a Lambda function is invoked with (\<open>src/common/types\<close>).\<close>

record InputEvent =
  ie_Cmd :: string
  ie_Id :: uint64
  ie_Proxy :: string
  ie_Timeout :: int
  ie_Addr :: string
  ie_Prefix :: string
  ie_Log :: int

section \<open>Decimal printing\<close>

definition digit_char :: "nat \<Rightarrow> char" where
  "digit_char d = char_of (48 + d)"

fun itoa_nat :: "nat \<Rightarrow> string" where
  "itoa_nat n = (if n < 10 then [digit_char n] else itoa_nat (n div 10) @ [digit_char (n mod 10)])"

declare itoa_nat.simps [simp del]

definition itoa :: "int \<Rightarrow> string" where
  "itoa i = (if i < 0 then ''-'' @ itoa_nat (nat (- i)) else itoa_nat (nat i))"

fun atoi_digits :: "nat \<Rightarrow> string \<Rightarrow> nat option" where
  "atoi_digits acc [] = Some acc"
| "atoi_digits acc (c # cs) =
     (if 48 \<le> (of_char c :: nat) \<and> (of_char c :: nat) \<le> 57
      then atoi_digits (10 * acc + (of_char c - 48)) cs else None)"

definition atoi :: "string \<Rightarrow> int option" where
  "atoi s =
     (let neg = (s \<noteq> [] \<and> hd s = CHR ''-'');
          ds = (if s \<noteq> [] \<and> (hd s = CHR ''-'' \<or> hd s = CHR ''+'') then tl s else s)
      in if ds = [] then None
         else case atoi_digits 0 ds of
                None \<Rightarrow> None
              | Some n \<Rightarrow>
                  if neg then (if int n \<le> 2 ^ 63 then Some (- int n) else None)
                  else (if int n < 2 ^ 63 then Some (int n) else None))"

text \<open>The value \<open>strconv.Atoi\<close> returns beside an error: 0, or the nearest \<open>int\<close> when out of range.\<close>

definition Atoi_value :: "string \<Rightarrow> int" where
  "Atoi_value s =
     (case atoi s of
        Some i \<Rightarrow> i
      | None \<Rightarrow>
          let neg = (s \<noteq> [] \<and> hd s = CHR ''-'');
              ds = (if s \<noteq> [] \<and> (hd s = CHR ''-'' \<or> hd s = CHR ''+'') then tl s else s)
          in if ds = [] \<or> atoi_digits 0 ds = None then 0 else if neg then - (2 ^ 63) else 2 ^ 63 - 1)"

text \<open>\<open>strings.ToLower\<close> on ASCII letters.\<close>

definition lower_char :: "char \<Rightarrow> char" where
  "lower_char c = (if 65 \<le> (of_char c :: nat) \<and> (of_char c :: nat) \<le> 90 then char_of ((of_char c :: nat) + 32) else c)"

definition ToLower :: "string \<Rightarrow> string" where
  "ToLower = map lower_char"

lemma of_char_digit [simp]: "d < 10 \<Longrightarrow> (of_char (digit_char d) :: nat) = 48 + d"
  by (simp add: digit_char_def)

lemma atoi_digits_append:
  "atoi_digits acc (xs @ ys) = Option.bind (atoi_digits acc xs) (\<lambda>a. atoi_digits a ys)"
  by (induction acc xs rule: atoi_digits.induct) auto

lemma atoi_digits_itoa_nat: "atoi_digits 0 (itoa_nat n) = Some n"
proof (induction n rule: itoa_nat.induct)
  case (1 n)
  then show ?case
    by (cases "n < 10") (subst itoa_nat.simps, simp add: atoi_digits_append)+
qed

lemma itoa_nat_nonempty [simp]: "itoa_nat n \<noteq> []"
  by (subst itoa_nat.simps) simp

lemma itoa_nat_digits: "c \<in> set (itoa_nat n) \<Longrightarrow> 48 \<le> (of_char c :: nat) \<and> (of_char c :: nat) \<le> 57"
proof (induction n rule: itoa_nat.induct)
  case (1 n)
  then show ?case
    by (cases "n < 10") (auto simp: itoa_nat.simps [of n])
qed

lemma itoa_nat_inj [simp]: "itoa_nat m = itoa_nat n \<longleftrightarrow> m = n"
  by (metis atoi_digits_itoa_nat option.inject)

lemma hd_itoa_nat: "hd (itoa_nat n) \<noteq> CHR ''-'' \<and> hd (itoa_nat n) \<noteq> CHR ''+''"
  using itoa_nat_digits [OF hd_in_set [OF itoa_nat_nonempty, of n]] by auto

lemma atoi_itoa: "- (2 ^ 63) \<le> i \<Longrightarrow> i < 2 ^ 63 \<Longrightarrow> atoi (itoa i) = Some i"
  using hd_itoa_nat [of "nat i"]
  by (auto simp: atoi_def itoa_def Let_def atoi_digits_itoa_nat)

lemma Atoi_value_itoa: "- (2 ^ 63) \<le> i \<Longrightarrow> i < 2 ^ 63 \<Longrightarrow> Atoi_value (itoa i) = i"
  using atoi_itoa [of i] by (simp add: Atoi_value_def)

lemma itoa_chars: "c \<in> set (itoa i) \<Longrightarrow> c = CHR ''-'' \<or> 48 \<le> (of_char c :: nat) \<and> (of_char c :: nat) \<le> 57"
  by (auto simp: itoa_def dest: itoa_nat_digits split: if_splits)

lemma itoa_inj [simp]: "itoa i = itoa j \<longleftrightarrow> i = j"
  using hd_itoa_nat [of "nat i"] hd_itoa_nat [of "nat j"]
  by (auto simp: itoa_def split: if_splits) (metis list.sel(1))+

lemma at_notin_itoa [simp]: "CHR ''@'' \<notin> set (itoa i)"
  using itoa_chars [of "CHR ''@''" i] by auto

lemma append_sep_inj:
  assumes "xs @ c # ys = xs' @ c # ys'" and "c \<notin> set xs" and "c \<notin> set xs'"
  shows "xs = xs' \<and> ys = ys'"
  using assms
proof (induction xs arbitrary: xs')
  case Nil
  then show ?case by (cases xs') auto
next
  case (Cons x xs)
  then show ?case by (cases xs') auto
qed

section \<open>Lists\<close>

lemma sum_list_update_word:
  fixes xs :: "'a::ab_group_add list"
  shows "k < length xs \<Longrightarrow> sum_list (xs[k := v]) = sum_list xs + v - xs ! k"
  by (induction xs arbitrary: k) (auto simp: nth_Cons algebra_simps split: nat.splits)

text \<open>Elimination of evaluated case distinctions.\<close>

lemma case_optionE: "(case x of None \<Rightarrow> False | Some y \<Rightarrow> P y) \<Longrightarrow> (\<And>y. x = Some y \<Longrightarrow> P y \<Longrightarrow> Q) \<Longrightarrow> Q"
  by (cases x) auto

lemma case_sumE: "(case x of Inl e \<Rightarrow> False | Inr y \<Rightarrow> P y) \<Longrightarrow> (\<And>y. x = Inr y \<Longrightarrow> P y \<Longrightarrow> Q) \<Longrightarrow> Q"
  by (cases x) auto

end
