(* ===== verification/HashMap.thy ===== *)
theory HashMap
  imports Prelude "HOL-Library.AList"
begin

text \<open>
  The concurrent hash map \<open>github.com/cornelk/hashmap\<close> is not part of the repository.  Every
  component that stores something in one (\<open>MetaStore.metaMap\<close>, \<open>Scheduler.actives\<close>,
  \<open>global.ReqMap\<close>, the migrator's \<open>all\<close>) takes the operations it calls as an argument, the record
  \<open>hashmap\<close> below, and what the code relies on is the predicate \<open>hashmap_ok\<close>: the documented
  meaning of \<open>Get\<close>, \<open>GetOrInsert\<close>, \<open>Set\<close>, \<open>Del\<close> and \<open>Iter\<close>.  The association-list operations
  \<open>alist_hashmap\<close> satisfy it and are what the witnesses run.
\<close>

record ('m, 'k, 'v) hashmap =
  hm_New :: 'm
  hm_Get :: "'m \<Rightarrow> 'k \<Rightarrow> 'v option"
  hm_GetOrInsert :: "'m \<Rightarrow> 'k \<Rightarrow> 'v \<Rightarrow> 'm \<times> 'v \<times> bool"
  hm_Set :: "'m \<Rightarrow> 'k \<Rightarrow> 'v \<Rightarrow> 'm"
  hm_Del :: "'m \<Rightarrow> 'k \<Rightarrow> 'm"
  hm_Iter :: "'m \<Rightarrow> ('k \<times> 'v) list"

definition hashmap_ok :: "('m, 'k, 'v) hashmap \<Rightarrow> bool" where
  "hashmap_ok H \<longleftrightarrow>
     hm_Get H (hm_New H) = Map.empty \<and>
     (\<forall>m k v. case hm_Get H m k of
        None \<Rightarrow> \<exists>m'. hm_GetOrInsert H m k v = (m', v, False) \<and> hm_Get H m' = (hm_Get H m)(k \<mapsto> v)
      | Some w \<Rightarrow> \<exists>m'. hm_GetOrInsert H m k v = (m', w, True) \<and> hm_Get H m' = hm_Get H m) \<and>
     (\<forall>m k v. hm_Get H (hm_Set H m k v) = (hm_Get H m)(k \<mapsto> v)) \<and>
     (\<forall>m k. hm_Get H (hm_Del H m k) = (hm_Get H m)(k := None)) \<and>
     (\<forall>m. distinct (map fst (hm_Iter H m)) \<and> map_of (hm_Iter H m) = hm_Get H m)"

definition alist_hashmap :: "(('k \<times> 'v) list, 'k, 'v) hashmap" where
  "alist_hashmap = \<lparr>
     hm_New = [],
     hm_Get = map_of,
     hm_GetOrInsert = (\<lambda>m k v. case map_of m k of None \<Rightarrow> (AList.update k v m, v, False) | Some w \<Rightarrow> (m, w, True)),
     hm_Set = (\<lambda>m k v. AList.update k v m),
     hm_Del = (\<lambda>m k. AList.delete k m),
     hm_Iter = AList.clearjunk\<rparr>"

lemma alist_hashmap_simps [simp]:
  "hm_New alist_hashmap = []"
  "hm_Get alist_hashmap = map_of"
  "hm_GetOrInsert alist_hashmap m k v =
     (case map_of m k of None \<Rightarrow> (AList.update k v m, v, False) | Some w \<Rightarrow> (m, w, True))"
  "hm_Set alist_hashmap m k v = AList.update k v m"
  "hm_Del alist_hashmap m k = AList.delete k m"
  "hm_Iter alist_hashmap = AList.clearjunk"
  by (simp_all add: alist_hashmap_def)

lemma alist_hashmap_ok: "hashmap_ok alist_hashmap"
  by (auto simp: hashmap_ok_def update_conv' delete_conv' distinct_clearjunk map_of_clearjunk
      split: option.splits)

lemma hm_Get_New: "hashmap_ok H \<Longrightarrow> hm_Get H (hm_New H) = Map.empty"
  by (simp add: hashmap_ok_def)

lemma hm_Get_Set: "hashmap_ok H \<Longrightarrow> hm_Get H (hm_Set H m k v) = (hm_Get H m)(k \<mapsto> v)"
  by (simp add: hashmap_ok_def)

lemma hm_Get_Del: "hashmap_ok H \<Longrightarrow> hm_Get H (hm_Del H m k) = (hm_Get H m)(k := None)"
  by (simp add: hashmap_ok_def)

lemma hm_Iter_Get: "hashmap_ok H \<Longrightarrow> map_of (hm_Iter H m) = hm_Get H m"
  by (simp add: hashmap_ok_def)

lemma hm_Iter_distinct: "hashmap_ok H \<Longrightarrow> distinct (map fst (hm_Iter H m))"
  by (simp add: hashmap_ok_def)

lemma hm_GetOrInsert_spec:
  assumes "hashmap_ok H"
  shows "case hm_Get H m k of
     None \<Rightarrow> \<exists>m'. hm_GetOrInsert H m k v = (m', v, False) \<and> hm_Get H m' = (hm_Get H m)(k \<mapsto> v)
   | Some w \<Rightarrow> \<exists>m'. hm_GetOrInsert H m k v = (m', w, True) \<and> hm_Get H m' = hm_Get H m"
  using assms unfolding hashmap_ok_def by blast

lemma hm_GetOrInsert_cases:
  assumes "hashmap_ok H"
  obtains (found) w m' where "hm_Get H m k = Some w" and "hm_GetOrInsert H m k v = (m', w, True)"
      and "hm_Get H m' = hm_Get H m"
  | (fresh) m' where "hm_Get H m k = None" and "hm_GetOrInsert H m k v = (m', v, False)"
      and "hm_Get H m' = (hm_Get H m)(k \<mapsto> v)"
  using hm_GetOrInsert_spec [OF assms, of m k v] by (cases "hm_Get H m k") auto

lemmas hm_laws = hm_Get_New hm_Get_Set hm_Get_Del hm_Iter_Get

end
