(* ===== verification/GroupSlice.thy ===== *)
theory GroupSlice
  imports Prelude
begin

text \<open>
  The addressing half of \<open>src/proxy/server/group.go\<close>: a group of instances with its rotating
  \<open>sliceBase\<close>, and the \<open>Slice\<close> of an object, whose base is drawn once from the group.  The type of
  an instance is a parameter: the placer only needs the bookkeeping record of an instance, the
  scheduler its deployment.  (\<open>Slice.group\<close> is the one group of the process and is passed along.)
\<close>

record 'i Group =
  All :: "'i option list"
  g_size :: int
  sliceBase :: uint64

definition NewGroup :: "int \<Rightarrow> 'i Group" where
  "NewGroup num = \<lparr>All = replicate (nat num) None, g_size = num, sliceBase = 0\<rparr>"

definition Len_group :: "'i Group \<Rightarrow> int" where
  "Len_group g = g_size g"

definition GInstance :: "'i Group \<Rightarrow> int \<Rightarrow> 'i res" where
  "GInstance g idx =
     bindR (index (All g) idx) (\<lambda>gi. case gi of None \<Rightarrow> Inl NilDereference | Some i \<Rightarrow> Inr i)"

definition set_instance :: "'i Group \<Rightarrow> int \<Rightarrow> 'i \<Rightarrow> 'i Group" where
  "set_instance g idx i = g\<lparr>All := (All g)[nat idx := Some i]\<rparr>"

definition nextSlice :: "'i Group \<Rightarrow> int \<Rightarrow> ('i Group \<times> int) res" where
  "nextSlice g sliceSize =
     (let b = sliceBase g + word_of_int sliceSize
      in if g_size g = 0 then Inl DivideByZero
         else Inr (g\<lparr>sliceBase := b\<rparr>,
                   sint ((b - word_of_int sliceSize) mod word_of_int (g_size g))))"

record Slice =
  once_done :: bool
  initialized :: bool
  s_size :: int
  base :: int

definition zeroSlice :: Slice where
  "zeroSlice = \<lparr>once_done = False, initialized = False, s_size = 0, base = 0\<rparr>"

definition slice_get :: "Slice \<Rightarrow> 'i Group \<Rightarrow> (Slice \<times> 'i Group) res" where
  "slice_get s g =
     bindR (nextSlice g (s_size s))
       (\<lambda>(g', b). Inr (s\<lparr>once_done := True, base := b, initialized := True\<rparr>, g'))"

definition GetIndex :: "Slice \<Rightarrow> 'i Group \<Rightarrow> int \<Rightarrow> (Slice \<times> 'i Group \<times> int) res" where
  "GetIndex s g idx =
     bindR (if once_done s then Inr (s, g) else slice_get s g)
       (\<lambda>(s', g'). if g_size g' = 0 then Inl DivideByZero
                   else Inr (s', g', go_rem (wrap_int (base s' + idx)) (g_size g')))"

section \<open>Indices are in range and injective\<close>

definition group_wf :: "'i Group \<Rightarrow> bool" where
  "group_wf g \<longleftrightarrow> 0 < g_size g \<and> g_size g < 2 ^ 62 \<and> int (length (All g)) = g_size g"

definition slice_wf :: "'i Group \<Rightarrow> Slice \<Rightarrow> bool" where
  "slice_wf g s \<longleftrightarrow> (once_done s \<longrightarrow> 0 \<le> base s \<and> base s < g_size g)"

lemma sint_mod_group:
  assumes "0 < n" and "n < 2 ^ 62"
  shows "sint ((w :: uint64) mod word_of_int n) = uint w mod n"
proof -
  have u: "uint (word_of_int n :: uint64) = n"
    using assms by (simp add: uint_word_of_int)
  have m: "uint (w mod word_of_int n) = uint w mod n"
    using u by (simp add: uint_mod)
  have "uint w mod n < n" using assms(1) by simp
  then have "uint w mod n < 2 ^ 63"
    by (rule less_trans) (use assms(2) in simp)
  moreover have "0 \<le> uint w mod n" using assms by simp
  ultimately show ?thesis
    by (simp add: sint_uint m signed_take_bit_int_eq_self)
qed

lemma nextSlice_ok:
  assumes "group_wf g"
  shows "nextSlice g s =
     Inr (g\<lparr>sliceBase := sliceBase g + word_of_int s\<rparr>, uint (sliceBase g) mod g_size g)"
  using assms by (auto simp: nextSlice_def group_wf_def Let_def sint_mod_group)

lemma GetIndex_once:
  assumes "group_wf g" and "slice_wf g s" and "GetIndex s g idx = Inr (s', g', k)"
  shows "once_done s' \<and> slice_wf g' s' \<and> group_wf g' \<and> g_size g' = g_size g \<and> All g' = All g
     \<and> (once_done s \<longrightarrow> s' = s \<and> g' = g)"
  using assms
  by (auto simp: GetIndex_def slice_get_def nextSlice_ok group_wf_def slice_wf_def go_simps
      split: if_splits)

lemma GetIndex_value:
  assumes "group_wf g" and "slice_wf g s" and "GetIndex s g idx = Inr (s', g', k)"
    and "0 \<le> idx" and "idx < 2 ^ 62"
  shows "k = (base s' + idx) mod g_size g"
proof -
  have b: "0 \<le> base s'" "base s' < g_size g" and gs: "g_size g' = g_size g" and "0 < g_size g"
    using GetIndex_once [OF assms(1-3)] assms(1) by (auto simp: slice_wf_def group_wf_def)
  have k: "k = go_rem (wrap_int (base s' + idx)) (g_size g')"
    using assms(3) by (auto simp: GetIndex_def go_simps split: if_splits)
  have "wrap_int (base s' + idx) = base s' + idx"
    using b assms(1,4,5) by (intro wrap_int_id) (auto simp: group_wf_def)
  then show ?thesis
    using k gs b assms(4) \<open>0 < g_size g\<close> by (simp add: go_rem_nonneg)
qed

lemma GetIndex_total:
  assumes "group_wf g"
  shows "\<exists>s' g' k. GetIndex s g idx = Inr (s', g', k)"
  using assms by (auto simp: GetIndex_def slice_get_def nextSlice_ok group_wf_def)

lemma GetIndex_in_range:
  assumes "group_wf g" and "slice_wf g s" and "GetIndex s g idx = Inr (s', g', k)"
    and "0 \<le> idx" and "idx < 2 ^ 62"
  shows "0 \<le> k \<and> k < g_size g"
  using GetIndex_value [OF assms] assms(1) by (simp add: group_wf_def)

lemma shift_mod_inj:
  assumes "0 \<le> i" "i < n" "0 \<le> j" "j < n" "(b + i) mod n = (b + j) mod (n :: int)"
  shows "i = j"
proof -
  have "(i - j) mod n = 0"
    using assms(5) by (metis add_diff_cancel_left mod_diff_left_eq mod_diff_right_eq diff_self mod_0)
  then have "n dvd i - j" by (simp add: dvd_eq_mod_eq_0)
  moreover have "\<bar>i - j\<bar> < n" using assms(1-4) by linarith
  ultimately have "\<not> i - j \<noteq> 0" using dvd_imp_le_int [of "i - j" n] by auto
  then show ?thesis by simp
qed

section \<open>The contract of an address slice\<close>

text \<open>
  What the placer relies on: once the base of an object is drawn, the map from the client's
  Lambda numbers to instances is a fixed injection into the group.
\<close>

locale address_slice =
  fixes addr_of :: "'s \<Rightarrow> int \<Rightarrow> int" and bound :: "'s \<Rightarrow> int" and ready :: "'s \<Rightarrow> bool"
  assumes addr_range: "ready s \<Longrightarrow> 0 \<le> i \<Longrightarrow> i < bound s \<Longrightarrow> 0 \<le> addr_of s i \<and> addr_of s i < bound s"
    and addr_inj: "ready s \<Longrightarrow> 0 \<le> i \<Longrightarrow> i < bound s \<Longrightarrow> 0 \<le> j \<Longrightarrow> j < bound s \<Longrightarrow>
          addr_of s i = addr_of s j \<Longrightarrow> i = j"
begin

lemma distinct_addresses:
  assumes "ready s" and "distinct is" and "\<forall>i \<in> set is. 0 \<le> i \<and> i < bound s"
  shows "distinct (map (addr_of s) is) \<and> (\<forall>k \<in> set (map (addr_of s) is). 0 \<le> k \<and> k < bound s)"
proof -
  have "inj_on (addr_of s) (set is)"
    using assms(1,3) addr_inj by (auto simp: inj_on_def)
  then show ?thesis using assms addr_range by (auto simp: distinct_map)
qed

end

definition slice_addr :: "Slice \<times> 'i Group \<Rightarrow> int \<Rightarrow> int" where
  "slice_addr sg idx = (case GetIndex (fst sg) (snd sg) idx of Inl _ \<Rightarrow> 0 | Inr (_, _, k) \<Rightarrow> k)"

definition slice_ready :: "Slice \<times> 'i Group \<Rightarrow> bool" where
  "slice_ready sg \<longleftrightarrow> once_done (fst sg) \<and> group_wf (snd sg) \<and> slice_wf (snd sg) (fst sg)"

lemma slice_addr_eq:
  assumes "slice_ready sg" and "0 \<le> i" and "i < g_size (snd sg)"
  shows "slice_addr sg i = (base (fst sg) + i) mod g_size (snd sg)"
proof -
  obtain s g where sg: "sg = (s, g)" by (cases sg)
  from assms have wf: "group_wf g" "slice_wf g s" and "once_done s"
    by (auto simp: slice_ready_def sg)
  obtain s' g' k where r: "GetIndex s g i = Inr (s', g', k)"
    using GetIndex_total [OF wf(1)] by blast
  have "i < 2 ^ 62" using assms(3) wf(1) by (simp add: sg group_wf_def)
  then have "k = (base s' + i) mod g_size g"
    using GetIndex_value [OF wf r assms(2)] by simp
  moreover have "s' = s" using GetIndex_once [OF wf r] \<open>once_done s\<close> by simp
  ultimately show ?thesis by (simp add: slice_addr_def sg r)
qed

interpretation gslice: address_slice slice_addr "\<lambda>sg. g_size (snd sg)" slice_ready
proof unfold_locales
  fix sg :: "Slice \<times> 'i Group" and i
  assume "slice_ready sg" "0 \<le> i" "i < g_size (snd sg)"
  then show "0 \<le> slice_addr sg i \<and> slice_addr sg i < g_size (snd sg)"
    by (simp add: slice_addr_eq)
next
  fix sg :: "Slice \<times> 'i Group" and i j
  assume "slice_ready sg" "0 \<le> i" "i < g_size (snd sg)" "0 \<le> j" "j < g_size (snd sg)"
    "slice_addr sg i = slice_addr sg j"
  then show "i = j"
    using shift_mod_inj [of i "g_size (snd sg)" j "base (fst sg)"] by (simp add: slice_addr_eq)
qed

end
