(* ===== verification/Scheduler.thy ===== *)
theory Scheduler
  imports HashMap GroupSlice
begin

text \<open>
  \<open>src/proxy/lambdastore/deployment.go\<close>, the registration half of \<open>src/proxy/server/group.go\<close> and
  \<open>src/proxy/server/scheduler.go\<close>: deployments move between the scheduler's pool and the active map.

  Deployments, instances and group instances are heap objects named by addresses, because \<open>Switch\<close>
  exchanges the names and numbers of two deployments that stay in place.  The pool is a buffered
  channel: receiving from an empty one and sending to a full one block, which is the outcome
  \<open>None\<close> of an operation.  The map of active instances is an abstract hash map.  There is one group.
  Of an instance only its deployment and whether it is closed are kept here.
\<close>

section \<open>Deployments\<close>

record Deployment =
  d_name :: string
  d_id :: uint64
  d_replica :: bool

definition NewDeployment :: "string \<Rightarrow> uint64 \<Rightarrow> bool \<Rightarrow> Deployment" where
  "NewDeployment name i replica =
     \<lparr>d_name = (if \<not> replica then name @ itoa (uint i) else name), d_id = i, d_replica = replica\<rparr>"

type_synonym ref = nat

datatype LambdaDeployment = DDep ref | DIns ref

record GroupInstance =
  gi_deployment :: LambdaDeployment
  gi_idx :: int

record 'm sched =
  deps :: "ref \<Rightarrow> Deployment"
  inst_dep :: "ref \<Rightarrow> ref"
  inst_closed :: "ref \<Rightarrow> bool"
  ginsts :: "ref \<Rightarrow> GroupInstance"
  nextRef :: ref
  s_pool :: "ref list"
  s_poolCap :: nat
  actives :: 'm
  s_group :: "ref Group"

definition dep_ref :: "'m sched \<Rightarrow> LambdaDeployment \<Rightarrow> ref" where
  "dep_ref s d = (case d of DDep r \<Rightarrow> r | DIns i \<Rightarrow> inst_dep s i)"

definition ld_Id :: "'m sched \<Rightarrow> LambdaDeployment \<Rightarrow> uint64" where
  "ld_Id s d = d_id (deps s (dep_ref s d))"

definition gi_Id :: "'m sched \<Rightarrow> ref \<Rightarrow> uint64" where
  "gi_Id s g = ld_Id s (gi_deployment (ginsts s g))"

text \<open>\<open>Deployment.Reset\<close>: the deployment \<open>d\<close> takes the name and number of \<open>new\<close>.\<close>

definition Reset_deployment :: "ref \<Rightarrow> Deployment \<Rightarrow> 'm sched \<Rightarrow> 'm sched" where
  "Reset_deployment d new s =
     s\<lparr>deps := (deps s)(d := (deps s d)\<lparr>d_name := d_name new, d_id := d_id new\<rparr>)\<rparr>"

definition Switch :: "ref \<Rightarrow> LambdaDeployment \<Rightarrow> 'm sched \<Rightarrow> 'm sched" where
  "Switch i to s =
     (let d = inst_dep s i; temp = deps s d;
          s1 = Reset_deployment d (deps s (dep_ref s to)) s
      in Reset_deployment (dep_ref s1 to) temp s1)"

section \<open>The group\<close>

definition NewInstanceFromDeployment :: "ref \<Rightarrow> 'm sched \<Rightarrow> ref \<times> 'm sched" where
  "NewInstanceFromDeployment d s =
     (nextRef s, s\<lparr>nextRef := Suc (nextRef s), inst_dep := (inst_dep s)(nextRef s := d),
                   inst_closed := (inst_closed s)(nextRef s := False)\<rparr>)"

definition Reserve :: "int \<Rightarrow> LambdaDeployment \<Rightarrow> 'm sched \<Rightarrow> ref \<times> 'm sched" where
  "Reserve idx d s =
     (nextRef s, s\<lparr>nextRef := Suc (nextRef s),
                   ginsts := (ginsts s)(nextRef s := \<lparr>gi_deployment = d, gi_idx = idx\<rparr>)\<rparr>)"

definition Set_group :: "ref \<Rightarrow> 'm sched \<Rightarrow> 'm sched res" where
  "Set_group g s =
     (let s1 = (case gi_deployment (ginsts s g) of
                  DIns _ \<Rightarrow> s
                | DDep d \<Rightarrow>
                    (let (i, s') = NewInstanceFromDeployment d s
                     in s'\<lparr>ginsts := (ginsts s')(g := (ginsts s' g)\<lparr>gi_deployment := DIns i\<rparr>)\<rparr>))
      in bindR (assign (All (s_group s1)) (gi_idx (ginsts s1 g)) (Some g)) (\<lambda>xs.
           Inr (s1\<lparr>s_group := (s_group s1)\<lparr>All := xs\<rparr>\<rparr>)))"

text \<open>The result is the instance that was in the group before: nil when there was none.\<close>

definition Validate_group :: "ref \<Rightarrow> 'm sched \<Rightarrow> (ref option \<times> 'm sched) res" where
  "Validate_group g s =
     bindR (index (All (s_group s)) (gi_idx (ginsts s g))) (\<lambda>gins.
       case gins of
         None \<Rightarrow> bindR (Set_group g s) (\<lambda>s'. Inr (None, s'))
       | Some h \<Rightarrow>
           if h \<noteq> g then
             (case gi_deployment (ginsts s h) of
                DDep _ \<Rightarrow> Inl FailedTypeAssertion
              | DIns i \<Rightarrow> Inr (Some h, Switch i (gi_deployment (ginsts s g)) s))
           else Inr (Some h, s))"

section \<open>The scheduler\<close>

fun add_deployments :: "string \<Rightarrow> nat \<Rightarrow> nat \<Rightarrow> 'm sched \<Rightarrow> 'm sched" where
  "add_deployments prefix i 0 s = s"
| "add_deployments prefix i (Suc k) s =
     add_deployments prefix (Suc i) k
       (s\<lparr>deps := (deps s)(nextRef s := NewDeployment prefix (word_of_nat i) False),
          s_pool := s_pool s @ [nextRef s], nextRef := Suc (nextRef s)\<rparr>)"

definition NewScheduler :: "(('m, uint64, ref) hashmap) \<Rightarrow> string \<Rightarrow> int \<Rightarrow> nat \<Rightarrow> 'm sched" where
  "NewScheduler H prefix numCluster numDeployment =
     add_deployments prefix 0 numDeployment
       \<lparr>deps = (\<lambda>_. NewDeployment [] 0 True), inst_dep = (\<lambda>_. 0), inst_closed = (\<lambda>_. False),
        ginsts = (\<lambda>_. \<lparr>gi_deployment = DDep 0, gi_idx = 0\<rparr>), nextRef = 0, s_pool = [],
        s_poolCap = numDeployment + 1, actives = hm_New H, s_group = NewGroup numCluster\<rparr>"

definition GetForGroup :: "('m, uint64, ref) hashmap \<Rightarrow> int \<Rightarrow> 'm sched \<Rightarrow> (LambdaDeployment \<times> 'm sched) res option" where
  "GetForGroup H idx s =
     (case s_pool s of
        [] \<Rightarrow> None
      | d # rest \<Rightarrow>
          (let (i, s1) = NewInstanceFromDeployment d (s\<lparr>s_pool := rest\<rparr>);
               (g, s2) = Reserve idx (DIns i) s1;
               s3 = s2\<lparr>actives := hm_Set H (actives s2) (gi_Id s2 g) g\<rparr>
           in Some (bindR (Set_group g s3) (\<lambda>s4. Inr (gi_deployment (ginsts s4 g), s4)))))"

definition ReserveForGroup :: "('m, uint64, ref) hashmap \<Rightarrow> int \<Rightarrow> 'm sched \<Rightarrow> LambdaDeployment option \<times> 'm sched" where
  "ReserveForGroup H idx s =
     (case s_pool s of
        [] \<Rightarrow> (None, s)
      | d # rest \<Rightarrow>
          (let (g, s1) = Reserve idx (DDep d) (s\<lparr>s_pool := rest\<rparr>)
           in (Some (DDep d), s1\<lparr>actives := hm_Set H (actives s1) (gi_Id s1 g) g\<rparr>)))"

definition ReserveForInstance :: "('m, uint64, ref) hashmap \<Rightarrow> uint64 \<Rightarrow> 'm sched \<Rightarrow> LambdaDeployment option" where
  "ReserveForInstance H insId s =
     (case hm_Get H (actives s) insId of
        None \<Rightarrow> None
      | Some g \<Rightarrow> Some (gi_deployment (ginsts s g)))"

definition Recycle :: "('m, uint64, ref) hashmap \<Rightarrow> LambdaDeployment \<Rightarrow> 'm sched \<Rightarrow> 'm sched option" where
  "Recycle H dp s =
     (let s1 = s\<lparr>actives := hm_Del H (actives s) (ld_Id s dp)\<rparr>;
          s2 = (case dp of DDep _ \<Rightarrow> s1 | DIns i \<Rightarrow> s1\<lparr>inst_closed := (inst_closed s1)(i := True)\<rparr>)
      in if length (s_pool s2) < s_poolCap s2
         then Some (s2\<lparr>s_pool := s_pool s2 @ [dep_ref s2 dp]\<rparr>) else None)"

definition Deployment_of :: "('m, uint64, ref) hashmap \<Rightarrow> uint64 \<Rightarrow> 'm sched \<Rightarrow> LambdaDeployment option" where
  "Deployment_of H i s = map_option (\<lambda>g. gi_deployment (ginsts s g)) (hm_Get H (actives s) i)"

definition Instance_of :: "('m, uint64, ref) hashmap \<Rightarrow> uint64 \<Rightarrow> 'm sched \<Rightarrow> (ref option \<times> 'm sched) res option" where
  "Instance_of H i s =
     (case hm_Get H (actives s) i of
        None \<Rightarrow> Some (Inr (None, s))
      | Some g \<Rightarrow>
          (case Validate_group g s of
             Inl e \<Rightarrow> Some (Inl e)
           | Inr (None, s1) \<Rightarrow> Some (Inl NilDereference)
           | Inr (Some v, s1) \<Rightarrow>
               (let r = (if v \<noteq> g then
                           Recycle H (gi_deployment (ginsts s1 g))
                             (s1\<lparr>actives := hm_Set H (hm_Set H (actives s1) (gi_Id s1 v) v) (gi_Id s1 g) g\<rparr>)
                         else Some s1)
                in case r of
                     None \<Rightarrow> None
                   | Some s2 \<Rightarrow>
                       (case gi_deployment (ginsts s2 v) of
                          DDep _ \<Rightarrow> Some (Inl FailedTypeAssertion)
                        | DIns j \<Rightarrow> Some (Inr (Some j, s2))))))"

fun recycle_all :: "('m, uint64, ref) hashmap \<Rightarrow> ref list \<Rightarrow> 'm sched \<Rightarrow> 'm sched option" where
  "recycle_all H [] s = Some s"
| "recycle_all H (g # gs) s =
     (case Recycle H (gi_deployment (ginsts s g)) s of None \<Rightarrow> None | Some s' \<Rightarrow> recycle_all H gs s')"

text \<open>Every active instance belongs to the one group, so the guard of \<open>Clear\<close> on the group is true.\<close>

definition Clear :: "('m, uint64, ref) hashmap \<Rightarrow> 'm sched \<Rightarrow> 'm sched option" where
  "Clear H s = recycle_all H (map snd (hm_Iter H (actives s))) s"

definition ClearAll :: "('m, uint64, ref) hashmap \<Rightarrow> 'm sched \<Rightarrow> 'm sched option" where
  "ClearAll H s = recycle_all H (map snd (hm_Iter H (actives s))) s"

section \<open>Every deployment is in the pool or active, once\<close>

definition held :: "('m, uint64, ref) hashmap \<Rightarrow> 'm sched \<Rightarrow> uint64 \<rightharpoonup> ref" where
  "held H s = (\<lambda>k. map_option (\<lambda>g. dep_ref s (gi_deployment (ginsts s g))) (hm_Get H (actives s) k))"

definition sched_inv :: "('m, uint64, ref) hashmap \<Rightarrow> ref set \<Rightarrow> 'm sched \<Rightarrow> bool" where
  "sched_inv H D s \<longleftrightarrow>
     distinct (s_pool s) \<and> set (s_pool s) \<union> ran (held H s) = D \<and> set (s_pool s) \<inter> ran (held H s) = {} \<and>
     (\<forall>k d. held H s k = Some d \<longrightarrow> d_id (deps s d) = k) \<and> inj_on (\<lambda>d. d_id (deps s d)) D \<and>
     finite D \<and> card D < s_poolCap s \<and> (\<forall>d \<in> D. d < nextRef s) \<and>
     (\<forall>k g. hm_Get H (actives s) k = Some g \<longrightarrow>
        g < nextRef s \<and> (\<forall>i. gi_deployment (ginsts s g) = DIns i \<longrightarrow> i < nextRef s))"

lemma sched_invD:
  assumes "sched_inv H D s"
  shows "distinct (s_pool s)" "set (s_pool s) \<union> ran (held H s) = D" "set (s_pool s) \<inter> ran (held H s) = {}"
    "held H s k = Some d \<Longrightarrow> d_id (deps s d) = k" "inj_on (\<lambda>d. d_id (deps s d)) D" "finite D" "card D < s_poolCap s"
    "d \<in> D \<Longrightarrow> d < nextRef s" "hm_Get H (actives s) k = Some g \<Longrightarrow> g < nextRef s"
    "hm_Get H (actives s) k = Some g \<Longrightarrow> gi_deployment (ginsts s g) = DIns i \<Longrightarrow> i < nextRef s"
  using assms by (auto simp: sched_inv_def)

lemma pooled_not_held:
  assumes "sched_inv H D s" "d \<in> set (s_pool s)"
  shows "held H s (d_id (deps s d)) = None"
proof (rule ccontr)
  assume "held H s (d_id (deps s d)) \<noteq> None"
  then obtain d' where d': "held H s (d_id (deps s d)) = Some d'" by blast
  then have r: "d' \<in> ran (held H s)" by (rule ranI)
  have "d_id (deps s d') = d_id (deps s d)" using sched_invD(4) [OF assms(1) d'] .
  moreover have "d \<in> D" "d' \<in> D" using sched_invD(2) [OF assms(1)] assms(2) r by auto
  ultimately have "d' = d" using sched_invD(5) [OF assms(1)] by (simp add: inj_on_def)
  then show False using sched_invD(3) [OF assms(1)] assms(2) r by auto
qed

lemma pool_length:
  assumes "sched_inv H D s"
  shows "length (s_pool s) < s_poolCap s"
proof -
  note i = sched_invD(1,2,6,7) [OF assms]
  have "length (s_pool s) = card (set (s_pool s))" using i(1) by (simp add: distinct_card)
  also have "\<dots> \<le> card D" using i(2,3) by (intro card_mono) auto
  finally show ?thesis using i(4) by simp
qed

text \<open>A deployment moves from the pool to the active map and back.\<close>

lemma sched_inv_activate:
  assumes inv: "sched_inv H D s" and pool: "s_pool s = d # rest"
    and s': "s_pool s' = rest" "deps s' = deps s" "s_poolCap s' = s_poolCap s" "nextRef s \<le> nextRef s'"
    and hd: "held H s' = (held H s)(d_id (deps s d) \<mapsto> d)"
    and refs: "\<And>k g. hm_Get H (actives s') k = Some g \<Longrightarrow> g < nextRef s' \<and> (\<forall>i. gi_deployment (ginsts s' g) = DIns i \<longrightarrow> i < nextRef s')"
  shows "sched_inv H D s'"
proof -
  have dp: "d \<in> set (s_pool s)" using pool by simp
  have fresh: "held H s (d_id (deps s d)) = None" using pooled_not_held [OF inv dp] .
  have ran: "ran (held H s') = insert d (ran (held H s))" using fresh hd by simp
  show ?thesis
    unfolding sched_inv_def
  proof (intro conjI ballI allI impI)
    show "e < nextRef s'" if "e \<in> D" for e using sched_invD(8) [OF inv that] s'(4) by simp
    show "set (s_pool s') \<inter> ran (held H s') = {}" "set (s_pool s') \<union> ran (held H s') = D"
      using sched_invD(1-3) [OF inv] pool s'(1) ran by auto
    show "d_id (deps s' e) = k" if "held H s' k = Some e" for k e
      using that sched_invD(4) [OF inv] by (auto simp: hd s'(2) split: if_splits)
  qed (use sched_invD [OF inv] pool s' refs in auto)
qed

lemma sched_inv_recycle:
  assumes inv: "sched_inv H D s" and k: "held H s k = Some d"
    and s': "s_pool s' = s_pool s @ [d]" "deps s' = deps s" "s_poolCap s' = s_poolCap s" "nextRef s' = nextRef s"
      "ginsts s' = ginsts s"
    and hd: "held H s' = (held H s)(k := None)" and act: "hm_Get H (actives s') = (hm_Get H (actives s))(k := None)"
  shows "sched_inv H D s'"
proof -
  have kd: "d_id (deps s d) = k" using sched_invD(4) [OF inv k] .
  have "d \<notin> ran (held H s')"
  proof
    assume "d \<in> ran (held H s')"
    then obtain j where "held H s j = Some d" "j \<noteq> k" by (auto simp: ran_def hd split: if_splits)
    then show False using sched_invD(4) [OF inv] kd by blast
  qed
  moreover have "ran (held H s') \<subseteq> ran (held H s)" by (auto simp: ran_def hd split: if_splits)
  moreover have "ran (held H s) \<subseteq> insert d (ran (held H s'))"
    using k by (auto simp: ran_def hd) (metis option.inject)
  moreover have "d \<in> ran (held H s)" using k by (rule ranI)
  ultimately have "ran (held H s) = insert d (ran (held H s'))" "d \<notin> ran (held H s')" by blast+
  then show ?thesis
    using sched_invD [OF inv] s' act unfolding sched_inv_def by (auto simp: hd split: if_splits)
qed

lemma GetForGroup_inv:
  assumes H: "hashmap_ok H" and inv: "sched_inv H D s" and pool: "s_pool s = d # rest"
    and idx: "in_range idx (All (s_group s))"
  shows "\<exists>i s'. GetForGroup H idx s = Some (Inr (DIns i, s')) \<and> sched_inv H D s' \<and> s_pool s' = rest \<and>
     held H s' = (held H s)(d_id (deps s d) \<mapsto> d) \<and> inst_dep s' i = d \<and> \<not> inst_closed s' i \<and>
     All (s_group s') = (All (s_group s))[nat idx := Some (Suc (nextRef s))]"
proof -
  let ?i = "nextRef s" and ?g = "Suc (nextRef s)"
  define s' where "s' = s\<lparr>s_pool := rest, nextRef := Suc (Suc (nextRef s)), inst_dep := (inst_dep s)(?i := d),
     inst_closed := (inst_closed s)(?i := False), ginsts := (ginsts s)(?g := \<lparr>gi_deployment = DIns ?i, gi_idx = idx\<rparr>),
     actives := hm_Set H (actives s) (d_id (deps s d)) ?g,
     s_group := (s_group s)\<lparr>All := (All (s_group s))[nat idx := Some ?g]\<rparr>\<rparr>"
  have run: "GetForGroup H idx s = Some (Inr (DIns ?i, s'))"
    using pool idx
    by (simp add: GetForGroup_def NewInstanceFromDeployment_def Reserve_def Set_group_def gi_Id_def ld_Id_def dep_ref_def
        Let_def s'_def)
  have act: "hm_Get H (actives s') = (hm_Get H (actives s))(d_id (deps s d) \<mapsto> ?g)"
    using hm_Get_Set [OF H] by (simp add: s'_def)
  have hd: "held H s' = (held H s)(d_id (deps s d) \<mapsto> d)"
  proof
    fix k
    show "held H s' k = ((held H s)(d_id (deps s d) \<mapsto> d)) k"
    proof (cases "k = d_id (deps s d) \<or> hm_Get H (actives s) k = None")
      case True
      have "dep_ref s' (gi_deployment (ginsts s' ?g)) = d" by (simp add: s'_def dep_ref_def)
      then show ?thesis using True by (auto simp: held_def act)
    next
      case False
      then obtain g where g: "hm_Get H (actives s) k = Some g" by blast
      have "g < nextRef s" "\<And>i. gi_deployment (ginsts s g) = DIns i \<Longrightarrow> i < nextRef s"
        using sched_invD(9,10) [OF inv g] by blast+
      then have "dep_ref s' (gi_deployment (ginsts s' g)) = dep_ref s (gi_deployment (ginsts s g))"
        by (cases "gi_deployment (ginsts s g)") (auto simp: s'_def dep_ref_def)
      then show ?thesis using False g by (simp add: held_def act)
    qed
  qed
  have "sched_inv H D s'"
  proof (rule sched_inv_activate [OF inv pool _ _ _ _ hd])
    fix k g assume "hm_Get H (actives s') k = Some g"
    then consider "g = ?g" | "hm_Get H (actives s) k = Some g"
      unfolding act by (metis fun_upd_apply option.inject)
    then show "g < nextRef s' \<and> (\<forall>i. gi_deployment (ginsts s' g) = DIns i \<longrightarrow> i < nextRef s')"
    proof cases
      case 1
      then show ?thesis by (simp add: s'_def)
    next
      case 2
      note r = sched_invD(9) [OF inv 2] sched_invD(10) [OF inv 2]
      then have "ginsts s' g = ginsts s g" by (simp add: s'_def)
      then show ?thesis using r less_trans [of _ "nextRef s" "nextRef s'"] by (simp add: s'_def less_Suc_eq)
    qed
  qed (simp_all add: s'_def)
  moreover have "s_pool s' = rest" "inst_dep s' ?i = d" "\<not> inst_closed s' ?i"
      "All (s_group s') = (All (s_group s))[nat idx := Some ?g]"
    by (simp_all add: s'_def)
  ultimately show ?thesis using run hd by blast
qed

lemma Recycle_inv:
  assumes H: "hashmap_ok H" and inv: "sched_inv H D s" and g: "hm_Get H (actives s) k = Some g"
  shows "\<exists>s'. Recycle H (gi_deployment (ginsts s g)) s = Some s' \<and> sched_inv H D s' \<and>
     s_pool s' = s_pool s @ [dep_ref s (gi_deployment (ginsts s g))] \<and>
     hm_Get H (actives s') = (hm_Get H (actives s))(k := None) \<and> ginsts s' = ginsts s"
proof -
  let ?d = "gi_deployment (ginsts s g)"
  have h: "held H s k = Some (dep_ref s ?d)" using g by (simp add: held_def)
  have k: "ld_Id s ?d = k" using sched_invD(4) [OF inv h] by (simp add: ld_Id_def)
  define s' where "s' = (case ?d of DDep _ \<Rightarrow> s | DIns i \<Rightarrow> s\<lparr>inst_closed := (inst_closed s)(i := True)\<rparr>)
     \<lparr>actives := hm_Del H (actives s) k, s_pool := s_pool s @ [dep_ref s ?d]\<rparr>"
  have run: "Recycle H ?d s = Some s'"
    using pool_length [OF inv] k
    by (cases ?d) (auto simp: Recycle_def Let_def s'_def dep_ref_def)
  have f: "s_pool s' = s_pool s @ [dep_ref s ?d]" "deps s' = deps s" "s_poolCap s' = s_poolCap s" "nextRef s' = nextRef s"
      "ginsts s' = ginsts s" "inst_dep s' = inst_dep s" "actives s' = hm_Del H (actives s) k"
    by (cases ?d; simp add: s'_def)+
  have act: "hm_Get H (actives s') = (hm_Get H (actives s))(k := None)" using hm_Get_Del [OF H] f by simp
  have "dep_ref s' = dep_ref s" by (simp add: dep_ref_def f fun_eq_iff split: LambdaDeployment.splits)
  then have "held H s' = (held H s)(k := None)" by (auto simp: held_def act f(5) fun_eq_iff)
  then have "sched_inv H D s'" using sched_inv_recycle [OF inv h f(1-5) _ act] by blast
  then show ?thesis using run f act by auto
qed

lemma recycle_all_inv:
  assumes H: "hashmap_ok H" and "sched_inv H D s" "distinct (map fst kgs)"
    and "\<And>k g. (k, g) \<in> set kgs \<Longrightarrow> hm_Get H (actives s) k = Some g"
  shows "\<exists>s'. recycle_all H (map snd kgs) s = Some s' \<and> sched_inv H D s' \<and>
     hm_Get H (actives s') = (\<lambda>k. if k \<in> fst ` set kgs then None else hm_Get H (actives s) k)"
  using assms(2-4)
proof (induction kgs arbitrary: s)
  case Nil
  then show ?case by simp
next
  case (Cons x kgs)
  obtain k g where x: "x = (k, g)" by (cases x)
  obtain s1 where s1: "Recycle H (gi_deployment (ginsts s g)) s = Some s1" "sched_inv H D s1"
      "hm_Get H (actives s1) = (hm_Get H (actives s))(k := None)"
    using Recycle_inv [OF H Cons.prems(1), of k g] Cons.prems(3) x by auto
  have "\<exists>s'. recycle_all H (map snd kgs) s1 = Some s' \<and> sched_inv H D s' \<and>
     hm_Get H (actives s') = (\<lambda>j. if j \<in> fst ` set kgs then None else hm_Get H (actives s1) j)"
  proof (rule Cons.IH [OF s1(2)])
    show "distinct (map fst kgs)" using Cons.prems(2) by simp
    fix j h assume jh: "(j, h) \<in> set kgs"
    then have "j \<noteq> k" using Cons.prems(2) x by force
    then show "hm_Get H (actives s1) j = Some h" using jh Cons.prems(3) [of j h] s1(3) by simp
  qed
  then show ?case using s1 x by (auto simp: fun_eq_iff)
qed

lemma ClearAll_inv:
  assumes H: "hashmap_ok H" and inv: "sched_inv H D s"
  shows "\<exists>s'. ClearAll H s = Some s' \<and> sched_inv H D s' \<and> hm_Get H (actives s') = Map.empty \<and>
     distinct (s_pool s') \<and> set (s_pool s') = D"
proof -
  have it: "map_of (hm_Iter H (actives s)) = hm_Get H (actives s)" "distinct (map fst (hm_Iter H (actives s)))"
    using hm_Iter_Get [OF H] hm_Iter_distinct [OF H] by auto
  have "hm_Get H (actives s) k = Some g" if "(k, g) \<in> set (hm_Iter H (actives s))" for k g
    using that it by (metis map_of_is_SomeI)
  then obtain s' where s': "ClearAll H s = Some s'" "sched_inv H D s'"
      "hm_Get H (actives s') = (\<lambda>k. if k \<in> fst ` set (hm_Iter H (actives s)) then None else hm_Get H (actives s) k)"
    using recycle_all_inv [OF H inv it(2)] by (auto simp: ClearAll_def)
  have "hm_Get H (actives s') = Map.empty"
    using s'(3) it(1) by (auto simp: fun_eq_iff) (metis map_of_eq_None_iff)
  moreover then have "ran (held H s') = {}" by (auto simp: held_def ran_def)
  ultimately show ?thesis using s' sched_invD(1,2) [OF s'(2)] by auto
qed

lemma Clear_inv:
  assumes "hashmap_ok H" and "sched_inv H D s"
  shows "\<exists>s'. Clear H s = Some s' \<and> sched_inv H D s' \<and> hm_Get H (actives s') = Map.empty \<and>
     distinct (s_pool s') \<and> set (s_pool s') = D"
  using ClearAll_inv [OF assms] by (simp add: Clear_def ClearAll_def)

section \<open>The initial scheduler\<close>

lemma add_deployments_eq:
  "add_deployments prefix i k s =
     s\<lparr>deps := (\<lambda>r. if nextRef s \<le> r \<and> r < nextRef s + k then NewDeployment prefix (word_of_nat (i + (r - nextRef s))) False else deps s r),
       s_pool := s_pool s @ [nextRef s..<nextRef s + k], nextRef := nextRef s + k\<rparr>"
proof (induction k arbitrary: i s)
  case 0
  have "(\<lambda>r. if nextRef s \<le> r \<and> r < nextRef s then NewDeployment prefix (word_of_nat (i + (r - nextRef s))) False
      else deps s r) = deps s" by (auto simp: fun_eq_iff)
  then show ?case by simp
next
  case (Suc k)
  let ?s = "s\<lparr>deps := (deps s)(nextRef s := NewDeployment prefix (word_of_nat i) False),
          s_pool := s_pool s @ [nextRef s], nextRef := Suc (nextRef s)\<rparr>"
  have u: "[nextRef s..<nextRef s + Suc k] = nextRef s # [Suc (nextRef s)..<Suc (nextRef s) + k]"
    using upt_conv_Cons [of "nextRef s" "nextRef s + Suc k"] by simp
  have d: "(if Suc (nextRef s) \<le> r \<and> r < Suc (nextRef s) + k
      then NewDeployment prefix (word_of_nat (Suc i + (r - Suc (nextRef s)))) False else deps ?s r) =
    (if nextRef s \<le> r \<and> r < nextRef s + Suc k then NewDeployment prefix (word_of_nat (i + (r - nextRef s))) False else deps s r)" for r
  proof (cases "Suc (nextRef s) \<le> r")
    case True
    then have "Suc i + (r - Suc (nextRef s)) = i + (r - nextRef s)" by simp
    then show ?thesis using True by simp
  next
    case False
    then show ?thesis by (cases "r = nextRef s") auto
  qed
  show ?case
    unfolding add_deployments.simps Suc.IH by (rule sched.equality)
      (use d u in \<open>auto simp: fun_eq_iff add_diff_eq simp del: upt_Suc\<close>)
qed

lemma NewScheduler_inv:
  assumes "hashmap_ok H" "n < 2 ^ 64"
  shows "sched_inv H {..<n} (NewScheduler H prefix c n)" "s_pool (NewScheduler H prefix c n) = [0..<n]"
proof -
  let ?s = "NewScheduler H prefix c n"
  show p: "s_pool ?s = [0..<n]" by (simp add: NewScheduler_def add_deployments_eq)
  have id: "d_id (deps ?s d) = word_of_nat d" if "d < n" for d
    using that by (simp add: NewScheduler_def add_deployments_eq NewDeployment_def)
  have f: "s_poolCap ?s = n + 1" "nextRef ?s = n" "actives ?s = hm_New H"
    by (simp_all add: NewScheduler_def add_deployments_eq)
  have a: "hm_Get H (actives ?s) = Map.empty" using f hm_Get_New [OF assms(1)] by simp
  then have h: "held H ?s = Map.empty" by (simp add: held_def fun_eq_iff)
  have "inj_on (\<lambda>d. d_id (deps ?s d)) {..<n}"
  proof (rule inj_onI)
    fix x y assume xy: "x \<in> {..<n}" "y \<in> {..<n}" "d_id (deps ?s x) = d_id (deps ?s y)"
    then have "(word_of_nat x :: 64 word) = word_of_nat y" using id by simp
    then have "unat (word_of_nat x :: 64 word) = unat (word_of_nat y :: 64 word)" by simp
    then show "x = y" using xy assms(2) by (simp add: unat_of_nat take_bit_nat_eq_self)
  qed
  then show "sched_inv H {..<n} ?s" using p f a h by (auto simp: sched_inv_def)
qed

section \<open>Exchanging two deployments\<close>

lemma Switch_ids:
  assumes "inst_dep s i \<noteq> dep_ref s to"
  shows "d_id (deps (Switch i to s) (inst_dep s i)) = ld_Id s to"
    and "ld_Id (Switch i to s) to = d_id (deps s (inst_dep s i))"
    and "d \<noteq> inst_dep s i \<Longrightarrow> d \<noteq> dep_ref s to \<Longrightarrow> deps (Switch i to s) d = deps s d"
  using assms
  by (auto simp: Switch_def Reset_deployment_def Let_def ld_Id_def dep_ref_def split: LambdaDeployment.splits)

lemma Switch_twice:
  assumes "inst_dep s i \<noteq> dep_ref s to"
  shows "deps (Switch i to (Switch i to s)) = deps s"
  using assms by (cases to) (auto simp: Switch_def Reset_deployment_def Let_def dep_ref_def fun_eq_iff)

text \<open>An active instance whose slot in the group is empty makes \<open>Instance\<close> panic.\<close>

lemma Instance_of_unset:
  assumes "hm_Get H (actives s) k = Some g" "in_range (gi_idx (ginsts s g)) (All (s_group s))"
    "All (s_group s) ! nat (gi_idx (ginsts s g)) = None"
  shows "Instance_of H k s = Some (Inl NilDereference)"
proof -
  have "\<exists>s'. Set_group g s = Inr s'"
    using assms(2)
    by (cases "gi_deployment (ginsts s g)")
       (auto simp: Set_group_def NewInstanceFromDeployment_def Let_def in_range_def)
  then show ?thesis using assms by (auto simp: Instance_of_def Validate_group_def)
qed

lemma Instance_of_set:
  assumes "hm_Get H (actives s) k = Some g" "in_range (gi_idx (ginsts s g)) (All (s_group s))"
    "All (s_group s) ! nat (gi_idx (ginsts s g)) = Some g" "gi_deployment (ginsts s g) = DIns i"
  shows "Instance_of H k s = Some (Inr (Some i, s))"
  using assms by (simp add: Instance_of_def Validate_group_def Let_def)

section \<open>Reservations\<close>

lemma ReserveForGroup_inv:
  assumes H: "hashmap_ok H" and inv: "sched_inv H D s" and pool: "s_pool s = d # rest"
  shows "\<exists>s'. ReserveForGroup H idx s = (Some (DDep d), s') \<and> sched_inv H D s' \<and> s_pool s' = rest"
proof -
  let ?g = "nextRef s"
  define s' where "s' = s\<lparr>s_pool := rest, nextRef := Suc (nextRef s),
     ginsts := (ginsts s)(?g := \<lparr>gi_deployment = DDep d, gi_idx = idx\<rparr>),
     actives := hm_Set H (actives s) (d_id (deps s d)) ?g\<rparr>"
  have run: "ReserveForGroup H idx s = (Some (DDep d), s')"
    using pool by (simp add: ReserveForGroup_def Reserve_def gi_Id_def ld_Id_def dep_ref_def Let_def s'_def)
  have act: "hm_Get H (actives s') = (hm_Get H (actives s))(d_id (deps s d) \<mapsto> ?g)"
    using hm_Get_Set [OF H] by (simp add: s'_def)
  have old: "ginsts s' g = ginsts s g" if "hm_Get H (actives s) k = Some g" for k g
    using sched_invD(9) [OF inv that] by (simp add: s'_def)
  have dr: "dep_ref s' x = dep_ref s x" for x
    by (simp add: s'_def dep_ref_def split: LambdaDeployment.splits)
  have hd: "held H s' = (held H s)(d_id (deps s d) \<mapsto> d)"
  proof
    fix k
    show "held H s' k = ((held H s)(d_id (deps s d) \<mapsto> d)) k"
      using old [of k] by (cases "hm_Get H (actives s) k") (auto simp: held_def act dr, auto simp: s'_def dep_ref_def)
  qed
  have "sched_inv H D s'"
  proof (rule sched_inv_activate [OF inv pool _ _ _ _ hd])
    fix k g assume "hm_Get H (actives s') k = Some g"
    then consider "g = ?g" | "hm_Get H (actives s) k = Some g"
      unfolding act by (metis fun_upd_apply option.inject)
    then show "g < nextRef s' \<and> (\<forall>i. gi_deployment (ginsts s' g) = DIns i \<longrightarrow> i < nextRef s')"
    proof cases
      case 1
      then show ?thesis by (simp add: s'_def)
    next
      case 2
      show ?thesis
        using sched_invD(9) [OF inv 2] sched_invD(10) [OF inv 2] unfolding old [OF 2] by (auto simp: s'_def less_Suc_eq)
    qed
  qed (simp_all add: s'_def)
  then show ?thesis using run by (auto simp: s'_def)
qed

section \<open>The slots of the group\<close>

text \<open>
  \<open>Instance\<close> looks an active deployment up and hands its number to the instance in the deployment's slot of the
  group.  It relies on the slots: what is in slot \<open>i\<close> is an active instance that was made for slot \<open>i\<close>.
\<close>

definition slots_ok :: "('m, uint64, ref) hashmap \<Rightarrow> 'm sched \<Rightarrow> bool" where
  "slots_ok H s \<longleftrightarrow>
     (\<forall>i < length (All (s_group s)). \<forall>h. All (s_group s) ! i = Some h \<longrightarrow>
        gi_idx (ginsts s h) = int i \<and> (\<exists>k. hm_Get H (actives s) k = Some h) \<and> (\<exists>j. gi_deployment (ginsts s h) = DIns j))"

lemma slots_okD:
  assumes "slots_ok H s" "i < length (All (s_group s))" "All (s_group s) ! i = Some h"
  obtains k j where "gi_idx (ginsts s h) = int i" "hm_Get H (actives s) k = Some h" "gi_deployment (ginsts s h) = DIns j"
  using assms unfolding slots_ok_def by blast

lemma GetForGroup_needs:
  assumes "GetForGroup H idx s = Some (Inr (d, s'))"
  shows "s_pool s \<noteq> []" "in_range idx (All (s_group s))"
  using assms by (auto simp: GetForGroup_def NewInstanceFromDeployment_def Reserve_def Set_group_def Let_def go_simps
      split: list.splits)

lemma GetForGroup_active:
  assumes A: "hashmap_ok A" and inv: "sched_inv A D s" and run: "GetForGroup A idx s = Some (Inr (x, s'))"
  shows "\<exists>q. hm_Get A (actives s) q = None \<and> hm_Get A (actives s') = (hm_Get A (actives s))(q \<mapsto> Suc (nextRef s)) \<and>
     All (s_group s') = (All (s_group s))[nat idx := Some (Suc (nextRef s))] \<and> sched_inv A D s' \<and>
     ginsts s' = (ginsts s)(Suc (nextRef s) := \<lparr>gi_deployment = DIns (nextRef s), gi_idx = idx\<rparr>)"
proof -
  obtain d rest where p: "s_pool s = d # rest" using GetForGroup_needs(1) [OF run] by (meson neq_Nil_conv)
  note r = GetForGroup_needs(2) [OF run]
  have "held A s (d_id (deps s d)) = None" using pooled_not_held [OF inv] p by simp
  then have "hm_Get A (actives s) (d_id (deps s d)) = None" by (simp add: held_def)
  moreover have "hm_Get A (actives s') = (hm_Get A (actives s))(d_id (deps s d) \<mapsto> Suc (nextRef s))"
      "ginsts s' = (ginsts s)(Suc (nextRef s) := \<lparr>gi_deployment = DIns (nextRef s), gi_idx = idx\<rparr>)"
    using run p r hm_Get_Set [OF A]
    by (auto simp: GetForGroup_def NewInstanceFromDeployment_def Reserve_def Set_group_def gi_Id_def ld_Id_def dep_ref_def
        Let_def)
  ultimately show ?thesis using GetForGroup_inv [OF A inv p r] run by auto
qed

lemma GetForGroup_slots:
  assumes H: "hashmap_ok H" and inv: "sched_inv H D s" and sl: "slots_ok H s" and run: "GetForGroup H idx s = Some (Inr (x, s'))"
  shows "slots_ok H s'"
proof -
  let ?g = "Suc (nextRef s)"
  obtain q where q: "hm_Get H (actives s) q = None" "hm_Get H (actives s') = (hm_Get H (actives s))(q \<mapsto> ?g)"
      "All (s_group s') = (All (s_group s))[nat idx := Some ?g]"
      "ginsts s' = (ginsts s)(?g := \<lparr>gi_deployment = DIns (nextRef s), gi_idx = idx\<rparr>)"
    using GetForGroup_active [OF H inv run] by blast
  have r: "0 \<le> idx" "nat idx < length (All (s_group s))" using GetForGroup_needs(2) [OF run] by (simp_all add: in_range_def)
  show ?thesis
    unfolding slots_ok_def
  proof (intro allI impI)
    fix i h assume i: "i < length (All (s_group s'))" and h: "All (s_group s') ! i = Some h"
    show "gi_idx (ginsts s' h) = int i \<and> (\<exists>k. hm_Get H (actives s') k = Some h) \<and> (\<exists>j. gi_deployment (ginsts s' h) = DIns j)"
    proof (cases "i = nat idx")
      case True
      then have "h = ?g" using h r(2) q(3) by simp
      then show ?thesis using True r(1) q(2,4) by auto
    next
      case False
      then have "All (s_group s) ! i = Some h" "i < length (All (s_group s))" using h i q(3) by simp_all
      then obtain k j where k: "gi_idx (ginsts s h) = int i" "hm_Get H (actives s) k = Some h" "gi_deployment (ginsts s h) = DIns j"
        using slots_okD [OF sl] by metis
      have "h \<noteq> ?g" "k \<noteq> q" using sched_invD(9) [OF inv k(2)] k(2) q(1) by auto
      then show ?thesis using k q(2,4) by auto
    qed
  qed
qed

lemma ReserveForGroup_slots:
  assumes H: "hashmap_ok H" and inv: "sched_inv H D s" and sl: "slots_ok H s" and run: "ReserveForGroup H idx s = (r, s')"
  shows "slots_ok H s'"
proof (cases "s_pool s")
  case Nil
  then show ?thesis using run sl by (simp add: ReserveForGroup_def)
next
  case (Cons d rest)
  let ?g = "nextRef s"
  have s': "s_group s' = s_group s" "ginsts s' = (ginsts s)(?g := \<lparr>gi_deployment = DDep d, gi_idx = idx\<rparr>)"
      "hm_Get H (actives s') = (hm_Get H (actives s))(d_id (deps s d) \<mapsto> ?g)"
    using run Cons hm_Get_Set [OF H]
    by (auto simp: ReserveForGroup_def Reserve_def gi_Id_def ld_Id_def dep_ref_def Let_def)
  have "hm_Get H (actives s) (d_id (deps s d)) = None"
    using pooled_not_held [OF inv, of d] Cons by (simp add: held_def)
  then have "k \<noteq> d_id (deps s d) \<and> h \<noteq> ?g" if "hm_Get H (actives s) k = Some h" for k h
    using that sched_invD(9) [OF inv that] by auto
  then show ?thesis using sl unfolding slots_ok_def s' by (metis fun_upd_other)
qed

text \<open>One round of the loop of \<open>Proxy.Release\<close>: the instance is recycled and its slot emptied.\<close>

definition release_slot :: "('m, uint64, ref) hashmap \<Rightarrow> nat \<Rightarrow> 'm sched \<Rightarrow> 'm sched option" where
  "release_slot H i s =
     (case All (s_group s) ! i of
        None \<Rightarrow> None
      | Some g \<Rightarrow> map_option (\<lambda>s'. s'\<lparr>s_group := (s_group s')\<lparr>All := (All (s_group s'))[i := None]\<rparr>\<rparr>)
          (Recycle H (gi_deployment (ginsts s g)) s))"

lemma Recycle_group: "Recycle H d s = Some s' \<Longrightarrow> s_group s' = s_group s"
  by (auto simp: Recycle_def Let_def split: if_splits LambdaDeployment.splits)

lemma release_slot_inv:
  assumes H: "hashmap_ok H" and inv: "sched_inv H D s" and sl: "slots_ok H s"
    and i: "i < length (All (s_group s))" and run: "release_slot H i s = Some s'"
  shows "sched_inv H D s' \<and> slots_ok H s'"
proof -
  obtain g s1 where g: "All (s_group s) ! i = Some g" "Recycle H (gi_deployment (ginsts s g)) s = Some s1"
      "s' = s1\<lparr>s_group := (s_group s1)\<lparr>All := (All (s_group s1))[i := None]\<rparr>\<rparr>"
    using run by (auto simp: release_slot_def split: option.splits)
  obtain k where k: "hm_Get H (actives s) k = Some g" "gi_idx (ginsts s g) = int i" using slots_okD [OF sl i g(1)] by metis
  have s1: "sched_inv H D s1" "hm_Get H (actives s1) = (hm_Get H (actives s))(k := None)" "ginsts s1 = ginsts s"
    using Recycle_inv [OF H inv k(1)] g(2) by auto
  have "slots_ok H s'"
    unfolding slots_ok_def
  proof (intro allI impI)
    fix n h assume n: "n < length (All (s_group s'))" and h: "All (s_group s') ! n = Some h"
    then have "n \<noteq> i" "All (s_group s) ! n = Some h" "n < length (All (s_group s))"
      using i Recycle_group [OF g(2)] by (auto simp: g(3) nth_list_update split: if_splits)
    then obtain q j where q: "gi_idx (ginsts s h) = int n" "hm_Get H (actives s) q = Some h" "gi_deployment (ginsts s h) = DIns j"
      using slots_okD [OF sl] by metis
    then have "q \<noteq> k" using k \<open>n \<noteq> i\<close> by auto
    then show "gi_idx (ginsts s' h) = int n \<and> (\<exists>k. hm_Get H (actives s') k = Some h) \<and> (\<exists>j. gi_deployment (ginsts s' h) = DIns j)"
      using q s1 g(3) by auto
  qed
  moreover have "sched_inv H D s'"
    using s1(1) by (simp add: g(3) sched_inv_def held_def dep_ref_def cong: LambdaDeployment.case_cong)
  ultimately show ?thesis by simp
qed


lemma Switch_deps: "Switch i to s = s\<lparr>deps := deps (Switch i to s)\<rparr>"
  by (simp add: Switch_def Reset_deployment_def Let_def)

lemma inj_on_exchange:
  assumes "inj_on f D" "a \<in> D" "b \<in> D" "f' a = f b" "f' b = f a" "\<And>d. d \<noteq> a \<Longrightarrow> d \<noteq> b \<Longrightarrow> f' d = f d"
  shows "inj_on f' D"
proof (rule inj_onI)
  define t where "t x = (if x = a then b else if x = b then a else x)" for x
  have t: "f' x = f (t x)" "t (t x) = x" for x using assms(4-6) by (auto simp: t_def)
  fix x y assume "x \<in> D" "y \<in> D" "f' x = f' y"
  then have "t x = t y" using inj_onD [OF assms(1), of "t x" "t y"] assms(2,3) t(1) by (auto simp: t_def)
  then show "x = y" using t(2) by metis
qed

lemma exchange_ran:
  assumes "m k = Some a" "m q = Some b" "k \<noteq> q"
  shows "ran (m(k \<mapsto> b, q \<mapsto> a)) = ran m"
proof (intro equalityI subsetI)
  fix x assume "x \<in> ran (m(k \<mapsto> b, q \<mapsto> a))"
  then show "x \<in> ran m" using assms by (auto simp: ran_def split: if_splits)
next
  fix x assume "x \<in> ran m"
  then obtain y where y: "m y = Some x" by (auto simp: ran_def)
  then have "(m(k \<mapsto> b, q \<mapsto> a)) (if y = k then q else if y = q then k else y) = Some x" using assms by auto
  then show "x \<in> ran (m(k \<mapsto> b, q \<mapsto> a))" by (rule ranI)
qed

lemma exchange_inv:
  assumes H: "hashmap_ok H" and inv: "sched_inv H D s"
    and g: "hm_Get H (actives s) k = Some g" and v: "hm_Get H (actives s) q = Some v" "gi_deployment (ginsts s v) = DIns j" "v \<noteq> g"
    and s1: "s1 = Switch j (gi_deployment (ginsts s g)) s"
    and s2: "s2 = s1\<lparr>actives := hm_Set H (hm_Set H (actives s1) (gi_Id s1 v) v) (gi_Id s1 g) g\<rparr>"
  shows "sched_inv H D s2 \<and> hm_Get H (actives s2) = (hm_Get H (actives s))(k \<mapsto> v, q \<mapsto> g)"
proof -
  let ?a = "dep_ref s (gi_deployment (ginsts s g))" and ?b = "inst_dep s j"
  have kq: "k \<noteq> q" using g v by auto
  have ha: "held H s k = Some ?a" "held H s q = Some ?b" using g v by (simp_all add: held_def dep_ref_def)
  have ids: "d_id (deps s ?a) = k" "d_id (deps s ?b) = q" using sched_invD(4) [OF inv] ha by blast+
  then have ab: "?b \<noteq> ?a" using kq by auto
  obtain f where f: "s1 = s\<lparr>deps := f\<rparr>" using Switch_deps s1 by metis
  have ids1: "d_id (deps s1 ?b) = k" "d_id (deps s1 ?a) = q" "\<And>d. d \<noteq> ?a \<Longrightarrow> d \<noteq> ?b \<Longrightarrow> d_id (deps s1 d) = d_id (deps s d)"
    using Switch_ids [OF ab] ids unfolding s1 [symmetric] by (simp_all add: ld_Id_def f dep_ref_def split: LambdaDeployment.splits)
  have dr: "dep_ref s2 x = dep_ref s x" "dep_ref s1 x = dep_ref s x" for x by (simp_all add: s2 f dep_ref_def split: LambdaDeployment.splits)
  have gid: "gi_Id s1 v = k" "gi_Id s1 g = q"
    using ids1 dr(2) v(2) by (simp_all add: gi_Id_def ld_Id_def f dep_ref_def)
  have act: "hm_Get H (actives s2) = (hm_Get H (actives s))(k \<mapsto> v, q \<mapsto> g)"
    using hm_Get_Set [OF H] by (simp add: s2 gid) (simp add: f)
  have e: "s_pool s2 = s_pool s" "ginsts s2 = ginsts s" "nextRef s2 = nextRef s" "s_poolCap s2 = s_poolCap s" "deps s2 = deps s1"
    by (simp_all add: s2 f)
  have hd: "held H s2 = (held H s)(k \<mapsto> ?b, q \<mapsto> ?a)"
  proof
    fix x
    have "dep_ref s (gi_deployment (ginsts s v)) = ?b" using v(2) by (simp add: dep_ref_def)
    then show "held H s2 x = ((held H s)(k \<mapsto> ?b, q \<mapsto> ?a)) x" by (simp add: held_def act dr e)
  qed
  have D: "?a \<in> D" "?b \<in> D" using ha sched_invD(2) [OF inv] by (auto intro: ranI)
  have ran: "ran (held H s2) = ran (held H s)" unfolding hd by (rule exchange_ran [OF ha kq])
  have "inj_on (\<lambda>d. d_id (deps s2 d)) D"
    by (rule inj_on_exchange [OF sched_invD(5) [OF inv] D]) (use ids ids1 e in auto)
  moreover have "d_id (deps s2 d) = x" if x: "held H s2 x = Some d" for x d
  proof -
    consider "x = k" "d = ?b" | "x = q" "d = ?a" | "x \<noteq> k" "x \<noteq> q" "held H s x = Some d"
      using x kq unfolding hd by (auto split: if_splits)
    then show ?thesis
    proof cases
      case 3
      then have "d_id (deps s d) = x" using sched_invD(4) [OF inv] by blast
      then show ?thesis using 3 ids ids1(3) [of d] e by auto
    qed (use ids1 e in auto)
  qed
  moreover have "g' < nextRef s \<and> (\<forall>i. gi_deployment (ginsts s g') = DIns i \<longrightarrow> i < nextRef s)"
    if "hm_Get H (actives s2) x = Some g'" for x g'
  proof -
    have "\<exists>y. hm_Get H (actives s) y = Some g'" using that g v(1) unfolding act by (auto split: if_splits)
    then show ?thesis using sched_invD(9,10) [OF inv] by blast
  qed
  ultimately show ?thesis
    using sched_invD(1-3,6-8) [OF inv] act unfolding sched_inv_def ran e by auto
qed

lemma Instance_of_inv:
  assumes H: "hashmap_ok H" and inv: "sched_inv H D s" and sl: "slots_ok H s"
    and g: "hm_Get H (actives s) k = Some g" and i: "in_range (gi_idx (ginsts s g)) (All (s_group s))"
    and v: "All (s_group s) ! nat (gi_idx (ginsts s g)) = Some v"
  shows "\<exists>j s'. Instance_of H k s = Some (Inr (Some j, s')) \<and> gi_deployment (ginsts s' v) = DIns j \<and>
     hm_Get H (actives s') k = Some v \<and> sched_inv H D s' \<and> slots_ok H s'"
proof -
  let ?i = "nat (gi_idx (ginsts s g))"
  have il: "?i < length (All (s_group s))" "int ?i = gi_idx (ginsts s g)" using i by (auto simp: in_range_def)
  obtain q j where q: "gi_idx (ginsts s v) = int ?i" "hm_Get H (actives s) q = Some v" "gi_deployment (ginsts s v) = DIns j"
    using slots_okD [OF sl il(1) v] .
  show ?thesis
  proof (cases "v = g")
    case True
    then show ?thesis using Instance_of_set [OF g i] v q(3) g inv sl by auto
  next
    case False
    define s1 where "s1 = Switch j (gi_deployment (ginsts s g)) s"
    define s2 where "s2 = s1\<lparr>actives := hm_Set H (hm_Set H (actives s1) (gi_Id s1 v) v) (gi_Id s1 g) g\<rparr>"
    obtain f where f: "s1 = s\<lparr>deps := f\<rparr>" using Switch_deps s1_def by metis
    have e: "ginsts s2 = ginsts s" "ginsts s1 = ginsts s" "s_group s2 = s_group s" by (simp_all add: s2_def f)
    have inv2: "sched_inv H D s2" "hm_Get H (actives s2) = (hm_Get H (actives s))(k \<mapsto> v, q \<mapsto> g)"
      using exchange_inv [OF H inv g q(2,3) False s1_def s2_def] by auto
    then obtain s3 where s3: "Recycle H (gi_deployment (ginsts s g)) s2 = Some s3" "sched_inv H D s3"
        "hm_Get H (actives s3) = (hm_Get H (actives s2))(q := None)" "ginsts s3 = ginsts s"
      using Recycle_inv [OF H inv2(1), of q g] e by auto
    have kq: "k \<noteq> q" using g q(2) False by auto
    have act: "hm_Get H (actives s3) = (hm_Get H (actives s))(k \<mapsto> v, q := None)" using s3(3) inv2(2) by simp
    have "Validate_group g s = Inr (Some v, s1)" using i v False q(3) by (simp add: Validate_group_def s1_def)
    then have run: "Instance_of H k s = Some (Inr (Some j, s3))"
      using g False s3(1,4) q(3) e by (simp add: Instance_of_def s2_def)
    have "slots_ok H s3"
      unfolding slots_ok_def
    proof (intro allI impI)
      fix n h assume n: "n < length (All (s_group s3))" and h: "All (s_group s3) ! n = Some h"
      have gr: "s_group s3 = s_group s" using Recycle_group [OF s3(1)] e by simp
      obtain r l where r: "gi_idx (ginsts s h) = int n" "hm_Get H (actives s) r = Some h" "gi_deployment (ginsts s h) = DIns l"
        using slots_okD [OF sl, of n h] n h gr by auto
      have "h \<noteq> g"
      proof
        assume "h = g"
        then have "n = ?i" using r(1) by simp
        then show False using h v gr \<open>h = g\<close> False by simp
      qed
      then have "r \<noteq> k" using r(2) g by auto
      moreover have "h = v \<or> r \<noteq> q" using r(2) q(2) by auto
      ultimately have "\<exists>x. hm_Get H (actives s3) x = Some h" using r(2) kq unfolding act by (metis fun_upd_apply)
      then show "gi_idx (ginsts s3 h) = int n \<and> (\<exists>k. hm_Get H (actives s3) k = Some h) \<and> (\<exists>j. gi_deployment (ginsts s3 h) = DIns j)"
        using r s3(4) by simp
    qed
    then show ?thesis using run s3(2,4) q(3) act kq by auto
  qed
qed

section \<open>Reachable schedulers\<close>

text \<open>
  The operations of a scheduler, in any order: \<open>GetForGroup\<close>, \<open>ReserveForGroup\<close>, \<open>Instance\<close>, the rounds of the loop of
  \<open>Proxy.Release\<close>, and \<open>Clear\<close> or \<open>ClearAll\<close> once the slots are empty, which is when \<open>Release\<close> and
  \<open>CleanUpScheduler\<close> call them.  \<open>Deployment\<close> and \<open>ReserveForInstance\<close> only read.
\<close>

definition released :: "'m sched \<Rightarrow> bool" where
  "released s \<longleftrightarrow> list_all (\<lambda>x. x = None) (All (s_group s))"

inductive sched_step :: "('m, uint64, ref) hashmap \<Rightarrow> 'm sched \<Rightarrow> 'm sched \<Rightarrow> bool" for H where
  StepGet: "GetForGroup H idx s = Some (Inr (d, s')) \<Longrightarrow> sched_step H s s'"
| StepReserve: "ReserveForGroup H idx s = (r, s') \<Longrightarrow> sched_step H s s'"
| StepInstance: "Instance_of H k s = Some (Inr (r, s')) \<Longrightarrow> sched_step H s s'"
| StepRelease: "i < length (All (s_group s)) \<Longrightarrow> release_slot H i s = Some s' \<Longrightarrow> sched_step H s s'"
| StepClear: "released s \<Longrightarrow> Clear H s = Some s' \<Longrightarrow> sched_step H s s'"
| StepClearAll: "released s \<Longrightarrow> ClearAll H s = Some s' \<Longrightarrow> sched_step H s s'"

lemma recycle_all_group: "recycle_all H gs s = Some s' \<Longrightarrow> s_group s' = s_group s"
  by (induction gs arbitrary: s) (auto split: option.splits dest: Recycle_group)

lemma released_slots: "released s \<Longrightarrow> slots_ok H s"
  by (simp add: released_def slots_ok_def list_all_length)

lemma cleared_slots:
  assumes "released s" "recycle_all H gs s = Some s'"
  shows "slots_ok H s'"
  using assms recycle_all_group [OF assms(2)] by (auto intro!: released_slots simp: released_def)

lemma Instance_of_needs:
  assumes "Instance_of H k s = Some (Inr (r, s'))" "hm_Get H (actives s) k = Some g"
  shows "in_range (gi_idx (ginsts s g)) (All (s_group s))" "\<exists>v. All (s_group s) ! nat (gi_idx (ginsts s g)) = Some v"
proof -
  show i: "in_range (gi_idx (ginsts s g)) (All (s_group s))"
    using assms by (cases "in_range (gi_idx (ginsts s g)) (All (s_group s))") (simp_all add: Instance_of_def Validate_group_def index_def)
  show "\<exists>v. All (s_group s) ! nat (gi_idx (ginsts s g)) = Some v"
    using Instance_of_unset [OF assms(2) i] assms(1) by (cases "All (s_group s) ! nat (gi_idx (ginsts s g))") auto
qed

lemma sched_step_inv:
  assumes H: "hashmap_ok H" and step: "sched_step H s s'" and inv: "sched_inv H D s" and sl: "slots_ok H s"
  shows "sched_inv H D s' \<and> slots_ok H s'"
  using step
proof cases
  case (StepGet idx d)
  then show ?thesis using GetForGroup_active [OF H inv StepGet] GetForGroup_slots [OF H inv sl StepGet] by blast
next
  case (StepReserve idx r)
  then show ?thesis
    using ReserveForGroup_inv [OF H inv, of _ _ idx] ReserveForGroup_slots [OF H inv sl StepReserve] inv
    by (cases "s_pool s") (auto simp: ReserveForGroup_def)
next
  case (StepInstance k r)
  show ?thesis
  proof (cases "hm_Get H (actives s) k")
    case None
    then show ?thesis using StepInstance inv sl by (simp add: Instance_of_def)
  next
    case (Some g)
    then show ?thesis
      using Instance_of_needs [OF StepInstance Some] Instance_of_inv [OF H inv sl Some] StepInstance by fastforce
  qed
next
  case (StepRelease i)
  then show ?thesis using release_slot_inv [OF H inv sl] by blast
next
  case StepClear
  then show ?thesis using Clear_inv [OF H inv] cleared_slots by (auto simp: Clear_def)
next
  case StepClearAll
  then show ?thesis using ClearAll_inv [OF H inv] cleared_slots by (auto simp: ClearAll_def)
qed

lemma sched_reachable_inv:
  assumes "hashmap_ok H" "(sched_step H)\<^sup>*\<^sup>* s s'" "sched_inv H D s" "slots_ok H s"
  shows "sched_inv H D s' \<and> slots_ok H s'"
  using assms(2-) by (induction rule: rtranclp_induct) (auto dest: sched_step_inv [OF assms(1)])

lemma NewScheduler_slots: "slots_ok H (NewScheduler H prefix c n)"
  by (rule released_slots) (simp add: released_def NewScheduler_def add_deployments_eq NewGroup_def list_all_iff)

text \<open>
  Clearing before the slots are emptied is not harmless: the slot still holds the closed instance, \<open>Instance\<close> hands it
  the number of a later reservation, and its deployment is in the pool and active.
\<close>

definition clear_unreleased :: "(uint64 \<times> ref) list sched res option" where
  "clear_unreleased =
     (case GetForGroup alist_hashmap 0 (NewScheduler alist_hashmap ''node'' 1 2) of
        Some (Inr (_, s1)) \<Rightarrow>
          (case ClearAll alist_hashmap s1 of
             Some s2 \<Rightarrow>
               (case Instance_of alist_hashmap 1 (snd (ReserveForGroup alist_hashmap 0 s2)) of
                  Some (Inr (_, s3)) \<Rightarrow> Some (Inr s3)
                | _ \<Rightarrow> None)
           | None \<Rightarrow> None)
      | _ \<Rightarrow> None)"

lemma clear_unreleased_duplicates:
  "case clear_unreleased of
     Some (Inr s) \<Rightarrow> 0 \<in> set (s_pool s) \<and> held alist_hashmap s 1 = Some 0
   | _ \<Rightarrow> False"
  by code_simp

end
