(* ===== verification/Resp.thy ===== *)
theory Resp
  imports Prelude
begin

text \<open>
  The RESP library \<open>github.com/mason-leap-lab/redeo/resp\<close> is not part of the repository.  A component
  that reads a connection takes the reading operations as an argument, the record \<open>resp_reader\<close>;
  what it relies on is \<open>reader_ok\<close>: the operations return, one by one, the frames the peer wrote.
  \<open>list_reader\<close> satisfies it and is what the witnesses run.  A component that writes produces the list
  of its calls (\<open>wcall\<close>); the frames such a list puts on the wire are \<open>frames\<close>.  A stream
  (\<open>AllReadCloser\<close>) is its announced length and the outcome of \<open>ReadAll\<close>.  Go errors are values of
  \<open>error\<close>: the sentinels the code compares with, and messages.
\<close>

section \<open>Errors\<close>

datatype error =
    ErrNotFound
  | ErrProxyClosing
  | ErrSkip
  | ErrClosed
  | ErrEOF
  | ErrUnexpectedEOF
  | ErrUnexpectedType
  | ErrTimeout
  | ErrConnectionClosed
  | ErrMissingResponse
  | ErrClosedPrematurely
  | ErrOther string

text \<open>The text of an error; library errors the code only prints have none here.\<close>

definition error_msg :: "error \<Rightarrow> string" where
  "error_msg e = (case e of ErrNotFound \<Rightarrow> ''Key not found'' | ErrProxyClosing \<Rightarrow> ''Proxy closed.'' | ErrSkip \<Rightarrow> ''Skiped''
     | ErrConnectionClosed \<Rightarrow> ''Connection closed'' | ErrMissingResponse \<Rightarrow> ''Missing response''
     | ErrClosed \<Rightarrow> ''Client closed.'' | ErrClosedPrematurely \<Rightarrow> ''Client closed before ready.''
     | ErrEOF \<Rightarrow> ''EOF'' | ErrUnexpectedEOF \<Rightarrow> ''unexpected EOF'' | ErrOther s \<Rightarrow> s | _ \<Rightarrow> [])"

section \<open>Frames, streams and readers\<close>

datatype resp_type = TypeArray | TypeBulk | TypeInt | TypeError | TypeInline | TypeNil

datatype frame = FArray int | FBulk bytes | FInt int | FError string | FInline string | FNil

fun type_of_frame :: "frame \<Rightarrow> resp_type" where
  "type_of_frame (FArray _) = TypeArray"
| "type_of_frame (FBulk _) = TypeBulk"
| "type_of_frame (FInt _) = TypeInt"
| "type_of_frame (FError _) = TypeError"
| "type_of_frame (FInline _) = TypeInline"
| "type_of_frame FNil = TypeNil"

record rstream =
  st_Len :: int
  st_ReadAll :: "error + bytes"

definition NewInlineReader :: "bytes \<Rightarrow> rstream" where
  "NewInlineReader b = \<lparr>st_Len = int (length b), st_ReadAll = Inr b\<rparr>"

record 'r resp_reader =
  rd_PeekType :: "'r \<Rightarrow> (error + resp_type) \<times> 'r"
  rd_ReadBulkString :: "'r \<Rightarrow> (error + string) \<times> 'r"
  rd_ReadBulk :: "'r \<Rightarrow> (error + bytes) \<times> 'r"
  rd_ReadInt :: "'r \<Rightarrow> (error + int) \<times> 'r"
  rd_ReadError :: "'r \<Rightarrow> (error + string) \<times> 'r"
  rd_ReadInlineString :: "'r \<Rightarrow> (error + string) \<times> 'r"
  rd_StreamBulk :: "'r \<Rightarrow> (error + rstream) \<times> 'r"
  rd_SkipBulk :: "'r \<Rightarrow> (error + unit) \<times> 'r"

text \<open>\<open>fr r\<close> is what is still to be read from \<open>r\<close>.\<close>

definition reads :: "('r \<Rightarrow> (error + 'a) \<times> 'r) \<Rightarrow> ('r \<Rightarrow> frame list) \<Rightarrow> (frame \<Rightarrow> 'a option) \<Rightarrow> bool" where
  "reads f fr val \<longleftrightarrow>
     (\<forall>r x fs v. fr r = x # fs \<longrightarrow> val x = Some v \<longrightarrow> (\<exists>r'. f r = (Inr v, r') \<and> fr r' = fs)) \<and>
     (\<forall>r. (fr r = [] \<or> val (hd (fr r)) = None) \<longrightarrow> (\<exists>e r'. f r = (Inl e, r')))"

fun bulk_of :: "frame \<Rightarrow> bytes option" where
  "bulk_of (FBulk b) = Some b" | "bulk_of _ = None"

fun int_of_frame :: "frame \<Rightarrow> int option" where
  "int_of_frame (FInt i) = Some i" | "int_of_frame _ = None"

fun error_of :: "frame \<Rightarrow> string option" where
  "error_of (FError s) = Some s" | "error_of _ = None"

fun inline_of :: "frame \<Rightarrow> string option" where
  "inline_of (FInline s) = Some s" | "inline_of _ = None"

definition reader_ok :: "'r resp_reader \<Rightarrow> ('r \<Rightarrow> frame list) \<Rightarrow> bool" where
  "reader_ok R fr \<longleftrightarrow>
     (\<forall>r x fs. fr r = x # fs \<longrightarrow> (\<exists>r'. rd_PeekType R r = (Inr (type_of_frame x), r') \<and> fr r' = fr r)) \<and>
     (\<forall>r. fr r = [] \<longrightarrow> (\<exists>e r'. rd_PeekType R r = (Inl e, r'))) \<and>
     reads (rd_ReadBulkString R) fr bulk_of \<and> reads (rd_ReadBulk R) fr bulk_of \<and>
     reads (rd_ReadInt R) fr int_of_frame \<and> reads (rd_ReadError R) fr error_of \<and>
     reads (rd_ReadInlineString R) fr inline_of \<and>
     reads (rd_StreamBulk R) fr (\<lambda>x. map_option NewInlineReader (bulk_of x)) \<and>
     reads (rd_SkipBulk R) fr (\<lambda>x. map_option (\<lambda>_. ()) (bulk_of x))"

definition read_list :: "(frame \<Rightarrow> 'a option) \<Rightarrow> frame list \<Rightarrow> (error + 'a) \<times> frame list" where
  "read_list val fs =
     (case fs of
        [] \<Rightarrow> (Inl ErrEOF, [])
      | x # xs \<Rightarrow> (case val x of None \<Rightarrow> (Inl ErrUnexpectedType, fs) | Some v \<Rightarrow> (Inr v, xs)))"

definition list_reader :: "frame list resp_reader" where
  "list_reader = \<lparr>
     rd_PeekType = (\<lambda>fs. case fs of [] \<Rightarrow> (Inl ErrEOF, []) | x # _ \<Rightarrow> (Inr (type_of_frame x), fs)),
     rd_ReadBulkString = read_list bulk_of,
     rd_ReadBulk = read_list bulk_of,
     rd_ReadInt = read_list int_of_frame,
     rd_ReadError = read_list error_of,
     rd_ReadInlineString = read_list inline_of,
     rd_StreamBulk = read_list (\<lambda>x. map_option NewInlineReader (bulk_of x)),
     rd_SkipBulk = read_list (\<lambda>x. map_option (\<lambda>_. ()) (bulk_of x))\<rparr>"

lemma reads_list: "reads (read_list val) id val"
  by (auto simp: reads_def read_list_def split: list.splits option.splits)

lemma list_reader_ok: "reader_ok list_reader id"
  by (auto simp: reader_ok_def list_reader_def reads_list split: list.splits)

lemma reads_step: "reads f fr val \<Longrightarrow> fr r = x # fs \<Longrightarrow> val x = Some v \<Longrightarrow> \<exists>r'. f r = (Inr v, r') \<and> fr r' = fs"
  by (simp add: reads_def)

lemma reads_fail: "reads f fr val \<Longrightarrow> fr r = [] \<or> val (hd (fr r)) = None \<Longrightarrow> \<exists>e r'. f r = (Inl e, r')"
  by (auto simp: reads_def)

lemma reader_okD:
  assumes "reader_ok R fr"
  shows "fr r = x # fs \<Longrightarrow> \<exists>r'. rd_PeekType R r = (Inr (type_of_frame x), r') \<and> fr r' = fr r"
    and "fr r = [] \<Longrightarrow> \<exists>e r'. rd_PeekType R r = (Inl e, r')"
    and "reads (rd_ReadBulkString R) fr bulk_of" and "reads (rd_ReadBulk R) fr bulk_of"
    and "reads (rd_ReadInt R) fr int_of_frame" and "reads (rd_ReadError R) fr error_of"
    and "reads (rd_ReadInlineString R) fr inline_of"
    and "reads (rd_StreamBulk R) fr (\<lambda>x. map_option NewInlineReader (bulk_of x))"
    and "reads (rd_SkipBulk R) fr (\<lambda>x. map_option (\<lambda>_. ()) (bulk_of x))"
  using assms by (auto simp: reader_ok_def)

section \<open>Reading with errors\<close>

text \<open>\<open>bindS\<close> sequences reading operations: the first error ends the operation.\<close>

definition bindS :: "('e + 'a) \<times> 'r \<Rightarrow> ('a \<Rightarrow> 'r \<Rightarrow> ('e + 'b) \<times> 'r) \<Rightarrow> ('e + 'b) \<times> 'r" where
  "bindS m f = (case m of (Inl e, r) \<Rightarrow> (Inl e, r) | (Inr v, r) \<Rightarrow> f v r)"

lemma bindS_simps [simp]: "bindS (Inl e, r) f = (Inl e, r)" "bindS (Inr v, r) f = f v r"
  by (simp_all add: bindS_def)

lemma bindS_cong [fundef_cong]:
  "m = m' \<Longrightarrow> (\<And>v r. m' = (Inr v, r) \<Longrightarrow> f v r = g v r) \<Longrightarrow> bindS m f = bindS m' g"
  by (auto simp: bindS_def split: prod.splits sum.splits)

text \<open>A call whose error the code ignores yields the zero value.\<close>

definition ignore_err :: "'a \<Rightarrow> ('e + 'a) \<times> 'r \<Rightarrow> 'a \<times> 'r" where
  "ignore_err d m = (case m of (Inl _, r) \<Rightarrow> (d, r) | (Inr v, r) \<Rightarrow> (v, r))"

lemma ignore_err_simps [simp]: "ignore_err d (Inl e, r) = (d, r)" "ignore_err d (Inr v, r) = (v, r)"
  by (simp_all add: ignore_err_def)

section \<open>Writing\<close>

datatype wcall =
    AppendBulkString string
  | AppendBulk bytes
  | AppendInt int
  | AppendError string
  | AppendInlineString string
  | AppendNil
  | WriteMultiBulkSize int
  | WriteBulkString string
  | WriteBulk bytes
  | WriteCmdString "string list"
  | CopyBulk rstream
  | Flush

fun frames_of :: "wcall \<Rightarrow> frame list" where
  "frames_of (AppendBulkString s) = [FBulk s]"
| "frames_of (AppendBulk b) = [FBulk b]"
| "frames_of (AppendInt i) = [FInt i]"
| "frames_of (AppendError s) = [FError s]"
| "frames_of (AppendInlineString s) = [FInline s]"
| "frames_of AppendNil = [FNil]"
| "frames_of (WriteMultiBulkSize n) = [FArray n]"
| "frames_of (WriteBulkString s) = [FBulk s]"
| "frames_of (WriteBulk b) = [FBulk b]"
| "frames_of (WriteCmdString ss) = FArray (int (length ss)) # map FBulk ss"
| "frames_of (CopyBulk st) = (case st_ReadAll st of Inl _ \<Rightarrow> [] | Inr b \<Rightarrow> [FBulk b])"
| "frames_of Flush = []"

definition frames :: "wcall list \<Rightarrow> frame list" where
  "frames ws = concat (map frames_of ws)"

lemma frames_simps [simp]:
  "frames [] = []" "frames (w # ws) = frames_of w @ frames ws" "frames (xs @ ys) = frames xs @ frames ys"
  by (simp_all add: frames_def)

text \<open>A request is well framed: it announces exactly the bulk strings that follow.\<close>

definition well_framed :: "frame list \<Rightarrow> string list \<Rightarrow> bool" where
  "well_framed fs args \<longleftrightarrow> fs = FArray (int (length args)) # map FBulk args"

end
