(* ===== verification/ProxyTypes.thy ===== *)
theory ProxyTypes
  imports Resp
begin

text \<open>
  \<open>src/proxy/types\<close>: requests to a Lambda, the responses to the client and the control commands.  A
  request knows whether its writer is set, whether it has been answered and whether its body has
  begun to stream; the channel of the client is an optional number.  Writing is a list of calls;
  the outcome of the \<open>k\<close>-th call that can fail is \<open>oc k\<close>.
\<close>

section \<open>Types\<close>

record Id =
  ConnId :: int
  ReqId :: string
  ChunkId :: string

record ClientReqCounter =
  cr_Cmd :: string
  cr_DataShards :: int
  cr_ParityShards :: int
  cr_Counter :: "32 word"

record Request =
  rq_Id :: Id
  rq_Cmd :: string
  rq_Key :: string
  rq_Body :: "bytes option"
  rq_BodyStream :: "rstream option"
  rq_ChanResponse :: "nat option"
  rq_EnableCollector :: bool
  rq_w :: bool
  rq_responded :: bool
  rq_streamingStarted :: bool

record Response =
  rs_Id :: Id
  rs_Cmd :: string
  rs_Body :: "bytes option"
  rs_BodyStream :: "rstream option"
  rs_w :: bool

record Control =
  ct_Cmd :: string
  ct_Addr :: string
  ct_Deployment :: string
  ct_Id :: "64 word"
  ct_Request :: "Request option"
  ct_w :: bool

text \<open>What is sent to the client's channel: a response or an error.\<close>

datatype answer = Answer Response | Failure error

section \<open>Requests\<close>

definition Retriable :: "Request \<Rightarrow> bool" where
  "Retriable q \<longleftrightarrow> rq_BodyStream q = None \<or> \<not> rq_streamingStarted q"

definition PrepareForSet :: "Request \<Rightarrow> wcall list \<times> Request" where
  "PrepareForSet q =
     ([WriteMultiBulkSize 6, WriteBulkString (rq_Cmd q), WriteBulkString (itoa (ConnId (rq_Id q))),
       WriteBulkString (ReqId (rq_Id q)), WriteBulkString (ChunkId (rq_Id q)), WriteBulkString (rq_Key q)]
      @ (case rq_Body q of Some b \<Rightarrow> [WriteBulk b] | None \<Rightarrow> []), q\<lparr>rq_w := True\<rparr>)"

definition PrepareForGet :: "Request \<Rightarrow> wcall list \<times> Request" where
  "PrepareForGet q =
     ([WriteMultiBulkSize 5, WriteBulkString (rq_Cmd q), WriteBulkString (itoa (ConnId (rq_Id q))),
       WriteBulkString (ReqId (rq_Id q)), WriteBulkString [], WriteBulkString (rq_Key q)], q\<lparr>rq_w := True\<rparr>)"

definition PrepareForDel :: "Request \<Rightarrow> wcall list \<times> Request" where
  "PrepareForDel q =
     ([WriteMultiBulkSize 5, WriteBulkString (rq_Cmd q), WriteBulkString (itoa (ConnId (rq_Id q))),
       WriteBulkString (ReqId (rq_Id q)), WriteBulkString (ChunkId (rq_Id q)), WriteBulkString (rq_Key q)],
      q\<lparr>rq_w := True\<rparr>)"

definition Flush_request :: "(nat \<Rightarrow> error option) \<Rightarrow> Request \<Rightarrow> wcall list \<times> error option \<times> Request" where
  "Flush_request oc q =
     (if \<not> rq_w q then ([], Some (ErrOther ''Writer for request not set.''), q)
      else let q1 = q\<lparr>rq_w := False\<rparr> in
        (case oc 0 of
           Some e \<Rightarrow> ([Flush], Some e, q1)
         | None \<Rightarrow>
             (case rq_BodyStream q1 of
                None \<Rightarrow> ([Flush], None, q1)
              | Some st \<Rightarrow>
                  let q2 = q1\<lparr>rq_streamingStarted := True\<rparr> in
                  (case oc 1 of
                     Some e \<Rightarrow> ([Flush, CopyBulk st], Some e, q2)
                   | None \<Rightarrow> ([Flush, CopyBulk st, Flush], oc 2, q2)))))"

definition IsResponse :: "Request \<Rightarrow> Response \<Rightarrow> bool" where
  "IsResponse q r \<longleftrightarrow>
     rq_Cmd q = rs_Cmd r \<and> ReqId (rq_Id q) = ReqId (rs_Id r) \<and> ChunkId (rq_Id q) = ChunkId (rs_Id r)"

text \<open>The last component is what is sent to which client channel.\<close>

definition SetResponse :: "answer \<Rightarrow> Request \<Rightarrow> bool \<times> Request \<times> (nat \<times> answer) list" where
  "SetResponse rsp q =
     (if rq_responded q then (False, q, [])
      else (case rq_ChanResponse q of
              Some c \<Rightarrow> (True, q\<lparr>rq_responded := True, rq_ChanResponse := None\<rparr>, [(c, rsp)])
            | None \<Rightarrow> (True, q\<lparr>rq_responded := True\<rparr>, [])))"

section \<open>Responses\<close>

definition PrepareFor :: "Response \<Rightarrow> wcall list \<times> Response" where
  "PrepareFor r =
     ([AppendBulkString (ReqId (rs_Id r)),
       AppendBulkString (if rs_Body r = None \<and> rs_BodyStream r = None then ''-1'' else ChunkId (rs_Id r))]
      @ (case rs_Body r of Some b \<Rightarrow> [AppendBulk b] | None \<Rightarrow> []), r\<lparr>rs_w := True\<rparr>)"

definition Flush_rsp :: "(nat \<Rightarrow> error option) \<Rightarrow> Response \<Rightarrow> wcall list \<times> error option \<times> Response" where
  "Flush_rsp oc r =
     (if \<not> rs_w r then ([], Some (ErrOther ''Writer for response not set.''), r)
      else let r1 = r\<lparr>rs_w := False\<rparr> in
        (case rs_BodyStream r1 of
           None \<Rightarrow> ([Flush], oc 1, r1)
         | Some st \<Rightarrow>
             (case oc 0 of
                Some e \<Rightarrow> ([CopyBulk st], Some e, r1)
              | None \<Rightarrow> ([CopyBulk st, Flush], oc 1, r1))))"

section \<open>Control commands\<close>

definition ctrl_PrepareForData :: "Control \<Rightarrow> wcall list \<times> Control" where
  "ctrl_PrepareForData c = ([WriteCmdString [ct_Cmd c]], c\<lparr>ct_w := True\<rparr>)"

definition ctrl_PrepareForMigrate :: "Control \<Rightarrow> wcall list \<times> Control" where
  "ctrl_PrepareForMigrate c =
     ([WriteCmdString [ct_Cmd c, ct_Addr c, ct_Deployment c, itoa (uint (ct_Id c))]], c\<lparr>ct_w := True\<rparr>)"

definition ctrl_PrepareForDel :: "Control \<Rightarrow> (wcall list \<times> Control) res" where
  "ctrl_PrepareForDel c =
     (case ct_Request c of
        None \<Rightarrow> Inl NilDereference
      | Some q \<Rightarrow> (let (ws, q') = PrepareForDel q in Inr (ws, c\<lparr>ct_Request := Some q', ct_w := True\<rparr>)))"

definition Flush_ctrl :: "(nat \<Rightarrow> error option) \<Rightarrow> Control \<Rightarrow> wcall list \<times> error option \<times> Control" where
  "Flush_ctrl oc c =
     (if \<not> ct_w c then ([], Some (ErrOther ''Writer for request not set.''), c)
      else ([Flush], oc 0, c\<lparr>ct_w := False\<rparr>))"

section \<open>One answer per request\<close>

fun answers :: "answer list \<Rightarrow> Request \<Rightarrow> (nat \<times> answer) list" where
  "answers [] q = []"
| "answers (a # as) q = (let (ok, q', sent) = SetResponse a q in sent @ answers as q')"

lemma answers_responded: "rq_responded q \<Longrightarrow> answers as q = []"
  by (induction as) (auto simp: SetResponse_def)

lemma answers_first:
  "\<not> rq_responded q \<Longrightarrow> answers (a # as) q = (case rq_ChanResponse q of Some c \<Rightarrow> [(c, a)] | None \<Rightarrow> [])"
  by (simp add: SetResponse_def answers_responded split: option.splits)

lemma SetResponse_once:
  assumes "SetResponse a q = (ok, q', sent)"
  shows "ok = (\<not> rq_responded q)" "rq_responded q'" "length sent \<le> 1" "\<not> ok \<Longrightarrow> sent = [] \<and> q' = q"
  using assms by (auto simp: SetResponse_def split: if_splits option.splits)

section \<open>Framing\<close>

lemma PrepareForGet_framed:
  "well_framed (frames (fst (PrepareForGet q)))
     [rq_Cmd q, itoa (ConnId (rq_Id q)), ReqId (rq_Id q), [], rq_Key q]"
  by (simp add: PrepareForGet_def well_framed_def)

lemma PrepareForDel_framed:
  "well_framed (frames (fst (PrepareForDel q)))
     [rq_Cmd q, itoa (ConnId (rq_Id q)), ReqId (rq_Id q), ChunkId (rq_Id q), rq_Key q]"
  by (simp add: PrepareForDel_def well_framed_def)

lemma PrepareForSet_stream_framed:
  assumes "rq_Body q = None" "rq_BodyStream q = Some st" "st_ReadAll st = Inr b" "\<And>k. oc k = None"
  shows "case PrepareForSet q of (ws, q1) \<Rightarrow> case Flush_request oc q1 of (ws', e, q2) \<Rightarrow>
     e = None \<and> rq_streamingStarted q2 \<and> \<not> Retriable q2 \<and>
     well_framed (frames (ws @ ws')) [rq_Cmd q, itoa (ConnId (rq_Id q)), ReqId (rq_Id q), ChunkId (rq_Id q), rq_Key q, b]"
  using assms by (simp add: PrepareForSet_def Flush_request_def well_framed_def Retriable_def Let_def)

lemma PrepareForSet_body_framed:
  assumes "rq_Body q = Some b" "rq_BodyStream q = None" "oc 0 = None"
  shows "case PrepareForSet q of (ws, q1) \<Rightarrow> case Flush_request oc q1 of (ws', e, q2) \<Rightarrow>
     e = None \<and>
     well_framed (frames (ws @ ws')) [rq_Cmd q, itoa (ConnId (rq_Id q)), ReqId (rq_Id q), ChunkId (rq_Id q), rq_Key q, b]"
  using assms by (simp add: PrepareForSet_def Flush_request_def well_framed_def Let_def)

end
