(* ===== verification/ProxyCollector.thy ===== *)
theory ProxyCollector
  imports ProxyTypes "HOL-Library.AList"
begin

text \<open>
  \<open>src/proxy/collector/collector.go\<close>: the latency records of the proxy, and \<open>src/proxy/global/ip.go\<close>.  An entry of
  \<open>reqMap\<close> is found by command, request id and chunk id; \<open>pc_log\<close> are the records handed to nanolog.
  Times are 64-bit; the differences wrap.  No call of the proxy uses another handle than those of \<open>log_handle\<close>.
  The flushing goroutine of \<open>Create\<close> and \<open>Stop\<close> is the step relation \<open>flstep\<close>.
\<close>

datatype log_handle = LogStart | LogValidate | LogProxy | LogServer2Client

record dataEntry =
  le_cmd :: string
  le_reqId :: string
  le_chunkId :: string
  le_start :: int64
  le_duration :: int64
  le_firstByte :: int64
  le_lambda2Server :: int64
  le_server2Client :: int64
  le_readBulk :: int64
  le_appendBulk :: int64
  le_flush :: int64
  le_validate :: int64

record pcollector =
  pc_reqMap :: "(string \<times> dataEntry) list"
  pc_log :: "dataEntry list"

definition entry_key :: "string \<Rightarrow> string \<Rightarrow> string \<Rightarrow> string" where
  "entry_key cmd reqId chunkId = cmd @ ''-'' @ reqId @ ''-'' @ chunkId"

definition new_entry :: "string \<Rightarrow> string \<Rightarrow> string \<Rightarrow> int64 \<Rightarrow> dataEntry" where
  "new_entry cmd reqId chunkId start =
     \<lparr>le_cmd = cmd, le_reqId = reqId, le_chunkId = chunkId, le_start = start, le_duration = 0, le_firstByte = 0,
      le_lambda2Server = 0, le_server2Client = 0, le_readBulk = 0, le_appendBulk = 0, le_flush = 0, le_validate = 0\<rparr>"

definition ErrorNoEntry :: error where "ErrorNoEntry = ErrOther ''No collector log entry found.''"

text \<open>\<open>vs\<close> are the numeric arguments, \<open>args[3]\<close> first; a missing one panics.\<close>

definition Collect_log :: "log_handle \<Rightarrow> string \<Rightarrow> string \<Rightarrow> string \<Rightarrow> int64 list \<Rightarrow> pcollector \<Rightarrow> (error option \<times> pcollector) res" where
  "Collect_log h cmd reqId chunkId vs pc =
     (let key = entry_key cmd reqId chunkId
      in case h of
           LogStart \<Rightarrow>
             bindR (index vs 0) (\<lambda>start.
               Inr (None, pc\<lparr>pc_reqMap := AList.update key (new_entry cmd reqId chunkId start) (pc_reqMap pc)\<rparr>))
         | LogProxy \<Rightarrow>
             (case map_of (pc_reqMap pc) key of
                None \<Rightarrow> Inr (Some ErrorNoEntry, pc)
              | Some en \<Rightarrow>
                  bindR (index vs 0) (\<lambda>v0. bindR (index vs 1) (\<lambda>v1. bindR (index vs 2) (\<lambda>v2.
                    Inr (None, pc\<lparr>pc_reqMap := AList.update key
                      (en\<lparr>le_firstByte := v0 - le_start en, le_lambda2Server := v1, le_readBulk := v2\<rparr>) (pc_reqMap pc)\<rparr>)))))
         | LogServer2Client \<Rightarrow>
             (case map_of (pc_reqMap pc) key of
                None \<Rightarrow> Inr (Some ErrorNoEntry, pc)
              | Some en \<Rightarrow>
                  bindR (index vs 0) (\<lambda>v0. bindR (index vs 1) (\<lambda>v1. bindR (index vs 2) (\<lambda>v2. bindR (index vs 3) (\<lambda>v3.
                    let en' = en\<lparr>le_server2Client := v0, le_appendBulk := v1, le_flush := v2, le_duration := v3 - le_start en\<rparr>
                    in Inr (None, pc\<lparr>pc_reqMap := AList.update key en' (pc_reqMap pc), pc_log := pc_log pc @ [en']\<rparr>))))))
         | LogValidate \<Rightarrow>
             (case map_of (pc_reqMap pc) key of
                None \<Rightarrow> Inr (Some ErrorNoEntry, pc)
              | Some en \<Rightarrow>
                  bindR (index vs 0) (\<lambda>v0.
                    Inr (None, pc\<lparr>pc_reqMap := AList.update key (en\<lparr>le_validate := v0\<rparr>) (pc_reqMap pc)\<rparr>))))"

text \<open>The calls the proxy makes for one chunk of a request: at the start, on the Lambda's answer, on the client's.\<close>

definition chunk_calls :: "string \<Rightarrow> string \<Rightarrow> string \<Rightarrow> int64 \<Rightarrow> int64 \<times> int64 \<times> int64 \<Rightarrow> int64 \<times> int64 \<times> int64 \<times> int64 \<Rightarrow> pcollector
    \<Rightarrow> (error option \<times> pcollector) res" where
  "chunk_calls cmd reqId chunkId start pr sc pc0 =
     bindR (Collect_log LogStart cmd reqId chunkId [start] pc0) (\<lambda>(_, pc).
     bindR (Collect_log LogProxy cmd reqId chunkId [fst pr, fst (snd pr), snd (snd pr)] pc) (\<lambda>(_, pc).
       Collect_log LogServer2Client cmd reqId chunkId [fst sc, fst (snd sc), fst (snd (snd sc)), snd (snd (snd sc))] pc))"

lemma chunk_calls_log:
  "\<exists>pc'. chunk_calls cmd reqId chunkId start (first, l2s, rb) (s2c, ab, fl, end) pc = Inr (None, pc') \<and>
     pc_log pc' = pc_log pc @ [(new_entry cmd reqId chunkId start)\<lparr>le_firstByte := first - start, le_lambda2Server := l2s,
        le_readBulk := rb, le_server2Client := s2c, le_appendBulk := ab, le_flush := fl, le_duration := end - start\<rparr>] \<and>
     map_of (pc_reqMap pc') (entry_key cmd reqId chunkId) \<noteq> None"
  by (simp add: chunk_calls_def Collect_log_def new_entry_def update_conv' index_def in_range_def Let_def)

section \<open>Flushing\<close>

text \<open>
  The goroutine of \<open>Create\<close> begins by making the ticker, which delivers ticks, at most one waiting, until it is stopped; a
  \<open>Stop\<close> that comes first finds no ticker.  For each tick the goroutine of \<open>Create\<close>
  flushes when the proxy has been idle or is stopped, and ends when it is stopped.
\<close>

record flusher =
  fu_begun :: bool
  fu_stopped :: bool
  fu_ticking :: bool
  fu_tick :: bool
  fu_running :: bool
  fu_flushes :: nat

definition Create_flusher :: flusher where
  "Create_flusher = \<lparr>fu_begun = False, fu_stopped = False, fu_ticking = False, fu_tick = False, fu_running = True, fu_flushes = 0\<rparr>"

definition Create_collector :: "string \<Rightarrow> (string \<Rightarrow> error option) \<Rightarrow> (string \<Rightarrow> error option) \<Rightarrow> flusher res" where
  "Create_collector prefix create setWriter =
     (let path = prefix @ ''_proxy.clog''
      in if create path \<noteq> None then Inl PanicCall else if setWriter path \<noteq> None then Inl PanicCall else Inr Create_flusher)"

definition begin_flusher :: "flusher \<Rightarrow> flusher" where
  "begin_flusher f = f\<lparr>fu_begun := True, fu_ticking := True\<rparr>"

definition Stop_flusher :: "flusher \<Rightarrow> flusher" where
  "Stop_flusher f = f\<lparr>fu_stopped := True, fu_ticking := False\<rparr>"

definition flush_round :: "bool \<Rightarrow> flusher \<Rightarrow> flusher" where
  "flush_round idle f =
     f\<lparr>fu_tick := False, fu_flushes := (if fu_stopped f \<or> idle then Suc (fu_flushes f) else fu_flushes f),
       fu_running := \<not> fu_stopped f\<rparr>"

inductive flstep :: "flusher \<Rightarrow> flusher \<Rightarrow> bool" where
  Begin: "\<not> fu_begun f \<Longrightarrow> flstep f (begin_flusher f)"
| Tick: "fu_ticking f \<Longrightarrow> flstep f (f\<lparr>fu_tick := True\<rparr>)"
| Round: "fu_running f \<Longrightarrow> fu_tick f \<Longrightarrow> flstep f (flush_round idle f)"
| Stop: "flstep f (Stop_flusher f)"

text \<open>After \<open>Stop\<close> the goroutine flushes and ends only if a tick was already waiting; otherwise it waits for ever.\<close>

lemma stopped_flusher_waits:
  assumes "flstep\<^sup>*\<^sup>* (Stop_flusher f) f'" and "\<not> fu_tick f" and "fu_begun f"
  shows "fu_begun f' \<and> fu_flushes f' = fu_flushes f \<and> fu_running f' = fu_running f \<and> \<not> fu_tick f' \<and> \<not> fu_ticking f'"
  using assms(1)
proof (induction rule: rtranclp_induct)
  case base
  then show ?case using assms(2,3) by (simp add: Stop_flusher_def)
next
  case (step g h)
  from step.hyps(2) show ?case by cases (use step.IH in \<open>auto simp: Stop_flusher_def\<close>)
qed

section \<open>Addresses\<close>

record ip =
  ip_loopback :: bool
  ip_multicast :: bool
  ip_To4 :: "(8 word \<times> 8 word \<times> 8 word \<times> 8 word) option"

definition IsPrivateIp :: "ip \<Rightarrow> bool" where
  "IsPrivateIp a =
     (if ip_loopback a \<or> ip_multicast a then False
      else (case ip_To4 a of
              None \<Rightarrow> False
            | Some (b0, b1, _, _) \<Rightarrow>
                if b0 = 10 then True
                else if b0 = 172 \<and> 16 \<le> b1 \<and> b1 \<le> 31 then True
                else if b0 = 192 \<and> b1 = 168 then True
                else False))"

text \<open>An address of an interface is \<open>None\<close> when it is no \<open>net.IPNet\<close>; \<open>str\<close> is \<open>IP.String\<close>.\<close>

fun first_private :: "ip option list \<Rightarrow> ip option" where
  "first_private [] = None"
| "first_private (address # addrs) =
     (case address of
        None \<Rightarrow> first_private addrs
      | Some a \<Rightarrow> if IsPrivateIp a then Some a else first_private addrs)"

definition ErrPrivateIPNotFound :: error where "ErrPrivateIPNotFound = ErrOther ''Can not identify private ip.''"

definition GetPrivateIp :: "(ip \<Rightarrow> string) \<Rightarrow> error + ip option list \<Rightarrow> error + string" where
  "GetPrivateIp str addrs =
     (case addrs of
        Inl err \<Rightarrow> Inl err
      | Inr as \<Rightarrow> (case first_private as of None \<Rightarrow> Inl ErrPrivateIPNotFound | Some a \<Rightarrow> Inr (str a)))"

definition GetIP :: "(ip \<Rightarrow> string) \<Rightarrow> error + ip option list \<Rightarrow> error + string" where
  "GetIP = GetPrivateIp"

lemma first_private_find: "first_private as = find IsPrivateIp (List.map_filter id as)"
  by (induction as) (simp_all add: map_filter_def split: option.splits)

end
