(* ===== verification/LambdaInstance.thy ===== *)
theory LambdaInstance
  imports Scheduler ProxyCollector
begin

text \<open>
  \<open>src/proxy/lambdastore/instance.go\<close>: an instance of a Lambda function as the proxy sees it.

  Requests, connections and instances are heap objects named by numbers, because the instance's
  goroutine, the connection's goroutine and the client's handler share them.  A Go channel that is
  only ever closed is a boolean; \<open>in_validating\<close> says that \<open>chanValidated\<close> is still open.
  \<open>chanWait\<close> is the list of its buffered element and of the senders blocked on it: Go moves a
  blocked sender's element into the buffer when a receive makes room, so \<open>len\<close> is 0 exactly when
  the list is empty.  Answers sent to the clients and entries given to the collector are logs.  The
  cool-down timer is whether it is armed.  Invoking the Lambda service is a parameter of
  \<open>triggerLambda\<close>; write deadlines are not modelled.
\<close>

section \<open>State\<close>

datatype awake = INSTANCE_SLEEP | INSTANCE_AWAKE | INSTANCE_MAYBE

definition MAX_RETRY :: nat where "MAX_RETRY = 3"

datatype command = CmdRequest nat | CmdControl Control

record 'r Connection =
  cn_instance :: "nat option"
  cn_r :: 'r
  cn_w :: "wcall list"
  cn_chanWait :: "nat list"
  cn_closed :: bool
  cn_netClosed :: bool

record Instance =
  in_dep :: Deployment
  in_cn :: "nat option"
  in_chanReq :: "command list"
  in_awake :: awake
  in_validating :: bool
  in_lastValidated :: "nat option"
  in_closed :: bool
  in_coolTimer :: bool


record ('m, 'r) lstore =
  reqs :: "nat \<Rightarrow> Request"
  conns :: "nat \<Rightarrow> 'r Connection"
  instances :: "nat \<Rightarrow> Instance"
  ReqMap :: 'm
  counters :: "nat \<Rightarrow> ClientReqCounter"
  answered :: "(nat \<times> answer) list"
  collected :: "(log_handle \<times> string \<times> string \<times> string) list"
  DataCollected :: int

definition upd_conn :: "nat \<Rightarrow> ('r Connection \<Rightarrow> 'r Connection) \<Rightarrow> ('m, 'r) lstore \<Rightarrow> ('m, 'r) lstore" where
  "upd_conn c f s = s\<lparr>conns := (conns s)(c := f (conns s c))\<rparr>"

definition upd_inst :: "nat \<Rightarrow> (Instance \<Rightarrow> Instance) \<Rightarrow> ('m, 'r) lstore \<Rightarrow> ('m, 'r) lstore" where
  "upd_inst i f s = s\<lparr>instances := (instances s)(i := f (instances s i))\<rparr>"

definition log_Collect :: "log_handle \<Rightarrow> string \<Rightarrow> string \<Rightarrow> string \<Rightarrow> ('m, 'r) lstore \<Rightarrow> ('m, 'r) lstore" where
  "log_Collect h cmd reqId chunkId s = s\<lparr>collected := collected s @ [(h, cmd, reqId, chunkId)]\<rparr>"

definition DataCollected_Done :: "('m, 'r) lstore \<Rightarrow> ('m, 'r) lstore res" where
  "DataCollected_Done s =
     (if DataCollected s \<le> 0 then Inl NegativeWaitGroup else Inr (s\<lparr>DataCollected := DataCollected s - 1\<rparr>))"

text \<open>\<open>SetResponse\<close> of the request number \<open>r\<close>.\<close>

definition answer_req :: "nat \<Rightarrow> answer \<Rightarrow> ('m, 'r) lstore \<Rightarrow> bool \<times> ('m, 'r) lstore" where
  "answer_req r a s =
     (let (ok, q, sent) = SetResponse a (reqs s r)
      in (ok, s\<lparr>reqs := (reqs s)(r := q), answered := answered s @ sent\<rparr>))"

section \<open>Instances\<close>

definition NewInstance_of :: "Deployment \<Rightarrow> Instance" where
  "NewInstance_of dp =
     \<lparr>in_dep = dp, in_cn = None, in_chanReq = [], in_awake = INSTANCE_SLEEP, in_validating = False,
      in_lastValidated = None, in_closed = False, in_coolTimer = True\<rparr>"

definition NewInstance :: "string \<Rightarrow> uint64 \<Rightarrow> bool \<Rightarrow> Instance" where
  "NewInstance name i replica = NewInstance_of (NewDeployment name i replica)"

definition warmUp :: "Instance \<Rightarrow> Instance" where
  "warmUp ins = ins\<lparr>in_coolTimer := True\<rparr>"

definition IsValidating :: "Instance \<Rightarrow> bool" where
  "IsValidating ins = in_validating ins"

definition IsClosed :: "Instance \<Rightarrow> bool" where
  "IsClosed ins = in_closed ins"

definition flagValidatedLocked :: "nat option \<Rightarrow> Instance \<Rightarrow> Instance" where
  "flagValidatedLocked conn ins =
     (if \<not> in_validating ins then ins
      else (case conn of None \<Rightarrow> ins | Some c \<Rightarrow> ins\<lparr>in_lastValidated := Some c\<rparr>)\<lparr>in_validating := False\<rparr>)"

definition Close_conn :: "'r Connection \<Rightarrow> 'r Connection" where
  "Close_conn cn = (if cn_closed cn then cn else cn\<lparr>cn_closed := True\<rparr>)"

definition flagValidated :: "nat \<Rightarrow> nat option \<Rightarrow> ('m, 'r) lstore \<Rightarrow> (nat option \<times> ('m, 'r) lstore) res" where
  "flagValidated i conn s0 =
     (let s1 = upd_inst i warmUp s0;
          old = in_cn (instances s1 i);
          finish = (\<lambda>s. let s' = upd_inst i (flagValidatedLocked conn) s in (in_lastValidated (instances s' i), s'))
      in if old \<noteq> conn then
           (case conn of
              None \<Rightarrow> Inl NilDereference
            | Some c \<Rightarrow>
                let s2 = upd_inst i (\<lambda>ins. ins\<lparr>in_cn := Some c\<rparr>) (upd_conn c (\<lambda>cn. cn\<lparr>cn_instance := Some i\<rparr>) s1)
                in (case old of
                      None \<Rightarrow> Inr (finish s2)
                    | Some d \<Rightarrow>
                        let s3 = upd_conn d Close_conn s2
                        in if cn_instance (conns s3 d) = Some i
                           then Inr (finish (upd_inst i (\<lambda>ins. ins\<lparr>in_awake := INSTANCE_MAYBE\<rparr>) s3))
                           else Inr (finish s3)))
         else if in_awake (instances s1 i) \<noteq> INSTANCE_MAYBE
         then Inr (finish (upd_inst i (\<lambda>ins. ins\<lparr>in_awake := INSTANCE_AWAKE\<rparr>) s1))
         else Inr (finish s1))"

definition bye_instance :: "nat \<Rightarrow> nat \<Rightarrow> ('m, 'r) lstore \<Rightarrow> ('m, 'r) lstore" where
  "bye_instance i c s =
     (if in_cn (instances s i) = Some c then upd_inst i (\<lambda>ins. ins\<lparr>in_awake := INSTANCE_SLEEP\<rparr>) s else s)"

definition Close_instance :: "nat \<Rightarrow> ('m, 'r) lstore \<Rightarrow> ('m, 'r) lstore" where
  "Close_instance i s =
     (if in_closed (instances s i) then s
      else let s1 = upd_inst i (\<lambda>ins. ins\<lparr>in_closed := True, in_coolTimer := False\<rparr>) s;
               s2 = (case in_cn (instances s1 i) of None \<Rightarrow> s1 | Some c \<Rightarrow> upd_conn c Close_conn s1)
           in upd_inst i (flagValidatedLocked None) s2)"

text \<open>The first half of \<open>validate\<close>: whether this call is the one that validates.\<close>

definition validate_begin :: "Instance \<Rightarrow> bool \<times> Instance" where
  "validate_begin ins =
     (if in_validating ins then (False, ins)
      else (True, ins\<lparr>in_validating := True, in_lastValidated := None\<rparr>))"

text \<open>\<open>tryTriggerLambda\<close>: whether a goroutine that invokes the function has been started.\<close>

definition tryTriggerLambda :: "Instance \<Rightarrow> bool" where
  "tryTriggerLambda ins \<longleftrightarrow> in_awake ins \<noteq> INSTANCE_AWAKE"

text \<open>The end of \<open>triggerLambda\<close>, when the invocation has returned and nobody validates.\<close>

definition trigger_returned :: "Instance \<Rightarrow> Instance" where
  "trigger_returned ins = (if in_awake ins \<noteq> INSTANCE_MAYBE then ins\<lparr>in_awake := INSTANCE_SLEEP\<rparr> else ins)"

text \<open>The event sent when the function is invoked.\<close>

definition trigger_event :: "string \<Rightarrow> int \<Rightarrow> string \<Rightarrow> int \<Rightarrow> bool \<Rightarrow> Instance \<Rightarrow> string \<times> InputEvent" where
  "trigger_event ServerIp BasePort prefix level warm ins =
     (d_name (in_dep ins),
      \<lparr>ie_Cmd = (if warm then ''warmup'' else []), ie_Id = d_id (in_dep ins),
       ie_Proxy = ServerIp @ '':'' @ itoa (wrap_int (BasePort + 1)), ie_Timeout = 0, ie_Addr = [], ie_Prefix = prefix,
       ie_Log = level\<rparr>)"

text \<open>\<open>dest\<close> and \<open>start\<close> are the calls of \<open>global.Migrator\<close>.\<close>

definition Migrate_instance ::
    "(uint64 \<Rightarrow> error + Deployment) \<Rightarrow> (uint64 \<Rightarrow> error + string) \<Rightarrow> string \<Rightarrow> nat \<Rightarrow> ('m, 'r) lstore \<Rightarrow>
     (error option \<times> ('m, 'r) lstore) res" where
  "Migrate_instance dest start ServerIp i s =
     (let k = d_id (in_dep (instances s i))
      in case dest k of
           Inl e \<Rightarrow> Inr (Some e, s)
         | Inr dply \<Rightarrow>
             (case start k of
                Inl e \<Rightarrow> Inr (Some e, s)
              | Inr addr \<Rightarrow>
                  bindR (index addr 0) (\<lambda>c0.
                    let addr' = (if c0 = CHR '':'' then ServerIp @ addr else addr);
                        ctl = \<lparr>ct_Cmd = ''migrate'', ct_Addr = addr', ct_Deployment = d_name dply, ct_Id = d_id dply,
                               ct_Request = None, ct_w = False\<rparr>
                    in Inr (None, upd_inst i (\<lambda>ins. ins\<lparr>in_chanReq := in_chanReq ins @ [CmdControl ctl]\<rparr>) s))))"

section \<open>Sending a request to the Lambda\<close>

definition prepare_request :: "string \<Rightarrow> Request \<Rightarrow> (wcall list \<times> Request) option" where
  "prepare_request cmd q =
     (if cmd = ''set'' then Some (PrepareForSet q)
      else if cmd = ''get'' then Some (PrepareForGet q)
      else if cmd = ''del'' then Some (PrepareForDel q)
      else None)"

definition prepare_control :: "string \<Rightarrow> Control \<Rightarrow> (wcall list \<times> Control) res option" where
  "prepare_control cmd c =
     (if cmd = ''data'' then Some (Inr (ctrl_PrepareForData c))
      else if cmd = ''migrate'' then Some (Inr (ctrl_PrepareForMigrate c))
      else if cmd = ''del'' then Some (ctrl_PrepareForDel c)
      else None)"

text \<open>
  \<open>handleRequest\<close>; the result \<open>None\<close> is that the send to \<open>chanWait\<close> blocks.  \<open>oc\<close> gives the outcomes of
  the writer's calls that can fail.
\<close>

definition handle_client_request ::
    "(nat \<Rightarrow> error option) \<Rightarrow> nat \<Rightarrow> nat \<Rightarrow> ('m, 'r) lstore \<Rightarrow> (error option \<times> ('m, 'r) lstore) option" where
  "handle_client_request oc c r s0 =
     (let q = reqs s0 r; cmd = ToLower (rq_Cmd q);
          s = (if rq_EnableCollector q then log_Collect LogValidate cmd (ReqId (rq_Id q)) (ChunkId (rq_Id q)) s0 else s0)
      in case prepare_request cmd q of
           None \<Rightarrow> Some (None, snd (answer_req r (Failure (ErrOther (''Unexpected request command: '' @ cmd))) s))
         | Some (ws, q1) \<Rightarrow>
             if cn_chanWait (conns s c) \<noteq> [] then None
             else
               let (ws', e, q2) = Flush_request oc q1;
                   s1 = upd_conn c (\<lambda>cn. cn\<lparr>cn_w := cn_w cn @ ws @ ws', cn_chanWait := [r]\<rparr>)
                          (s\<lparr>reqs := (reqs s)(r := q2)\<rparr>)
               in if e = None then Some (None, s1)
                  else Some (e, upd_conn c (\<lambda>cn. cn\<lparr>cn_chanWait := []\<rparr>) s1))"

definition handle_control ::
    "(nat \<Rightarrow> error option) \<Rightarrow> nat \<Rightarrow> Control \<Rightarrow> ('m, 'r) lstore \<Rightarrow> ('m, 'r) lstore res" where
  "handle_control oc c ctl s =
     (let cmd = ToLower (ct_Cmd ctl)
      in case prepare_control cmd ctl of
           None \<Rightarrow> Inr s
         | Some (Inl e) \<Rightarrow> Inl e
         | Some (Inr (ws, ctl1)) \<Rightarrow>
             let (ws', e, ctl2) = Flush_ctrl oc ctl1;
                 s1 = upd_conn c (\<lambda>cn. cn\<lparr>cn_w := cn_w cn @ ws @ ws'\<rparr>) s
             in if e \<noteq> None \<and> cmd = ''data'' then DataCollected_Done s1 else Inr s1)"

definition handleRequest ::
    "(nat \<Rightarrow> error option) \<Rightarrow> nat \<Rightarrow> command \<Rightarrow> ('m, 'r) lstore \<Rightarrow> (error option \<times> ('m, 'r) lstore) res option" where
  "handleRequest oc c cmd s =
     (case cmd of
        CmdRequest r \<Rightarrow> map_option Inr (handle_client_request oc c r s)
      | CmdControl ctl \<Rightarrow> Some (bindR (handle_control oc c ctl s) (\<lambda>s'. Inr (None, s'))))"

definition cmd_Retriable :: "command \<Rightarrow> ('m, 'r) lstore \<Rightarrow> bool" where
  "cmd_Retriable cmd s = (case cmd of CmdRequest r \<Rightarrow> Retriable (reqs s r) | CmdControl _ \<Rightarrow> True)"

text \<open>
  The retry loop.  \<open>vs\<close> gives what \<open>Validate\<close> returns in each attempt and the outcomes of the writer;
  \<open>Exit\<close> is the return on a nil connection.
\<close>

datatype 's attempt = Exit 's | Tried "error option" 's

fun attempts ::
    "(nat option \<times> (nat \<Rightarrow> error option)) list \<Rightarrow> error option \<Rightarrow> command \<Rightarrow> ('m, 'r) lstore \<Rightarrow>
     ('m, 'r) lstore attempt res option" where
  "attempts [] err cmd s = Some (Inr (Tried err s))"
| "attempts ((None, oc) # vs) err cmd s = Some (Inr (Exit s))"
| "attempts ((Some c, oc) # vs) err cmd s =
     (case handleRequest oc c cmd s of
        None \<Rightarrow> None
      | Some (Inl p) \<Rightarrow> Some (Inl p)
      | Some (Inr (None, s')) \<Rightarrow> Some (Inr (Tried None s'))
      | Some (Inr (Some e, s')) \<Rightarrow> attempts vs (Some e) cmd s')"

definition serve_command ::
    "nat \<Rightarrow> (nat \<Rightarrow> nat option \<times> (nat \<Rightarrow> error option)) \<Rightarrow> command \<Rightarrow> ('m, 'r) lstore \<Rightarrow>
     (bool \<times> ('m, 'r) lstore) res option" where
  "serve_command i vs cmd s =
     (let retries = (if cmd_Retriable cmd s then MAX_RETRY else 1)
      in case attempts (map vs [0..<retries]) None cmd s of
           None \<Rightarrow> None
         | Some (Inl p) \<Rightarrow> Some (Inl p)
         | Some (Inr (Exit s')) \<Rightarrow> Some (Inr (False, s'))
         | Some (Inr (Tried err s')) \<Rightarrow>
             let s'' = (case err of
                          None \<Rightarrow> s'
                        | Some e \<Rightarrow> (case cmd of CmdRequest r \<Rightarrow> snd (answer_req r (Failure e) s') | CmdControl _ \<Rightarrow> s'))
             in Some (Inr (True, upd_inst i warmUp s'')))"

text \<open>
  One turn of the loop of \<open>HandleRequests\<close>: \<open>sel\<close> is the case the select takes, \<open>warm\<close> the effect of \<open>WarmUp\<close>.  A case
  that is not ready has no outcome; the result tells whether the loop goes on.
\<close>

datatype hr_case = HrClosed | HrReq | HrCool

definition HandleRequests ::
    "nat \<Rightarrow> (nat \<Rightarrow> nat option \<times> (nat \<Rightarrow> error option)) \<Rightarrow> (('m, 'r) lstore \<Rightarrow> ('m, 'r) lstore) \<Rightarrow> hr_case \<Rightarrow> ('m, 'r) lstore \<Rightarrow>
     (bool \<times> ('m, 'r) lstore) res option" where
  "HandleRequests i vs warm sel s =
     (case sel of
        HrClosed \<Rightarrow> if in_closed (instances s i) then Some (Inr (False, s)) else None
      | HrReq \<Rightarrow>
          (case in_chanReq (instances s i) of
             [] \<Rightarrow> None
           | cmd # cmds \<Rightarrow> serve_command i vs cmd (upd_inst i (\<lambda>ins. ins\<lparr>in_chanReq := cmds\<rparr>) s))
      | HrCool \<Rightarrow> if in_coolTimer (instances s i) then Some (Inr (True, warm s)) else None)"

section \<open>No request is lost between the queue and the connection\<close>

lemma upd_conn_simps [simp]:
  "conns (upd_conn c f s) = (conns s)(c := f (conns s c))" "reqs (upd_conn c f s) = reqs s"
  "instances (upd_conn c f s) = instances s" "ReqMap (upd_conn c f s) = ReqMap s"
  "counters (upd_conn c f s) = counters s" "answered (upd_conn c f s) = answered s"
  "collected (upd_conn c f s) = collected s" "DataCollected (upd_conn c f s) = DataCollected s"
  by (simp_all add: upd_conn_def)

lemma upd_inst_simps [simp]:
  "instances (upd_inst c f s) = (instances s)(c := f (instances s c))" "reqs (upd_inst c f s) = reqs s"
  "conns (upd_inst c f s) = conns s" "ReqMap (upd_inst c f s) = ReqMap s"
  "counters (upd_inst c f s) = counters s" "answered (upd_inst c f s) = answered s"
  "collected (upd_inst c f s) = collected s" "DataCollected (upd_inst c f s) = DataCollected s"
  by (simp_all add: upd_inst_def)

lemma log_Collect_simps [simp]:
  "instances (log_Collect h a b d s) = instances s" "reqs (log_Collect h a b d s) = reqs s"
  "conns (log_Collect h a b d s) = conns s" "ReqMap (log_Collect h a b d s) = ReqMap s"
  "counters (log_Collect h a b d s) = counters s" "answered (log_Collect h a b d s) = answered s"
  "DataCollected (log_Collect h a b d s) = DataCollected s"
  by (simp_all add: log_Collect_def)

lemma answer_req_responded: "rq_responded (reqs (snd (answer_req r a s)) r)"
  by (auto simp: answer_req_def SetResponse_def Let_def split: option.splits)

lemma answer_req_other:
  "r' \<noteq> r \<Longrightarrow> reqs (snd (answer_req r a s)) r' = reqs s r'"
  "conns (snd (answer_req r a s)) = conns s" "instances (snd (answer_req r a s)) = instances s"
  by (auto simp: answer_req_def Let_def split: prod.splits)

text \<open>
  Where a request that still waits for its answer can be after an operation: queued on a connection, or
  answered with an error.
\<close>

definition pending :: "nat \<Rightarrow> nat \<Rightarrow> ('m, 'r) lstore \<Rightarrow> bool" where
  "pending r ch s \<longleftrightarrow> \<not> rq_responded (reqs s r) \<and> rq_ChanResponse (reqs s r) = Some ch"

definition kept :: "nat \<Rightarrow> nat \<Rightarrow> nat set \<Rightarrow> ('m, 'r) lstore \<Rightarrow> ('m, 'r) lstore \<Rightarrow> bool" where
  "kept r ch C s s' \<longleftrightarrow>
     pending r ch s' \<and> answered s' = answered s \<and> (\<exists>c \<in> C. cn_chanWait (conns s' c) = [r]) \<or>
     rq_responded (reqs s' r) \<and> (\<exists>e. answered s' = answered s @ [(ch, Failure e)])"

lemma answer_req_pending:
  "pending r ch s \<Longrightarrow> answer_req r a s = (True, s\<lparr>reqs := (reqs s)(r := (reqs s r)\<lparr>rq_responded := True, rq_ChanResponse := None\<rparr>),
     answered := answered s @ [(ch, a)]\<rparr>)"
  by (simp add: answer_req_def SetResponse_def pending_def)

lemma prepare_request_keeps:
  assumes "prepare_request cmd q = Some (ws, q1)" and "Flush_request oc q1 = (ws', e, q2)"
  shows "rq_responded q2 = rq_responded q" "rq_ChanResponse q2 = rq_ChanResponse q"
  using assms
  by (auto simp: prepare_request_def PrepareForSet_def PrepareForGet_def PrepareForDel_def Flush_request_def Let_def
      split: if_splits option.splits)

lemma handle_client_request_result:
  assumes p: "pending r ch s" and w: "cn_chanWait (conns s c) = []"
  shows "\<exists>e s'. handle_client_request oc c r s = Some (e, s') \<and>
     (case e of
        None \<Rightarrow> kept r ch {c} s s'
      | Some _ \<Rightarrow> pending r ch s' \<and> answered s' = answered s \<and>
           (\<forall>d. cn_chanWait (conns s d) = [] \<longrightarrow> cn_chanWait (conns s' d) = []))"
proof -
  let ?q = "reqs s r"
  let ?cmd = "ToLower (rq_Cmd ?q)"
  let ?s = "if rq_EnableCollector ?q then log_Collect LogValidate ?cmd (ReqId (rq_Id ?q)) (ChunkId (rq_Id ?q)) s else s"
  have s: "conns ?s = conns s" "reqs ?s = reqs s" "answered ?s = answered s" by auto
  then have ps: "pending r ch ?s" using p by (simp add: pending_def)
  show ?thesis
  proof (cases "prepare_request ?cmd ?q")
    case None
    then show ?thesis
      using answer_req_pending [OF ps] s by (auto simp: handle_client_request_def Let_def kept_def)
  next
    case (Some x)
    obtain ws q1 ws' e q2 where x: "x = (ws, q1)" "Flush_request oc q1 = (ws', e, q2)"
      by (metis surj_pair)
    note k = prepare_request_keeps [OF Some [unfolded x(1)] x(2)]
    show ?thesis
      using p w Some x k s
      by (cases e) (auto simp: handle_client_request_def Let_def pending_def kept_def)
  qed
qed

lemma attempts_keep:
  assumes "list_all (\<lambda>v. \<exists>c. fst v = Some c \<and> cn_chanWait (conns s c) = []) vs" and "pending r ch s"
  shows "\<exists>err' s'. attempts vs err (CmdRequest r) s = Some (Inr (Tried err' s')) \<and>
     (case err' of
        None \<Rightarrow> kept r ch {c. \<exists>v \<in> set vs. fst v = Some c} s s' \<or> vs = []
      | Some _ \<Rightarrow> pending r ch s' \<and> answered s' = answered s)"
  using assms
proof (induction vs arbitrary: s err)
  case Nil
  then show ?case by (cases err) auto
next
  case (Cons v vs)
  then obtain c oc where v: "v = (Some c, oc)" "cn_chanWait (conns s c) = []" by (cases v) auto
  obtain e s' where h: "handle_client_request oc c r s = Some (e, s')"
    and e: "case e of None \<Rightarrow> kept r ch {c} s s'
      | Some _ \<Rightarrow> pending r ch s' \<and> answered s' = answered s \<and>
           (\<forall>d. cn_chanWait (conns s d) = [] \<longrightarrow> cn_chanWait (conns s' d) = [])"
    using handle_client_request_result [OF Cons.prems(2) v(2), of oc] by blast
  show ?case
  proof (cases e)
    case None
    then show ?thesis using h e v(1) by (auto simp: handleRequest_def kept_def)
  next
    case (Some er)
    have "list_all (\<lambda>v. \<exists>c. fst v = Some c \<and> cn_chanWait (conns s' c) = []) vs"
      using Cons.prems(1) e Some by (auto simp: list_all_iff)
    then obtain err' s'' where "attempts vs (Some er) (CmdRequest r) s' = Some (Inr (Tried err' s''))"
      "case err' of None \<Rightarrow> kept r ch {c. \<exists>v \<in> set vs. fst v = Some c} s' s'' \<or> vs = []
        | Some _ \<Rightarrow> pending r ch s'' \<and> answered s'' = answered s'"
      using Cons.IH [of s' "Some er"] e Some by auto
    moreover from this have "vs \<noteq> [] \<or> err' = Some er" by auto
    ultimately show ?thesis
      using h v(1) e Some by (cases err') (auto simp: handleRequest_def kept_def)
  qed
qed

lemma serve_command_keeps:
  assumes "\<And>k. k < MAX_RETRY \<Longrightarrow> \<exists>c. fst (vs k) = Some c \<and> cn_chanWait (conns s c) = []" and "pending r ch s"
  shows "\<exists>s'. serve_command i vs (CmdRequest r) s = Some (Inr (True, s')) \<and>
     kept r ch {c. \<exists>k < MAX_RETRY. fst (vs k) = Some c} s s'"
proof -
  define n where "n = (if cmd_Retriable (CmdRequest r) s then MAX_RETRY else 1)"
  have n: "n \<le> MAX_RETRY" "n \<noteq> 0" by (auto simp: n_def MAX_RETRY_def)
  have "list_all (\<lambda>v. \<exists>c. fst v = Some c \<and> cn_chanWait (conns s c) = []) (map vs [0..<n])"
    using assms(1) n(1) by (auto simp: list_all_iff)
  then obtain err s1 where a: "attempts (map vs [0..<n]) None (CmdRequest r) s = Some (Inr (Tried err s1))"
    and e: "case err of None \<Rightarrow> kept r ch {c. \<exists>v \<in> set (map vs [0..<n]). fst v = Some c} s s1 \<or> map vs [0..<n] = []
      | Some _ \<Rightarrow> pending r ch s1 \<and> answered s1 = answered s"
    using attempts_keep [OF _ assms(2)] by blast
  show ?thesis
  proof (cases err)
    case None
    then have "kept r ch {c. \<exists>v \<in> set (map vs [0..<n]). fst v = Some c} s s1" using e n by auto
    moreover have "{c. \<exists>v \<in> set (map vs [0..<n]). fst v = Some c} \<subseteq> {c. \<exists>k < MAX_RETRY. fst (vs k) = Some c}"
    proof (rule subsetI)
      fix c assume "c \<in> {c. \<exists>v \<in> set (map vs [0..<n]). fst v = Some c}"
      then obtain k where "k < n" "fst (vs k) = Some c" by auto
      then show "c \<in> {c. \<exists>k < MAX_RETRY. fst (vs k) = Some c}" using n(1) less_le_trans by blast
    qed
    ultimately have "kept r ch {c. \<exists>k < MAX_RETRY. fst (vs k) = Some c} s s1" unfolding kept_def by blast
    then have "kept r ch {c. \<exists>k < MAX_RETRY. fst (vs k) = Some c} s (upd_inst i warmUp s1)"
      by (simp add: kept_def pending_def)
    then show ?thesis using a None by (simp add: serve_command_def n_def [symmetric])
  next
    case (Some er)
    then show ?thesis
      using a e answer_req_pending [of r ch s1 "Failure er"]
      by (auto simp: serve_command_def n_def [symmetric] kept_def)
  qed
qed

text \<open>
  The number of attempts is fixed before the first one: a request whose body has been consumed by a failed
  attempt is sent again, although it is not retriable any more.
\<close>

lemma stream_sent_again:
  assumes q: "rq_BodyStream (reqs s r) = Some st" "ToLower (rq_Cmd (reqs s r)) = ''set''" "\<not> rq_streamingStarted (reqs s r)"
      "rq_Body (reqs s r) = None"
    and c: "c \<noteq> d" "cn_chanWait (conns s c) = []" "cn_chanWait (conns s d) = []"
    and v: "vs 0 = (Some c, \<lambda>k. if k = 1 then Some e else None)" "vs 1 = (Some d, \<lambda>k. None)"
  shows "\<exists>s'. serve_command i vs (CmdRequest r) s = Some (Inr (True, s')) \<and>
     CopyBulk st \<in> set (cn_w (conns s' c)) \<and> CopyBulk st \<in> set (cn_w (conns s' d)) \<and> \<not> Retriable (reqs s' r)"
proof -
  have r: "cmd_Retriable (CmdRequest r) s" using q by (simp add: cmd_Retriable_def Retriable_def)
  have "[0..<MAX_RETRY] = [0, 1, 2]" by (simp add: MAX_RETRY_def upt_rec)
  then show ?thesis
    using q c v r
    by (auto simp: serve_command_def handleRequest_def handle_client_request_def prepare_request_def PrepareForSet_def
        Flush_request_def Retriable_def Let_def)
qed

end

