(* ===== verification/LambdaConnection.thy ===== *)
theory LambdaConnection
  imports LambdaInstance
begin

text \<open>
  \<open>src/proxy/lambdastore/connection.go\<close>: the proxy's side of the connection to a Lambda.  Reading goes
  through the operations of a \<open>resp_reader\<close>, \<open>global.ReqMap\<close> is an abstract hash map from request
  ids to counters, \<open>Registry.Instance\<close> and the migrator's calls are parameters (record
  \<open>lambda_env\<close>).  Holding and releasing a body stream only synchronise the goroutines and are not
  modelled.  One iteration of \<open>ServeLambda\<close> is \<open>serve_once\<close>; the \<open>select\<close> between the closing signal and
  the peeked response is its argument \<open>pick\<close>.
\<close>

record lambda_env =
  Registry :: "uint64 \<Rightarrow> nat option"
  GetDestination :: "uint64 \<Rightarrow> error + Deployment"
  StartMigrator :: "uint64 \<Rightarrow> error + string"
  ServerIp :: string

definition NewConnection :: "'r \<Rightarrow> 'r Connection" where
  "NewConnection r =
     \<lparr>cn_instance = None, cn_r = r, cn_w = [], cn_chanWait = [], cn_closed = False, cn_netClosed = False\<rparr>"

section \<open>Answering the waiting requests\<close>

fun match_waiting ::
    "Response \<Rightarrow> nat list \<Rightarrow> ('m, 'r) lstore \<Rightarrow> (nat option \<times> bool) \<times> nat list \<times> ('m, 'r) lstore" where
  "match_waiting rsp [] s = ((None, False), [], s)"
| "match_waiting rsp (r # rs) s =
     (if IsResponse (reqs s r) rsp
      then (let (ok, s') = answer_req r (Answer rsp) s in ((Some r, ok), rs, s'))
      else match_waiting rsp rs (snd (answer_req r (Failure ErrMissingResponse) s)))"

definition conn_SetResponse ::
    "nat \<Rightarrow> Response \<Rightarrow> ('m, 'r) lstore \<Rightarrow> (nat option \<times> bool) \<times> ('m, 'r) lstore" where
  "conn_SetResponse c rsp s =
     (let (res, rs, s') = match_waiting rsp (cn_chanWait (conns s c)) s
      in (res, upd_conn c (\<lambda>cn. cn\<lparr>cn_chanWait := rs\<rparr>) s'))"

definition SetErrorResponse :: "nat \<Rightarrow> error \<Rightarrow> ('m, 'r) lstore \<Rightarrow> ('m, 'r) lstore" where
  "SetErrorResponse c e s =
     (case cn_chanWait (conns s c) of
        [] \<Rightarrow> s
      | r # rs \<Rightarrow> upd_conn c (\<lambda>cn. cn\<lparr>cn_chanWait := rs\<rparr>) (snd (answer_req r (Failure e) s)))"

text \<open>The loop over the requests that wait.\<close>

definition answer_each :: "answer \<Rightarrow> nat list \<Rightarrow> ('m, 'r) lstore \<Rightarrow> ('m, 'r) lstore" where
  "answer_each a rs s = fold (\<lambda>r s. snd (answer_req r a s)) rs s"

definition clearResponses :: "nat \<Rightarrow> ('m, 'r) lstore \<Rightarrow> ('m, 'r) lstore" where
  "clearResponses c s =
     upd_conn c (\<lambda>cn. cn\<lparr>cn_chanWait := []\<rparr>)
       (answer_each (Failure ErrConnectionClosed) (cn_chanWait (conns s c)) s)"

definition bye_conn :: "nat \<Rightarrow> ('m, 'r) lstore \<Rightarrow> ('m, 'r) lstore" where
  "bye_conn c s = (case cn_instance (conns s c) of None \<Rightarrow> s | Some i \<Rightarrow> bye_instance i c s)"

definition close_conn :: "nat \<Rightarrow> ('m, 'r) lstore \<Rightarrow> ('m, 'r) lstore" where
  "close_conn c s =
     clearResponses c (upd_conn c (\<lambda>cn. cn\<lparr>cn_netClosed := True\<rparr>) (bye_conn c (upd_conn c Close_conn s)))"

definition Ping :: "nat \<Rightarrow> ('m, 'r) lstore \<Rightarrow> ('m, 'r) lstore" where
  "Ping c s = upd_conn c (\<lambda>cn. cn\<lparr>cn_w := cn_w cn @ [WriteCmdString [''ping''], Flush]\<rparr>) s"

section \<open>Handlers of the Lambda's responses\<close>

definition conn_read :: "('r \<Rightarrow> 'a \<times> 'r) \<Rightarrow> nat \<Rightarrow> ('m, 'r) lstore \<Rightarrow> 'a \<times> ('m, 'r) lstore" where
  "conn_read f c s = (let (v, r) = f (cn_r (conns s c)) in (v, upd_conn c (\<lambda>cn. cn\<lparr>cn_r := r\<rparr>) s))"

definition read_string :: "'r resp_reader \<Rightarrow> nat \<Rightarrow> ('m, 'r) lstore \<Rightarrow> string \<times> ('m, 'r) lstore" where
  "read_string R = conn_read (\<lambda>r. ignore_err [] (rd_ReadBulkString R r))"

definition skip_bulk :: "'r resp_reader \<Rightarrow> nat \<Rightarrow> ('m, 'r) lstore \<Rightarrow> ('m, 'r) lstore" where
  "skip_bulk R c s = snd (conn_read (rd_SkipBulk R) c s)"

definition pongHandler ::
    "lambda_env \<Rightarrow> 'r resp_reader \<Rightarrow> nat \<Rightarrow> ('m, 'r) lstore \<Rightarrow> ('m, 'r) lstore res" where
  "pongHandler E R c s0 =
     (let (i, s) = conn_read (\<lambda>r. ignore_err 0 (rd_ReadInt R r)) c s0
      in case cn_instance (conns s c) of
           Some j \<Rightarrow> bindR (flagValidated j (Some c) s) (\<lambda>(_, s'). Inr s')
         | None \<Rightarrow>
             (case Registry E (word_of_int i) of
                None \<Rightarrow> Inr s
              | Some j \<Rightarrow> bindR (flagValidated j (Some c) s) (\<lambda>(_, s'). Inr s')))"

text \<open>The entry the collector gets when the answered request asked for it.\<close>

definition collect_proxy :: "Response \<Rightarrow> nat option \<times> bool \<Rightarrow> ('m, 'r) lstore \<Rightarrow> ('m, 'r) lstore" where
  "collect_proxy rsp res s =
     (case res of
        (Some r, True) \<Rightarrow>
          if rq_EnableCollector (reqs s r)
          then log_Collect LogProxy (rs_Cmd rsp) (ReqId (rs_Id rsp)) (ChunkId (rs_Id rsp)) s else s
      | _ \<Rightarrow> s)"

definition mk_response :: "string \<Rightarrow> string \<Rightarrow> string \<Rightarrow> string \<Rightarrow> Response" where
  "mk_response cmd connId reqId chunkId =
     \<lparr>rs_Id = \<lparr>ConnId = Atoi_value connId, ReqId = reqId, ChunkId = chunkId\<rparr>, rs_Cmd = cmd, rs_Body = None,
      rs_BodyStream = None, rs_w = False\<rparr>"

text \<open>The part of \<open>getHandler\<close> for a response that comes after enough chunks have been received.\<close>

definition get_abandon ::
    "('m, string, nat) hashmap \<Rightarrow> 'r resp_reader \<Rightarrow> nat \<Rightarrow> Response \<Rightarrow> ClientReqCounter \<Rightarrow> ('m, 'r) lstore \<Rightarrow>
     ('m, 'r) lstore" where
  "get_abandon H R c rsp cr s =
     (let (res, s1) = conn_SetResponse c rsp s;
          s2 = collect_proxy rsp res s1;
          s3 = (if sint (cr_Counter cr) = wrap_int (cr_DataShards cr + cr_ParityShards cr)
                then s2\<lparr>ReqMap := hm_Del H (ReqMap s2) (ReqId (rs_Id rsp))\<rparr> else s2)
      in skip_bulk R c s3)"

definition get_deliver :: "'r resp_reader \<Rightarrow> nat \<Rightarrow> Response \<Rightarrow> ('m, 'r) lstore \<Rightarrow> ('m, 'r) lstore res" where
  "get_deliver R c rsp s =
     (case conn_read (rd_StreamBulk R) c s of
        (Inl _, _) \<Rightarrow> Inl FailedTypeAssertion
      | (Inr st, s1) \<Rightarrow>
          let rsp' = rsp\<lparr>rs_BodyStream := Some st\<rparr>; (res, s2) = conn_SetResponse c rsp' s1
          in Inr (collect_proxy rsp' res s2))"

definition getHandler ::
    "('m, string, nat) hashmap \<Rightarrow> 'r resp_reader \<Rightarrow> nat \<Rightarrow> ('m, 'r) lstore \<Rightarrow> ('m, 'r) lstore res" where
  "getHandler H R c s0 =
     (let (connId, s1) = read_string R c s0; (reqId, s2) = read_string R c s1; (chunkId, s) = read_string R c s2
      in case hm_Get H (ReqMap s) reqId of
           None \<Rightarrow> Inr (skip_bulk R c s)
         | Some k \<Rightarrow>
             let rsp = mk_response ''get'' connId reqId chunkId;
                 cr = (counters s k)\<lparr>cr_Counter := cr_Counter (counters s k) + 1\<rparr>;
                 s' = s\<lparr>counters := (counters s)(k := cr)\<rparr>
             in if cr_DataShards cr < sint (cr_Counter cr) then Inr (get_abandon H R c rsp cr s')
                else get_deliver R c rsp s')"

definition setHandler :: "'r resp_reader \<Rightarrow> nat \<Rightarrow> ('m, 'r) lstore \<Rightarrow> ('m, 'r) lstore res" where
  "setHandler R c s0 =
     (case cn_instance (conns s0 c) of
        None \<Rightarrow> Inl NilDereference
      | Some i \<Rightarrow>
          let body = itoa (uint (d_id (in_dep (instances s0 i))));
              (connId, s1) = read_string R c s0; (reqId, s2) = read_string R c s1; (chunkId, s3) = read_string R c s2;
              rsp = (mk_response ''set'' connId reqId chunkId)\<lparr>rs_Body := Some body\<rparr>;
              (res, s4) = conn_SetResponse c rsp s3
          in Inr (collect_proxy rsp res s4))"

definition delHandler :: "'r resp_reader \<Rightarrow> nat \<Rightarrow> ('m, 'r) lstore \<Rightarrow> ('m, 'r) lstore" where
  "delHandler R c s0 =
     (let (connId, s1) = read_string R c s0; (reqId, s2) = read_string R c s1; (chunkId, s3) = read_string R c s2
      in snd (conn_SetResponse c (mk_response ''del'' connId reqId chunkId) s3))"

definition receiveData :: "'r resp_reader \<Rightarrow> nat \<Rightarrow> ('m, 'r) lstore \<Rightarrow> ('m, 'r) lstore res" where
  "receiveData R c s0 =
     (let (_, s1) = read_string R c s0; (_, s2) = read_string R c s1 in DataCollected_Done s2)"

definition initMigrateHandler :: "lambda_env \<Rightarrow> nat \<Rightarrow> ('m, 'r) lstore \<Rightarrow> ('m, 'r) lstore res" where
  "initMigrateHandler E c s =
     (case cn_instance (conns s c) of
        None \<Rightarrow> Inl NilDereference
      | Some i \<Rightarrow> bindR (Migrate_instance (GetDestination E) (StartMigrator E) (ServerIp E) i s) (\<lambda>(_, s'). Inr s'))"

section \<open>Serving the connection\<close>

definition dispatch ::
    "lambda_env \<Rightarrow> ('m, string, nat) hashmap \<Rightarrow> 'r resp_reader \<Rightarrow> nat \<Rightarrow> string \<Rightarrow> ('m, 'r) lstore \<Rightarrow> ('m, 'r) lstore res" where
  "dispatch E H R c cmd s =
     (if cmd = ''pong'' then pongHandler E R c s
      else if cmd = ''get'' then getHandler H R c s
      else if cmd = ''set'' then setHandler R c s
      else if cmd = ''del'' then Inr (delHandler R c s)
      else if cmd = ''data'' then receiveData R c s
      else if cmd = ''initMigrate'' then initMigrateHandler E c s
      else if cmd = ''bye'' then Inr (bye_conn c s)
      else Inr s)"

definition serve_response ::
    "lambda_env \<Rightarrow> ('m, string, nat) hashmap \<Rightarrow> 'r resp_reader \<Rightarrow> nat \<Rightarrow> resp_type \<Rightarrow> ('m, 'r) lstore \<Rightarrow> ('m, 'r) lstore res" where
  "serve_response E H R c ty s =
     (if ty = TypeError then
        (case conn_read (rd_ReadError R) c s of
           (Inl e, s1) \<Rightarrow> Inr (SetErrorResponse c (ErrOther (''Response error (Unknown): '' @ error_msg e)) s1)
         | (Inr str, s1) \<Rightarrow> Inr (SetErrorResponse c (ErrOther (''Response error: '' @ str)) s1))
      else
        (case conn_read (rd_ReadBulkString R) c s of
           (Inl e, s1) \<Rightarrow> if e = ErrEOF then dispatch E H R c [] (close_conn c s1) else Inr s1
         | (Inr cmd, s1) \<Rightarrow> dispatch E H R c cmd s1))"

text \<open>The result says whether the loop goes on.\<close>

definition serve_once ::
    "lambda_env \<Rightarrow> ('m, string, nat) hashmap \<Rightarrow> 'r resp_reader \<Rightarrow> bool \<Rightarrow> nat \<Rightarrow> ('m, 'r) lstore \<Rightarrow>
     (bool \<times> ('m, 'r) lstore) res" where
  "serve_once E H R pick c s =
     (if cn_closed (conns s c) \<and> pick \<and> cn_chanWait (conns s c) = [] then Inr (False, close_conn c s)
      else
        (case conn_read (rd_PeekType R) c s of
           (Inl e, s1) \<Rightarrow> Inr (False, close_conn c s1)
         | (Inr ty, s1) \<Rightarrow>
             bindR (serve_response E H R c ty s1) (\<lambda>s2.
               Inr (True, case cn_instance (conns s2 c) of None \<Rightarrow> s2 | Some i \<Rightarrow> upd_inst i warmUp s2))))"

section \<open>Every waiting request is answered\<close>

definition all_pending :: "(nat \<Rightarrow> nat) \<Rightarrow> nat list \<Rightarrow> ('m, 'r) lstore \<Rightarrow> bool" where
  "all_pending ch rs s \<longleftrightarrow> distinct rs \<and> (\<forall>r \<in> set rs. pending r (ch r) s)"

lemma all_pending_Cons:
  "all_pending ch (r # rs) s \<Longrightarrow>
     pending r (ch r) s \<and> r \<notin> set rs \<and> all_pending ch rs (snd (answer_req r a s))"
  using answer_req_pending [of r "ch r" s a] by (auto simp: all_pending_def pending_def)

lemma answer_req_Id: "rq_Id (reqs (snd (answer_req r a s)) r') = rq_Id (reqs s r')"
  "rq_Cmd (reqs (snd (answer_req r a s)) r') = rq_Cmd (reqs s r')"
  by (auto simp: answer_req_def SetResponse_def Let_def split: option.splits)

lemma answer_req_IsResponse: "IsResponse (reqs (snd (answer_req r a s)) r') rsp = IsResponse (reqs s r') rsp"
  by (simp add: IsResponse_def answer_req_Id)

lemma match_waiting_skips:
  assumes "all_pending ch (pre @ r # post) s"
    and "\<forall>p \<in> set pre. \<not> IsResponse (reqs s p) rsp" and "IsResponse (reqs s r) rsp"
  shows "\<exists>s'. match_waiting rsp (pre @ r # post) s = ((Some r, True), post, s') \<and> conns s' = conns s \<and>
     answered s' = answered s @ map (\<lambda>p. (ch p, Failure ErrMissingResponse)) pre @ [(ch r, Answer rsp)] \<and>
     all_pending ch post s'"
  using assms
proof (induction pre arbitrary: s)
  case Nil
  note p = all_pending_Cons [OF Nil(1) [simplified], of "Answer rsp"]
  then show ?case using Nil(3) answer_req_pending [of r "ch r" s "Answer rsp"] by auto
next
  case (Cons x pre)
  let ?s = "snd (answer_req x (Failure ErrMissingResponse) s)"
  note p = all_pending_Cons [OF Cons.prems(1) [simplified], of "Failure ErrMissingResponse"]
  have a: "answered ?s = answered s @ [(ch x, Failure ErrMissingResponse)]" "conns ?s = conns s"
    using answer_req_pending [of x "ch x" s] p by auto
  obtain s' where "match_waiting rsp (pre @ r # post) ?s = ((Some r, True), post, s')" "conns s' = conns ?s"
     "answered s' = answered ?s @ map (\<lambda>p. (ch p, Failure ErrMissingResponse)) pre @ [(ch r, Answer rsp)]"
     "all_pending ch post s'"
    using Cons.IH [of ?s] p Cons.prems(2,3) by (auto simp: answer_req_IsResponse)
  then show ?case using Cons.prems(2) a by auto
qed

lemma conn_SetResponse_skips:
  assumes "cn_chanWait (conns s c) = pre @ r # post" and "all_pending ch (pre @ r # post) s"
    and "\<forall>p \<in> set pre. \<not> IsResponse (reqs s p) rsp" and "IsResponse (reqs s r) rsp"
  shows "\<exists>s'. conn_SetResponse c rsp s = ((Some r, True), s') \<and> cn_chanWait (conns s' c) = post \<and>
     answered s' = answered s @ map (\<lambda>p. (ch p, Failure ErrMissingResponse)) pre @ [(ch r, Answer rsp)] \<and>
     all_pending ch post s'"
  using match_waiting_skips [OF assms(2-4)] assms(1)
  by (auto simp: conn_SetResponse_def all_pending_def pending_def)

lemma answer_each_Cons [simp]: "answer_each a (r # rs) s = answer_each a rs (snd (answer_req r a s))" "answer_each a [] s = s"
  by (simp_all add: answer_each_def)

lemma answer_each_conns [simp]: "conns (answer_each a rs s) = conns s"
  by (induction rs arbitrary: s) (simp_all add: answer_req_other)

lemma answer_each_responded: "rq_responded (reqs s x) \<Longrightarrow> rq_responded (reqs (answer_each a rs s) x)"
proof (induction rs arbitrary: s)
  case (Cons r rs)
  have "rq_responded (reqs (snd (answer_req r a s)) x)"
    using Cons.prems by (auto simp: answer_req_def SetResponse_def Let_def split: option.splits)
  then show ?case using Cons.IH by simp
qed simp

lemma answer_all:
  assumes "all_pending ch rs s"
  shows "answered (answer_each a rs s) = answered s @ map (\<lambda>r. (ch r, a)) rs \<and>
     (\<forall>r \<in> set rs. rq_responded (reqs (answer_each a rs s) r))"
  using assms
proof (induction rs arbitrary: s)
  case (Cons r rs)
  note p = all_pending_Cons [OF Cons.prems, of a]
  have a: "answered (snd (answer_req r a s)) = answered s @ [(ch r, a)]"
    using answer_req_pending [of r "ch r" s] p by auto
  show ?case
    using Cons.IH [of "snd (answer_req r a s)"] p a answer_each_responded [OF answer_req_responded] by auto
qed simp

lemma Close_conn_simps [simp]:
  "cn_chanWait (Close_conn cn) = cn_chanWait cn" "cn_closed (Close_conn cn)" "cn_instance (Close_conn cn) = cn_instance cn"
  "cn_r (Close_conn cn) = cn_r cn"
  by (simp_all add: Close_conn_def)

lemma bye_conn_simps [simp]:
  "reqs (bye_conn c s) = reqs s" "conns (bye_conn c s) = conns s" "answered (bye_conn c s) = answered s"
  "counters (bye_conn c s) = counters s" "ReqMap (bye_conn c s) = ReqMap s"
  by (auto simp: bye_conn_def bye_instance_def split: option.splits)

lemma close_conn_answers:
  assumes "all_pending ch (cn_chanWait (conns s c)) s"
  shows "cn_chanWait (conns (close_conn c s) c) = []" "cn_closed (conns (close_conn c s) c)"
    "answered (close_conn c s) = answered s @ map (\<lambda>r. (ch r, Failure ErrConnectionClosed)) (cn_chanWait (conns s c))"
    "\<forall>r \<in> set (cn_chanWait (conns s c)). rq_responded (reqs (close_conn c s) r)"
proof -
  let ?s = "upd_conn c (\<lambda>cn. cn\<lparr>cn_netClosed := True\<rparr>) (bye_conn c (upd_conn c Close_conn s))"
  have w: "cn_chanWait (conns ?s c) = cn_chanWait (conns s c)" "cn_closed (conns ?s c)" "answered ?s = answered s"
    by (auto simp: Close_conn_def)
  have p: "all_pending ch (cn_chanWait (conns ?s c)) ?s"
    using assms unfolding w by (simp add: all_pending_def pending_def)
  note a = answer_all [OF p, of "Failure ErrConnectionClosed", unfolded w]
  show "cn_chanWait (conns (close_conn c s) c) = []" "cn_closed (conns (close_conn c s) c)"
    "answered (close_conn c s) = answered s @ map (\<lambda>r. (ch r, Failure ErrConnectionClosed)) (cn_chanWait (conns s c))"
    "\<forall>r \<in> set (cn_chanWait (conns s c)). rq_responded (reqs (close_conn c s) r)"
    using a by (simp_all add: close_conn_def clearResponses_def)
qed

end
