(* ===== verification/Validation.thy ===== *)
theory Validation
  imports LambdaConnection
begin

text \<open>
  Validating a connection (\<open>Instance.validate\<close>, \<open>triggerLambda\<close>) as a step relation.  The instance number
  \<open>i\<close> is shared by the goroutines that call \<open>validate\<close> (\<open>HandleRequests\<close> and, once, the warm-up
  started by \<open>server.New\<close>), by the connections that answer a ping and by the goroutines that invoke
  the function.  Every section under a lock is one step, every unlocked read of the shared fields another
  one.  A channel evaluated by a waiting goroutine is its number \<open>vgen\<close>: a later call of \<open>validate\<close> that
  replaces \<open>chanValidated\<close> does not keep the waiters of the old channel.
\<close>

datatype vpc =
    VOut
  | VLoop bool
  | VTry bool
  | VNot bool
  | VFlag "nat option"
  | VSelect nat
  | VGo
  | VWait nat
  | VRead
  | VRet "nat option"
  | VPanic

record ('m, 'r) vsys =
  vstore :: "('m, 'r) lstore"
  pcs :: "nat \<Rightarrow> vpc"
  vgen :: nat
  running :: nat
  ending :: nat

definition goto :: "nat \<Rightarrow> vpc \<Rightarrow> ('m, 'r) vsys \<Rightarrow> ('m, 'r) vsys" where
  "goto p pc s = s\<lparr>pcs := (pcs s)(p := pc)\<rparr>"

definition vins :: "nat \<Rightarrow> ('m, 'r) vsys \<Rightarrow> Instance" where
  "vins i s = instances (vstore s) i"

definition vupd :: "nat \<Rightarrow> (Instance \<Rightarrow> Instance) \<Rightarrow> ('m, 'r) vsys \<Rightarrow> ('m, 'r) vsys" where
  "vupd i f s = s\<lparr>vstore := upd_inst i f (vstore s)\<rparr>"

text \<open>The channel with number \<open>g\<close> is closed.\<close>

definition validated_chan :: "nat \<Rightarrow> nat \<Rightarrow> ('m, 'r) vsys \<Rightarrow> bool" where
  "validated_chan i g s \<longleftrightarrow> g < vgen s \<or> \<not> in_validating (vins i s)"

inductive vstep :: "nat \<Rightarrow> ('m, 'r) vsys \<Rightarrow> ('m, 'r) vsys \<Rightarrow> bool" for i where
  Enter: "pcs s p = VOut \<Longrightarrow> validate_begin (vins i s) = (True, ins) \<Longrightarrow>
     vstep i s (goto p (VLoop w) (vupd i (\<lambda>_. ins) s)\<lparr>vgen := Suc (vgen s)\<rparr>)"
| EnterWait: "pcs s p = VOut \<Longrightarrow> validate_begin (vins i s) = (False, ins) \<Longrightarrow> vstep i s (goto p VGo s)"
| LoopSleep: "pcs s p = VLoop w \<Longrightarrow> in_awake (vins i s) = INSTANCE_SLEEP \<Longrightarrow> vstep i s (goto p (VTry w) s)"
| LoopAwake: "pcs s p = VLoop w \<Longrightarrow> in_awake (vins i s) \<noteq> INSTANCE_SLEEP \<Longrightarrow> vstep i s (goto p (VNot w) s)"
| Trigger: "pcs s p = VTry w \<Longrightarrow> tryTriggerLambda (vins i s) \<Longrightarrow> vstep i s (goto p VGo s\<lparr>running := Suc (running s)\<rparr>)"
| NoTrigger: "pcs s p = VTry w \<Longrightarrow> \<not> tryTriggerLambda (vins i s) \<Longrightarrow> vstep i s (goto p (VNot w) s)"
| WarmUpRead: "pcs s p = VNot True \<Longrightarrow> vstep i s (goto p (VFlag (in_cn (vins i s))) s)"
| WarmUp: "pcs s p = VFlag c \<Longrightarrow> flagValidated i c (vstore s) = Inr (r, st) \<Longrightarrow>
     vstep i s (goto p (VRet r) s\<lparr>vstore := st\<rparr>)"
| PingSent: "pcs s p = VNot False \<Longrightarrow> in_cn (vins i s) = Some c \<Longrightarrow>
     vstep i s (goto p (VSelect (vgen s)) s\<lparr>vstore := Ping c (vstore s)\<rparr>)"
| PingNil: "pcs s p = VNot False \<Longrightarrow> in_cn (vins i s) = None \<Longrightarrow> vstep i s (goto p VPanic s)"
| PingTimeout: "pcs s p = VSelect g \<Longrightarrow>
     vstep i s (goto p (VLoop False) (vupd i (\<lambda>ins. ins\<lparr>in_awake := INSTANCE_SLEEP\<rparr>) s))"
| Selected: "pcs s p = VSelect g \<Longrightarrow> validated_chan i g s \<Longrightarrow> vstep i s (goto p VGo s)"
| StartWait: "pcs s p = VGo \<Longrightarrow> vstep i s (goto p (VWait (vgen s)) s)"
| Waited: "pcs s p = VWait g \<Longrightarrow> validated_chan i g s \<Longrightarrow> vstep i s (goto p VRead s)"
| Returned: "pcs s p = VRead \<Longrightarrow> vstep i s (goto p (VRet (in_lastValidated (vins i s))) s)"
| Again: "pcs s p = VRet r \<Longrightarrow> vstep i s (goto p VOut s)"
| Pong: "flagValidated i (Some c) (vstore s) = Inr (r, st) \<Longrightarrow> vstep i s (s\<lparr>vstore := st\<rparr>)"
| Bye: "vstep i s (s\<lparr>vstore := bye_instance i c (vstore s)\<rparr>)"
| CloseIns: "vstep i s (s\<lparr>vstore := Close_instance i (vstore s)\<rparr>)"
| Invoked: "running s = Suc n \<Longrightarrow> \<not> in_validating (vins i s) \<Longrightarrow>
     vstep i s (s\<lparr>running := n, ending := Suc (ending s)\<rparr>)"
| Ended: "ending s = Suc n \<Longrightarrow> vstep i s (vupd i trigger_returned s\<lparr>ending := n\<rparr>)"

definition vinit :: "nat \<Rightarrow> ('m, 'r) vsys \<Rightarrow> bool" where
  "vinit i s \<longleftrightarrow> vins i s = NewInstance_of (in_dep (vins i s)) \<and> pcs s = (\<lambda>_. VOut)"

section \<open>What a pong does\<close>

lemma flagValidated_known:
  assumes "conn \<noteq> None \<or> in_cn (instances s i) = None"
  shows "\<exists>r s'. flagValidated i conn s = Inr (r, s') \<and> r = in_lastValidated (instances s' i) \<and>
     in_cn (instances s' i) = conn \<and> \<not> in_validating (instances s' i) \<and>
     in_closed (instances s' i) = in_closed (instances s i) \<and>
     in_lastValidated (instances s' i) =
       (if in_validating (instances s i) \<and> conn \<noteq> None then conn else in_lastValidated (instances s i))"
  using assms
  by (auto simp: flagValidated_def flagValidatedLocked_def warmUp_def Let_def split: option.splits)

lemma goto_simps [simp]:
  "vstore (goto p pc s) = vstore s" "pcs (goto p pc s) = (pcs s)(p := pc)" "vgen (goto p pc s) = vgen s"
  "vins i (goto p pc s) = vins i s" "vstore (vupd i f s) = upd_inst i f (vstore s)" "pcs (vupd i f s) = pcs s"
  "vins i (vupd i f s) = f (vins i s)" "vins i (s\<lparr>vstore := st\<rparr>) = instances st i"
  "vins i (s\<lparr>vgen := g\<rparr>) = vins i s" "vins i (s\<lparr>running := n\<rparr>) = vins i s" "vins i (s\<lparr>ending := n\<rparr>) = vins i s"
  "vgen (vupd i f s) = vgen s"
  by (simp_all add: goto_def vupd_def vins_def)

lemma Close_instance_simps [simp]:
  "in_cn (instances (Close_instance i s) i) = in_cn (instances s i)"
  "in_awake (instances (Close_instance i s) i) = in_awake (instances s i)"
  "in_closed (instances (Close_instance i s) i)"
  "in_lastValidated (instances (Close_instance i s) i) = in_lastValidated (instances s i)"
  by (auto simp: Close_instance_def flagValidatedLocked_def Let_def split: option.splits)

lemma Close_instance_validating: "in_validating (instances (Close_instance i s) i) \<Longrightarrow> in_validating (instances s i)"
  by (simp add: Close_instance_def flagValidatedLocked_def Let_def split: option.splits if_splits)

lemma bye_instance_simps [simp]:
  "in_cn (instances (bye_instance j c s) i) = in_cn (instances s i)"
  "in_closed (instances (bye_instance j c s) i) = in_closed (instances s i)"
  "in_validating (instances (bye_instance j c s) i) = in_validating (instances s i)"
  "in_lastValidated (instances (bye_instance j c s) i) = in_lastValidated (instances s i)"
  by (auto simp: bye_instance_def)

section \<open>A ping is sent on a connection\<close>

definition connected_inv :: "nat \<Rightarrow> ('m, 'r) vsys \<Rightarrow> bool" where
  "connected_inv i s \<longleftrightarrow>
     (in_awake (vins i s) \<noteq> INSTANCE_SLEEP \<longrightarrow> in_cn (vins i s) \<noteq> None) \<and>
     (\<forall>p w. pcs s p = VNot w \<longrightarrow> in_cn (vins i s) \<noteq> None) \<and> (\<forall>p. pcs s p \<noteq> VFlag None) \<and> (\<forall>p. pcs s p \<noteq> VPanic)"

lemma connected_inv_Ping:
  "in_awake (instances (Ping c st) i) = in_awake (instances st i)" "in_cn (instances (Ping c st) i) = in_cn (instances st i)"
  by (simp_all add: Ping_def)

lemma connected_inv_step: "vstep i s s' \<Longrightarrow> connected_inv i s \<Longrightarrow> connected_inv i s'"
proof (induction rule: vstep.induct)
  case (WarmUp s p c r st)
  then have "c \<noteq> None" by (cases c) (auto simp: connected_inv_def)
  then show ?case
    using WarmUp flagValidated_known [of c "vstore s" i] by (auto simp: connected_inv_def)
next
  case (Pong c s r st)
  then show ?case
    using flagValidated_known [of "Some c" "vstore s" i] by (auto simp: connected_inv_def)
qed (auto simp: connected_inv_def validate_begin_def tryTriggerLambda_def trigger_returned_def connected_inv_Ping
       bye_instance_def vins_def split: if_splits)

lemma connected_inv_init: "vinit i s \<Longrightarrow> connected_inv i s"
proof -
  assume "vinit i s"
  then obtain dp where "vins i s = NewInstance_of dp" "pcs s = (\<lambda>_. VOut)" unfolding vinit_def by blast
  then show ?thesis by (simp add: connected_inv_def NewInstance_of_def)
qed

lemma connected_inv_reachable: "(vstep i)\<^sup>*\<^sup>* s s' \<Longrightarrow> connected_inv i s \<Longrightarrow> connected_inv i s'"
  by (induction rule: rtranclp_induct) (auto intro: connected_inv_step)

section \<open>One validating goroutine\<close>

text \<open>Steps in which no goroutine but \<open>p\<close> is inside \<open>validate\<close>.\<close>

definition solo_step :: "nat \<Rightarrow> nat \<Rightarrow> ('m, 'r) vsys \<Rightarrow> ('m, 'r) vsys \<Rightarrow> bool" where
  "solo_step i p s s' \<longleftrightarrow> vstep i s s' \<and> (\<forall>q. q \<noteq> p \<longrightarrow> pcs s' q = VOut)"

definition solo_inv :: "nat \<Rightarrow> nat \<Rightarrow> ('m, 'r) vsys \<Rightarrow> bool" where
  "solo_inv i p s \<longleftrightarrow>
     (\<forall>q. q \<noteq> p \<longrightarrow> pcs s q = VOut) \<and>
     (pcs s p = VOut \<or> (\<exists>r. pcs s p = VRet r) \<or> in_validating (vins i s) \<or> in_closed (vins i s) \<or>
      in_lastValidated (vins i s) \<noteq> None) \<and>
     (pcs s p = VRet None \<longrightarrow> in_closed (vins i s)) \<and>
     (pcs s p = VRead \<longrightarrow> \<not> in_validating (vins i s)) \<and> (\<forall>g. pcs s p = VWait g \<longrightarrow> g = vgen s)"

lemma trigger_returned_simps [simp]:
  "in_cn (trigger_returned ins) = in_cn ins" "in_closed (trigger_returned ins) = in_closed ins"
  "in_validating (trigger_returned ins) = in_validating ins" "in_lastValidated (trigger_returned ins) = in_lastValidated ins"
  by (simp_all add: trigger_returned_def)

lemma validate_begin_True:
  "validate_begin ins = (True, ins') \<Longrightarrow> in_validating ins' \<and> in_closed ins' = in_closed ins"
  "validate_begin ins = (False, ins') \<Longrightarrow> in_validating ins"
  by (auto simp: validate_begin_def split: if_splits)

lemma solo_known:
  assumes "flagValidated i conn (vstore s) = Inr (r, st)" and "conn \<noteq> None" and "solo_inv i p s"
    and "pcs s p \<noteq> VOut"
  shows "in_closed (instances st i) = in_closed (vins i s)" "r = in_lastValidated (instances st i)"
    "(\<nexists>r. pcs s p = VRet r) \<Longrightarrow> in_closed (vins i s) \<or> in_lastValidated (instances st i) \<noteq> None"
  using flagValidated_known [of conn "vstore s" i] assms by (auto simp: solo_inv_def vins_def)

lemma pcs_simps [simp]: "pcs (s\<lparr>vstore := st\<rparr>) = pcs s" "pcs (s\<lparr>vgen := g\<rparr>) = pcs s"
  "pcs (s\<lparr>running := n\<rparr>) = pcs s" "pcs (s\<lparr>ending := n\<rparr>) = pcs s"
  by simp_all

lemma solo_inv_step:
  assumes step: "vstep i s s'" and only: "\<forall>q. q \<noteq> p \<longrightarrow> pcs s' q = VOut" and inv: "solo_inv i p s" and cn: "connected_inv i s"
  shows "solo_inv i p s'"
  using step
proof cases
  case (WarmUp q c r st)
  have q: "q = p" using WarmUp(2) inv by (auto simp: solo_inv_def)
  have c: "c \<noteq> None" using WarmUp(2) cn by (cases c) (auto simp: connected_inv_def)
  have n: "pcs s p \<noteq> VOut" "\<nexists>r. pcs s p = VRet r" using WarmUp(2) q by auto
  show ?thesis
    using WarmUp(1) only q solo_known [OF WarmUp(3) c inv n(1)] n(2) by (auto simp: solo_inv_def)
next
  case (Pong c r st)
  then show ?thesis
    using only inv flagValidated_known [of "Some c" "vstore s" i] by (auto simp: solo_inv_def vins_def)
next
  case (Enter q ins w)
  then show ?thesis using only inv validate_begin_True(1) [OF Enter(3)] by (auto simp: solo_inv_def)
next
  case (EnterWait q ins)
  then show ?thesis using only inv validate_begin_True(2) [OF EnterWait(3)] by (auto simp: solo_inv_def)
next
  case CloseIns
  then show ?thesis using only inv Close_instance_validating [of i "vstore s"] by (auto simp: solo_inv_def vins_def)
next
  case (Waited q g)
  then have "q = p" using inv by (auto simp: solo_inv_def)
  then show ?thesis using Waited only inv by (auto simp: solo_inv_def validated_chan_def)
next
  case (PingSent q c)
  then show ?thesis using only inv by (auto simp: solo_inv_def Ping_def vins_def split: if_splits)
next
  case (Bye c)
  then show ?thesis using only inv by (simp add: solo_inv_def vins_def)
next
  case (Returned q)
  then have "q = p" using inv by (auto simp: solo_inv_def)
  then show ?thesis using Returned only inv by (auto simp: solo_inv_def)
qed (use only inv in \<open>auto simp: solo_inv_def split: if_splits\<close>)

lemma solo_reachable:
  assumes "(solo_step i p)\<^sup>*\<^sup>* s s'" and "vinit i s"
  shows "solo_inv i p s' \<and> connected_inv i s'"
  using assms
proof (induction rule: rtranclp_induct)
  case base
  then show ?case using connected_inv_init by (auto simp: solo_inv_def vinit_def)
next
  case (step y z)
  then show ?case using solo_inv_step connected_inv_step unfolding solo_step_def by blast
qed

section \<open>Two validating goroutines\<close>

text \<open>
  A second call of \<open>validate\<close> that starts between the pong and the first caller's read of \<open>lastValidated\<close>
  takes the connection away from the first caller.
\<close>

lemma overtaken:
  assumes init: "vinit i s"
  shows "\<exists>s'. (vstep i)\<^sup>*\<^sup>* s s' \<and> pcs s' 0 = VRet None \<and> \<not> in_closed (vins i s')"
proof -
  let ?b = "\<lambda>ins::Instance. ins\<lparr>in_validating := True, in_lastValidated := None\<rparr>"
  obtain dp where new: "vins i s = NewInstance_of dp" "pcs s = (\<lambda>_. VOut)" using init unfolding vinit_def by blast
  define s1 where "s1 = goto 0 (VLoop False) (vupd i (\<lambda>_. ?b (vins i s)) s)\<lparr>vgen := Suc (vgen s)\<rparr>"
  have "\<not> in_validating (vins i s)" by (simp add: new NewInstance_of_def)
  then have e1: "vstep i s s1" unfolding s1_def by (intro vstep.Enter) (auto simp: new validate_begin_def)
  have i1: "vins i s1 = ?b (vins i s)" "pcs s1 = (\<lambda>_. VOut)(0 := VLoop False)" by (simp_all add: s1_def new)
  have a1: "in_awake (vins i s1) = INSTANCE_SLEEP" by (simp add: i1 new NewInstance_of_def)
  define s2 where "s2 = goto 0 (VTry False) s1"
  have e2: "vstep i s1 s2" unfolding s2_def by (rule vstep.LoopSleep) (use i1 a1 in auto)
  define s3 where "s3 = goto 0 VGo s2\<lparr>running := Suc (running s2)\<rparr>"
  have e3: "vstep i s2 s3"
    unfolding s3_def by (rule vstep.Trigger [of _ _ False]) (auto simp: s2_def tryTriggerLambda_def a1)
  define s4 where "s4 = goto 0 (VWait (vgen s3)) s3"
  have e4: "vstep i s3 s4" unfolding s4_def by (rule vstep.StartWait) (simp add: s3_def)
  obtain r st where f: "flagValidated i (Some 0) (vstore s4) = Inr (r, st)" "\<not> in_validating (instances st i)"
      "in_closed (instances st i) = in_closed (vins i s4)"
    using flagValidated_known [of "Some 0" "vstore s4" i] by (auto simp: vins_def)
  define s5 where "s5 = s4\<lparr>vstore := st\<rparr>"
  have e5: "vstep i s4 s5" unfolding s5_def by (rule vstep.Pong [OF f(1)])
  have p5: "pcs s5 = (\<lambda>_. VOut)(0 := VWait (vgen s3))" "vgen s5 = vgen s3"
    by (simp_all add: s5_def s4_def s3_def s2_def i1)
  define s6 where "s6 = goto 1 (VLoop True) (vupd i (\<lambda>_. ?b (vins i s5)) s5)\<lparr>vgen := Suc (vgen s5)\<rparr>"
  have e6: "vstep i s5 s6"
  proof -
    have "vins i s5 = instances st i" by (simp add: s5_def)
    then show ?thesis unfolding s6_def by (intro vstep.Enter) (use p5 f(2) in \<open>auto simp: validate_begin_def\<close>)
  qed
  define s7 where "s7 = goto 0 VRead s6"
  have e7: "vstep i s6 s7"
    unfolding s7_def by (rule vstep.Waited [of _ _ "vgen s3"]) (auto simp: s6_def p5 validated_chan_def)
  define s8 where "s8 = goto 0 (VRet (in_lastValidated (vins i s7))) s7"
  have e8: "vstep i s7 s8" unfolding s8_def by (rule vstep.Returned) (simp add: s7_def)
  have i7: "vins i s7 = ?b (vins i s5)" by (simp add: s7_def s6_def)
  have "in_closed (vins i s5) = in_closed (vins i s)"
    using f(3) by (simp add: s5_def s4_def s3_def s2_def i1)
  then have "\<not> in_closed (vins i s8)" by (simp add: s8_def i7 new NewInstance_of_def)
  moreover have "pcs s8 0 = VRet None" by (simp add: s8_def i7)
  moreover have "(vstep i)\<^sup>*\<^sup>* s s8"
    using e1 e2 e3 e4 e5 e6 e7 e8 by (meson rtranclp.rtrancl_into_rtrancl rtranclp.rtrancl_refl)
  ultimately show ?thesis by blast
qed

end
