(* ===== verification/GetReplies.thy ===== *)
theory GetReplies
  imports LambdaConnection
begin

text \<open>
  The answers to a GET.  The chunks of an object come from as many Lambdas; \<open>getHandler\<close> counts them in the
  entry that \<open>HandleGet\<close> made for the request.  The first \<open>DataShards\<close> answers carry the chunk to the client,
  the later ones an empty answer, and the last one removes the entry.
\<close>

section \<open>Reading fields\<close>

lemma upd_conn_twice [simp]: "upd_conn c f (upd_conn c g s) = upd_conn c (f \<circ> g) s"
  by (simp add: upd_conn_def)

lemma conn_read_reads:
  assumes "reads f fr val" and "fr (cn_r (conns s c)) = x # fs" and "val x = Some v"
  shows "\<exists>r. conn_read f c s = (Inr v, upd_conn c (\<lambda>cn. cn\<lparr>cn_r := r\<rparr>) s) \<and> fr r = fs"
  using reads_step [OF assms] by (auto simp: conn_read_def)

lemma read_string_frame:
  assumes "reader_ok R fr" and "fr (cn_r (conns s c)) = FBulk b # fs"
  shows "\<exists>r. read_string R c s = (b, upd_conn c (\<lambda>cn. cn\<lparr>cn_r := r\<rparr>) s) \<and> fr r = fs"
  using reads_step [OF reader_okD(3) [OF assms(1)] assms(2), of b] by (auto simp: read_string_def conn_read_def)

lemma read_three:
  assumes R: "reader_ok R fr" and fr: "fr (cn_r (conns s c)) = FBulk a # FBulk b # FBulk d # fs"
  shows "\<exists>s1 s2 r. read_string R c s = (a, s1) \<and> read_string R c s1 = (b, s2) \<and>
     read_string R c s2 = (d, upd_conn c (\<lambda>cn. cn\<lparr>cn_r := r\<rparr>) s) \<and> fr r = fs"
proof -
  obtain r1 where r1: "read_string R c s = (a, upd_conn c (\<lambda>cn. cn\<lparr>cn_r := r1\<rparr>) s)" "fr r1 = FBulk b # FBulk d # fs"
    using read_string_frame [OF R fr] by blast
  let ?s1 = "upd_conn c (\<lambda>cn. cn\<lparr>cn_r := r1\<rparr>) s"
  obtain r2 where r2: "read_string R c ?s1 = (b, upd_conn c (\<lambda>cn. cn\<lparr>cn_r := r2\<rparr>) ?s1)" "fr r2 = FBulk d # fs"
    using read_string_frame [OF R, of ?s1 c b] r1(2) by auto
  let ?s2 = "upd_conn c (\<lambda>cn. cn\<lparr>cn_r := r2\<rparr>) ?s1"
  obtain r3 where r3: "read_string R c ?s2 = (d, upd_conn c (\<lambda>cn. cn\<lparr>cn_r := r3\<rparr>) ?s2)" "fr r3 = fs"
    using read_string_frame [OF R, of ?s2 c d] r2(2) by auto
  have "upd_conn c (\<lambda>cn. cn\<lparr>cn_r := r3\<rparr>) ?s2 = upd_conn c (\<lambda>cn. cn\<lparr>cn_r := r3\<rparr>) s"
    by (simp add: upd_conn_def)
  then show ?thesis using r1 r2 r3 by metis
qed

section \<open>One answer\<close>

lemma conn_SetResponse_single:
  assumes "cn_chanWait (conns s c) = [r]" and "pending r ch s" and "IsResponse (reqs s r) rsp"
  shows "conn_SetResponse c rsp s =
     ((Some r, True), upd_conn c (\<lambda>cn. cn\<lparr>cn_chanWait := []\<rparr>)
        (s\<lparr>reqs := (reqs s)(r := (reqs s r)\<lparr>rq_responded := True, rq_ChanResponse := None\<rparr>), answered := answered s @ [(ch, Answer rsp)]\<rparr>))"
  using assms answer_req_pending [OF assms(2), of "Answer rsp"] by (simp add: conn_SetResponse_def)

lemma collect_proxy_simps [simp]:
  "conns (collect_proxy rsp res s) = conns s" "reqs (collect_proxy rsp res s) = reqs s"
  "answered (collect_proxy rsp res s) = answered s" "counters (collect_proxy rsp res s) = counters s"
  "ReqMap (collect_proxy rsp res s) = ReqMap s" "instances (collect_proxy rsp res s) = instances s"
  by (auto simp: collect_proxy_def split: option.splits bool.splits prod.splits)

text \<open>What handling one answer changes.\<close>

definition replied :: "nat \<Rightarrow> nat \<Rightarrow> nat \<Rightarrow> Response \<Rightarrow> ('m, 'r) lstore \<Rightarrow> ('m, 'r) lstore \<Rightarrow> bool" where
  "replied c r ch rsp s s' \<longleftrightarrow>
     cn_chanWait (conns s' c) = [] \<and> (\<forall>x. x \<noteq> c \<longrightarrow> conns s' x = conns s x) \<and> (\<forall>x. x \<noteq> r \<longrightarrow> reqs s' x = reqs s x) \<and>
     rq_responded (reqs s' r) \<and> answered s' = answered s @ [(ch, Answer rsp)]"

lemma get_deliver_ok:
  assumes R: "reader_ok R fr" and fr: "fr (cn_r (conns s c)) = FBulk b # fs"
    and w: "cn_chanWait (conns s c) = [r]" "pending r ch s" "IsResponse (reqs s r) rsp"
  shows "\<exists>s'. get_deliver R c rsp s = Inr s' \<and> fr (cn_r (conns s' c)) = fs \<and>
     replied c r ch (rsp\<lparr>rs_BodyStream := Some (NewInlineReader b)\<rparr>) s s' \<and> counters s' = counters s \<and> ReqMap s' = ReqMap s"
proof -
  obtain r' where r': "conn_read (rd_StreamBulk R) c s = (Inr (NewInlineReader b), upd_conn c (\<lambda>cn. cn\<lparr>cn_r := r'\<rparr>) s)" "fr r' = fs"
    using conn_read_reads [OF reader_okD(8) [OF R] fr] by auto
  let ?s = "upd_conn c (\<lambda>cn. cn\<lparr>cn_r := r'\<rparr>) s" and ?rsp = "rsp\<lparr>rs_BodyStream := Some (NewInlineReader b)\<rparr>"
  have "conn_SetResponse c ?rsp ?s =
     ((Some r, True), upd_conn c (\<lambda>cn. cn\<lparr>cn_chanWait := []\<rparr>)
        (?s\<lparr>reqs := (reqs ?s)(r := (reqs ?s r)\<lparr>rq_responded := True, rq_ChanResponse := None\<rparr>), answered := answered ?s @ [(ch, Answer ?rsp)]\<rparr>))"
    by (rule conn_SetResponse_single) (use w in \<open>auto simp: pending_def IsResponse_def\<close>)
  then show ?thesis using r' by (simp add: get_deliver_def replied_def Let_def)
qed

lemma get_abandon_ok:
  assumes R: "reader_ok R fr" and fr: "fr (cn_r (conns s c)) = FBulk b # fs"
    and w: "cn_chanWait (conns s c) = [r]" "pending r ch s" "IsResponse (reqs s r) rsp"
  shows "fr (cn_r (conns (get_abandon H R c rsp cr s) c)) = fs \<and> replied c r ch rsp s (get_abandon H R c rsp cr s) \<and>
     counters (get_abandon H R c rsp cr s) = counters s \<and>
     ReqMap (get_abandon H R c rsp cr s) =
       (if sint (cr_Counter cr) = wrap_int (cr_DataShards cr + cr_ParityShards cr)
        then hm_Del H (ReqMap s) (ReqId (rs_Id rsp)) else ReqMap s)"
proof -
  define t where "t = collect_proxy rsp (Some r, True) (snd (conn_SetResponse c rsp s))"
  define t' where "t' = (if sint (cr_Counter cr) = wrap_int (cr_DataShards cr + cr_ParityShards cr)
                then t\<lparr>ReqMap := hm_Del H (ReqMap t) (ReqId (rs_Id rsp))\<rparr> else t)"
  note cs = conn_SetResponse_single [OF w]
  have t': "conns t' = conns t" "reqs t' = reqs t" "answered t' = answered t" "counters t' = counters t"
    by (auto simp: t'_def)
  have t: "replied c r ch rsp s t" "counters t = counters s" "ReqMap t = ReqMap s" "fr (cn_r (conns t' c)) = FBulk b # fs"
    using fr by (simp_all add: t' t_def cs replied_def)
  obtain r' where r': "conn_read (rd_SkipBulk R) c t' = (Inr (), upd_conn c (\<lambda>cn. cn\<lparr>cn_r := r'\<rparr>) t')" "fr r' = fs"
    using conn_read_reads [OF reader_okD(9) [OF R] t(4)] by auto
  have "get_abandon H R c rsp cr s = skip_bulk R c t'" by (simp add: get_abandon_def cs t'_def t_def Let_def)
  then have "get_abandon H R c rsp cr s = upd_conn c (\<lambda>cn. cn\<lparr>cn_r := r'\<rparr>) t'"
    using r'(1) by (simp add: skip_bulk_def)
  then show ?thesis using t r'(2) t' by (auto simp: replied_def) (simp_all add: t'_def)
qed

lemma sint_counter: "n < 2 ^ 31 \<Longrightarrow> sint (word_of_nat n :: 32 word) = int n"
  by (subst signed_of_nat) (simp add: signed_take_bit_int_eq_self)

definition get_reply :: "bool \<Rightarrow> string \<Rightarrow> string \<Rightarrow> string \<Rightarrow> bytes \<Rightarrow> Response" where
  "get_reply full cid reqId chunk body =
     (mk_response ''get'' cid reqId chunk)\<lparr>rs_BodyStream := if full then Some (NewInlineReader body) else None\<rparr>"

lemma getHandler_ok:
  assumes R: "reader_ok R fr" and H: "hashmap_ok H"
    and fr: "fr (cn_r (conns s c)) = FBulk cid # FBulk reqId # FBulk chunk # FBulk body # rest"
    and k: "hm_Get H (ReqMap s) reqId = Some k"
    and n: "cr_Counter (counters s k) = word_of_nat n"
    and d: "cr_DataShards (counters s k) = int d" "cr_ParityShards (counters s k) = int p" "n < d + p" "d + p < 2 ^ 31"
    and w: "cn_chanWait (conns s c) = [r]" "pending r ch s" "IsResponse (reqs s r) (mk_response ''get'' cid reqId chunk)"
  shows "\<exists>s'. getHandler H R c s = Inr s' \<and> fr (cn_r (conns s' c)) = rest \<and>
     replied c r ch (get_reply (n < d) cid reqId chunk body) s s' \<and>
     counters s' = (counters s)(k := (counters s k)\<lparr>cr_Counter := word_of_nat (Suc n)\<rparr>) \<and>
     hm_Get H (ReqMap s') = (if d \<le> n \<and> Suc n = d + p then (hm_Get H (ReqMap s))(reqId := None) else hm_Get H (ReqMap s))"
proof -
  obtain s1 s2 r' where rd: "read_string R c s = (cid, s1)" "read_string R c s1 = (reqId, s2)"
     "read_string R c s2 = (chunk, upd_conn c (\<lambda>cn. cn\<lparr>cn_r := r'\<rparr>) s)" "fr r' = FBulk body # rest"
    using read_three [OF R fr] by blast
  let ?rsp = "mk_response ''get'' cid reqId chunk"
  let ?cr = "(counters s k)\<lparr>cr_Counter := cr_Counter (counters s k) + 1\<rparr>"
  define t where "t = (upd_conn c (\<lambda>cn. cn\<lparr>cn_r := r'\<rparr>) s)\<lparr>counters := (counters s)(k := ?cr)\<rparr>"
  have cr: "?cr = (counters s k)\<lparr>cr_Counter := word_of_nat (Suc n)\<rparr>" using n by (simp add: add.commute)
  have cnt: "sint (cr_Counter ?cr) = int (Suc n)"
    using d sint_counter [of "Suc n"] by (simp only: cr) simp
  have wr: "wrap_int (cr_DataShards ?cr + cr_ParityShards ?cr) = int (d + p)"
    using d by (simp add: wrap_int_id)
  have t: "fr (cn_r (conns t c)) = FBulk body # rest" "cn_chanWait (conns t c) = [r]" "pending r ch t"
      "IsResponse (reqs t r) ?rsp" "ReqMap t = ReqMap s" "counters t = (counters s)(k := ?cr)"
    using rd(4) w by (simp_all add: t_def pending_def)
  have rep: "replied c r ch x t s' = replied c r ch x s s'" for x s' by (auto simp: replied_def t_def)
  have run: "getHandler H R c s = (if d \<le> n then Inr (get_abandon H R c ?rsp ?cr t) else get_deliver R c ?rsp t)"
    using k cnt d(1) by (auto simp: getHandler_def rd t_def Let_def)
  show ?thesis
  proof (cases "d \<le> n")
    case True
    have x: "get_reply (n < d) cid reqId chunk body = ?rsp" using True by (simp add: get_reply_def mk_response_def)
    let ?g = "get_abandon H R c ?rsp ?cr t"
    have id: "ReqId (rs_Id ?rsp) = reqId" by (simp add: mk_response_def)
    note g = get_abandon_ok [OF R t(1-4), of H ?cr, unfolded cnt wr t(5,6) rep id of_nat_eq_iff]
    have "hm_Get H (ReqMap ?g) = (if d \<le> n \<and> Suc n = d + p then (hm_Get H (ReqMap s))(reqId := None) else hm_Get H (ReqMap s))"
      using g True hm_Get_Del [OF H] by simp
    moreover have "getHandler H R c s = Inr ?g" using run True by simp
    ultimately show ?thesis using g by (intro exI [of _ ?g]) (simp add: x cr del: of_nat_Suc)
  next
    case False
    then show ?thesis
      using get_deliver_ok [OF R t(1-4)] run by (auto simp: get_reply_def t rep cr)
  qed
qed

lemma serve_response_get:
  assumes R: "reader_ok R fr" and H: "hashmap_ok H"
    and fr: "fr (cn_r (conns s c)) = map FBulk [''get'', cid, reqId, chunk, body] @ rest"
    and k: "hm_Get H (ReqMap s) reqId = Some k" "cr_Counter (counters s k) = word_of_nat n"
    and d: "cr_DataShards (counters s k) = int d" "cr_ParityShards (counters s k) = int p" "n < d + p" "d + p < 2 ^ 31"
    and w: "cn_chanWait (conns s c) = [r]" "pending r ch s" "IsResponse (reqs s r) (mk_response ''get'' cid reqId chunk)"
  shows "\<exists>s'. serve_response E H R c TypeBulk s = Inr s' \<and> fr (cn_r (conns s' c)) = rest \<and>
     replied c r ch (get_reply (n < d) cid reqId chunk body) s s' \<and>
     counters s' = (counters s)(k := (counters s k)\<lparr>cr_Counter := word_of_nat (Suc n)\<rparr>) \<and>
     hm_Get H (ReqMap s') = (if d \<le> n \<and> Suc n = d + p then (hm_Get H (ReqMap s))(reqId := None) else hm_Get H (ReqMap s))"
proof -
  obtain r1 where r1: "conn_read (rd_ReadBulkString R) c s = (Inr ''get'', upd_conn c (\<lambda>cn. cn\<lparr>cn_r := r1\<rparr>) s)"
      "fr r1 = FBulk cid # FBulk reqId # FBulk chunk # FBulk body # rest"
    using conn_read_reads [OF reader_okD(3) [OF R], of s c "FBulk ''get''"] fr by auto
  let ?s = "upd_conn c (\<lambda>cn. cn\<lparr>cn_r := r1\<rparr>) s"
  have rep: "replied c r ch x ?s s' = replied c r ch x s s'" for x s' by (auto simp: replied_def)
  have "\<exists>s'. getHandler H R c ?s = Inr s' \<and> fr (cn_r (conns s' c)) = rest \<and>
     replied c r ch (get_reply (n < d) cid reqId chunk body) ?s s' \<and>
     counters s' = (counters ?s)(k := (counters ?s k)\<lparr>cr_Counter := word_of_nat (Suc n)\<rparr>) \<and>
     hm_Get H (ReqMap s') = (if d \<le> n \<and> Suc n = d + p then (hm_Get H (ReqMap ?s))(reqId := None) else hm_Get H (ReqMap ?s))"
    by (rule getHandler_ok [OF R H]) (use r1(2) k d w in \<open>simp_all add: pending_def\<close>)
  moreover have "serve_response E H R c TypeBulk s = getHandler H R c ?s"
    using r1(1) by (simp add: serve_response_def dispatch_def)
  moreover have "ReqMap ?s = ReqMap s" "counters ?s = counters s" by simp_all
  ultimately show ?thesis by (simp only: rep)
qed

section \<open>All answers\<close>

record get_item =
  gi_conn :: nat
  gi_req :: nat
  gi_chan :: nat
  gi_connId :: string
  gi_chunk :: string
  gi_body :: bytes

definition item_ready :: "('r \<Rightarrow> frame list) \<Rightarrow> string \<Rightarrow> get_item \<Rightarrow> ('m, 'r) lstore \<Rightarrow> bool" where
  "item_ready fr reqId x s \<longleftrightarrow>
     (\<exists>rest. fr (cn_r (conns s (gi_conn x))) = map FBulk [''get'', gi_connId x, reqId, gi_chunk x, gi_body x] @ rest) \<and>
     cn_chanWait (conns s (gi_conn x)) = [gi_req x] \<and> pending (gi_req x) (gi_chan x) s \<and>
     IsResponse (reqs s (gi_req x)) (mk_response ''get'' (gi_connId x) reqId (gi_chunk x))"

fun get_replies ::
    "lambda_env \<Rightarrow> ('m, string, nat) hashmap \<Rightarrow> 'r resp_reader \<Rightarrow> nat list \<Rightarrow> ('m, 'r) lstore \<Rightarrow> ('m, 'r) lstore res" where
  "get_replies E H R [] s = Inr s"
| "get_replies E H R (c # cs) s = bindR (serve_response E H R c TypeBulk s) (get_replies E H R cs)"

definition item_answer :: "nat \<Rightarrow> string \<Rightarrow> nat \<times> get_item \<Rightarrow> nat \<times> answer" where
  "item_answer d reqId = (\<lambda>(j, x). (gi_chan x, Answer (get_reply (j < d) (gi_connId x) reqId (gi_chunk x) (gi_body x))))"

lemma item_ready_replied:
  assumes "item_ready fr reqId y s" and "replied c r ch rsp s s'" and "gi_conn y \<noteq> c" and "gi_req y \<noteq> r"
  shows "item_ready fr reqId y s'"
  using assms by (simp add: item_ready_def replied_def pending_def)

lemma get_replies_ok:
  assumes R: "reader_ok R fr" and H: "hashmap_ok H"
    and "hm_Get H (ReqMap s) reqId = Some k" and "cr_Counter (counters s k) = word_of_nat n"
    and "cr_DataShards (counters s k) = int d" "cr_ParityShards (counters s k) = int p"
    and "n + length xs \<le> d + p" "d + p < 2 ^ 31"
    and "distinct (map gi_conn xs)" "distinct (map gi_req xs)" "\<forall>x \<in> set xs. item_ready fr reqId x s"
  shows "\<exists>s'. get_replies E H R (map gi_conn xs) s = Inr s' \<and>
     answered s' = answered s @ map (item_answer d reqId) (enumerate n xs) \<and>
     (hm_Get H (ReqMap s') reqId = None \<longleftrightarrow> xs \<noteq> [] \<and> 0 < p \<and> n + length xs = d + p)"
  using assms(3-)
proof (induction xs arbitrary: s n)
  case Nil
  then show ?case by simp
next
  case (Cons x xs)
  obtain rest where fr: "fr (cn_r (conns s (gi_conn x))) = map FBulk [''get'', gi_connId x, reqId, gi_chunk x, gi_body x] @ rest"
    and w: "cn_chanWait (conns s (gi_conn x)) = [gi_req x]" "pending (gi_req x) (gi_chan x) s"
      "IsResponse (reqs s (gi_req x)) (mk_response ''get'' (gi_connId x) reqId (gi_chunk x))"
    using Cons.prems(9) by (auto simp: item_ready_def)
  have lt: "n < d + p" using Cons.prems(5) by simp
  obtain s1 where s1: "serve_response E H R (gi_conn x) TypeBulk s = Inr s1"
      "replied (gi_conn x) (gi_req x) (gi_chan x) (get_reply (n < d) (gi_connId x) reqId (gi_chunk x) (gi_body x)) s s1"
      "counters s1 = (counters s)(k := (counters s k)\<lparr>cr_Counter := word_of_nat (Suc n)\<rparr>)"
      "hm_Get H (ReqMap s1) = (if d \<le> n \<and> Suc n = d + p then (hm_Get H (ReqMap s))(reqId := None) else hm_Get H (ReqMap s))"
    using serve_response_get [OF R H fr Cons.prems(1-4) lt Cons.prems(6) w, of E] by blast
  have a: "answered s1 = answered s @ [item_answer d reqId (n, x)]"
    using s1(2) by (simp add: replied_def item_answer_def)
  show ?case
  proof (cases "xs = []")
    case True
    then show ?thesis
      using s1(1,4) a Cons.prems(1) lt by (auto simp: enumerate_eq_zip)
  next
    case False
    then have more: "Suc n < d + p" using Cons.prems(5) by (cases xs) auto
    have rdy: "\<forall>y \<in> set xs. item_ready fr reqId y s1"
      using item_ready_replied [OF _ s1(2)] Cons.prems(7-9) by (metis distinct.simps(2) image_eqI list.map(2) list.set_intros(2) set_map)
    obtain s2 where "get_replies E H R (map gi_conn xs) s1 = Inr s2"
      "answered s2 = answered s1 @ map (item_answer d reqId) (enumerate (Suc n) xs)"
      "hm_Get H (ReqMap s2) reqId = None \<longleftrightarrow> xs \<noteq> [] \<and> 0 < p \<and> Suc n + length xs = d + p"
      using Cons.IH [of s1 "Suc n"] Cons.prems more rdy s1(3,4) by auto
    then show ?thesis using s1(1) a False by auto
  qed
qed

end
