(* ===== verification/LambdaStorage.thy ===== *)
theory LambdaStorage
  imports Resp "HOL-Library.AList" "HOL-Library.Multiset"
begin

text \<open>
  \<open>src/lambda/types/types.go\<close>, \<open>src/lambda/types/response.go\<close> and \<open>src/lambda/storage/storage.go\<close>: the
  chunk store of a Lambda function and the response it writes.  The Go map \<open>repo\<close> is an association
  list without duplicate keys; the order in which \<open>range\<close> visits it is a parameter of \<open>Keys\<close>.  A nil
  body (a deleted chunk) is \<open>None\<close>.  \<open>time.Now()\<close> is an argument.
\<close>

section \<open>Types\<close>

definition OP_SET :: int where "OP_SET = 0"
definition OP_GET :: int where "OP_GET = 1"
definition OP_DEL :: int where "OP_DEL = 2"
definition OP_WARMUP :: int where "OP_WARMUP = 90"
definition OP_MIGRATION :: int where "OP_MIGRATION = 91"

record Chunk =
  c_Key :: string
  c_Id :: string
  c_Body :: "bytes option"
  c_Accessed :: int

definition NewChunk :: "int \<Rightarrow> string \<Rightarrow> bytes \<Rightarrow> Chunk" where
  "NewChunk now i b = \<lparr>c_Key = [], c_Id = i, c_Body = Some b, c_Accessed = now\<rparr>"

definition Access :: "int \<Rightarrow> Chunk \<Rightarrow> Chunk \<times> bytes option" where
  "Access now c = (c\<lparr>c_Accessed := now\<rparr>, c_Body c)"

record ResponseError =
  re_msg :: string
  re_StatusCode :: int

definition NewResponseError :: "int \<Rightarrow> string \<Rightarrow> ResponseError" where
  "NewResponseError status msg = \<lparr>re_msg = msg, re_StatusCode = status\<rparr>"

definition re_Status :: "ResponseError \<Rightarrow> string" where
  "re_Status e = itoa (re_StatusCode e)"

section \<open>The response of a Lambda\<close>

record LResponse =
  lr_Cmd :: string
  lr_ConnId :: string
  lr_ReqId :: string
  lr_ChunkId :: string
  lr_Val :: string
  lr_Body :: "bytes option"
  lr_BodyStream :: "rstream option"

definition Prepare :: "LResponse \<Rightarrow> wcall list" where
  "Prepare r =
     [AppendBulkString (lr_Cmd r), AppendBulkString (lr_ConnId r), AppendBulkString (lr_ReqId r),
      AppendBulkString (lr_ChunkId r)]
     @ (if 0 < length (lr_Val r) then [AppendBulkString (lr_Val r)] else [])"

definition PrepareByResponse ::
    "'r resp_reader \<Rightarrow> LResponse \<Rightarrow> 'r \<Rightarrow> (error + LResponse \<times> wcall list) \<times> 'r" where
  "PrepareByResponse R x r =
     bindS (rd_ReadBulkString R r) (\<lambda>cmd r. bindS (rd_ReadBulkString R r) (\<lambda>conn r.
     bindS (rd_ReadBulkString R r) (\<lambda>req r. bindS (rd_ReadBulkString R r) (\<lambda>chunk r.
     bindS (rd_StreamBulk R r) (\<lambda>st r.
       let y = x\<lparr>lr_Cmd := cmd, lr_ConnId := conn, lr_ReqId := req, lr_ChunkId := chunk, lr_BodyStream := Some st\<rparr>
       in (Inr (y, Prepare y), r))))))"

text \<open>\<open>werr\<close> decides whether a copy to or a flush of the connection fails.\<close>

definition Flush_response :: "(wcall \<Rightarrow> error option) \<Rightarrow> LResponse \<Rightarrow> wcall list \<times> error option" where
  "Flush_response werr r =
     (let copy = (case lr_Body r of
                    Some b \<Rightarrow> [CopyBulk (NewInlineReader b)]
                  | None \<Rightarrow> (case lr_BodyStream r of Some st \<Rightarrow> [CopyBulk st] | None \<Rightarrow> []))
      in case copy of
           [w] \<Rightarrow> (case werr w of Some e \<Rightarrow> ([w], Some e) | None \<Rightarrow> ([w, Flush], werr Flush))
         | _ \<Rightarrow> ([Flush], werr Flush))"

section \<open>The store\<close>

type_synonym repo = "(string \<times> Chunk) list"

definition New_storage :: repo where
  "New_storage = []"

definition Storage_Get :: "int \<Rightarrow> string \<Rightarrow> repo \<Rightarrow> (error + string \<times> bytes) \<times> repo" where
  "Storage_Get now key s =
     (case map_of s key of
        None \<Rightarrow> (Inl ErrNotFound, s)
      | Some c \<Rightarrow>
          (case c_Body c of
             None \<Rightarrow> (Inl ErrNotFound, s)
           | Some b \<Rightarrow> (Inr (c_Id c, b), AList.update key (fst (Access now c)) s)))"

definition Storage_Del :: "int \<Rightarrow> string \<Rightarrow> string \<Rightarrow> repo \<Rightarrow> error option \<times> repo" where
  "Storage_Del now key chunkId s =
     (case map_of s key of
        None \<Rightarrow> (Some ErrNotFound, s)
      | Some c \<Rightarrow> (None, AList.update key ((fst (Access now c))\<lparr>c_Body := None\<rparr>) s))"

definition Storage_GetStream :: "int \<Rightarrow> string \<Rightarrow> repo \<Rightarrow> (error + string \<times> rstream) \<times> repo" where
  "Storage_GetStream now key s =
     (case Storage_Get now key s of
        (Inl e, s') \<Rightarrow> (Inl e, s')
      | (Inr (i, b), s') \<Rightarrow> (Inr (i, NewInlineReader b), s'))"

definition Storage_Set :: "int \<Rightarrow> string \<Rightarrow> string \<Rightarrow> bytes \<Rightarrow> repo \<Rightarrow> repo" where
  "Storage_Set now key chunkId val s = AList.update key ((NewChunk now chunkId val)\<lparr>c_Key := key\<rparr>) s"

definition Storage_SetStream :: "int \<Rightarrow> string \<Rightarrow> string \<Rightarrow> rstream \<Rightarrow> repo \<Rightarrow> error option \<times> repo" where
  "Storage_SetStream now key chunkId st s =
     (case st_ReadAll st of
        Inl e \<Rightarrow> (Some (ErrOther (''Error on read stream: '' @ error_msg e)), s)
      | Inr val \<Rightarrow> (None, Storage_Set now key chunkId val s))"

definition Storage_Len :: "repo \<Rightarrow> nat" where
  "Storage_Len s = length s"

text \<open>\<open>all\<close> is the order in which \<open>range\<close> produced the chunks; ties keep that order here.\<close>

definition Storage_Keys :: "(repo \<Rightarrow> Chunk list) \<Rightarrow> repo \<Rightarrow> string list" where
  "Storage_Keys range_order s = map c_Key (sort_key (\<lambda>c. - c_Accessed c) (range_order s))"

section \<open>The contract of a chunk store\<close>

definition repo_wf :: "repo \<Rightarrow> bool" where
  "repo_wf s \<longleftrightarrow> distinct (map fst s) \<and> (\<forall>k c. map_of s k = Some c \<longrightarrow> c_Key c = k)"

lemma repo_wf_update: "repo_wf s \<Longrightarrow> c_Key c = k \<Longrightarrow> repo_wf (AList.update k c s)"
  by (auto simp: repo_wf_def distinct_update update_conv')

lemma repo_wf_New: "repo_wf New_storage"
  by (simp add: repo_wf_def New_storage_def)

lemma repo_wf_Set: "repo_wf s \<Longrightarrow> repo_wf (Storage_Set now k i v s)"
  by (simp add: Storage_Set_def repo_wf_update)

lemma repo_wf_Get: "repo_wf s \<Longrightarrow> repo_wf (snd (Storage_Get now k s))"
  by (auto simp: Storage_Get_def Access_def repo_wf_def [of s] intro!: repo_wf_update split: option.splits)

lemma repo_wf_Del: "repo_wf s \<Longrightarrow> repo_wf (snd (Storage_Del now k i s))"
  by (auto simp: Storage_Del_def Access_def repo_wf_def [of s] intro!: repo_wf_update split: option.splits)

text \<open>
  What the handlers of the Lambda rely on.  \<open>view\<close> is the value a \<open>Get\<close> would return; times are not
  part of it.
\<close>

locale chunk_store =
  fixes get :: "int \<Rightarrow> string \<Rightarrow> 's \<Rightarrow> (error + string \<times> bytes) \<times> 's"
    and put :: "int \<Rightarrow> string \<Rightarrow> string \<Rightarrow> bytes \<Rightarrow> 's \<Rightarrow> 's"
    and del :: "int \<Rightarrow> string \<Rightarrow> string \<Rightarrow> 's \<Rightarrow> error option \<times> 's"
    and view :: "'s \<Rightarrow> string \<Rightarrow> (string \<times> bytes) option"
  assumes get_value: "fst (get t k s) = (case view s k of None \<Rightarrow> Inl ErrNotFound | Some v \<Rightarrow> Inr v)"
    and get_view: "view (snd (get t k s)) = view s"
    and set_view: "view (put t k i b s) = (view s)(k \<mapsto> (i, b))"
    and del_view: "view (snd (del t k i s)) = (view s)(k := None)"
begin

lemma get_after_set: "fst (get t' k' (put t k i b s)) = (if k' = k then Inr (i, b) else fst (get t' k' s))"
  by (simp add: get_value set_view)

lemma get_after_del: "fst (get t' k' (snd (del t k i s))) = (if k' = k then Inl ErrNotFound else fst (get t' k' s))"
  by (simp add: get_value del_view)

lemma get_twice: "fst (get t' k (snd (get t k s))) = fst (get t k s)"
  by (simp add: get_value get_view)

end

definition repo_view :: "repo \<Rightarrow> string \<Rightarrow> (string \<times> bytes) option" where
  "repo_view s k = Option.bind (map_of s k) (\<lambda>c. map_option (Pair (c_Id c)) (c_Body c))"

lemma repo_view_update:
  "repo_view (AList.update k c s) = (repo_view s)(k := map_option (Pair (c_Id c)) (c_Body c))"
  by (auto simp: repo_view_def update_conv')

interpretation lstore: chunk_store Storage_Get Storage_Set Storage_Del repo_view
proof unfold_locales
  fix t k s
  show "fst (Storage_Get t k s) = (case repo_view s k of None \<Rightarrow> Inl ErrNotFound | Some v \<Rightarrow> Inr v)"
    by (auto simp: Storage_Get_def repo_view_def split: option.splits bind_split)
  show "repo_view (snd (Storage_Get t k s)) = repo_view s"
    by (auto simp: Storage_Get_def repo_view_update Access_def fun_eq_iff split: option.splits)
       (auto simp: repo_view_def)
next
  fix t k i b s
  show "repo_view (Storage_Set t k i b s) = (repo_view s)(k \<mapsto> (i, b))"
    by (simp add: Storage_Set_def repo_view_update NewChunk_def)
next
  fix t k i s
  show "repo_view (snd (Storage_Del t k i s)) = (repo_view s)(k := None)"
    by (auto simp: Storage_Del_def repo_view_update fun_eq_iff split: option.splits)
       (auto simp: repo_view_def)
qed

section \<open>Keys\<close>

text \<open>\<open>range\<close> visits every entry of the map once, in an order of its own.\<close>

definition range_ok :: "(repo \<Rightarrow> Chunk list) \<Rightarrow> bool" where
  "range_ok f \<longleftrightarrow> (\<forall>s. mset (f s) = mset (map snd s))"

lemma map_c_Key: "repo_wf s \<Longrightarrow> map (c_Key \<circ> snd) s = map fst s"
  by (auto simp: repo_wf_def intro!: map_cong)

lemma Storage_Keys_complete:
  assumes "repo_wf s" "range_ok f"
  shows "mset (Storage_Keys f s) = mset (map fst s)" "distinct (Storage_Keys f s)"
    "length (Storage_Keys f s) = Storage_Len s"
proof -
  have "mset (Storage_Keys f s) = image_mset c_Key (mset (map snd s))"
    using assms(2) unfolding Storage_Keys_def range_ok_def by (metis mset_map mset_sort)
  then show m: "mset (Storage_Keys f s) = mset (map fst s)"
    using map_c_Key [OF assms(1)] by (metis list.map_comp mset_map)
  show "distinct (Storage_Keys f s)"
    using m assms(1) by (metis mset_eq_imp_distinct_iff repo_wf_def)
  show "length (Storage_Keys f s) = Storage_Len s"
    using m by (metis Storage_Len_def length_map size_mset)
qed

lemma Storage_Keys_recent_first:
  assumes "repo_wf s" "range_ok f" "i < j" "j < length (Storage_Keys f s)"
    and "map_of s (Storage_Keys f s ! i) = Some a" "map_of s (Storage_Keys f s ! j) = Some b"
  shows "c_Accessed b \<le> c_Accessed a"
proof -
  let ?cs = "sort_key (\<lambda>c. - c_Accessed c) (f s)"
  have len: "j < length ?cs" using assms(4) by (simp add: Storage_Keys_def)
  have mem: "c \<in> snd ` set s" if "c \<in> set ?cs" for c
    using that assms(2) by (metis range_ok_def list.set_map set_mset_mset set_sort)
  have at: "c = ?cs ! k" if "k < length ?cs" "map_of s (Storage_Keys f s ! k) = Some c" for k c
  proof -
    have "?cs ! k \<in> snd ` set s" using mem that(1) nth_mem by blast
    then obtain key where "(key, ?cs ! k) \<in> set s" by auto
    moreover then have "map_of s key = Some (?cs ! k)" using assms(1) by (simp add: repo_wf_def)
    ultimately have "map_of s (c_Key (?cs ! k)) = Some (?cs ! k)" using assms(1) by (auto simp: repo_wf_def)
    then show ?thesis using that by (simp add: Storage_Keys_def)
  qed
  have "sorted (map (\<lambda>c. - c_Accessed c) ?cs)" by simp
  then have "- c_Accessed (?cs ! i) \<le> - c_Accessed (?cs ! j)"
    using sorted_nth_mono [of "map (\<lambda>c. - c_Accessed c) ?cs" i j] assms(3) len by simp
  then show ?thesis using at [of i a] at [of j b] assms(3,5,6) len by simp
qed

end
