(* ===== verification/MigratorClient.thy ===== *)
theory MigratorClient
  imports LambdaStorage
begin

text \<open>
  \<open>src/lambda/migrator/client.go\<close> (but for \<open>Migrate\<close>, which is in \<open>StorageAdapter\<close>) and
  \<open>src/lambda/migrator/intercept_reader.go\<close>: the client of a migration.  Its channel \<open>ready\<close> holds at most
  one error; receiving from the closed, empty channel yields nil.  An operation that would wait on the
  channel has the outcome \<open>None\<close>.  Dialling and invoking the destination are outcomes passed as
  arguments; deadlines are not modelled.
\<close>

section \<open>The ready channel\<close>

record Client =
  cl_cn :: "nat option"
  cl_cnClosed :: bool
  cl_buf :: "error option"
  cl_closed :: bool
  cl_w :: "wcall list option"

definition NewClient :: Client where
  "NewClient = \<lparr>cl_cn = None, cl_cnClosed = False, cl_buf = None, cl_closed = False, cl_w = None\<rparr>"

text \<open>\<open>recv\<close>: \<open>None\<close> when the channel is open and empty.\<close>

definition recv_ready :: "Client \<Rightarrow> (error option \<times> Client) option" where
  "recv_ready c =
     (case cl_buf c of
        Some e \<Rightarrow> Some (Some e, c\<lparr>cl_buf := None\<rparr>)
      | None \<Rightarrow> if cl_closed c then Some (None, c) else None)"

definition send_ready :: "error \<Rightarrow> Client \<Rightarrow> Client res option" where
  "send_ready e c =
     (if cl_closed c then Some (Inl SendOnClosedChannel)
      else case cl_buf c of Some _ \<Rightarrow> None | None \<Rightarrow> Some (Inr (c\<lparr>cl_buf := Some e\<rparr>)))"

text \<open>\<open>Initiate\<close> up to the final receive; \<open>ini\<close> is what the initiator returns.\<close>

definition Initiate_begin :: "error option \<Rightarrow> Client \<Rightarrow> error option \<times> Client" where
  "Initiate_begin ini c =
     (case ini of
        Some e \<Rightarrow> (Some e, c)
      | None \<Rightarrow>
          (case recv_ready c of
             None \<Rightarrow> (None, c)
           | Some (None, c') \<Rightarrow> (None, c'\<lparr>cl_closed := False, cl_buf := None\<rparr>)
           | Some (Some _, c') \<Rightarrow> (None, c')))"

definition Connect :: "error + nat \<Rightarrow> Client \<Rightarrow> (error option \<times> Client) res option" where
  "Connect dial c =
     (case dial of
        Inr cn \<Rightarrow> Some (Inr (None, c\<lparr>cl_cn := Some cn, cl_cnClosed := False\<rparr>))
      | Inl e \<Rightarrow> map_option (\<lambda>r. bindR r (\<lambda>c'. Inr (Some e, c'))) (send_ready e (c\<lparr>cl_cn := None\<rparr>)))"

definition TriggerDestination :: "error + int \<Rightarrow> Client \<Rightarrow> (error option \<times> Client) res option" where
  "TriggerDestination invoke c =
     (let err = (case invoke of
                   Inl e \<Rightarrow> Some e
                 | Inr status \<Rightarrow>
                     if 300 \<le> status
                     then Some (ErrOther (''Unexpected http code on triggering destination of migration: '' @ itoa status))
                     else None)
      in case err of
           None \<Rightarrow> Some (Inr (None, c))
         | Some e \<Rightarrow> map_option (\<lambda>r. bindR r (\<lambda>c'. Inr (Some e, c'))) (send_ready e c))"

definition SetError :: "error \<Rightarrow> Client \<Rightarrow> Client res option" where
  "SetError e c =
     (case recv_ready c of
        Some (None, c') \<Rightarrow> Some (Inr c')
      | Some (Some _, c') \<Rightarrow> send_ready e c'
      | None \<Rightarrow> send_ready e c)"

definition SetReady :: "Client \<Rightarrow> Client res" where
  "SetReady c =
     (case recv_ready c of
        Some (_, c') \<Rightarrow> Inr c'
      | None \<Rightarrow> if cl_closed c then Inl CloseOfClosedChannel else Inr (c\<lparr>cl_closed := True\<rparr>))"

definition IsReady :: "Client \<Rightarrow> (bool \<times> Client) res option" where
  "IsReady c =
     (case recv_ready c of
        None \<Rightarrow> Some (Inr (False, c))
      | Some (None, c') \<Rightarrow> Some (Inr (True, c'))
      | Some (Some e, c') \<Rightarrow> map_option (\<lambda>r. bindR r (\<lambda>c''. Inr (False, c''))) (send_ready e c'))"

definition Close_client :: "Client \<Rightarrow> Client res" where
  "Close_client c = (case cl_cn c of None \<Rightarrow> Inl NilDereference | Some _ \<Rightarrow> Inr (c\<lparr>cl_cnClosed := True\<rparr>))"

text \<open>\<open>err\<close> is the outcome of serving the migration connection; the deferred \<open>Close\<close> comes last.\<close>

definition WaitForMigration :: "error option \<Rightarrow> Client \<Rightarrow> Client res option" where
  "WaitForMigration err c =
     (case err of
        None \<Rightarrow> Some (Close_client c)
      | Some e \<Rightarrow>
          (case IsReady c of
             None \<Rightarrow> None
           | Some (Inl p) \<Rightarrow> Some (Inl p)
           | Some (Inr (True, c')) \<Rightarrow> Some (Close_client c')
           | Some (Inr (False, c')) \<Rightarrow>
               map_option (\<lambda>r. bindR r Close_client)
                 (send_ready (if e = ErrEOF then ErrClosedPrematurely else e) c')))"

section \<open>Sending\<close>

text \<open>The calls \<open>Send\<close> makes; \<open>oc\<close> gives the outcomes of \<open>CopyBulk\<close> (0) and \<open>Flush\<close> (1).\<close>

definition send_calls :: "string \<Rightarrow> rstream option \<Rightarrow> string list \<Rightarrow> wcall list" where
  "send_calls cmd stream args =
     WriteMultiBulkSize (int (length args) + (if stream = None then 1 else 2)) # WriteBulkString cmd # map WriteBulkString args
     @ (case stream of None \<Rightarrow> [] | Some st \<Rightarrow> [CopyBulk st])"

definition Send :: "(nat \<Rightarrow> error option) \<Rightarrow> string \<Rightarrow> rstream option \<Rightarrow> string list \<Rightarrow> wcall list \<times> error option" where
  "Send oc cmd stream args =
     (case (if stream = None then None else oc 0) of
        Some e \<Rightarrow> (send_calls cmd stream args, Some e)
      | None \<Rightarrow> (send_calls cmd stream args @ [Flush], oc 1))"

lemma frames_bulks: "frames (map WriteBulkString args) = map FBulk args"
  by (induction args) simp_all

lemma Send_framed:
  assumes "stream = None \<and> b = [] \<or> (\<exists>st v. stream = Some st \<and> st_ReadAll st = Inr v \<and> b = [v])"
    and "\<And>k. oc k = None"
  shows "snd (Send oc cmd stream args) = None" "well_framed (frames (fst (Send oc cmd stream args))) (cmd # args @ b)"
  using assms by (auto simp: Send_def send_calls_def well_framed_def frames_bulks)

section \<open>The state of the channel\<close>

text \<open>The channel is never both closed and full.\<close>

definition client_wf :: "Client \<Rightarrow> bool" where
  "client_wf c \<longleftrightarrow> \<not> (cl_closed c \<and> cl_buf c \<noteq> None)"

datatype readiness = NotReady | Ready | Failed error

definition status :: "Client \<Rightarrow> readiness" where
  "status c = (case cl_buf c of Some e \<Rightarrow> Failed e | None \<Rightarrow> if cl_closed c then Ready else NotReady)"

lemma client_wf_New: "client_wf NewClient" "status NewClient = NotReady"
  by (simp_all add: client_wf_def status_def NewClient_def)

lemma cl_buf_again: "cl_buf c = Some e \<Longrightarrow> c\<lparr>cl_buf := Some e\<rparr> = c"
  by (cases c) simp

lemma IsReady_ok:
  assumes "client_wf c"
  shows "IsReady c = Some (Inr (status c = Ready, c))"
proof (cases "cl_buf c")
  case None
  then show ?thesis by (simp add: IsReady_def recv_ready_def status_def)
next
  case (Some e)
  then have "\<not> cl_closed c" using assms by (simp add: client_wf_def)
  then have "IsReady c = Some (Inr (False, c\<lparr>cl_buf := Some e\<rparr>))"
    unfolding IsReady_def recv_ready_def send_ready_def Some by simp
  then show ?thesis unfolding cl_buf_again [OF Some] status_def Some by simp
qed

lemma SetReady_ok:
  assumes "client_wf c"
  shows "\<exists>c'. SetReady c = Inr c' \<and> client_wf c' \<and>
     status c' = (case status c of NotReady \<Rightarrow> Ready | Ready \<Rightarrow> Ready | Failed _ \<Rightarrow> NotReady)"
  using assms by (cases "cl_buf c"; cases "cl_closed c")
    (simp_all add: client_wf_def SetReady_def recv_ready_def status_def)

lemma SetError_ok:
  assumes "client_wf c"
  shows "\<exists>c'. SetError e c = Some (Inr c') \<and> client_wf c' \<and> status c' = (if status c = Ready then Ready else Failed e)"
  using assms by (cases "cl_buf c"; cases "cl_closed c")
    (simp_all add: client_wf_def SetError_def recv_ready_def send_ready_def status_def)

lemma Initiate_begin_ok:
  assumes "client_wf c" and "Initiate_begin ini c = (err, c')"
  shows "client_wf c'" "err = ini" "ini = None \<Longrightarrow> status c' = NotReady"
  using assms by (auto simp: client_wf_def Initiate_begin_def recv_ready_def status_def split: option.splits if_splits)

lemma WaitForMigration_ok:
  assumes "client_wf c" and "cl_cn c \<noteq> None" and "\<And>e'. err \<noteq> None \<Longrightarrow> status c \<noteq> Failed e'"
  shows "\<exists>c'. WaitForMigration err c = Some (Inr c') \<and> client_wf c' \<and> cl_cnClosed c' \<and>
     status c' = (case err of
        None \<Rightarrow> status c
      | Some e \<Rightarrow> if status c = Ready then Ready else Failed (if e = ErrEOF then ErrClosedPrematurely else e))"
proof (cases err)
  case None
  then show ?thesis
    using assms by (auto simp: WaitForMigration_def Close_client_def client_wf_def status_def)
next
  case (Some e)
  then have "cl_buf c = None" using assms(3) by (cases "cl_buf c") (auto simp: status_def)
  then show ?thesis
    using Some assms(1,2) by (cases "cl_closed c")
      (auto simp: WaitForMigration_def IsReady_ok Close_client_def client_wf_def send_ready_def status_def)
qed

section \<open>Intercepting a stream\<close>

record InterceptReader =
  ir_stream :: rstream
  ir_buf :: bytes
  ir_r :: nat
  ir_lastError :: "error option"

definition NewInterceptReader :: "rstream option \<Rightarrow> InterceptReader res" where
  "NewInterceptReader st =
     (case st of
        None \<Rightarrow> Inl NilDereference
      | Some s \<Rightarrow>
          if st_Len s < 0 then Inl MakeLenOutOfRange
          else Inr \<lparr>ir_stream = s, ir_buf = replicate (nat (st_Len s)) (CHR 0x00), ir_r = 0, ir_lastError = None\<rparr>)"

text \<open>Go's \<open>copy(buf[r:], src)\<close>.\<close>

definition copy_at :: "bytes \<Rightarrow> nat \<Rightarrow> bytes \<Rightarrow> bytes" where
  "copy_at buf r src = take r buf @ take (length buf - r) src @ drop (r + length src) buf"

text \<open>\<open>Read\<close> when the underlying \<open>Read\<close> returned the bytes \<open>p\<close> and the error \<open>err\<close>.\<close>

definition ir_Read :: "bytes \<times> error option \<Rightarrow> InterceptReader \<Rightarrow> InterceptReader res" where
  "ir_Read pe ir =
     (let (p, err) = pe; ir1 = ir\<lparr>ir_lastError := err\<rparr>
      in if p = [] then Inr ir1
         else if length (ir_buf ir) < ir_r ir then Inl SliceOutOfRange
         else Inr (ir1\<lparr>ir_buf := copy_at (ir_buf ir) (ir_r ir) p, ir_r := ir_r ir + length p\<rparr>))"

fun ir_Reads :: "(bytes \<times> error option) list \<Rightarrow> InterceptReader \<Rightarrow> InterceptReader res" where
  "ir_Reads [] ir = Inr ir"
| "ir_Reads (x # xs) ir = bindR (ir_Read x ir) (ir_Reads xs)"

text \<open>\<open>ReadAll\<close> is the method of the embedded stream: it does not pass through \<open>Read\<close>.\<close>

definition ir_ReadAll :: "InterceptReader \<Rightarrow> (error + bytes) \<times> InterceptReader" where
  "ir_ReadAll ir = (st_ReadAll (ir_stream ir), ir)"

definition Intercepted :: "InterceptReader \<Rightarrow> bytes" where
  "Intercepted ir = ir_buf ir"

definition LastError :: "InterceptReader \<Rightarrow> error option" where
  "LastError ir = ir_lastError ir"

lemma ir_Reads_prefix:
  assumes "ir_buf ir = pre @ replicate k z" and "ir_r ir = length pre" and "length (concat (map fst xs)) \<le> k"
    and "\<forall>x \<in> set xs. snd x = None" and "ir_lastError ir = None"
  shows "\<exists>ir'. ir_Reads xs ir = Inr ir' \<and> ir_lastError ir' = None \<and>
     ir_buf ir' = pre @ concat (map fst xs) @ replicate (k - length (concat (map fst xs))) z"
  using assms
proof (induction xs arbitrary: ir pre k)
  case Nil
  then show ?case by simp
next
  case (Cons x xs)
  obtain p where x: "x = (p, None)" using Cons.prems(4) by (cases x) auto
  show ?case
  proof (cases "p = []")
    case True
    then have "ir_Read x ir = Inr (ir\<lparr>ir_lastError := None\<rparr>)" by (simp add: ir_Read_def x)
    then show ?thesis using Cons.IH [of "ir\<lparr>ir_lastError := None\<rparr>" pre k] Cons.prems True x by simp
  next
    case False
    let ?ir = "ir\<lparr>ir_lastError := None, ir_buf := copy_at (ir_buf ir) (ir_r ir) p, ir_r := ir_r ir + length p\<rparr>"
    have r: "ir_Read x ir = Inr ?ir" using False Cons.prems(1,2) by (simp add: ir_Read_def x)
    have "ir_buf ?ir = (pre @ p) @ replicate (k - length p) z"
      using Cons.prems(1-3) by (simp add: copy_at_def x)
    then show ?thesis
      using Cons.IH [of ?ir "pre @ p" "k - length p"] Cons.prems r by (simp add: x)
  qed
qed

lemma intercept_all:
  assumes "st_Len st = int (length b)" and "concat (map fst xs) = b" and "\<forall>x \<in> set xs. snd x = None"
  shows "\<exists>ir. bindR (NewInterceptReader (Some st)) (ir_Reads xs) = Inr ir \<and> LastError ir = None \<and> Intercepted ir = b"
  using ir_Reads_prefix [of "\<lparr>ir_stream = st, ir_buf = replicate (length b) (CHR 0x00), ir_r = 0, ir_lastError = None\<rparr>" "[]" "length b" "CHR 0x00" xs]
    assms by (auto simp: NewInterceptReader_def LastError_def Intercepted_def)

end
