(* ===== verification/GoFloat.thy ===== *)
theory GoFloat
  imports Prelude
begin

text \<open>
  The \<open>float64\<close> arithmetic of the program: \<open>math.Ceil(float64(a) / float64(b))\<close> on integers
  (\<open>src/lambda/lifetime/timeout.go\<close>, \<open>src/deploy/deploy_function.go\<close>), and the \<open>int64\<close> durations
  of package \<open>time\<close>.

  A finite \<open>float64\<close> is \<open>Double m e\<close>, the number \<open>m * 2 ^ e\<close> with a significand of at most 53 bits;
  conversion and division round to the nearest such number, ties to even, as IEEE 754 has it.
  Operands here are integers below \<open>2 ^ 64\<close>, far from overflow and from the subnormal numbers; the divisor is not 0.
  The theorem about them, \<open>ceil_div_exact\<close>: below \<open>2 ^ 53\<close> the two roundings do not change the
  ceiling of the quotient.
\<close>

section \<open>Rounding\<close>

function bitlen :: "int \<Rightarrow> nat" where
  "bitlen n = (if n \<le> 0 then 0 else Suc (bitlen (n div 2)))"
  by pat_completeness auto
termination by (relation "measure nat") auto

declare bitlen.simps [simp del]

definition round_even :: "int \<Rightarrow> int \<Rightarrow> int" where
  "round_even a b =
     (let d = a div b; r = a mod b
      in if 2 * r < b then d else if b < 2 * r then d + 1 else if even d then d else d + 1)"

definition float64 :: "int \<Rightarrow> int" where
  "float64 x = (let k = bitlen \<bar>x\<bar> - 53 in sgn x * (round_even \<bar>x\<bar> (2 ^ k) * 2 ^ k))"

datatype double = Double int int

definition scaled :: "(int \<Rightarrow> int \<Rightarrow> int) \<Rightarrow> int \<Rightarrow> int \<Rightarrow> int \<Rightarrow> int" where
  "scaled f a b s = (if 0 \<le> s then f (a * 2 ^ nat s) b else f a (b * 2 ^ nat (- s)))"

definition exponent :: "int \<Rightarrow> int \<Rightarrow> int" where
  "exponent a b =
     (let s = 53 + int (bitlen b) - int (bitlen a)
      in if 2 ^ 53 \<le> scaled (div) a b s then s - 1 else s)"

definition fdiv :: "int \<Rightarrow> int \<Rightarrow> double" where
  "fdiv a b =
     (if a = 0 then Double 0 0
      else let s = exponent \<bar>a\<bar> \<bar>b\<bar> in Double (sgn a * sgn b * scaled round_even \<bar>a\<bar> \<bar>b\<bar> s) (- s))"

fun math_Ceil :: "double \<Rightarrow> int" where
  "math_Ceil (Double m e) = (if 0 \<le> e then m * 2 ^ nat e else - ((- m) div 2 ^ nat (- e)))"

definition ceil_div64 :: "int \<Rightarrow> int \<Rightarrow> int" where
  "ceil_div64 a b = math_Ceil (fdiv (float64 a) (float64 b))"

definition ceil_div :: "int \<Rightarrow> int \<Rightarrow> int" where
  "ceil_div a b = - ((- a) div b)"

section \<open>The quotient below \<open>2 ^ 53\<close>\<close>

lemma bitlen_upper: "n < 2 ^ bitlen n"
proof (induction n rule: bitlen.induct)
  case (1 n)
  then show ?case by (subst bitlen.simps) auto
qed

lemma bitlen_lower: "0 < n \<Longrightarrow> 2 ^ bitlen n \<le> 2 * n"
proof (induction n rule: bitlen.induct)
  case (1 n)
  show ?case
  proof (cases "0 < n div 2")
    case False
    then have "n = 1" using 1(2) by linarith
    then show ?thesis by (simp add: bitlen.simps)
  next
    case True
    then have "2 ^ bitlen (n div 2) \<le> 2 * (n div 2)" using 1 by simp
    then show ?thesis using 1(2) by (subst bitlen.simps) auto
  qed
qed

lemma bitlen_le: "n < 2 ^ k \<Longrightarrow> bitlen n \<le> k"
proof (rule ccontr)
  assume n: "n < 2 ^ k" and "\<not> bitlen n \<le> k"
  then have k: "Suc k \<le> bitlen n" by simp
  then have "0 < n" by (auto simp: bitlen.simps split: if_splits)
  have "(2::int) ^ Suc k \<le> 2 ^ bitlen n" using k by (rule power_increasing) simp
  then show False using bitlen_lower [OF \<open>0 < n\<close>] n by simp
qed

lemma round_even_one [simp]: "round_even a 1 = a"
  by (simp add: round_even_def Let_def)

lemma round_even_near:
  assumes "0 < b"
  shows "2 * a - b \<le> 2 * (round_even a b * b)" "2 * (round_even a b * b) \<le> 2 * a + b"
proof -
  define d r where "d = a div b" and "r = a mod b"
  have *: "a = d * b + r" "0 \<le> r" "r < b" using assms by (simp_all add: d_def r_def)
  have "round_even a b = (if 2 * r < b then d else if b < 2 * r then d + 1 else if even d then d else d + 1)"
    by (simp add: round_even_def d_def r_def Let_def)
  then show "2 * a - b \<le> 2 * (round_even a b * b)" "2 * (round_even a b * b) \<le> 2 * a + b"
    using * by (auto simp: algebra_simps split: if_splits)
qed

lemma round_even_upper:
  assumes "0 < b" "a \<le> n * b"
  shows "round_even a b \<le> n"
proof -
  have "2 * (round_even a b * b) \<le> 2 * (n * b) + b" using round_even_near(2) [OF assms(1), of a] assms(2) by linarith
  then have "2 * (round_even a b - n) * b \<le> 1 * b" by (simp add: algebra_simps)
  then have "2 * (round_even a b - n) \<le> 1" using assms(1) by (rule mult_right_le_imp_le)
  then show ?thesis by presburger
qed

lemma float64_exact: "\<bar>x\<bar> < 2 ^ 53 \<Longrightarrow> float64 x = x"
proof -
  assume "\<bar>x\<bar> < 2 ^ 53"
  then have "bitlen \<bar>x\<bar> - 53 = 0" using bitlen_le [of "\<bar>x\<bar>" 53] by simp
  then show ?thesis by (simp add: float64_def sgn_mult_abs)
qed


lemma scaled_div_ge:
  assumes "0 < b" "c \<le> scaled (div) a b s"
  shows "c * b * 2 ^ nat (- s) \<le> a * 2 ^ nat s"
proof (cases "0 \<le> s")
  case True
  have "c * b \<le> (a * 2 ^ nat s) div b * b" using assms True by (simp add: scaled_def)
  also have "\<dots> \<le> a * 2 ^ nat s" using assms(1) by (metis div_mult_mod_eq le_add_same_cancel1 pos_mod_sign)
  finally show ?thesis using True by simp
next
  case False
  let ?q = "b * 2 ^ nat (- s)"
  have q: "0 < ?q" using assms(1) by simp
  have "c * ?q \<le> a div ?q * ?q" using assms False by (simp add: scaled_def)
  also have "\<dots> \<le> a" using q by (metis div_mult_mod_eq le_add_same_cancel1 pos_mod_sign)
  finally show ?thesis using False by (simp add: mult.assoc)
qed

lemma exponent_lower:
  assumes "0 < a" "0 < b"
  shows "2 ^ 52 * b * 2 ^ nat (- exponent a b) \<le> a * 2 ^ nat (exponent a b)"
proof -
  define A B where "A = bitlen a" and "B = bitlen b"
  define s where "s = 53 + int B - int A"
  have ab: "2 ^ A \<le> 2 * a" "b \<le> 2 ^ B"
    unfolding A_def B_def using bitlen_lower [OF assms(1)] bitlen_upper [of b] by auto
  have s0: "2 ^ 52 * b * 2 ^ nat (- s) \<le> a * 2 ^ nat s"
  proof -
    have "2 * (2 ^ 52 * b * 2 ^ nat (- s)) \<le> 2 * (2 ^ 52 * 2 ^ B * 2 ^ nat (- s))" using ab(2) by simp
    also have "\<dots> = 2 ^ (53 + B + nat (- s))" by (simp add: power_add)
    also have "53 + B + nat (- s) = A + nat s" unfolding s_def by linarith
    also have "(2::int) ^ (A + nat s) = 2 ^ A * 2 ^ nat s" by (simp add: power_add)
    also have "\<dots> \<le> 2 * a * 2 ^ nat s" using ab(1) by simp
    finally show ?thesis by simp
  qed
  have s1: "2 ^ 52 * b * 2 ^ nat (- (s - 1)) \<le> a * 2 ^ nat (s - 1)" if "2 ^ 53 \<le> scaled (div) a b s"
  proof (cases "0 < s")
    case True
    then have "nat s = Suc (nat (s - 1))" by linarith
    then have "2 ^ nat s = 2 * (2 ^ nat (s - 1) :: int)" by simp
    then show ?thesis using scaled_div_ge [OF assms(2) that] True by simp
  next
    case False
    then have "nat (- (s - 1)) = Suc (nat (- s))" by linarith
    then have "2 ^ nat (- (s - 1)) = 2 * (2 ^ nat (- s) :: int)" by simp
    then show ?thesis using scaled_div_ge [OF assms(2) that] False by simp
  qed
  have "exponent a b = (if 2 ^ 53 \<le> scaled (div) a b s then s - 1 else s)"
    by (simp add: exponent_def s_def A_def B_def Let_def)
  then show ?thesis using s0 s1 by auto
qed

lemma ceil_div_unique:
  assumes "0 < b" "(n - 1) * b < a" "a \<le> n * b"
  shows "ceil_div a b = n"
proof -
  have "(- a) div b = - n"
    by (rule int_div_pos_eq [where r = "n * b - a"]) (use assms in \<open>auto simp: algebra_simps\<close>)
  then show ?thesis by (simp add: ceil_div_def)
qed

lemma ceil_div_bounds:
  assumes "0 < b"
  shows "(ceil_div a b - 1) * b < a" "a \<le> ceil_div a b * b"
proof -
  define q where "q = (- a) div b"
  have "- a = q * b + (- a) mod b" "0 \<le> (- a) mod b" "(- a) mod b < b" using assms by (simp_all add: q_def)
  then have "- a - q * b < b" "q * b \<le> - a" by linarith+
  then show "(ceil_div a b - 1) * b < a" "a \<le> ceil_div a b * b"
    by (simp_all add: ceil_div_def q_def [symmetric] algebra_simps)
qed

theorem ceil_div_exact:
  assumes "0 \<le> a" "a < 2 ^ 53" "0 < b" "b < 2 ^ 53"
  shows "ceil_div64 a b = ceil_div a b"
proof (cases "a = 0")
  case True
  then show ?thesis by (simp add: ceil_div64_def fdiv_def float64_exact ceil_div_def)
next
  case False
  then have a: "0 < a" using assms(1) by simp
  define s n where "s = exponent a b" and "n = ceil_div a b"
  have l: "2 ^ 52 * b * 2 ^ nat (- s) \<le> a * 2 ^ nat s" unfolding s_def by (rule exponent_lower [OF a assms(3)])
  have n: "(n - 1) * b < a" "a \<le> n * b" unfolding n_def using ceil_div_bounds [OF assms(3)] by auto
  have f: "fdiv (float64 a) (float64 b) = Double (scaled round_even a b s) (- s)"
    using assms a by (simp add: float64_exact fdiv_def s_def Let_def)
  show ?thesis
  proof (cases "0 < s")
    case False
    then have "2 ^ 52 * (b * 2 ^ nat (- s)) < 2 ^ 52 * 2" using l assms(2) by simp
    then have "b * 2 ^ nat (- s) < 2" by (rule mult_left_less_imp_less) simp
    moreover have "1 \<le> b" "(1::int) \<le> 2 ^ nat (- s)" using assms(3) by simp_all
    ultimately have b: "b = 1" "(2::int) ^ nat (- s) = 1" by (smt (verit) mult_le_cancel_left1 mult_le_cancel_right1)+
    then have "\<not> 0 < nat (- s)" using one_less_power [of "2::int" "nat (- s)"] by auto
    then have "s = 0" using False by simp
    then show ?thesis using b f by (simp add: ceil_div64_def ceil_div_def scaled_def)
  next
    case True
    define m where "m = round_even (a * 2 ^ nat s) b"
    have "a * 2 ^ nat s \<le> n * b * 2 ^ nat s" using n(2) by simp
    then have up: "m \<le> n * 2 ^ nat s" unfolding m_def by (intro round_even_upper [OF assms(3)]) (simp add: ac_simps)
    have "2 ^ 52 * b < 2 ^ 52 * (2 * 2 ^ nat s)"
    proof -
      have "2 ^ 52 * b \<le> a * 2 ^ nat s" using l True by simp
      also have "\<dots> < 2 ^ 53 * 2 ^ nat s" using assms(2) by (intro mult_strict_right_mono) auto
      finally show ?thesis by simp
    qed
    then have b2: "b < 2 * 2 ^ nat s" by (rule mult_left_less_imp_less) simp
    have "((n - 1) * b + 1) * 2 ^ nat s \<le> a * 2 ^ nat s" using n(1) by (intro mult_right_mono) auto
    then have "2 * ((n - 1) * 2 ^ nat s * b) < 2 * (m * b)"
      using round_even_near(1) [OF assms(3), of "a * 2 ^ nat s"] b2 unfolding m_def [symmetric] by (simp add: algebra_simps)
    then have "(n - 1) * 2 ^ nat s < m" using assms(3) by (simp add: mult_less_cancel_right)
    then have "ceil_div m (2 ^ nat s) = n" using up by (intro ceil_div_unique) auto
    then show ?thesis using True f by (simp add: ceil_div64_def scaled_def m_def n_def ceil_div_def)
  qed
qed

section \<open>Durations\<close>

text \<open>\<open>Time.Sub\<close> and \<open>time.Since\<close> saturate at the ends of \<open>int64\<close>; the zero \<open>time.Time\<close> is 1 January of year 1.\<close>

definition saturate :: "int \<Rightarrow> int" where
  "saturate d = max (- (2 ^ 63)) (min (2 ^ 63 - 1) d)"

definition time_Since :: "int \<Rightarrow> int \<Rightarrow> int" where
  "time_Since now start = saturate (now - start)"

definition zero_time :: int where
  "zero_time = - 62135596800 * 10 ^ 9"

lemma time_Since_exact: "- (2 ^ 63) \<le> now - start \<Longrightarrow> now - start < 2 ^ 63 \<Longrightarrow> time_Since now start = now - start"
  by (simp add: time_Since_def saturate_def)

end
