(* ===== verification/LambdaLifetime.thy ===== *)
theory LambdaLifetime
  imports MigratorClient GoFloat
begin

text \<open>
  \<open>src/lambda/lifetime\<close>: the lifetime of a Lambda instance, its session and the billing-cycle timeout.

  A time is its number of nanoseconds since 1970 (\<open>int\<close>), a duration an \<open>int64\<close> of nanoseconds: \<open>time.Since\<close>
  saturates, sums and products wrap (\<open>wrap_int\<close>), and \<open>math.Ceil(float64(now + ext) / float64(TICK))\<close> is
  \<open>ceil_div64\<close>, with both roundings of \<open>float64\<close>.  \<open>time.Now()\<close> is an argument.  The session's timeout is created
  before its start is known: until then \<open>t_start\<close> is the zero \<open>time.Time\<close>.  \<open>active\<close> is an \<open>int32\<close> and stays a
  32-bit word.

  The timeout is shared by the request handlers and the goroutine \<open>validateTimeout\<close>.  The step
  relation \<open>tstep\<close> interleaves them: \<open>resetLocked\<close> is split where it may wait for the channel, the
  goroutine's reset branch after each access to shared data, and its timer branch where it waits for the lock of
  the session and between its tests, since \<open>Busy\<close>, \<open>DoneBusy\<close>, \<open>Disable\<close> and \<open>Enable\<close> take no lock.
\<close>

section \<open>Lifetime\<close>

record Lifetime =
  birthtime :: int
  alive :: bool
  expected :: int

definition New_lifetime :: "int \<Rightarrow> int \<Rightarrow> Lifetime" where
  "New_lifetime now expct = \<lparr>birthtime = now, alive = True, expected = expct\<rparr>"

definition Id_lifetime :: "Lifetime \<Rightarrow> int" where
  "Id_lifetime l = birthtime l"

definition Reborn :: "int \<Rightarrow> Lifetime \<Rightarrow> Lifetime" where
  "Reborn now l = l\<lparr>birthtime := now, alive := True\<rparr>"

definition RebornIfDead :: "int \<Rightarrow> Lifetime \<Rightarrow> Lifetime" where
  "RebornIfDead now l = (if \<not> alive l then Reborn now l else l)"

definition IsTimeUp :: "int \<Rightarrow> Lifetime \<Rightarrow> bool" where
  "IsTimeUp now l \<longleftrightarrow> time_Since now (birthtime l) \<ge> expected l"

definition Rest_lifetime :: "Lifetime \<Rightarrow> Lifetime" where
  "Rest_lifetime l = l\<lparr>alive := False\<rparr>"

section \<open>The timeout\<close>

definition Millisecond :: int where "Millisecond = 1000000"
definition TICK :: int where "TICK = 100 * Millisecond"

definition TICK_ERROR_EXTEND :: "int \<Rightarrow> int" where
  "TICK_ERROR_EXTEND mem =
     (if mem < 896 then 10000 * Millisecond else if mem < 1792 then 1000 * Millisecond else 1000 * Millisecond)"

definition TICK_ERROR :: "int \<Rightarrow> int" where
  "TICK_ERROR mem = (if mem < 896 then 10 * Millisecond else if mem < 1792 then 10 * Millisecond else 2 * Millisecond)"

record Timeout =
  t_start :: int
  t_timer :: "int option"
  t_lastExtension :: int
  t_active :: "32 word"
  t_disabled :: bool
  t_reset :: "int option"
  t_c :: "int option"
  t_timeout :: bool
  t_hasReset :: bool
  t_due :: int
  t_done :: bool

definition Since :: "int \<Rightarrow> Timeout \<Rightarrow> int" where
  "Since now t = time_Since now (t_start t)"

definition getTimeout :: "int \<Rightarrow> int \<Rightarrow> Timeout \<Rightarrow> int \<Rightarrow> int \<times> int" where
  "getTimeout mem now t ext =
     (if ext < 0 then (1 * Millisecond, wrap_int (Since now t + 1 * Millisecond))
      else let n = Since now t;
               due = wrap_int (wrap_int (ceil_div64 (wrap_int (n + ext)) TICK * TICK) - TICK_ERROR mem)
           in (wrap_int (due - n), due))"

definition NewTimeout :: "int \<Rightarrow> int \<Rightarrow> int \<Rightarrow> Timeout" where
  "NewTimeout mem now d =
     (let t = \<lparr>t_start = zero_time, t_timer = None, t_lastExtension = d, t_active = 0, t_disabled = False, t_reset = None,
               t_c = None, t_timeout = False, t_hasReset = False, t_due = 0, t_done = False\<rparr>;
          (timeout, due) = getTimeout mem now t d
      in t\<lparr>t_due := due, t_timer := Some (now + timeout)\<rparr>)"

definition StartWithCalibration :: "int \<Rightarrow> Timeout \<Rightarrow> Timeout" where
  "StartWithCalibration start t = t\<lparr>t_start := start\<rparr>"

definition Start :: "int \<Rightarrow> Timeout \<Rightarrow> Timeout" where
  "Start now t = StartWithCalibration now t"

definition Stop :: "Timeout \<Rightarrow> Timeout" where
  "Stop t = t\<lparr>t_timer := None\<rparr>"

definition Disable :: "Timeout \<Rightarrow> Timeout \<times> bool" where
  "Disable t = (if \<not> t_disabled t then (t\<lparr>t_disabled := True\<rparr>, True) else (t, False))"

definition Enable :: "Timeout \<Rightarrow> Timeout \<times> bool" where
  "Enable t = (if t_disabled t then (t\<lparr>t_disabled := False\<rparr>, True) else (t, False))"

definition IsDisabled :: "Timeout \<Rightarrow> bool" where
  "IsDisabled t = t_disabled t"

definition Halt :: "Timeout \<Rightarrow> Timeout" where
  "Halt t = Stop (fst (Disable t))"

definition resetLocked :: "int \<Rightarrow> int \<Rightarrow> Timeout \<Rightarrow> Timeout" where
  "resetLocked mem now t =
     t\<lparr>t_due := snd (getTimeout mem now t (t_lastExtension t)), t_reset := Some (t_lastExtension t), t_hasReset := True\<rparr>"

definition Reset_refused :: "Timeout \<Rightarrow> bool" where
  "Reset_refused t \<longleftrightarrow> t_timeout t \<or> IsDisabled t \<or> t_done t"

definition Reset_timeout :: "int \<Rightarrow> int \<Rightarrow> Timeout \<Rightarrow> Timeout \<times> bool" where
  "Reset_timeout mem now t = (if Reset_refused t then (t, False) else (resetLocked mem now t, True))"

definition ResetWithExtension :: "int \<Rightarrow> int \<Rightarrow> int \<Rightarrow> Timeout \<Rightarrow> Timeout \<times> bool" where
  "ResetWithExtension mem now ext t = Reset_timeout mem now (t\<lparr>t_lastExtension := ext\<rparr>)"

definition Restart :: "int \<Rightarrow> int \<Rightarrow> int \<Rightarrow> Timeout \<Rightarrow> Timeout" where
  "Restart mem now ext t = fst (ResetWithExtension mem now ext (fst (Enable t)))"

definition Busy :: "Timeout \<Rightarrow> Timeout" where
  "Busy t = t\<lparr>t_active := t_active t + 1\<rparr>"

definition DoneBusy :: "Timeout \<Rightarrow> Timeout" where
  "DoneBusy t = t\<lparr>t_active := t_active t + (- 1)\<rparr>"

definition DoneBusyWithReset :: "int \<Rightarrow> int \<Rightarrow> int \<Rightarrow> Timeout \<Rightarrow> Timeout" where
  "DoneBusyWithReset mem now ext t = DoneBusy (fst (ResetWithExtension mem now ext t))"

definition IsBusy :: "Timeout \<Rightarrow> bool" where
  "IsBusy t \<longleftrightarrow> 0 < sint (t_active t)"

text \<open>
  The branches of \<open>validateTimeout\<close>: a reset (up to \<open>hasReset = false\<close>), the tick taken from the timer, and the
  last test with what follows it.
\<close>

definition serve_reset :: "int \<Rightarrow> int \<Rightarrow> int \<Rightarrow> Timeout \<Rightarrow> Timeout" where
  "serve_reset mem now extension t =
     (let (timeout, due) = getTimeout mem now t extension
      in (Stop t)\<lparr>t_due := due, t_timer := Some (now + timeout)\<rparr>)"

definition take_tick :: "Timeout \<Rightarrow> Timeout" where
  "take_tick t = t\<lparr>t_timer := None, t_c := None\<rparr>"

definition declare_timeout :: "int \<Rightarrow> int \<Rightarrow> int \<Rightarrow> Timeout \<Rightarrow> Timeout" where
  "declare_timeout mem now ti t =
     (if Since now t < t_due t then resetLocked mem now t else t\<lparr>t_c := Some ti, t_timeout := True\<rparr>)"

section \<open>The session\<close>

record session =
  ss_Id :: string
  ss_Requests :: int
  ss_Migrator :: "Client option"
  ss_Timeout :: Timeout
  ss_Connection :: "nat option"

definition GetOrCreateSession :: "int \<Rightarrow> int \<Rightarrow> session option \<Rightarrow> session" where
  "GetOrCreateSession mem now s =
     (case s of
        Some x \<Rightarrow> x
      | None \<Rightarrow> \<lparr>ss_Id = [], ss_Requests = 0, ss_Migrator = None,
           ss_Timeout = NewTimeout mem now (TICK_ERROR_EXTEND mem), ss_Connection = None\<rparr>)"

definition GetSession :: "session option \<Rightarrow> session option" where
  "GetSession s = s"

definition ClearSession :: "session option \<Rightarrow> session option" where
  "ClearSession s = None"

text \<open>The channel \<open>done\<close> is shared with the timeout; it is closed at most once.\<close>

definition isDoneLocked :: "session \<Rightarrow> bool" where
  "isDoneLocked s = t_done (ss_Timeout s)"

definition IsDone :: "session \<Rightarrow> bool" where
  "IsDone s = isDoneLocked s"

definition DoneLocked :: "session \<Rightarrow> session" where
  "DoneLocked s = (if isDoneLocked s then s else s\<lparr>ss_Timeout := (ss_Timeout s)\<lparr>t_done := True\<rparr>\<rparr>)"

definition Done_session :: "session \<Rightarrow> session" where
  "Done_session s = DoneLocked s"

lemma DoneLocked_eq: "DoneLocked s = s\<lparr>ss_Timeout := (ss_Timeout s)\<lparr>t_done := True\<rparr>\<rparr>"
  by (auto simp: DoneLocked_def isDoneLocked_def intro!: session.equality Timeout.equality)

definition IsMigrating :: "session \<Rightarrow> bool" where
  "IsMigrating s \<longleftrightarrow> ss_Migrator s \<noteq> None"

section \<open>The billing cycle\<close>

lemma TICK_pos: "0 < TICK"
  by (simp add: TICK_def Millisecond_def)

lemma TICK_ERROR_bounds: "0 < TICK_ERROR mem" "TICK_ERROR mem < TICK"
  by (simp_all add: TICK_ERROR_def TICK_def Millisecond_def)

lemma getTimeout_exact:
  assumes "0 \<le> ext" "0 \<le> Since now t" "Since now t + ext < 2 ^ 53"
  shows "getTimeout mem now t ext =
     (let due = ceil_div (Since now t + ext) TICK * TICK - TICK_ERROR mem in (due - Since now t, due))"
proof -
  let ?n = "Since now t"
  have c: "ceil_div64 (?n + ext) TICK = ceil_div (?n + ext) TICK"
    using assms TICK_pos by (intro ceil_div_exact) (auto simp: TICK_def Millisecond_def)
  note b = ceil_div_bounds [OF TICK_pos, of "?n + ext"] TICK_ERROR_bounds [of mem]
  have T: "TICK = 100000000" by (simp add: TICK_def Millisecond_def)
  have lo: "0 \<le> ceil_div (?n + ext) TICK * TICK" using b(2) assms(1,2) by linarith
  have hi: "ceil_div (?n + ext) TICK * TICK < 2 ^ 53 + TICK" using b(1) assms(3) by (simp add: algebra_simps)
  have "wrap_int (?n + ext) = ?n + ext" using assms by (intro wrap_int_id) auto
  moreover have "wrap_int (ceil_div (?n + ext) TICK * TICK) = ceil_div (?n + ext) TICK * TICK"
    using lo hi T by (intro wrap_int_id) auto
  moreover have "wrap_int (ceil_div (?n + ext) TICK * TICK - TICK_ERROR mem) = ceil_div (?n + ext) TICK * TICK - TICK_ERROR mem"
    using lo hi b(3,4) T by (intro wrap_int_id) auto
  moreover have "wrap_int (ceil_div (?n + ext) TICK * TICK - TICK_ERROR mem - ?n) = ceil_div (?n + ext) TICK * TICK - TICK_ERROR mem - ?n"
    using lo hi b(3,4) T assms by (intro wrap_int_id) auto
  ultimately show ?thesis using assms(1) c by (simp add: getTimeout_def Let_def)
qed

lemma getTimeout_ends_cycle:
  assumes "0 \<le> ext" "0 \<le> Since now t" "Since now t + ext < 2 ^ 53" "getTimeout mem now t ext = (timeout, due)"
  shows "due = Since now t + timeout" "TICK dvd due + TICK_ERROR mem"
    "Since now t + ext - TICK_ERROR mem \<le> due" "due < Since now t + ext + TICK - TICK_ERROR mem"
proof -
  define c where "c = ceil_div (Since now t + ext) TICK"
  have "due = c * TICK - TICK_ERROR mem" "timeout = due - Since now t"
    using assms(4) by (auto simp: getTimeout_exact [OF assms(1-3)] c_def Let_def)
  moreover have "(c - 1) * TICK < Since now t + ext" "Since now t + ext \<le> c * TICK"
    unfolding c_def using ceil_div_bounds [OF TICK_pos] by auto
  ultimately show "due = Since now t + timeout" "TICK dvd due + TICK_ERROR mem"
    "Since now t + ext - TICK_ERROR mem \<le> due" "due < Since now t + ext + TICK - TICK_ERROR mem"
    by (auto simp: algebra_simps)
qed

text \<open>
  Before \<open>Start\<close> the time since the start is the largest duration and \<open>now + ext\<close> wraps; the second wrap-around, in
  \<open>due - now\<close>, makes up for the first.
\<close>

lemma Since_unstarted: "0 \<le> now \<Longrightarrow> t_start t = zero_time \<Longrightarrow> Since now t = 2 ^ 63 - 1"
  by (simp add: Since_def time_Since_def saturate_def zero_time_def)

lemma getTimeout_due_bounds: "snd (getTimeout mem now t ext) < 2 ^ 63"
  using signed_take_bit_int_less_exp [of 63] by (simp add: getTimeout_def wrap_int_def Let_def)

definition first_timer :: "int \<Rightarrow> int" where
  "first_timer mem = (if mem < 896 then 10044775809 else if mem < 1792 then 1044775809 else 1052775809)"

lemma first_timer_bounds:
  "TICK_ERROR_EXTEND mem - TICK_ERROR mem \<le> first_timer mem" "first_timer mem < TICK_ERROR_EXTEND mem + TICK - TICK_ERROR mem"
  by (simp_all add: first_timer_def TICK_ERROR_EXTEND_def TICK_ERROR_def TICK_def Millisecond_def)

lemma NewTimeout_timer:
  assumes "0 \<le> now"
  shows "t_timer (NewTimeout mem now (TICK_ERROR_EXTEND mem)) = Some (now + first_timer mem)"
proof -
  have d: "ceil_div64 (- 9223372026854775809) 100000000 = - 92233720268"
     "ceil_div64 (- 9223372035854775809) 100000000 = - 92233720358" by code_simp+
  have w: "wrap_int 9223372046854775807 = - 9223372026854775809" "wrap_int 9223372037854775807 = - 9223372035854775809"
     "wrap_int (wrap_int (wrap_int (- 9223372026800000000) - 10000000) - 9223372036854775807) = 10044775809"
     "wrap_int (wrap_int (wrap_int (- 9223372035800000000) - 10000000) - 9223372036854775807) = 1044775809"
     "wrap_int (wrap_int (wrap_int (- 9223372035800000000) - 2000000) - 9223372036854775807) = 1052775809"
     by code_simp+
  show ?thesis
    using assms
    by (auto simp: NewTimeout_def Since_unstarted getTimeout_def Let_def TICK_ERROR_EXTEND_def TICK_ERROR_def Millisecond_def TICK_def
       w d first_timer_def)
qed


section \<open>Handlers and the goroutine together\<close>

datatype loop_pc =
    LoopIdle
  | LoopResetting int
  | LoopArmed
  | LoopFired int
  | LoopChecked int
  | LoopQuiet int
  | LoopExited

datatype req_pc = ReqIdle | ReqDraining

record tsys =
  clock :: int
  tm :: Timeout
  loop :: loop_pc
  req :: req_pc

text \<open>
  \<open>ReqDraining\<close>: a handler holds the session lock in \<open>resetLocked\<close>, has seen the channel full and is
  about to receive from it.  \<open>LoopResetting\<close>: the goroutine has taken an extension from the channel;
  \<open>LoopArmed\<close>: it has set the timer and is about to clear \<open>hasReset\<close>.  \<open>LoopFired\<close>: it has taken a
  tick and waits for the lock of the session; \<open>LoopChecked\<close>, \<open>LoopQuiet\<close>: it holds the lock and has passed the tests
  of line 190, and of line 192.
\<close>

definition loop_locked :: "tsys \<Rightarrow> bool" where
  "loop_locked s = (case loop s of LoopChecked ti \<Rightarrow> True | LoopQuiet ti \<Rightarrow> True | _ \<Rightarrow> False)"

definition lock_free :: "tsys \<Rightarrow> bool" where
  "lock_free s \<longleftrightarrow> req s = ReqIdle \<and> \<not> loop_locked s"

definition req_reset :: "int \<Rightarrow> tsys \<Rightarrow> tsys" where
  "req_reset mem s =
     (let t = tm s
      in if Reset_refused t then s
         else if t_reset t = None then s\<lparr>tm := resetLocked mem (clock s) t\<rparr>
         else s\<lparr>tm := t\<lparr>t_due := snd (getTimeout mem (clock s) t (t_lastExtension t))\<rparr>, req := ReqDraining\<rparr>)"

inductive tstep :: "int \<Rightarrow> tsys \<Rightarrow> tsys \<Rightarrow> bool" for mem where
  Tick: "clock s \<le> n \<Longrightarrow> tstep mem s (s\<lparr>clock := n\<rparr>)"
| ReqStart: "tstep mem s (s\<lparr>tm := StartWithCalibration n (tm s)\<rparr>)"
| ReqExtend: "tstep mem s (s\<lparr>tm := (tm s)\<lparr>t_lastExtension := ext\<rparr>\<rparr>)"
| ReqReset: "lock_free s \<Longrightarrow> tstep mem s (req_reset mem s)"
| ReqDrain: "req s = ReqDraining \<Longrightarrow> t_reset (tm s) \<noteq> None \<Longrightarrow>
     tstep mem s (s\<lparr>tm := (tm s)\<lparr>t_reset := Some (t_lastExtension (tm s)), t_hasReset := True\<rparr>, req := ReqIdle\<rparr>)"
| ReqBusy: "tstep mem s (s\<lparr>tm := Busy (tm s)\<rparr>)"
| ReqDoneBusy: "tstep mem s (s\<lparr>tm := DoneBusy (tm s)\<rparr>)"
| ReqDisable: "tstep mem s (s\<lparr>tm := fst (Disable (tm s))\<rparr>)"
| ReqEnable: "tstep mem s (s\<lparr>tm := fst (Enable (tm s))\<rparr>)"
| ReqStop: "tstep mem s (s\<lparr>tm := Stop (tm s)\<rparr>)"
| ReqReceive: "tstep mem s (s\<lparr>tm := (tm s)\<lparr>t_c := None\<rparr>\<rparr>)"
| ReqDone: "lock_free s \<Longrightarrow> tstep mem s (s\<lparr>tm := (tm s)\<lparr>t_done := True\<rparr>\<rparr>)"
| LoopTake: "loop s = LoopIdle \<Longrightarrow> t_reset (tm s) = Some ext \<Longrightarrow>
     tstep mem s (s\<lparr>tm := (tm s)\<lparr>t_reset := None\<rparr>, loop := LoopResetting ext\<rparr>)"
| LoopArm: "loop s = LoopResetting ext \<Longrightarrow>
     tstep mem s (s\<lparr>tm := serve_reset mem (clock s) ext (tm s), loop := LoopArmed\<rparr>)"
| LoopClear: "loop s = LoopArmed \<Longrightarrow> tstep mem s (s\<lparr>tm := (tm s)\<lparr>t_hasReset := False\<rparr>, loop := LoopIdle\<rparr>)"
| LoopTimer: "loop s = LoopIdle \<Longrightarrow> t_timer (tm s) = Some d \<Longrightarrow> d \<le> clock s \<Longrightarrow>
     tstep mem s (s\<lparr>tm := take_tick (tm s), loop := LoopFired (clock s)\<rparr>)"
| LoopLock: "loop s = LoopFired ti \<Longrightarrow> lock_free s \<Longrightarrow>
     tstep mem s (s\<lparr>loop := if t_hasReset (tm s) \<or> IsDisabled (tm s) then LoopIdle else LoopChecked ti\<rparr>)"
| LoopBusy: "loop s = LoopChecked ti \<Longrightarrow> IsBusy (tm s) \<Longrightarrow>
     tstep mem s (s\<lparr>tm := resetLocked mem (clock s) (tm s), loop := LoopIdle\<rparr>)"
| LoopNotBusy: "loop s = LoopChecked ti \<Longrightarrow> \<not> IsBusy (tm s) \<Longrightarrow> tstep mem s (s\<lparr>loop := LoopQuiet ti\<rparr>)"
| LoopDeclare: "loop s = LoopQuiet ti \<Longrightarrow>
     tstep mem s (s\<lparr>tm := declare_timeout mem (clock s) ti (tm s), loop := LoopIdle\<rparr>)"
| LoopExit: "loop s = LoopIdle \<Longrightarrow> t_done (tm s) \<Longrightarrow> tstep mem s (s\<lparr>loop := LoopExited\<rparr>)"

inductive_cases tstep_elim: "tstep mem s s'"

definition tsys_init :: "int \<Rightarrow> int \<Rightarrow> tsys" where
  "tsys_init mem now =
     \<lparr>clock = now, tm = NewTimeout mem now (TICK_ERROR_EXTEND mem), loop = LoopIdle, req = ReqIdle\<rparr>"

lemmas handler_defs = Busy_def DoneBusy_def Disable_def Enable_def req_reset_def resetLocked_def serve_reset_def
  declare_timeout_def take_tick_def Stop_def StartWithCalibration_def Let_def

text \<open>
  The timeout is declared only by the goroutine, while it holds the lock, after both tests of the same tick and when
  the cycle is over.  \<open>stays\<close>: steps of the handlers in between.
\<close>

definition stays :: "int \<Rightarrow> tsys \<Rightarrow> tsys \<Rightarrow> bool" where
  "stays mem s s' \<longleftrightarrow> tstep mem s s' \<and> loop s' = loop s"

definition found_enabled :: "int \<Rightarrow> tsys \<Rightarrow> int \<Rightarrow> tsys \<Rightarrow> bool" where
  "found_enabled mem s0 ti s \<longleftrightarrow>
     (\<exists>a a'. (tstep mem)\<^sup>*\<^sup>* s0 a \<and> loop a = LoopFired ti \<and> \<not> t_hasReset (tm a) \<and> \<not> IsDisabled (tm a) \<and>
        tstep mem a a' \<and> loop a' = LoopChecked ti \<and> (stays mem)\<^sup>*\<^sup>* a' s)"

definition found_idle :: "int \<Rightarrow> tsys \<Rightarrow> int \<Rightarrow> tsys \<Rightarrow> bool" where
  "found_idle mem s0 ti s \<longleftrightarrow>
     (\<exists>b b'. found_enabled mem s0 ti b \<and> loop b = LoopChecked ti \<and> \<not> IsBusy (tm b) \<and>
        tstep mem b b' \<and> loop b' = LoopQuiet ti \<and> (stays mem)\<^sup>*\<^sup>* b' s)"

definition tests_passed :: "int \<Rightarrow> tsys \<Rightarrow> tsys \<Rightarrow> bool" where
  "tests_passed mem s0 s =
     (case loop s of
        LoopChecked ti \<Rightarrow> req s = ReqIdle \<and> \<not> t_hasReset (tm s) \<and> found_enabled mem s0 ti s
      | LoopQuiet ti \<Rightarrow> req s = ReqIdle \<and> \<not> t_hasReset (tm s) \<and> found_idle mem s0 ti s
      | _ \<Rightarrow> True)"

lemma found_stays:
  assumes "stays mem s s'"
  shows "found_enabled mem s0 ti s \<Longrightarrow> found_enabled mem s0 ti s'" "found_idle mem s0 ti s \<Longrightarrow> found_idle mem s0 ti s'"
  using assms unfolding found_enabled_def found_idle_def by (meson rtranclp.rtrancl_into_rtrancl)+

lemma locked_stays:
  assumes "tstep mem s s'" "loop s' = loop s" "loop_locked s" "req s = ReqIdle" "\<not> t_hasReset (tm s)"
  shows "req s' = ReqIdle \<and> \<not> t_hasReset (tm s')"
  using assms by (cases rule: tstep_elim) (auto simp: handler_defs lock_free_def loop_locked_def split: if_splits)

lemma tests_passed_enter:
  assumes "tstep mem s s'" "(tstep mem)\<^sup>*\<^sup>* s0 s" "loop s' \<noteq> loop s" "tests_passed mem s0 s"
  shows "tests_passed mem s0 s'"
  using assms(1)
proof (cases rule: tstep.cases)
  case (LoopLock ti)
  then have "found_enabled mem s0 ti s'" if "loop s' = LoopChecked ti"
    unfolding found_enabled_def using assms(1,2) that by (intro exI [of _ s] exI [of _ s']) (auto split: if_splits)
  then show ?thesis using LoopLock by (auto simp: tests_passed_def lock_free_def)
next
  case (LoopNotBusy ti)
  then have "found_idle mem s0 ti s'" 
    unfolding found_idle_def using assms(1,4) by (intro exI [of _ s] exI [of _ s']) (auto simp: tests_passed_def)
  then show ?thesis using LoopNotBusy assms(4) by (auto simp: tests_passed_def)
qed (use assms(3) in \<open>auto simp: tests_passed_def req_reset_def Let_def\<close>)

lemma tests_passed_step:
  assumes "tstep mem s s'" "(tstep mem)\<^sup>*\<^sup>* s0 s" "tests_passed mem s0 s"
  shows "tests_passed mem s0 s'"
proof (cases "loop s' = loop s")
  case True
  then have "stays mem s s'" using assms(1) by (simp add: stays_def)
  then show ?thesis
    using assms(3) found_stays locked_stays [OF assms(1) True] True
    by (auto simp: tests_passed_def loop_locked_def split: loop_pc.splits)
qed (use tests_passed_enter assms in blast)

lemma tests_passed_run:
  assumes "(tstep mem)\<^sup>*\<^sup>* s0 s" "loop s0 = LoopIdle"
  shows "tests_passed mem s0 s"
  using assms(1)
proof (induction rule: rtranclp_induct)
  case base
  show ?case using assms(2) by (simp add: tests_passed_def)
next
  case (step y z)
  show ?case using tests_passed_step [OF step.hyps(2,1) step.IH] .
qed

lemma timeout_declared:
  assumes "(tstep mem)\<^sup>*\<^sup>* s0 s" "loop s0 = LoopIdle" "tstep mem s s'" "\<not> t_timeout (tm s)" "t_timeout (tm s')"
  shows "\<exists>ti. loop s = LoopQuiet ti \<and> found_idle mem s0 ti s \<and> \<not> t_hasReset (tm s) \<and> req s = ReqIdle \<and>
     t_due (tm s) \<le> Since (clock s) (tm s) \<and> t_c (tm s') = Some ti"
  using assms(3)
proof (cases rule: tstep.cases)
  case (LoopDeclare ti)
  then show ?thesis
    using tests_passed_run [OF assms(1,2)] assms(4,5)
    by (auto simp: tests_passed_def declare_timeout_def resetLocked_def split: if_splits)
qed (use assms(4,5) in \<open>auto simp: handler_defs split: if_splits prod.splits\<close>)

lemma timeout_final:
  assumes "(tstep mem)\<^sup>*\<^sup>* s s'" "t_timeout (tm s)"
  shows "t_timeout (tm s')"
  using assms
proof (induction rule: rtranclp_induct)
  case (step y z)
  from step.hyps(2) show ?case
    using step.IH [OF step.prems]
    by (cases rule: tstep_elim) (auto simp: handler_defs split: if_splits prod.splits)
qed simp

text \<open>The first tick of a timeout, with both tests passed: nothing else has run.\<close>

definition quiet_state :: "int \<Rightarrow> int \<Rightarrow> tsys" where
  "quiet_state mem now =
     (let s = tsys_init mem now; n = now + first_timer mem
      in s\<lparr>clock := n, tm := take_tick (tm s), loop := LoopQuiet n\<rparr>)"

lemma first_timer_pos: "0 < first_timer mem"
  by (simp add: first_timer_def)

lemma tsys_init_fields [simp]:
  "loop (tsys_init mem now) = LoopIdle" "req (tsys_init mem now) = ReqIdle" "clock (tsys_init mem now) = now"
  "t_active (tm (tsys_init mem now)) = 0" "\<not> t_disabled (tm (tsys_init mem now))" "\<not> t_hasReset (tm (tsys_init mem now))"
  "\<not> t_timeout (tm (tsys_init mem now))" "t_start (tm (tsys_init mem now)) = zero_time" "t_reset (tm (tsys_init mem now)) = None"
  "\<not> Reset_refused (tm (tsys_init mem now))"
  by (simp_all add: tsys_init_def NewTimeout_def Reset_refused_def IsDisabled_def Let_def split: prod.splits)

lemma tsys_init_due: "t_due (tm (tsys_init mem now)) < 2 ^ 63"
  using getTimeout_due_bounds [of mem now]
  by (simp add: tsys_init_def NewTimeout_def Let_def split: prod.splits) (metis snd_conv)

lemma quiet_state_reached:
  assumes "0 \<le> now"
  shows "(tstep mem)\<^sup>*\<^sup>* (tsys_init mem now) (quiet_state mem now)"
proof -
  let ?s0 = "tsys_init mem now"
  let ?n = "now + first_timer mem"
  let ?s1 = "?s0\<lparr>clock := ?n\<rparr>"
  let ?s2 = "?s1\<lparr>tm := take_tick (tm ?s1), loop := LoopFired ?n\<rparr>"
  let ?s3 = "?s2\<lparr>loop := LoopChecked ?n\<rparr>"
  have d: "t_timer (tm ?s0) = Some ?n" using NewTimeout_timer [OF assms] by (simp add: tsys_init_def)
  have "tstep mem ?s0 ?s1" using first_timer_pos [of mem] by (intro tstep.Tick) simp
  moreover have "tstep mem ?s1 ?s2" using d tstep.LoopTimer [of ?s1 ?n mem] by simp
  moreover have "tstep mem ?s2 ?s3"
    using tstep.LoopLock [of ?s2 ?n mem] by (simp add: lock_free_def loop_locked_def IsDisabled_def take_tick_def)
  moreover have "tstep mem ?s3 (quiet_state mem now)"
    using tstep.LoopNotBusy [of ?s3 ?n mem] by (simp add: IsBusy_def take_tick_def quiet_state_def Let_def)
  ultimately show ?thesis by (meson rtranclp.rtrancl_into_rtrancl rtranclp.rtrancl_refl)
qed

lemma quiet_state_declares:
  assumes "0 \<le> now" "t = tm (quiet_state mem now)\<lparr>t_active := n\<rparr>"
  shows "t_timeout (declare_timeout mem (clock (quiet_state mem now)) ti t)"
  using assms tsys_init_due [of mem now] first_timer_pos [of mem]
  by (simp add: quiet_state_def declare_timeout_def Since_unstarted take_tick_def Let_def)

text \<open>A handler that becomes busy after the second test is not seen: the timeout is declared on a busy Lambda.\<close>

lemma busy_overtaken:
  assumes "0 \<le> now"
  shows "\<exists>s s'. (tstep mem)\<^sup>*\<^sup>* (tsys_init mem now) s \<and> tstep mem s s' \<and> IsBusy (tm s) \<and> \<not> t_timeout (tm s) \<and> t_timeout (tm s')"
proof -
  let ?q = "quiet_state mem now"
  let ?s = "?q\<lparr>tm := Busy (tm ?q)\<rparr>"
  let ?s' = "?s\<lparr>tm := declare_timeout mem (clock ?s) (clock ?s) (tm ?s), loop := LoopIdle\<rparr>"
  have "(tstep mem)\<^sup>*\<^sup>* (tsys_init mem now) ?s"
    using quiet_state_reached [OF assms] tstep.ReqBusy [of mem ?q] by (rule rtranclp.rtrancl_into_rtrancl)
  moreover have "tstep mem ?s ?s'" by (rule tstep.LoopDeclare) (simp add: quiet_state_def Let_def)
  moreover have "IsBusy (tm ?s)" "\<not> t_timeout (tm ?s)"
    by (simp_all add: IsBusy_def Busy_def take_tick_def quiet_state_def Let_def)
  moreover have "t_timeout (tm ?s')" using quiet_state_declares [OF assms, of "tm ?s"] by (simp add: Busy_def)
  ultimately show ?thesis by blast
qed

text \<open>A handler that waits for an empty channel waits forever, with the session lock held.\<close>

definition wedged :: "tsys \<Rightarrow> bool" where
  "wedged s \<longleftrightarrow> req s = ReqDraining \<and> t_reset (tm s) = None \<and> \<not> loop_locked s"

lemma wedged_step: "tstep mem s s' \<Longrightarrow> wedged s \<Longrightarrow> wedged s'"
  by (cases rule: tstep_elim, assumption)
     (auto simp: wedged_def handler_defs lock_free_def loop_locked_def split: if_splits prod.splits)

lemma wedged_forever: "(tstep mem)\<^sup>*\<^sup>* s s' \<Longrightarrow> wedged s \<Longrightarrow> wedged s'"
  by (induction rule: rtranclp_induct) (auto intro: wedged_step)

lemma wedged_reachable: "\<exists>s. (tstep mem)\<^sup>*\<^sup>* (tsys_init mem now) s \<and> wedged s"
proof -
  let ?s0 = "tsys_init mem now"
  let ?s1 = "req_reset mem ?s0"
  let ?s2 = "req_reset mem ?s1"
  let ?e = "t_lastExtension (tm ?s0)"
  let ?s3 = "?s2\<lparr>tm := (tm ?s2)\<lparr>t_reset := None\<rparr>, loop := LoopResetting ?e\<rparr>"
  have s1: "req ?s1 = ReqIdle" "loop ?s1 = LoopIdle" "t_reset (tm ?s1) = Some ?e" "\<not> Reset_refused (tm ?s1)"
    using tsys_init_fields(10) [of mem now] by (auto simp: handler_defs Reset_refused_def IsDisabled_def)
  have s2: "req ?s2 = ReqDraining" "loop ?s2 = LoopIdle" "t_reset (tm ?s2) = Some ?e"
    using s1 by (auto simp: req_reset_def [of mem ?s1] Let_def Reset_refused_def IsDisabled_def)
  have "tstep mem ?s0 ?s1" "tstep mem ?s1 ?s2"
    using s1 by (auto intro!: tstep.ReqReset simp: lock_free_def loop_locked_def)
  moreover have "tstep mem ?s2 ?s3" using s2 by (intro tstep.LoopTake) auto
  ultimately have "(tstep mem)\<^sup>*\<^sup>* ?s0 ?s3" by (meson rtranclp.rtrancl_into_rtrancl rtranclp.rtrancl_refl)
  moreover have "wedged ?s3" using s2 by (simp add: wedged_def loop_locked_def)
  ultimately show ?thesis by blast
qed

text \<open>
  As long as no handler and the goroutine overlap in a reset, the flag \<open>hasReset\<close> says that an
  extension waits in the channel.
\<close>

lemma reset_flag_sequential:
  assumes "t_hasReset t = (t_reset t \<noteq> None)"
  shows "t_hasReset (fst (ResetWithExtension mem now ext t)) = (t_reset (fst (ResetWithExtension mem now ext t)) \<noteq> None)"
    and "t_hasReset (declare_timeout mem now ti t) = (t_reset (declare_timeout mem now ti t) \<noteq> None)"
  using assms by (auto simp: ResetWithExtension_def Reset_timeout_def handler_defs split: prod.splits)

end
