(* ===== verification/LambdaCollector.thy ===== *)
theory LambdaCollector
  imports LambdaLifetime
begin

text \<open>
  \<open>DataEntry\<close> of \<open>src/lambda/types/types.go\<close> and \<open>src/lambda/collector/collector.go\<close>: the record a
  Lambda keeps of the requests it served.  \<open>co_gatherer\<close> is the channel, \<open>co_deposited\<close> the counter of the
  wait group; a sender waits while ten entries are queued, and \<open>Save\<close> waits for the counter to reach
  zero.  S3 is outside the program: \<open>co_S3\<close> tells for each upload whether it succeeds.  \<open>co_uploads\<close> are the
  uploads that were tried (bucket, key and text) with their outcome; \<open>s3_objects\<close> is what they leave in S3, where an
  upload replaces an earlier one with the same key.
\<close>

record DataEntry =
  de_Op :: int
  de_Status :: string
  de_ReqId :: string
  de_ChunkId :: string
  de_DurationAppend :: int
  de_DurationFlush :: int
  de_Duration :: int
  de_Session :: string

record collector =
  co_Prefix :: string
  co_HostName :: string
  co_FunctionName :: string
  co_gatherer :: "DataEntry list"
  co_depository :: "DataEntry list"
  co_deposited :: int
  co_S3 :: "nat \<Rightarrow> bool"
  co_uploads :: "(((string \<times> string) \<times> string) \<times> bool) list"

definition Send_entry :: "DataEntry \<Rightarrow> collector \<Rightarrow> collector" where
  "Send_entry e c = c\<lparr>co_deposited := co_deposited c + 1, co_gatherer := co_gatherer c @ [e]\<rparr>"

text \<open>One round of the loop of \<open>Collect\<close> that receives an entry.\<close>

definition Collect_entry :: "collector \<Rightarrow> collector res" where
  "Collect_entry c =
     (case co_gatherer c of
        [] \<Rightarrow> Inr c
      | e # es \<Rightarrow>
          if co_deposited c \<le> 0 then Inl NegativeWaitGroup
          else Inr (c\<lparr>co_gatherer := es, co_depository := co_depository c @ [e], co_deposited := co_deposited c - 1\<rparr>))"

definition line_of :: "collector \<Rightarrow> DataEntry \<Rightarrow> string" where
  "line_of c e =
     itoa (de_Op e) @ '','' @ de_ReqId e @ '','' @ de_ChunkId e @ '','' @ de_Status e @ '','' @ itoa (de_Duration e) @ '',''
     @ itoa (de_DurationAppend e) @ '','' @ itoa (de_DurationFlush e) @ '','' @ co_HostName c @ '','' @ co_FunctionName c
     @ '','' @ de_Session e @ [CHR 0x0A]"

definition S3BUCKET :: string where "S3BUCKET = ''mason-leap-lab.infinicache''"

definition s3Put :: "string \<Rightarrow> string \<Rightarrow> string \<Rightarrow> collector \<Rightarrow> collector" where
  "s3Put bucket key f c = c\<lparr>co_uploads := co_uploads c @ [(((bucket, key), f), co_S3 c (length (co_uploads c)))]\<rparr>"

definition s3_objects :: "collector \<Rightarrow> string \<times> string \<rightharpoonup> string" where
  "s3_objects c = map_of (rev (map fst (filter snd (co_uploads c))))"

definition s3_key :: "Lifetime \<Rightarrow> collector \<Rightarrow> string" where
  "s3_key l c = co_Prefix c @ ''/'' @ co_FunctionName c @ ''/'' @ itoa (Id_lifetime l)"

definition Save :: "Lifetime \<Rightarrow> collector \<Rightarrow> collector" where
  "Save l c =
     (let data = concat (map (line_of c) (co_depository c))
      in (s3Put S3BUCKET (s3_key l c) data c)\<lparr>co_depository := []\<rparr>)"

text \<open>The host name is what \<open>uname -a\<close> prints before the first occurrence of a blank and a hash.\<close>

fun before_hash :: "string \<Rightarrow> string" where
  "before_hash (a # b # cs) = (if a = CHR '' '' \<and> b = CHR ''#'' then [] else a # before_hash (b # cs))"
| "before_hash cs = cs"

definition collector_init :: "string \<Rightarrow> string \<Rightarrow> collector \<Rightarrow> collector" where
  "collector_init host functionName c = c\<lparr>co_HostName := before_hash host, co_FunctionName := functionName\<rparr>"

lemma before_hash_spec:
  "\<exists>rest. host = before_hash host @ rest \<and> (rest = [] \<or> (\<exists>cs. rest = '' #'' @ cs))"
  by (induction host rule: before_hash.induct) auto

section \<open>Every entry is in one upload\<close>

text \<open>The entries sent so far (a ghost) and the collector.\<close>

inductive collecting :: "collector \<Rightarrow> DataEntry list \<Rightarrow> collector \<Rightarrow> bool" for c0 where
  CStart: "co_gatherer c0 = [] \<Longrightarrow> co_depository c0 = [] \<Longrightarrow> co_deposited c0 = 0 \<Longrightarrow> co_uploads c0 = [] \<Longrightarrow> collecting c0 [] c0"
| CSend: "collecting c0 es c \<Longrightarrow> length (co_gatherer c) < 10 \<Longrightarrow> collecting c0 (es @ [e]) (Send_entry e c)"
| CCollect: "collecting c0 es c \<Longrightarrow> co_gatherer c \<noteq> [] \<Longrightarrow> Collect_entry c = Inr c' \<Longrightarrow> collecting c0 es c'"
| CSave: "collecting c0 es c \<Longrightarrow> co_deposited c = 0 \<Longrightarrow> collecting c0 es (Save l c)"

lemma line_of_cong: "co_HostName c = co_HostName c' \<Longrightarrow> co_FunctionName c = co_FunctionName c' \<Longrightarrow> line_of c = line_of c'"
  by (simp add: line_of_def fun_eq_iff)

text \<open>The texts of the uploads are the entries of \<open>ess\<close>, one list for each upload.\<close>

definition uploaded :: "collector \<Rightarrow> DataEntry list list \<Rightarrow> collector \<Rightarrow> bool" where
  "uploaded c0 ess c \<longleftrightarrow> map (snd \<circ> fst) (co_uploads c) = map (concat \<circ> map (line_of c0)) ess"

lemma Save_uploaded:
  assumes "uploaded c0 ess c" "line_of c = line_of c0"
  shows "uploaded c0 (ess @ [co_depository c]) (Save l c)"
  using assms by (simp add: uploaded_def Save_def s3Put_def Let_def)

lemma collecting_inv:
  assumes "collecting c0 es c"
  shows "co_deposited c = int (length (co_gatherer c))" "line_of c = line_of c0"
    "\<exists>ess. concat ess @ co_depository c @ co_gatherer c = es \<and> uploaded c0 ess c"
  using assms
proof (induction)
  case CStart
  { case 1 then show ?case using CStart by simp
  next case 2 then show ?case by simp
  next case 3 then show ?case using CStart by (intro exI [of _ "[]"]) (simp add: uploaded_def) }
next
  case (CSend es c e)
  { case 1 then show ?case using CSend.IH(1) by (simp add: Send_entry_def)
  next case 2 then show ?case using CSend.IH(2) line_of_cong [of "Send_entry e c" c] by (simp add: Send_entry_def)
  next case 3 then show ?case using CSend.IH(3) by (auto simp: Send_entry_def uploaded_def) }
next
  case (CCollect es c c')
  then obtain e rest where g: "co_gatherer c = e # rest" by (cases "co_gatherer c") auto
  then have "0 < co_deposited c" using CCollect.IH(1) by simp
  then have c': "c' = c\<lparr>co_gatherer := rest, co_depository := co_depository c @ [e], co_deposited := co_deposited c - 1\<rparr>"
    using CCollect.hyps(3) g by (simp add: Collect_entry_def)
  { case 1 then show ?case using CCollect.IH(1) g by (simp add: c')
  next case 2 then show ?case using CCollect.IH(2) line_of_cong [of c' c] by (simp add: c')
  next case 3 then show ?case using CCollect.IH(3) g by (simp add: c' uploaded_def) }
next
  case (CSave es c l)
  obtain ess where ess: "concat ess @ co_depository c @ co_gatherer c = es" "uploaded c0 ess c" using CSave.IH(3) by blast
  have f: "co_depository (Save l c) = []" "co_gatherer (Save l c) = co_gatherer c" by (simp_all add: Save_def s3Put_def Let_def)
  { case 1 then show ?case using CSave.IH(1) by (simp add: Save_def s3Put_def Let_def)
  next case 2 then show ?case using CSave.IH(2) line_of_cong [of "Save l c" c] by (simp add: Save_def s3Put_def Let_def)
  next case 3 then show ?case
      using ess f Save_uploaded [OF ess(2) CSave.IH(2)] by (intro exI [of _ "ess @ [co_depository c]"]) simp }
qed

lemma Collect_never_negative:
  assumes "collecting c0 es c"
  shows "\<exists>c'. Collect_entry c = Inr c'"
  using collecting_inv(1) [OF assms] by (cases "co_gatherer c") (simp_all add: Collect_entry_def)

lemma save_has_all:
  assumes "collecting c0 es c" and "co_deposited c = 0"
  shows "\<exists>ess. concat ess = es \<and> uploaded c0 ess (Save l c)"
proof -
  note i = collecting_inv [OF assms(1)]
  obtain ess where ess: "concat ess @ co_depository c @ co_gatherer c = es" "uploaded c0 ess c" using i(3) by blast
  have "co_gatherer c = []" using i(1) assms(2) by simp
  then show ?thesis using ess(1) Save_uploaded [OF ess(2) i(2)] by (intro exI [of _ "ess @ [co_depository c]"]) simp
qed

text \<open>What a save leaves in S3: its text when the upload succeeds, nothing new when it fails.\<close>

lemma Save_objects:
  "s3_objects (Save l c) =
     (if co_S3 c (length (co_uploads c))
      then (s3_objects c)((S3BUCKET, s3_key l c) \<mapsto> concat (map (line_of c) (co_depository c))) else s3_objects c)"
  by (simp add: s3_objects_def Save_def s3Put_def Let_def fun_eq_iff)

lemma all_stored:
  assumes "\<forall>u \<in> set (co_uploads c). snd u" "distinct (map (fst \<circ> fst) (co_uploads c))" "((k, t), b) \<in> set (co_uploads c)"
  shows "s3_objects c k = Some t"
proof -
  have "filter snd (co_uploads c) = co_uploads c" using assms(1) by (simp add: filter_id_conv)
  moreover have "distinct (map fst (rev (map fst (co_uploads c))))" using assms(2) by (simp add: rev_map [symmetric])
  moreover have "(k, t) \<in> set (rev (map fst (co_uploads c)))" using assms(3) by force
  ultimately show ?thesis unfolding s3_objects_def by (metis map_of_is_SomeI)
qed

end
