(* ===== verification/StorageAdapter.thy ===== *)
theory StorageAdapter
  imports MigratorClient
begin

text \<open>
  The interface \<open>types.Storage\<close> (\<open>src/lambda/types/types.go\<close>) as a record of operations, the store of
  \<open>storage.go\<close> as one implementation, and \<open>src/lambda/migrator/storage_adapter.go\<close> as another: the
  store a destination Lambda uses while its data are still being migrated, with the loop \<open>Client.Migrate\<close>
  of \<open>client.go\<close> that fetches them.  The goroutine of the adapter runs one command at a time, so a
  command is a function of the adapter's state.  Its connection to the source is a value of type \<open>'r\<close>
  read by the operations of a \<open>resp_reader\<close>; \<open>wi_peer\<close> is what the source makes of the frames sent to
  it, \<open>wi_oc\<close> the outcome of \<open>CopyBulk\<close> and \<open>Flush\<close>, and \<open>wi_reads\<close> the calls of \<open>Read\<close> by which the RESP
  library copies a stream.
\<close>

section \<open>The interface of a store\<close>

record 's storage_if =
  sg_Get :: "int \<Rightarrow> string \<Rightarrow> 's \<Rightarrow> ((error + string \<times> bytes) \<times> 's) res"
  sg_GetStream :: "int \<Rightarrow> string \<Rightarrow> 's \<Rightarrow> ((error + string \<times> rstream) \<times> 's) res"
  sg_Set :: "int \<Rightarrow> string \<Rightarrow> string \<Rightarrow> bytes \<Rightarrow> 's \<Rightarrow> (error option \<times> 's) res"
  sg_SetStream :: "int \<Rightarrow> string \<Rightarrow> string \<Rightarrow> rstream \<Rightarrow> 's \<Rightarrow> (error option \<times> 's) res"
  sg_Len :: "'s \<Rightarrow> nat"
  sg_Del :: "int \<Rightarrow> string \<Rightarrow> string \<Rightarrow> 's \<Rightarrow> (error option \<times> 's) res"
  sg_Keys :: "'s \<Rightarrow> string list"

definition repo_if :: "(repo \<Rightarrow> Chunk list) \<Rightarrow> repo storage_if" where
  "repo_if range_order = \<lparr>
     sg_Get = (\<lambda>t k s. Inr (Storage_Get t k s)),
     sg_GetStream = (\<lambda>t k s. Inr (Storage_GetStream t k s)),
     sg_Set = (\<lambda>t k i b s. Inr (None, Storage_Set t k i b s)),
     sg_SetStream = (\<lambda>t k i st s. Inr (Storage_SetStream t k i st s)),
     sg_Len = Storage_Len,
     sg_Del = (\<lambda>t k i s. Inr (Storage_Del t k i s)),
     sg_Keys = Storage_Keys range_order\<rparr>"

text \<open>
  What a client of the interface relies on.  \<open>view\<close> is the chunk a \<open>GetStream\<close> returns; every operation
  keeps \<open>ok\<close> and returns, and \<open>Set\<close> and \<open>Del\<close> change the view as they should.
\<close>

definition stream_answer :: "(error + string \<times> rstream) \<Rightarrow> (string \<times> bytes) option \<Rightarrow> bool" where
  "stream_answer r v \<longleftrightarrow>
     (case v of None \<Rightarrow> (\<exists>e. r = Inl e) | Some (i, b) \<Rightarrow> r = Inr (i, NewInlineReader b))"

locale storage_contract =
  fixes I :: "'s storage_if" and ok :: "'s \<Rightarrow> bool" and view :: "'s \<Rightarrow> string \<Rightarrow> (string \<times> bytes) option"
  assumes GetStream_law: "ok s \<Longrightarrow>
      \<exists>r s'. sg_GetStream I t k s = Inr (r, s') \<and> ok s' \<and> view s' = view s \<and> stream_answer r (view s k)"
    and Set_law: "ok s \<Longrightarrow> \<exists>s'. sg_Set I t k i b s = Inr (None, s') \<and> ok s' \<and> view s' = (view s)(k \<mapsto> (i, b))"
    and SetStream_law: "ok s \<Longrightarrow>
      \<exists>s'. sg_SetStream I t k i (NewInlineReader b) s = Inr (None, s') \<and> ok s' \<and> view s' = (view s)(k \<mapsto> (i, b))"
    and Del_law: "ok s \<Longrightarrow> \<exists>e s'. sg_Del I t k i s = Inr (e, s') \<and> ok s' \<and> view s' = (view s)(k := None)"

interpretation repo_store: storage_contract "repo_if f" repo_wf repo_view
proof unfold_locales
  fix s :: repo and t k i b
  assume wf: "repo_wf s"
  have "stream_answer (fst (Storage_GetStream t k s)) (repo_view s k)"
    using lstore.get_value [of t k s]
    by (auto simp: Storage_GetStream_def stream_answer_def split: option.splits prod.splits sum.splits)
  moreover have "snd (Storage_GetStream t k s) = snd (Storage_Get t k s)"
    by (auto simp: Storage_GetStream_def split: prod.splits sum.splits)
  ultimately show "\<exists>r s'. sg_GetStream (repo_if f) t k s = Inr (r, s') \<and> repo_wf s' \<and> repo_view s' = repo_view s \<and>
      stream_answer r (repo_view s k)"
    using wf lstore.get_view [of t k s] repo_wf_Get [OF wf, of t k]
    by (cases "Storage_GetStream t k s") (simp add: repo_if_def)
  show "\<exists>s'. sg_Set (repo_if f) t k i b s = Inr (None, s') \<and> repo_wf s' \<and> repo_view s' = (repo_view s)(k \<mapsto> (i, b))"
    by (simp add: repo_if_def repo_wf_Set wf lstore.set_view)
  show "\<exists>s'. sg_SetStream (repo_if f) t k i (NewInlineReader b) s = Inr (None, s') \<and> repo_wf s' \<and>
      repo_view s' = (repo_view s)(k \<mapsto> (i, b))"
    by (simp add: repo_if_def Storage_SetStream_def NewInlineReader_def repo_wf_Set wf lstore.set_view)
  show "\<exists>e s'. sg_Del (repo_if f) t k i s = Inr (e, s') \<and> repo_wf s' \<and> repo_view s' = (repo_view s)(k := None)"
    using repo_wf_Del [OF wf, of t k i] lstore.del_view [of t k i s]
    by (cases "Storage_Del t k i s") (simp add: repo_if_def)
qed

section \<open>The adapter\<close>

record 'r wire =
  wi_reader :: "'r resp_reader"
  wi_peer :: "frame list \<Rightarrow> 'r \<Rightarrow> 'r"
  wi_oc :: "'r \<Rightarrow> nat \<Rightarrow> error option"
  wi_reads :: "rstream \<Rightarrow> (bytes \<times> error option) list"

record ('s, 'r) StorageAdapter =
  sa_store :: 's
  sa_conn :: 'r
  sa_lastError :: "error option"
  sa_done :: bool

definition newStorageAdapter :: "'r \<Rightarrow> 's \<Rightarrow> ('s, 'r) StorageAdapter" where
  "newStorageAdapter conn store = \<lparr>sa_store = store, sa_conn = conn, sa_lastError = None, sa_done = False\<rparr>"

definition Restore :: "('s, 'r) StorageAdapter \<Rightarrow> 's \<times> ('s, 'r) StorageAdapter" where
  "Restore a = (sa_store a, if sa_done a then a else a\<lparr>sa_done := True\<rparr>)"

record storageAdapterCommand =
  sc_key :: string
  sc_chunk :: string
  sc_bodyStream :: "rstream option"

definition sa_Send :: "'r wire \<Rightarrow> string \<Rightarrow> rstream option \<Rightarrow> string list \<Rightarrow> ('s, 'r) StorageAdapter
    \<Rightarrow> error option \<times> ('s, 'r) StorageAdapter" where
  "sa_Send W cmd stream args a =
     (let (ws, err) = Send (wi_oc W (sa_conn a)) cmd stream args
      in (err, a\<lparr>sa_conn := wi_peer W (frames ws) (sa_conn a)\<rparr>))"

text \<open>The error of \<open>StreamBulk\<close> is dropped: the body is then nil and the function returns no error.\<close>

definition readGetResponse :: "'r resp_reader \<Rightarrow> storageAdapterCommand \<Rightarrow> ('s, 'r) StorageAdapter
    \<Rightarrow> error option \<times> storageAdapterCommand \<times> ('s, 'r) StorageAdapter" where
  "readGetResponse R cmd a =
     (case rd_PeekType R (sa_conn a) of
        (Inl err, r) \<Rightarrow> (Some ErrClosed, cmd, a\<lparr>sa_conn := r, sa_lastError := Some err\<rparr>)
      | (Inr TypeError, r) \<Rightarrow>
          (case rd_ReadError R r of
             (Inl err, r) \<Rightarrow> (Some err, cmd, a\<lparr>sa_conn := r\<rparr>)
           | (Inr strErr, r) \<Rightarrow> (Some (ErrOther (''Error in migration response: '' @ strErr)), cmd, a\<lparr>sa_conn := r\<rparr>))
      | (Inr _, r) \<Rightarrow>
          (case bindS (rd_ReadBulkString R r) (\<lambda>cmdName r. bindS (rd_ReadBulkString R r) (\<lambda>_ r.
                bindS (rd_ReadBulkString R r) (\<lambda>_ r. bindS (rd_ReadBulkString R r) (\<lambda>chunk r.
                  (Inr (cmdName, chunk), r))))) of
             (Inl err, r) \<Rightarrow> (Some err, cmd, a\<lparr>sa_conn := r\<rparr>)
           | (Inr (cmdName, chunk), r) \<Rightarrow>
               if ToLower cmdName = ''get''
               then (case rd_StreamBulk R r of
                       (Inl _, r) \<Rightarrow> (None, cmd\<lparr>sc_chunk := chunk, sc_bodyStream := None\<rparr>, a\<lparr>sa_conn := r\<rparr>)
                     | (Inr st, r) \<Rightarrow> (None, cmd\<lparr>sc_chunk := chunk, sc_bodyStream := Some st\<rparr>, a\<lparr>sa_conn := r\<rparr>))
               else (None, cmd\<lparr>sc_chunk := chunk\<rparr>, a\<lparr>sa_conn := r\<rparr>)))"

definition sa_store_Set :: "'s storage_if \<Rightarrow> int \<Rightarrow> string \<Rightarrow> string \<Rightarrow> bytes \<Rightarrow> ('s, 'r) StorageAdapter
    \<Rightarrow> ('s, 'r) StorageAdapter res" where
  "sa_store_Set I t key chunk body a = bindR (sg_Set I t key chunk body (sa_store a)) (\<lambda>(_, s). Inr (a\<lparr>sa_store := s\<rparr>))"

text \<open>\<open>rds st\<close>: the calls of \<open>Read\<close> by which the receiver of the stream consumes it.\<close>

definition sa_getHandler :: "'s storage_if \<Rightarrow> 'r wire \<Rightarrow> (rstream \<Rightarrow> (bytes \<times> error option) list) \<Rightarrow> int \<Rightarrow> string
    \<Rightarrow> ('s, 'r) StorageAdapter \<Rightarrow> ((error + string \<times> rstream) \<times> ('s, 'r) StorageAdapter) res" where
  "sa_getHandler I W rds t key a =
     bindR (sg_GetStream I t key (sa_store a)) (\<lambda>(r, s).
       let a = a\<lparr>sa_store := s\<rparr>
       in case r of
            Inr v \<Rightarrow> Inr (Inr v, a)
          | Inl _ \<Rightarrow>
              (case sa_Send W ''get'' None [''migrator'', ''proxy'', [], key] a of
                 (Some e, a) \<Rightarrow> Inr (Inl e, a)
               | (None, a) \<Rightarrow>
                   (case readGetResponse (wi_reader W) \<lparr>sc_key = key, sc_chunk = [], sc_bodyStream = None\<rparr> a of
                      (Some e, _, a) \<Rightarrow> Inr (Inl e, a)
                    | (None, cmd, a) \<Rightarrow>
                        bindR (NewInterceptReader (sc_bodyStream cmd)) (\<lambda>ir.
                        bindR (ir_Reads (rds (ir_stream ir)) ir) (\<lambda>ir.
                          case LastError ir of
                            Some _ \<Rightarrow> Inr (Inr (sc_chunk cmd, ir_stream ir), a)
                          | None \<Rightarrow>
                              bindR (sa_store_Set I t key (sc_chunk cmd) (Intercepted ir) a)
                                (\<lambda>a. Inr (Inr (sc_chunk cmd, ir_stream ir), a)))))))"

definition sa_GetStream :: "'s storage_if \<Rightarrow> 'r wire \<Rightarrow> int \<Rightarrow> string \<Rightarrow> ('s, 'r) StorageAdapter
    \<Rightarrow> ((error + string \<times> rstream) \<times> ('s, 'r) StorageAdapter) res" where
  "sa_GetStream I W t key a = sa_getHandler I W (wi_reads W) t key a"

text \<open>\<open>Get\<close> consumes the stream with \<open>ReadAll\<close>, which the interceptor does not see.\<close>

definition sa_Get :: "'s storage_if \<Rightarrow> 'r wire \<Rightarrow> int \<Rightarrow> string \<Rightarrow> ('s, 'r) StorageAdapter
    \<Rightarrow> ((error + string \<times> bytes) \<times> ('s, 'r) StorageAdapter) res" where
  "sa_Get I W t key a =
     bindR (sa_getHandler I W (\<lambda>_. []) t key a) (\<lambda>(r, a).
       Inr (bindR r (\<lambda>(chunkId, st). bindR (st_ReadAll st) (\<lambda>v. Inr (chunkId, v))), a))"

definition sa_setHandler :: "'s storage_if \<Rightarrow> 'r wire \<Rightarrow> int \<Rightarrow> string \<Rightarrow> string \<Rightarrow> rstream
    \<Rightarrow> ('s, 'r) StorageAdapter \<Rightarrow> (error option \<times> ('s, 'r) StorageAdapter) res" where
  "sa_setHandler I W t key chunk valReader a =
     bindR (NewInterceptReader (Some valReader)) (\<lambda>ir.
     bindR (ir_Reads (wi_reads W valReader) ir) (\<lambda>ir.
       case sa_Send W ''set'' (Some valReader) [''migrator'', ''proxy'', chunk, key] a of
         (Some e, a) \<Rightarrow> Inr (Some e, a)
       | (None, a) \<Rightarrow>
           (case readGetResponse (wi_reader W) \<lparr>sc_key = key, sc_chunk = chunk, sc_bodyStream = Some valReader\<rparr> a of
              (Some e, _, a) \<Rightarrow> Inr (Some e, a)
            | (None, cmd, a) \<Rightarrow>
                (case LastError ir of
                   Some e \<Rightarrow> Inr (Some e, a)
                 | None \<Rightarrow> bindR (sa_store_Set I t key (sc_chunk cmd) (Intercepted ir) a) (\<lambda>a. Inr (None, a))))))"

definition sa_SetStream :: "'s storage_if \<Rightarrow> 'r wire \<Rightarrow> int \<Rightarrow> string \<Rightarrow> string \<Rightarrow> rstream
    \<Rightarrow> ('s, 'r) StorageAdapter \<Rightarrow> (error option \<times> ('s, 'r) StorageAdapter) res" where
  "sa_SetStream I W t key chunk valReader a = sa_setHandler I W t key chunk valReader a"

definition sa_Set :: "'s storage_if \<Rightarrow> 'r wire \<Rightarrow> int \<Rightarrow> string \<Rightarrow> string \<Rightarrow> bytes
    \<Rightarrow> ('s, 'r) StorageAdapter \<Rightarrow> (error option \<times> ('s, 'r) StorageAdapter) res" where
  "sa_Set I W t key chunk val a = sa_SetStream I W t key chunk (NewInlineReader val) a"

definition sa_migrateHandler :: "'s storage_if \<Rightarrow> 'r wire \<Rightarrow> int \<Rightarrow> string \<Rightarrow> ('s, 'r) StorageAdapter
    \<Rightarrow> ((error + string) \<times> ('s, 'r) StorageAdapter) res" where
  "sa_migrateHandler I W t key a =
     bindR (sg_GetStream I t key (sa_store a)) (\<lambda>(r, s).
       let a = a\<lparr>sa_store := s\<rparr>
       in case r of
            Inr _ \<Rightarrow> Inr (Inl ErrSkip, a)
          | Inl _ \<Rightarrow>
              (case sa_Send W ''get'' None [''migrator'', ''migrate'', [], key] a of
                 (Some e, a) \<Rightarrow> Inr (Inl e, a)
               | (None, a) \<Rightarrow>
                   (case readGetResponse (wi_reader W) \<lparr>sc_key = key, sc_chunk = [], sc_bodyStream = None\<rparr> a of
                      (Some e, _, a) \<Rightarrow> Inr (Inl e, a)
                    | (None, cmd, a) \<Rightarrow>
                        (case sc_bodyStream cmd of
                           None \<Rightarrow> Inl NilDereference
                         | Some st \<Rightarrow>
                             (case st_ReadAll st of
                                Inl e \<Rightarrow> Inr (Inl e, a)
                              | Inr body \<Rightarrow>
                                  bindR (sa_store_Set I t key (sc_chunk cmd) body a) (\<lambda>a. Inr (Inr (sc_chunk cmd), a)))))))"

text \<open>The wrapper puts a command into the serializer and waits for its outcome.\<close>

definition sa_Migrate :: "'s storage_if \<Rightarrow> 'r wire \<Rightarrow> int \<Rightarrow> string \<Rightarrow> ('s, 'r) StorageAdapter
    \<Rightarrow> ((error + string) \<times> ('s, 'r) StorageAdapter) res" where
  "sa_Migrate I W t key a = sa_migrateHandler I W t key a"

definition sa_delHandler :: "'s storage_if \<Rightarrow> 'r wire \<Rightarrow> int \<Rightarrow> string \<Rightarrow> string
    \<Rightarrow> ('s, 'r) StorageAdapter \<Rightarrow> (error option \<times> ('s, 'r) StorageAdapter) res" where
  "sa_delHandler I W t key chunk a =
     (case sa_Send W ''del'' None [''migrator'', ''proxy'', chunk, key] a of
        (Some e, a) \<Rightarrow> Inr (Some e, a)
      | (None, a) \<Rightarrow>
          (case readGetResponse (wi_reader W) \<lparr>sc_key = key, sc_chunk = chunk, sc_bodyStream = None\<rparr> a of
             (Some e, _, a) \<Rightarrow> Inr (Some e, a)
           | (None, cmd, a) \<Rightarrow>
               bindR (sg_Del I t key (sc_chunk cmd) (sa_store a)) (\<lambda>(_, s). Inr (None, a\<lparr>sa_store := s\<rparr>))))"

definition sa_Del :: "'s storage_if \<Rightarrow> 'r wire \<Rightarrow> int \<Rightarrow> string \<Rightarrow> string
    \<Rightarrow> ('s, 'r) StorageAdapter \<Rightarrow> (error option \<times> ('s, 'r) StorageAdapter) res" where
  "sa_Del I W t key chunk a = sa_delHandler I W t key chunk a"

definition LocalDel :: "'s storage_if \<Rightarrow> int \<Rightarrow> string \<Rightarrow> ('s, 'r) StorageAdapter \<Rightarrow> ('s, 'r) StorageAdapter res" where
  "LocalDel I t key a = bindR (sg_Del I t key [] (sa_store a)) (\<lambda>(_, s). Inr (a\<lparr>sa_store := s\<rparr>))"

definition adapter_if :: "'s storage_if \<Rightarrow> 'r wire \<Rightarrow> ('s, 'r) StorageAdapter storage_if" where
  "adapter_if I W = \<lparr>
     sg_Get = sa_Get I W,
     sg_GetStream = sa_GetStream I W,
     sg_Set = sa_Set I W,
     sg_SetStream = sa_SetStream I W,
     sg_Len = sg_Len I \<circ> sa_store,
     sg_Del = sa_Del I W,
     sg_Keys = sg_Keys I \<circ> sa_store\<rparr>"

section \<open>The migration loop\<close>

text \<open>One round of the loop of \<open>Client.Migrate\<close>; the flag tells that the loop goes on.\<close>

definition migrate_one :: "'s storage_if \<Rightarrow> 'r wire \<Rightarrow> int \<Rightarrow> string \<Rightarrow> ('s, 'r) StorageAdapter
    \<Rightarrow> (bool \<times> ('s, 'r) StorageAdapter) res" where
  "migrate_one I W t cmdkey a =
     (if cmdkey = [] then Inl SliceOutOfRange
      else if itoa OP_DEL = [hd cmdkey] then bindR (LocalDel I t (tl cmdkey) a) (\<lambda>a. Inr (True, a))
      else bindR (sa_Migrate I W t (tl cmdkey) a) (\<lambda>(r, a). Inr (r \<noteq> Inl ErrClosed, a)))"

fun migrate_keys :: "'s storage_if \<Rightarrow> 'r wire \<Rightarrow> int \<Rightarrow> string list \<Rightarrow> ('s, 'r) StorageAdapter
    \<Rightarrow> ('s, 'r) StorageAdapter res" where
  "migrate_keys I W t [] a = Inr a"
| "migrate_keys I W t (k # ks) a =
     bindR (migrate_one I W t k a) (\<lambda>(go, a). if go then migrate_keys I W t ks a else Inr a)"

fun read_keys :: "'r resp_reader \<Rightarrow> nat \<Rightarrow> 'r \<Rightarrow> (error + string list) \<times> 'r" where
  "read_keys R 0 r = (Inr [], r)"
| "read_keys R (Suc n) r = bindS (rd_ReadBulkString R r) (\<lambda>k r. bindS (read_keys R n r) (\<lambda>ks r. (Inr (k # ks), r)))"

text \<open>What \<open>Migrate\<close> reads before its loop: the command, the number of keys, the keys.\<close>

definition read_mhello :: "'r resp_reader \<Rightarrow> 'r \<Rightarrow> ((error + string list) \<times> 'r) res" where
  "read_mhello R r0 =
     (let (_, r) = rd_ReadBulkString R r0
      in case rd_ReadBulkString R r of
           (Inl e, r) \<Rightarrow> Inr (Inl e, r)
         | (Inr strLen, r) \<Rightarrow>
             (case atoi strLen of
                None \<Rightarrow> Inr (Inl (ErrOther ''Convert strLen err''), r)
              | Some n \<Rightarrow> if n < 0 then Inl MakeLenOutOfRange else Inr (read_keys R (nat n) r)))"

definition Client_Migrate :: "'s storage_if \<Rightarrow> 'r wire \<Rightarrow> int \<Rightarrow> ('s, 'r) StorageAdapter
    \<Rightarrow> ('s, 'r) StorageAdapter res" where
  "Client_Migrate I W t a =
     bindR (read_mhello (wi_reader W) (sa_conn a)) (\<lambda>(r, conn).
       let a = a\<lparr>sa_conn := conn\<rparr>
       in case r of Inl _ \<Rightarrow> Inr a | Inr keys \<Rightarrow> migrate_keys I W t keys a)"

section \<open>The adapter is a store\<close>

lemma map_add_upd_both: "m(k \<mapsto> v) ++ n(k \<mapsto> v) = (m ++ n)(k \<mapsto> v)"
  by (auto simp: map_add_def fun_eq_iff split: option.splits)

lemma map_add_del_both: "m(k := None) ++ n(k := None) = (m ++ n)(k := None)"
  by (auto simp: map_add_def fun_eq_iff split: option.splits)

lemma map_add_fetch: "m k = Some v \<Longrightarrow> n k = None \<or> n k = Some v \<Longrightarrow> m ++ n(k \<mapsto> v) = m ++ n"
  by (auto simp: map_add_def fun_eq_iff)

lemma ir_Reads_stream: "ir_Reads xs ir = Inr ir' \<Longrightarrow> ir_stream ir' = ir_stream ir"
  by (induction xs arbitrary: ir) (auto simp: ir_Read_def Let_def go_simps split: prod.splits if_splits)

text \<open>
  What the adapter relies on of its connection: the reader returns the frames the source wrote, nothing
  is lost, and the source answers \<open>get\<close>, \<open>set\<close> and \<open>del\<close> from a store of its own (\<open>pview\<close>), refusing
  to delete a key it has never held (\<open>known\<close>).
\<close>

locale migration_peer =
  fixes W :: "'r wire" and fr :: "'r \<Rightarrow> frame list" and src :: "'r \<Rightarrow> 'p" and pok :: "'p \<Rightarrow> bool"
    and pview :: "'p \<Rightarrow> string \<Rightarrow> (string \<times> bytes) option" and known :: "'p \<Rightarrow> string set"
  assumes reader: "reader_ok (wi_reader W) fr"
    and reader_src: "src (snd (rd_PeekType (wi_reader W) r)) = src r" "src (snd (rd_ReadError (wi_reader W) r)) = src r"
      "src (snd (rd_ReadBulkString (wi_reader W) r)) = src r" "src (snd (rd_StreamBulk (wi_reader W) r)) = src r"
    and reads_all: "concat (map fst (wi_reads W (NewInlineReader b))) = b"
      "\<forall>x \<in> set (wi_reads W (NewInlineReader b)). snd x = None"
    and sent: "wi_oc W r n = None"
    and pview_known: "pok p \<Longrightarrow> dom (pview p) \<subseteq> known p"
    and peer_get: "fr r = [] \<Longrightarrow> pok (src r) \<Longrightarrow> well_framed fs [''get'', c, q, x, k] \<Longrightarrow>
      pok (src (wi_peer W fs r)) \<and> pview (src (wi_peer W fs r)) = pview (src r) \<and>
      known (src (wi_peer W fs r)) = known (src r) \<and>
      (case pview (src r) k of
         None \<Rightarrow> \<exists>m. fr (wi_peer W fs r) = [FError m]
       | Some (i, b) \<Rightarrow> fr (wi_peer W fs r) = map FBulk [''get'', c, q, i, b])"
    and peer_set: "fr r = [] \<Longrightarrow> pok (src r) \<Longrightarrow> well_framed fs [''set'', c, q, i, k, b] \<Longrightarrow>
      pok (src (wi_peer W fs r)) \<and> pview (src (wi_peer W fs r)) = (pview (src r))(k \<mapsto> (i, b)) \<and>
      known (src (wi_peer W fs r)) = insert k (known (src r)) \<and> fr (wi_peer W fs r) = map FBulk [''set'', c, q, i]"
    and peer_del: "fr r = [] \<Longrightarrow> pok (src r) \<Longrightarrow> well_framed fs [''del'', c, q, i, k] \<Longrightarrow>
      pok (src (wi_peer W fs r)) \<and> pview (src (wi_peer W fs r)) = (pview (src r))(k := None) \<and>
      known (src (wi_peer W fs r)) = known (src r) \<and>
      (if k \<in> known (src r) then fr (wi_peer W fs r) = map FBulk [''del'', c, q, i]
       else \<exists>m. fr (wi_peer W fs r) = [FError m])"
begin

lemma read_bulk: "fr r = FBulk b # fs \<Longrightarrow> \<exists>r'. rd_ReadBulkString (wi_reader W) r = (Inr b, r') \<and> fr r' = fs \<and> src r' = src r"
  using reads_step [OF reader_okD(3) [OF reader], of r "FBulk b" fs b] reader_src(3) [of r] by auto

lemma read_stream: "fr r = FBulk b # fs \<Longrightarrow>
    \<exists>r'. rd_StreamBulk (wi_reader W) r = (Inr (NewInlineReader b), r') \<and> fr r' = fs \<and> src r' = src r"
  using reads_step [OF reader_okD(8) [OF reader], of r "FBulk b" fs "NewInlineReader b"] reader_src(4) [of r] by auto

lemma read_peek: "fr r = x # fs \<Longrightarrow>
    \<exists>r'. rd_PeekType (wi_reader W) r = (Inr (type_of_frame x), r') \<and> fr r' = x # fs \<and> src r' = src r"
  using reader_okD(1) [OF reader, of r x fs] reader_src(1) [of r] by auto

lemma read_err: "fr r = FError m # fs \<Longrightarrow> \<exists>r'. rd_ReadError (wi_reader W) r = (Inr m, r') \<and> fr r' = fs \<and> src r' = src r"
  using reads_step [OF reader_okD(6) [OF reader], of r "FError m" fs m] reader_src(2) [of r] by auto

lemma response_error:
  assumes "fr (sa_conn a) = [FError m]"
  shows "\<exists>r'. readGetResponse (wi_reader W) cmd a =
     (Some (ErrOther (''Error in migration response: '' @ m)), cmd, a\<lparr>sa_conn := r'\<rparr>) \<and> fr r' = [] \<and> src r' = src (sa_conn a)"
proof -
  obtain r1 where 1: "rd_PeekType (wi_reader W) (sa_conn a) = (Inr TypeError, r1)" "fr r1 = [FError m]" "src r1 = src (sa_conn a)"
    using read_peek [OF assms] by auto
  obtain r2 where "rd_ReadError (wi_reader W) r1 = (Inr m, r2)" "fr r2 = []" "src r2 = src r1"
    using read_err [OF 1(2)] by auto
  then show ?thesis using 1 by (intro exI [of _ r2]) (simp add: readGetResponse_def)
qed

lemma response_bulks:
  assumes "fr (sa_conn a) = map FBulk [n, c, q, i] @ fs"
  shows "\<exists>r'. fr r' = fs \<and> src r' = src (sa_conn a) \<and> readGetResponse (wi_reader W) cmd a =
     (if ToLower n = ''get''
      then (case rd_StreamBulk (wi_reader W) r' of
              (Inl _, r) \<Rightarrow> (None, cmd\<lparr>sc_chunk := i, sc_bodyStream := None\<rparr>, a\<lparr>sa_conn := r\<rparr>)
            | (Inr st, r) \<Rightarrow> (None, cmd\<lparr>sc_chunk := i, sc_bodyStream := Some st\<rparr>, a\<lparr>sa_conn := r\<rparr>))
      else (None, cmd\<lparr>sc_chunk := i\<rparr>, a\<lparr>sa_conn := r'\<rparr>))"
proof -
  obtain r0 where 0: "rd_PeekType (wi_reader W) (sa_conn a) = (Inr TypeBulk, r0)"
      "fr r0 = map FBulk [n, c, q, i] @ fs" "src r0 = src (sa_conn a)"
    using read_peek [of "sa_conn a" "FBulk n" "map FBulk [c, q, i] @ fs"] assms by auto
  obtain r1 where 1: "rd_ReadBulkString (wi_reader W) r0 = (Inr n, r1)" "fr r1 = map FBulk [c, q, i] @ fs" "src r1 = src r0"
    using read_bulk [of r0 n "map FBulk [c, q, i] @ fs"] 0 by auto
  obtain r2 where 2: "rd_ReadBulkString (wi_reader W) r1 = (Inr c, r2)" "fr r2 = map FBulk [q, i] @ fs" "src r2 = src r1"
    using read_bulk [of r1 c "map FBulk [q, i] @ fs"] 1 by auto
  obtain r3 where 3: "rd_ReadBulkString (wi_reader W) r2 = (Inr q, r3)" "fr r3 = FBulk i # fs" "src r3 = src r2"
    using read_bulk [of r2 q "FBulk i # fs"] 2 by auto
  obtain r4 where 4: "rd_ReadBulkString (wi_reader W) r3 = (Inr i, r4)" "fr r4 = fs" "src r4 = src r3"
    using read_bulk [OF 3(2)] by auto
  show ?thesis
    by (rule exI [of _ r4]) (simp add: readGetResponse_def 0 1 2 3 4)
qed

lemma send_ok: "stream = None \<and> b = [] \<or> (\<exists>v. stream = Some (NewInlineReader v) \<and> b = [v]) \<Longrightarrow>
    \<exists>fs. sa_Send W cmd stream args a = (None, a\<lparr>sa_conn := wi_peer W fs (sa_conn a)\<rparr>) \<and> well_framed fs (cmd # args @ b)"
  using Send_framed [of stream b "wi_oc W (sa_conn a)" cmd args] sent
  by (auto simp: sa_Send_def NewInlineReader_def split: prod.splits)

end

text \<open>
  A store adapted to such a source is again a store: its view is the source's, overridden by what has
  arrived already.
\<close>

definition adapter_ok :: "('s \<Rightarrow> bool) \<Rightarrow> ('s \<Rightarrow> string \<Rightarrow> (string \<times> bytes) option) \<Rightarrow> ('r \<Rightarrow> frame list) \<Rightarrow> ('r \<Rightarrow> 'p) \<Rightarrow>
    ('p \<Rightarrow> bool) \<Rightarrow> ('p \<Rightarrow> string set) \<Rightarrow> ('s, 'r) StorageAdapter \<Rightarrow> bool" where
  "adapter_ok ok view fr src pok known a \<longleftrightarrow>
     ok (sa_store a) \<and> fr (sa_conn a) = [] \<and> pok (src (sa_conn a)) \<and> dom (view (sa_store a)) \<subseteq> known (src (sa_conn a))"

definition adapter_view :: "('s \<Rightarrow> string \<Rightarrow> (string \<times> bytes) option) \<Rightarrow> ('r \<Rightarrow> 'p) \<Rightarrow>
    ('p \<Rightarrow> string \<Rightarrow> (string \<times> bytes) option) \<Rightarrow> ('s, 'r) StorageAdapter \<Rightarrow> string \<Rightarrow> (string \<times> bytes) option" where
  "adapter_view view src pview a = pview (src (sa_conn a)) ++ view (sa_store a)"

locale migrating_store = storage_contract I ok view + migration_peer W fr src pok pview known
  for I :: "'s storage_if" and ok and view and W :: "'r wire" and fr and src :: "'r \<Rightarrow> 'p" and pok and pview and known
begin

lemma store_Set:
  assumes "ok (sa_store a)"
  shows "\<exists>s'. sa_store_Set I t k i b a = Inr (a\<lparr>sa_store := s'\<rparr>) \<and> ok s' \<and> view s' = (view (sa_store a))(k \<mapsto> (i, b))"
  using Set_law [OF assms, of t k i b] by (auto simp: sa_store_Set_def)

text \<open>What comes back for a \<open>get\<close> of a key the store does not hold.\<close>

lemma fetch:
  assumes "adapter_ok ok view fr src pok known a"
  shows "\<exists>a1. sa_Send W ''get'' None [c, q, [], k] a = (None, a1) \<and>
     (\<exists>err cmd a2. readGetResponse (wi_reader W) \<lparr>sc_key = k, sc_chunk = [], sc_bodyStream = None\<rparr> a1 = (err, cmd, a2) \<and>
        sa_store a2 = sa_store a \<and> adapter_ok ok view fr src pok known a2 \<and>
        pview (src (sa_conn a2)) = pview (src (sa_conn a)) \<and>
        (case pview (src (sa_conn a)) k of
           None \<Rightarrow> \<exists>e. err = Some e \<and> e \<noteq> ErrClosed
         | Some (i, b) \<Rightarrow> err = None \<and> sc_chunk cmd = i \<and> sc_bodyStream cmd = Some (NewInlineReader b)))"
proof -
  let ?cmd = "\<lparr>sc_key = k, sc_chunk = [], sc_bodyStream = None\<rparr>"
  obtain fs where s: "sa_Send W ''get'' None [c, q, [], k] a = (None, a\<lparr>sa_conn := wi_peer W fs (sa_conn a)\<rparr>)"
      and "well_framed fs [''get'', c, q, [], k]"
    using send_ok [of None "[]" "''get''" "[c, q, [], k]" a] by auto
  then have p: "pok (src (wi_peer W fs (sa_conn a))) \<and> pview (src (wi_peer W fs (sa_conn a))) = pview (src (sa_conn a)) \<and>
      known (src (wi_peer W fs (sa_conn a))) = known (src (sa_conn a)) \<and>
      (case pview (src (sa_conn a)) k of
         None \<Rightarrow> \<exists>m. fr (wi_peer W fs (sa_conn a)) = [FError m]
       | Some (i, b) \<Rightarrow> fr (wi_peer W fs (sa_conn a)) = map FBulk [''get'', c, q, i, b])"
    using assms peer_get [of "sa_conn a" fs c q "[]" k] by (simp add: adapter_ok_def)
  let ?a1 = "a\<lparr>sa_conn := wi_peer W fs (sa_conn a)\<rparr>"
  show ?thesis
  proof (cases "pview (src (sa_conn a)) k")
    case None
    then obtain m where "fr (sa_conn ?a1) = [FError m]" using p by auto
    then obtain r' where "readGetResponse (wi_reader W) ?cmd ?a1 =
        (Some (ErrOther (''Error in migration response: '' @ m)), ?cmd, ?a1\<lparr>sa_conn := r'\<rparr>)" "fr r' = []"
        "src r' = src (sa_conn ?a1)"
      using response_error by blast
    then show ?thesis using s p None assms by (simp add: adapter_ok_def)
  next
    case (Some ib)
    obtain i b where ib: "ib = (i, b)" by (cases ib)
    then have "fr (sa_conn ?a1) = map FBulk [''get'', c, q, i] @ [FBulk b]" using p Some by simp
    then obtain r' where r: "fr r' = [FBulk b]" "src r' = src (sa_conn ?a1)" and g: "readGetResponse (wi_reader W) ?cmd ?a1 =
         (if ToLower ''get'' = ''get''
          then (case rd_StreamBulk (wi_reader W) r' of
                  (Inl _, r) \<Rightarrow> (None, ?cmd\<lparr>sc_chunk := i, sc_bodyStream := None\<rparr>, ?a1\<lparr>sa_conn := r\<rparr>)
                | (Inr st, r) \<Rightarrow> (None, ?cmd\<lparr>sc_chunk := i, sc_bodyStream := Some st\<rparr>, ?a1\<lparr>sa_conn := r\<rparr>))
          else (None, ?cmd\<lparr>sc_chunk := i\<rparr>, ?a1\<lparr>sa_conn := r'\<rparr>))"
      using response_bulks by blast
    obtain r2 where "rd_StreamBulk (wi_reader W) r' = (Inr (NewInlineReader b), r2)" "fr r2 = []" "src r2 = src r'"
      using read_stream [OF r(1)] by auto
    moreover have "ToLower ''get'' = ''get''" by code_simp
    ultimately show ?thesis using s p Some ib assms r g by (simp add: adapter_ok_def)
  qed
qed

lemma inline_intercepted: "\<exists>ir ir'. NewInterceptReader (Some (NewInlineReader b)) = Inr ir \<and> ir_stream ir = NewInlineReader b \<and>
    ir_Reads (wi_reads W (NewInlineReader b)) ir = Inr ir' \<and> ir_stream ir' = NewInlineReader b \<and>
    LastError ir' = None \<and> Intercepted ir' = b"
proof -
  define st where "st = NewInlineReader b"
  have l: "st_Len st = int (length b)" by (simp add: st_def NewInlineReader_def)
  obtain ir' where ir': "bindR (NewInterceptReader (Some st)) (ir_Reads (wi_reads W st)) = Inr ir'"
      "LastError ir' = None" "Intercepted ir' = b"
    using intercept_all [OF l, of "wi_reads W st"] reads_all by (auto simp: st_def)
  then obtain ir where ir: "NewInterceptReader (Some st) = Inr ir" "ir_Reads (wi_reads W st) ir = Inr ir'"
    by (auto simp: go_simps)
  then have "ir_stream ir = st" using l by (auto simp: NewInterceptReader_def)
  then show ?thesis using ir ir' ir_Reads_stream [OF ir(2)] by (auto simp: st_def)
qed

lemma adapter_getHandler_ok:
  assumes "adapter_ok ok view fr src pok known a"
  shows "\<exists>r a'. sa_GetStream I W t k a = Inr (r, a') \<and> adapter_ok ok view fr src pok known a' \<and>
     adapter_view view src pview a' = adapter_view view src pview a \<and> stream_answer r (adapter_view view src pview a k) \<and>
     view (sa_store a') = (view (sa_store a))(k := adapter_view view src pview a k)"
proof -
  have "ok (sa_store a)" using assms by (simp add: adapter_ok_def)
  then obtain r s where g: "sg_GetStream I t k (sa_store a) = Inr (r, s)" "ok s" "view s = view (sa_store a)"
      "stream_answer r (view (sa_store a) k)"
    using GetStream_law by metis
  have a1: "adapter_ok ok view fr src pok known (a\<lparr>sa_store := s\<rparr>)" using assms g by (simp add: adapter_ok_def)
  show ?thesis
  proof (cases "view (sa_store a) k")
    case (Some ib)
    moreover have "view (sa_store a) = (view (sa_store a))(k := adapter_view view src pview a k)"
      using Some by (auto simp: adapter_view_def)
    ultimately show ?thesis using g a1 by (cases ib)
        (simp add: sa_GetStream_def sa_getHandler_def stream_answer_def adapter_view_def)
  next
    case None
    then obtain e where r: "r = Inl e" using g(4) by (auto simp: stream_answer_def)
    obtain a2 err cmd a3 where f: "sa_Send W ''get'' None [''migrator'', ''proxy'', [], k] (a\<lparr>sa_store := s\<rparr>) = (None, a2)"
        "readGetResponse (wi_reader W) \<lparr>sc_key = k, sc_chunk = [], sc_bodyStream = None\<rparr> a2 = (err, cmd, a3)"
        "sa_store a3 = s" "adapter_ok ok view fr src pok known a3" "pview (src (sa_conn a3)) = pview (src (sa_conn a))"
        "case pview (src (sa_conn a)) k of
           None \<Rightarrow> \<exists>e. err = Some e \<and> e \<noteq> ErrClosed
         | Some (i, b) \<Rightarrow> err = None \<and> sc_chunk cmd = i \<and> sc_bodyStream cmd = Some (NewInlineReader b)"
      using fetch [OF a1, of "''migrator''" "''proxy''" k] by auto
    show ?thesis
    proof (cases "pview (src (sa_conn a)) k")
      case None
      then have v: "adapter_view view src pview a k = None" "(view (sa_store a))(k := None) = view (sa_store a)"
        using \<open>view (sa_store a) k = None\<close> by (auto simp: adapter_view_def map_add_def)
      have "adapter_view view src pview a3 = adapter_view view src pview a"
        using f(3,5) g(3) by (simp add: adapter_view_def)
      then show ?thesis using f g r v None
        by (auto simp: sa_GetStream_def sa_getHandler_def stream_answer_def)
    next
      case (Some ib)
      obtain i b where ib: "ib = (i, b)" by (cases ib)
      obtain ir ir' where ir: "NewInterceptReader (Some (NewInlineReader b)) = Inr ir" "ir_stream ir = NewInlineReader b"
          "ir_Reads (wi_reads W (NewInlineReader b)) ir = Inr ir'" "ir_stream ir' = NewInlineReader b"
          "LastError ir' = None" "Intercepted ir' = b"
        using inline_intercepted by blast
      obtain s' where s': "sa_store_Set I t k i b a3 = Inr (a3\<lparr>sa_store := s'\<rparr>)" "ok s'" "view s' = (view s)(k \<mapsto> (i, b))"
        using store_Set [of a3 t k i b] f(3) g(2) by auto
      have "k \<in> known (src (sa_conn a3))"
        using f(4,5) Some pview_known [of "src (sa_conn a3)"] by (auto simp: adapter_ok_def)
      then have o: "adapter_ok ok view fr src pok known (a3\<lparr>sa_store := s'\<rparr>)"
        using f(3,4) s' by (auto simp: adapter_ok_def)
      have "adapter_view view src pview (a3\<lparr>sa_store := s'\<rparr>) = adapter_view view src pview a"
        unfolding adapter_view_def using Some ib None f(5) g(3) s'(3)
        by (simp add: map_add_fetch del: map_add_upd)
      moreover have "adapter_view view src pview a k = Some (i, b)"
        using Some ib None by (simp add: adapter_view_def map_add_def)
      ultimately show ?thesis using f g r ir Some ib o s'
        by (simp add: sa_GetStream_def sa_getHandler_def stream_answer_def)
    qed
  qed
qed

lemma adapter_setHandler_ok:
  assumes "adapter_ok ok view fr src pok known a"
  shows "\<exists>a'. sa_SetStream I W t k i (NewInlineReader b) a = Inr (None, a') \<and> adapter_ok ok view fr src pok known a' \<and>
     adapter_view view src pview a' = (adapter_view view src pview a)(k \<mapsto> (i, b)) \<and>
     view (sa_store a') = (view (sa_store a))(k \<mapsto> (i, b)) \<and>
     pview (src (sa_conn a')) = (pview (src (sa_conn a)))(k \<mapsto> (i, b))"
proof -
  let ?cmd = "\<lparr>sc_key = k, sc_chunk = i, sc_bodyStream = Some (NewInlineReader b)\<rparr>"
  obtain fs where s: "sa_Send W ''set'' (Some (NewInlineReader b)) [''migrator'', ''proxy'', i, k] a =
        (None, a\<lparr>sa_conn := wi_peer W fs (sa_conn a)\<rparr>)" and "well_framed fs [''set'', ''migrator'', ''proxy'', i, k, b]"
    using send_ok [of "Some (NewInlineReader b)" "[b]" "''set''" "[''migrator'', ''proxy'', i, k]" a] by auto
  then have p: "pok (src (wi_peer W fs (sa_conn a)))" "pview (src (wi_peer W fs (sa_conn a))) = (pview (src (sa_conn a)))(k \<mapsto> (i, b))"
      "known (src (wi_peer W fs (sa_conn a))) = insert k (known (src (sa_conn a)))"
      "fr (wi_peer W fs (sa_conn a)) = map FBulk [''set'', ''migrator'', ''proxy'', i] @ []"
    using assms peer_set [of "sa_conn a" fs "''migrator''" "''proxy''" i k b] by (simp_all add: adapter_ok_def)
  let ?a1 = "a\<lparr>sa_conn := wi_peer W fs (sa_conn a)\<rparr>"
  have "ToLower ''set'' \<noteq> ''get''" by code_simp
  then obtain r' where r: "fr r' = []" "src r' = src (sa_conn ?a1)"
      "readGetResponse (wi_reader W) ?cmd ?a1 = (None, ?cmd\<lparr>sc_chunk := i\<rparr>, ?a1\<lparr>sa_conn := r'\<rparr>)"
    using response_bulks [of ?a1 "''set''" "''migrator''" "''proxy''" i "[]" ?cmd] p(4) by auto
  obtain ir ir' where ir: "NewInterceptReader (Some (NewInlineReader b)) = Inr ir"
      "ir_Reads (wi_reads W (NewInlineReader b)) ir = Inr ir'" "LastError ir' = None" "Intercepted ir' = b"
    using inline_intercepted by blast
  obtain s' where "sa_store_Set I t k i b (?a1\<lparr>sa_conn := r'\<rparr>) = Inr (?a1\<lparr>sa_conn := r', sa_store := s'\<rparr>)" "ok s'"
      "view s' = (view (sa_store a))(k \<mapsto> (i, b))"
    using store_Set [of "?a1\<lparr>sa_conn := r'\<rparr>" t k i b] assms by (auto simp: adapter_ok_def)
  then show ?thesis using s p r ir assms
    by (auto simp: sa_SetStream_def sa_setHandler_def adapter_ok_def adapter_view_def map_add_upd_both simp del: map_add_upd)
qed

lemma adapter_delHandler_ok:
  assumes "adapter_ok ok view fr src pok known a"
  shows "\<exists>e a'. sa_Del I W t k i a = Inr (e, a') \<and> adapter_ok ok view fr src pok known a' \<and>
     adapter_view view src pview a' = (adapter_view view src pview a)(k := None) \<and>
     view (sa_store a') = (view (sa_store a))(k := None) \<and>
     pview (src (sa_conn a')) = (pview (src (sa_conn a)))(k := None)"
proof -
  let ?cmd = "\<lparr>sc_key = k, sc_chunk = i, sc_bodyStream = None\<rparr>"
  obtain fs where s: "sa_Send W ''del'' None [''migrator'', ''proxy'', i, k] a = (None, a\<lparr>sa_conn := wi_peer W fs (sa_conn a)\<rparr>)"
      and "well_framed fs [''del'', ''migrator'', ''proxy'', i, k]"
    using send_ok [of None "[]" "''del''" "[''migrator'', ''proxy'', i, k]" a] by auto
  then have p: "pok (src (wi_peer W fs (sa_conn a)))" "pview (src (wi_peer W fs (sa_conn a))) = (pview (src (sa_conn a)))(k := None)"
      "known (src (wi_peer W fs (sa_conn a))) = known (src (sa_conn a))"
      "if k \<in> known (src (sa_conn a)) then fr (wi_peer W fs (sa_conn a)) = map FBulk [''del'', ''migrator'', ''proxy'', i] @ []
       else \<exists>m. fr (wi_peer W fs (sa_conn a)) = [FError m]"
    using assms peer_del [of "sa_conn a" fs "''migrator''" "''proxy''" i k] by (simp_all add: adapter_ok_def)
  let ?a1 = "a\<lparr>sa_conn := wi_peer W fs (sa_conn a)\<rparr>"
  show ?thesis
  proof (cases "k \<in> known (src (sa_conn a))")
    case True
    have "ToLower ''del'' \<noteq> ''get''" by code_simp
    then obtain r' where r: "fr r' = []" "src r' = src (sa_conn ?a1)"
        "readGetResponse (wi_reader W) ?cmd ?a1 = (None, ?cmd\<lparr>sc_chunk := i\<rparr>, ?a1\<lparr>sa_conn := r'\<rparr>)"
      using response_bulks [of ?a1 "''del''" "''migrator''" "''proxy''" i "[]" ?cmd] p(4) True by auto
    obtain e s' where "sg_Del I t k i (sa_store a) = Inr (e, s')" "ok s'" "view s' = (view (sa_store a))(k := None)"
      using Del_law [of "sa_store a" t k i] assms by (auto simp: adapter_ok_def)
    then show ?thesis using s p r assms
      by (auto simp: sa_Del_def sa_delHandler_def adapter_ok_def adapter_view_def map_add_del_both)
  next
    case False
    then obtain m where "fr (sa_conn ?a1) = [FError m]" using p(4) by auto
    then obtain r' where r: "readGetResponse (wi_reader W) ?cmd ?a1 =
        (Some (ErrOther (''Error in migration response: '' @ m)), ?cmd, ?a1\<lparr>sa_conn := r'\<rparr>)" "fr r' = []"
        "src r' = src (sa_conn ?a1)"
      using response_error by blast
    have "view (sa_store a) k = None" using assms False by (auto simp: adapter_ok_def simp flip: domIff)
    then have v: "(view (sa_store a))(k := None) = view (sa_store a)" by auto
    show ?thesis using s p assms r map_add_del_both [of "pview (src (sa_conn a))" k "view (sa_store a)"]
      by (auto simp: sa_Del_def sa_delHandler_def adapter_ok_def adapter_view_def v)
  qed
qed

text \<open>One round of the migration loop: the view stays, and the key is at home afterwards.\<close>

lemma Migrate_ok:
  assumes "adapter_ok ok view fr src pok known a"
  shows "\<exists>r a'. sa_Migrate I W t k a = Inr (r, a') \<and> r \<noteq> Inl ErrClosed \<and> adapter_ok ok view fr src pok known a' \<and>
     adapter_view view src pview a' = adapter_view view src pview a \<and>
     pview (src (sa_conn a')) = pview (src (sa_conn a)) \<and>
     view (sa_store a') = (view (sa_store a))(k := adapter_view view src pview a k)"
proof -
  have "ok (sa_store a)" using assms by (simp add: adapter_ok_def)
  then obtain r s where g: "sg_GetStream I t k (sa_store a) = Inr (r, s)" "ok s" "view s = view (sa_store a)"
      "stream_answer r (view (sa_store a) k)"
    using GetStream_law by metis
  have a1: "adapter_ok ok view fr src pok known (a\<lparr>sa_store := s\<rparr>)" using assms g by (simp add: adapter_ok_def)
  show ?thesis
  proof (cases "view (sa_store a) k")
    case (Some ib)
    then show ?thesis using g a1 by (cases ib)
        (auto simp add: sa_Migrate_def sa_migrateHandler_def stream_answer_def adapter_view_def)
  next
    case None
    then obtain e where r: "r = Inl e" using g(4) by (auto simp: stream_answer_def)
    obtain a2 err cmd a3 where f: "sa_Send W ''get'' None [''migrator'', ''migrate'', [], k] (a\<lparr>sa_store := s\<rparr>) = (None, a2)"
        "readGetResponse (wi_reader W) \<lparr>sc_key = k, sc_chunk = [], sc_bodyStream = None\<rparr> a2 = (err, cmd, a3)"
        "sa_store a3 = s" "adapter_ok ok view fr src pok known a3" "pview (src (sa_conn a3)) = pview (src (sa_conn a))"
        "case pview (src (sa_conn a)) k of
           None \<Rightarrow> \<exists>e. err = Some e \<and> e \<noteq> ErrClosed
         | Some (i, b) \<Rightarrow> err = None \<and> sc_chunk cmd = i \<and> sc_bodyStream cmd = Some (NewInlineReader b)"
      using fetch [OF a1, of "''migrator''" "''migrate''" k] by auto
    have v: "adapter_view view src pview a k = pview (src (sa_conn a)) k"
      using None by (auto simp: adapter_view_def map_add_def)
    show ?thesis
    proof (cases "pview (src (sa_conn a)) k")
      case no: None
      have "(view (sa_store a))(k := None) = view (sa_store a)" using None by auto
      moreover have "adapter_view view src pview a3 = adapter_view view src pview a"
        using f(3,5) g(3) by (simp add: adapter_view_def)
      ultimately show ?thesis using f g r v no by (auto simp: sa_Migrate_def sa_migrateHandler_def)
    next
      case (Some ib)
      obtain i b where ib: "ib = (i, b)" by (cases ib)
      obtain s' where s': "sa_store_Set I t k i b a3 = Inr (a3\<lparr>sa_store := s'\<rparr>)" "ok s'" "view s' = (view s)(k \<mapsto> (i, b))"
        using store_Set [of a3 t k i b] f(3) g(2) by auto
      have "k \<in> known (src (sa_conn a3))"
        using f(4,5) Some pview_known [of "src (sa_conn a3)"] by (auto simp: adapter_ok_def)
      then have o: "adapter_ok ok view fr src pok known (a3\<lparr>sa_store := s'\<rparr>)"
        using f(3,4) s' by (auto simp: adapter_ok_def)
      have "adapter_view view src pview (a3\<lparr>sa_store := s'\<rparr>) = adapter_view view src pview a"
        unfolding adapter_view_def using Some ib None f(5) g(3) s'(3)
        by (simp add: map_add_fetch del: map_add_upd)
      then show ?thesis using f g r v Some ib o s' by (simp add: sa_Migrate_def sa_migrateHandler_def NewInlineReader_def)
    qed
  qed
qed

lemma LocalDel_ok:
  assumes "adapter_ok ok view fr src pok known a"
  shows "\<exists>a'. LocalDel I t k a = Inr a' \<and> adapter_ok ok view fr src pok known a' \<and> sa_conn a' = sa_conn a \<and>
     view (sa_store a') = (view (sa_store a))(k := None)"
  using Del_law [of "sa_store a" t k "[]"] assms by (force simp: LocalDel_def adapter_ok_def)

end

sublocale migrating_store \<subseteq> adapted: storage_contract "adapter_if I W" "adapter_ok ok view fr src pok known" "adapter_view view src pview"
proof unfold_locales
  fix a t k i b
  assume a: "adapter_ok ok view fr src pok known a"
  show "\<exists>r s'. sg_GetStream (adapter_if I W) t k a = Inr (r, s') \<and> adapter_ok ok view fr src pok known s' \<and>
      adapter_view view src pview s' = adapter_view view src pview a \<and> stream_answer r (adapter_view view src pview a k)"
    using adapter_getHandler_ok [OF a, of t k] by (auto simp: adapter_if_def)
  show "\<exists>s'. sg_SetStream (adapter_if I W) t k i (NewInlineReader b) a = Inr (None, s') \<and>
      adapter_ok ok view fr src pok known s' \<and> adapter_view view src pview s' = (adapter_view view src pview a)(k \<mapsto> (i, b))"
    using adapter_setHandler_ok [OF a, of t k i b] by (auto simp: adapter_if_def)
  then show "\<exists>s'. sg_Set (adapter_if I W) t k i b a = Inr (None, s') \<and>
      adapter_ok ok view fr src pok known s' \<and> adapter_view view src pview s' = (adapter_view view src pview a)(k \<mapsto> (i, b))"
    by (simp add: adapter_if_def sa_Set_def)
  show "\<exists>e s'. sg_Del (adapter_if I W) t k i a = Inr (e, s') \<and> adapter_ok ok view fr src pok known s' \<and>
      adapter_view view src pview s' = (adapter_view view src pview a)(k := None)"
    using adapter_delHandler_ok [OF a, of t k i] by (auto simp: adapter_if_def)
qed

end
