(* ===== verification/LambdaHandler.thy ===== *)
theory LambdaHandler
  imports LambdaCollector StorageAdapter
begin

text \<open>
  \<open>src/lambda/handler.go\<close>: the Lambda function.  The package variables are the record \<open>lambda\<close>; the store
  (an interface value in Go) is of the type \<open>'s\<close> of the implementation in use, which changes where the code
  assigns another implementation (\<open>HandleRequest\<close> puts an adapter around it, \<open>data\<close> replaces it by an empty
  store).  A handler returns the new state and its calls on the response writer.  \<open>clk n\<close> is the value of
  the n-th \<open>time.Now()\<close> of the handler, \<open>werr\<close> the outcome of writing, \<open>mem\<close> the memory size of the function.
  Connections are numbers; the outcomes of \<open>net.Dial\<close> are arguments.
\<close>

type_synonym conn = nat

record 's lambda =
  la_lifetime :: Lifetime
  la_store :: 's
  la_storeId :: uint64
  la_proxy :: string
  la_proxyConn :: "conn option"
  la_pongLimiter :: bool
  la_session :: "session option"
  la_collector :: collector
  la_closed :: "conn list"
  la_logLevel :: int

section \<open>Pong\<close>

definition issuePong :: "'s lambda \<Rightarrow> 's lambda" where
  "issuePong la = la\<lparr>la_pongLimiter := True\<rparr>"

definition pong :: "(wcall \<Rightarrow> error option) \<Rightarrow> 's lambda \<Rightarrow> 's lambda \<times> wcall list \<times> error option" where
  "pong werr la =
     (if la_pongLimiter la
      then (la\<lparr>la_pongLimiter := False\<rparr>,
            [AppendBulkString ''pong'', AppendInt (sint (la_storeId la)), Flush], werr Flush)
      else (la, [], None))"

definition lambda_pongHandler :: "(wcall \<Rightarrow> error option) \<Rightarrow> conn \<Rightarrow> 's lambda \<Rightarrow> 's lambda \<times> (conn \<times> wcall list) \<times> error option" where
  "lambda_pongHandler werr cn la = (let (la, ws, err) = pong werr la in (la, (cn, ws), err))"

definition lambda_initMigrateHandler :: "(wcall \<Rightarrow> error option) \<Rightarrow> wcall list \<times> error option" where
  "lambda_initMigrateHandler werr = ([AppendBulkString ''initMigrate'', Flush], werr Flush)"

definition byeHandler :: "(wcall \<Rightarrow> error option) \<Rightarrow> wcall list \<times> error option" where
  "byeHandler werr = ([AppendBulkString ''bye'', Flush], werr Flush)"

section \<open>Request handlers\<close>

record Command =
  cd_Name :: string
  cd_Arg :: "nat \<Rightarrow> string"

text \<open>\<open>NextArg().String()\<close> with its error ignored, and \<open>Next()\<close>.\<close>

record CommandStream =
  cs_NextArg :: "nat \<Rightarrow> string"
  cs_Next :: "error + rstream"

text \<open>What \<open>get\<close>, \<open>set\<close> and \<open>del\<close> do first, and the deferred \<open>DoneBusyWithReset\<close>.\<close>

definition begin_request :: "int \<Rightarrow> 's lambda \<Rightarrow> ('s lambda \<times> session \<times> int) res" where
  "begin_request mem la =
     (case la_session la of
        None \<Rightarrow> Inl NilDereference
      | Some ss \<Rightarrow>
          let ss = ss\<lparr>ss_Timeout := Busy (ss_Timeout ss), ss_Requests := ss_Requests ss + 1\<rparr>
          in Inr (la\<lparr>la_session := Some ss\<rparr>, ss, if 1 < ss_Requests ss then TICK else TICK_ERROR mem))"

definition end_request :: "int \<Rightarrow> int \<Rightarrow> int \<Rightarrow> 's lambda \<Rightarrow> 's lambda" where
  "end_request mem now ext la =
     la\<lparr>la_session := map_option (\<lambda>ss. ss\<lparr>ss_Timeout := DoneBusyWithReset mem now ext (ss_Timeout ss)\<rparr>) (la_session la)\<rparr>"

definition collect :: "DataEntry \<Rightarrow> 's lambda \<Rightarrow> 's lambda" where
  "collect e la = la\<lparr>la_collector := Send_entry e (la_collector la)\<rparr>"

definition response_error :: "error \<Rightarrow> ResponseError" where
  "response_error err =
     (if err = ErrNotFound then NewResponseError 404 (error_msg err) else NewResponseError 500 (error_msg err))"

definition get_handler :: "'s storage_if \<Rightarrow> int \<Rightarrow> (wcall \<Rightarrow> error option) \<Rightarrow> (nat \<Rightarrow> int) \<Rightarrow> Command \<Rightarrow> 's lambda
    \<Rightarrow> ('s lambda \<times> wcall list) res" where
  "get_handler I mem werr clk c la =
     bindR (begin_request mem la) (\<lambda>(la, ss, extension).
       let connId = cd_Arg c 0; reqId = cd_Arg c 1; key = cd_Arg c 3
       in bindR (sg_GetStream I (clk 2) key (la_store la)) (\<lambda>(r, s).
            let la = la\<lparr>la_store := s\<rparr>
            in case r of
                 Inr (chunkId, stream) \<Rightarrow>
                   let response = \<lparr>lr_Cmd = cd_Name c, lr_ConnId = connId, lr_ReqId = reqId, lr_ChunkId = chunkId,
                                   lr_Val = [], lr_Body = None, lr_BodyStream = Some stream\<rparr>;
                       (ws, err) = Flush_response werr response
                   in (case err of
                         Some _ \<Rightarrow> Inr (end_request mem (clk 7) extension la, Prepare response @ ws)
                       | None \<Rightarrow>
                           Inr (end_request mem (clk 7) extension
                                  (collect \<lparr>de_Op = OP_GET, de_Status = ''200'', de_ReqId = reqId, de_ChunkId = chunkId,
                                     de_DurationAppend = clk 3 - clk 1, de_DurationFlush = clk 5 - clk 4,
                                     de_Duration = clk 6 - clk 0, de_Session = ss_Id ss\<rparr> la),
                                Prepare response @ ws))
               | Inl err \<Rightarrow>
                   let respError = response_error err
                   in Inr (end_request mem (clk 7) extension
                             (collect \<lparr>de_Op = OP_GET, de_Status = re_Status respError, de_ReqId = reqId, de_ChunkId = ''-1'',
                                de_DurationAppend = 0, de_DurationFlush = 0, de_Duration = clk 4 - clk 0,
                                de_Session = ss_Id ss\<rparr> la),
                           [AppendError (''Failed to get '' @ key @ '': '' @ re_msg respError), Flush])))"

definition set_handler :: "'s storage_if \<Rightarrow> int \<Rightarrow> (wcall \<Rightarrow> error option) \<Rightarrow> (nat \<Rightarrow> int) \<Rightarrow> CommandStream \<Rightarrow> 's lambda
    \<Rightarrow> ('s lambda \<times> wcall list) res" where
  "set_handler I mem werr clk c la =
     bindR (begin_request mem la) (\<lambda>(la, ss, extension).
       let connId = cs_NextArg c 0; reqId = cs_NextArg c 1; chunkId = cs_NextArg c 2; key = cs_NextArg c 3
       in case cs_Next c of
            Inl err \<Rightarrow> Inr (end_request mem (clk 3) extension la,
                          [AppendError (''Error on get value reader: '' @ error_msg err), Flush])
          | Inr valReader \<Rightarrow>
              bindR (sg_SetStream I (clk 1) key chunkId valReader (la_store la)) (\<lambda>(err, s).
                let la = la\<lparr>la_store := s\<rparr>
                in case err of
                     Some e \<Rightarrow> Inr (end_request mem (clk 3) extension la, [AppendError (error_msg e), Flush])
                   | None \<Rightarrow>
                       let response = \<lparr>lr_Cmd = ''set'', lr_ConnId = connId, lr_ReqId = reqId, lr_ChunkId = chunkId,
                                       lr_Val = [], lr_Body = None, lr_BodyStream = None\<rparr>;
                           (ws, err) = Flush_response werr response
                       in (case err of
                             Some _ \<Rightarrow> Inr (end_request mem (clk 3) extension la, Prepare response @ ws)
                           | None \<Rightarrow>
                               Inr (end_request mem (clk 3) extension
                                      (collect \<lparr>de_Op = OP_SET, de_Status = ''200'', de_ReqId = reqId, de_ChunkId = chunkId,
                                         de_DurationAppend = 0, de_DurationFlush = 0, de_Duration = clk 2 - clk 0,
                                         de_Session = ss_Id ss\<rparr> la),
                                    Prepare response @ ws))))"

definition del_handler :: "'s storage_if \<Rightarrow> int \<Rightarrow> (wcall \<Rightarrow> error option) \<Rightarrow> (nat \<Rightarrow> int) \<Rightarrow> Command \<Rightarrow> 's lambda
    \<Rightarrow> ('s lambda \<times> wcall list) res" where
  "del_handler I mem werr clk c la =
     bindR (begin_request mem la) (\<lambda>(la, ss, extension).
       let connId = cd_Arg c 0; reqId = cd_Arg c 1; chunkId = cd_Arg c 2; key = cd_Arg c 3
       in bindR (sg_Del I (clk 0) key chunkId (la_store la)) (\<lambda>(err, s).
            let la = la\<lparr>la_store := s\<rparr>
            in case err of
                 None \<Rightarrow>
                   let response = \<lparr>lr_Cmd = ''del'', lr_ConnId = connId, lr_ReqId = reqId, lr_ChunkId = chunkId,
                                   lr_Val = [], lr_Body = None, lr_BodyStream = None\<rparr>
                   in Inr (end_request mem (clk 1) extension la, Prepare response @ fst (Flush_response werr response))
               | Some e \<Rightarrow>
                   Inr (end_request mem (clk 1) extension la,
                        [AppendError (''Failed to del '' @ key @ '': '' @ re_msg (response_error e)), Flush])))"

section \<open>Control handlers\<close>

definition update_session :: "(session \<Rightarrow> session) \<Rightarrow> 's lambda \<Rightarrow> 's lambda" where
  "update_session f la = la\<lparr>la_session := map_option f (la_session la)\<rparr>"

text \<open>
  \<open>data\<close>: the left outcome keeps the store (the flush failed), the right one has an empty store.  \<open>SetError\<close>
  may wait on a full channel; the handler is then stuck, which is \<open>None\<close>.
\<close>

definition data_migrator :: "session \<Rightarrow> session res option" where
  "data_migrator ss =
     (case ss_Migrator ss of
        None \<Rightarrow> Some (Inr ss)
      | Some m \<Rightarrow>
          map_option (\<lambda>r. bindR r (\<lambda>m. bindR (Close_client m) (\<lambda>_. Inr (ss\<lparr>ss_Migrator := None\<rparr>))))
            (SetError ErrProxyClosing m))"

definition data_handler :: "(wcall \<Rightarrow> error option) \<Rightarrow> 's lambda \<Rightarrow> (('s lambda + repo lambda) \<times> wcall list) res option" where
  "data_handler werr la =
     (case la_session la of
        None \<Rightarrow> Some (Inl NilDereference)
      | Some ss \<Rightarrow>
          map_option (\<lambda>r. bindR r (\<lambda>ss.
            let la = la\<lparr>la_session := Some ss, la_collector := Save (la_lifetime la) (la_collector la)\<rparr>;
                ws = [AppendBulkString ''data'', AppendBulkString ''OK'', Flush]
            in case werr Flush of
                 Some _ \<Rightarrow> Inr (Inl la, ws)
               | None \<Rightarrow>
                   (case ss_Connection ss of
                      None \<Rightarrow> Inl NilDereference
                    | Some cn \<Rightarrow>
                        Inr (Inr \<lparr>la_lifetime = la_lifetime la, la_store = New_storage, la_storeId = la_storeId la,
                                  la_proxy = la_proxy la, la_proxyConn = la_proxyConn la, la_pongLimiter = la_pongLimiter la,
                                  la_session = la_session la, la_collector = la_collector la,
                                  la_closed = la_closed la @ [cn], la_logLevel = la_logLevel la\<rparr>, ws))))
            (data_migrator (ss\<lparr>ss_Timeout := Halt (ss_Timeout ss)\<rparr>)))"

definition ping_handler :: "int \<Rightarrow> int \<Rightarrow> (wcall \<Rightarrow> error option) \<Rightarrow> 's lambda \<Rightarrow> 's lambda \<times> wcall list" where
  "ping_handler mem now werr la =
     (case la_session la of
        None \<Rightarrow> (la, [])
      | Some ss \<Rightarrow>
          let (t, extended) = ResetWithExtension mem now (TICK_ERROR_EXTEND mem) (ss_Timeout ss);
              la = la\<lparr>la_session := Some (ss\<lparr>ss_Timeout := t\<rparr>)\<rparr>
          in if \<not> extended \<and> \<not> IsMigrating ss then (la, [])
             else let (la, ws, _) = pong werr (issuePong la) in (la, ws))"

text \<open>
  \<open>migrate\<close> up to the goroutine that serves the migration: \<open>dial\<close> and \<open>invoke\<close> are the outcomes of
  dialling the migrator and of invoking the destination.  The flags returned tell that the goroutine is
  started and whether the proxy asked for the migration.
\<close>

definition migrate_handler :: "error + conn \<Rightarrow> error + int \<Rightarrow> 's lambda \<Rightarrow> (bool \<times> bool \<times> 's lambda) res option" where
  "migrate_handler dial invoke la =
     (case la_session la of
        None \<Rightarrow> Some (Inl NilDereference)
      | Some ss \<Rightarrow>
          let ss = ss\<lparr>ss_Timeout := Halt (ss_Timeout ss)\<rparr>;
              requestFromProxy = \<not> IsMigrating ss;
              m = (case ss_Migrator ss of None \<Rightarrow> NewClient | Some m \<Rightarrow> m);
              put = (\<lambda>m. la\<lparr>la_session := Some (ss\<lparr>ss_Migrator := Some m\<rparr>)\<rparr>)
          in (case Connect dial m of
                None \<Rightarrow> None
              | Some (Inl p) \<Rightarrow> Some (Inl p)
              | Some (Inr (Some _, m)) \<Rightarrow> Some (Inr (False, requestFromProxy, put m))
              | Some (Inr (None, m)) \<Rightarrow>
                  map_option (\<lambda>r. bindR r (\<lambda>(err, m). Inr (err = None, requestFromProxy, put m)))
                    (TriggerDestination invoke m)))"

text \<open>The goroutine of \<open>migrate\<close>; \<open>err\<close> is how serving the migration connection ended.\<close>

definition migrate_served :: "int \<Rightarrow> int \<Rightarrow> error option \<Rightarrow> bool \<Rightarrow> 's lambda \<Rightarrow> 's lambda res option" where
  "migrate_served mem now err requestFromProxy la =
     (case la_session la of
        None \<Rightarrow> Some (Inl NilDereference)
      | Some ss \<Rightarrow>
          (case ss_Migrator ss of
             None \<Rightarrow> Some (Inl NilDereference)
           | Some m \<Rightarrow>
               (case WaitForMigration err m of
                  None \<Rightarrow> None
                | Some (Inl p) \<Rightarrow> Some (Inl p)
                | Some (Inr m) \<Rightarrow>
                    map_option (\<lambda>r. bindR r (\<lambda>(ready, m).
                      if ready
                      then Inr (la\<lparr>la_collector := Save (la_lifetime la) (la_collector la),
                                   la_lifetime := Rest_lifetime (la_lifetime la),
                                   la_session := Some (DoneLocked (ss\<lparr>ss_Migrator := None\<rparr>))\<rparr>)
                      else if requestFromProxy
                      then Inr (la\<lparr>la_session := Some (ss\<lparr>ss_Migrator := None,
                             ss_Timeout := Restart mem now (TICK_ERROR mem) (ss_Timeout ss)\<rparr>)\<rparr>)
                      else Inr (la\<lparr>la_session := Some (ss\<lparr>ss_Migrator := Some m\<rparr>)\<rparr>)))
                      (IsReady m))))"

text \<open>
  The two lists of \<open>mhello\<close> are slices of one array of \<open>2 * n\<close> strings: \<open>delList\<close> from 0, with capacity
  \<open>2 * n\<close>, \<open>getList\<close> from \<open>n\<close>, with capacity \<open>n\<close>.  An append beyond the capacity moves the slice to an array
  of its own (\<open>ls_dspill\<close>, \<open>ls_gspill\<close>).
\<close>

record lists =
  ls_n :: nat
  ls_array :: "string list"
  ls_dlen :: nat
  ls_glen :: nat
  ls_dspill :: "string list option"
  ls_gspill :: "string list option"

definition make_lists :: "nat \<Rightarrow> lists" where
  "make_lists n = \<lparr>ls_n = n, ls_array = replicate (2 * n) [], ls_dlen = 0, ls_glen = 0, ls_dspill = None, ls_gspill = None\<rparr>"

definition delList :: "lists \<Rightarrow> string list" where
  "delList l = (case ls_dspill l of Some xs \<Rightarrow> xs | None \<Rightarrow> take (ls_dlen l) (ls_array l))"

definition getList :: "lists \<Rightarrow> string list" where
  "getList l = (case ls_gspill l of Some xs \<Rightarrow> xs | None \<Rightarrow> take (ls_glen l) (drop (ls_n l) (ls_array l)))"

definition append_del :: "string \<Rightarrow> lists \<Rightarrow> lists" where
  "append_del key l =
     (if ls_dspill l = None \<and> ls_dlen l < 2 * ls_n l
      then l\<lparr>ls_array := (ls_array l)[ls_dlen l := key], ls_dlen := ls_dlen l + 1\<rparr>
      else l\<lparr>ls_dspill := Some (delList l @ [key])\<rparr>)"

definition append_get :: "string \<Rightarrow> lists \<Rightarrow> lists" where
  "append_get key l =
     (if ls_gspill l = None \<and> ls_glen l < ls_n l
      then l\<lparr>ls_array := (ls_array l)[ls_n l + ls_glen l := key], ls_glen := ls_glen l + 1\<rparr>
      else l\<lparr>ls_gspill := Some (getList l @ [key])\<rparr>)"

fun mhello_scan :: "'s storage_if \<Rightarrow> int \<Rightarrow> string list \<Rightarrow> lists \<times> 's \<Rightarrow> (lists \<times> 's) res" where
  "mhello_scan I t [] (l, s) = Inr (l, s)"
| "mhello_scan I t (key # keys) (l, s) =
     bindR (sg_Get I t key s) (\<lambda>(r, s).
       mhello_scan I t keys (if r = Inl ErrNotFound then append_del key l else append_get key l, s))"

text \<open>\<open>None\<close>: the handler waits for the connection to the proxy to close.\<close>

definition mhello_handler :: "'s storage_if \<Rightarrow> int \<Rightarrow> 's lambda \<Rightarrow> ('s lambda \<times> wcall list) res option" where
  "mhello_handler I t la =
     (case la_session la of
        None \<Rightarrow> Some (Inl NilDereference)
      | Some ss \<Rightarrow>
          (case ss_Migrator ss of
             None \<Rightarrow> Some (Inr (la, []))
           | Some m \<Rightarrow>
               (case recv_ready m of
                  None \<Rightarrow> None
                | Some (Some _, m) \<Rightarrow> Some (Inr (la\<lparr>la_session := Some (ss\<lparr>ss_Migrator := Some m\<rparr>)\<rparr>, []))
                | Some (None, _) \<Rightarrow>
                    let n = sg_Len I (la_store la)
                    in Some (bindR (mhello_scan I t (sg_Keys I (la_store la)) (make_lists n, la_store la)) (\<lambda>(l, s).
                         Inr (la\<lparr>la_store := s\<rparr>,
                              AppendBulkString ''mhello'' # AppendBulkString (itoa (int n)) #
                              map (\<lambda>key. AppendBulkString (itoa OP_DEL @ key)) (delList l) @
                              map (\<lambda>key. AppendBulkString (itoa OP_GET @ key)) (getList l) @ [Flush]))))))"

section \<open>An invocation\<close>

datatype 'l invocation = Returned "error option" 'l | Waiting 'l "(conn \<times> wcall list) list"

definition hr_begin :: "int \<Rightarrow> (nat \<Rightarrow> int) \<Rightarrow> string \<Rightarrow> int \<Rightarrow> InputEvent \<Rightarrow> 's lambda \<Rightarrow> 's lambda" where
  "hr_begin mem clk awsReqId deadline input la =
     (let ss = (GetOrCreateSession mem (clk 1) (la_session la))\<lparr>ss_Id := awsReqId\<rparr>;
          t = (if 0 < ie_Timeout input
               then StartWithCalibration (deadline - ie_Timeout input * 1000 * Millisecond) (ss_Timeout ss)
               else Start (clk 2) (ss_Timeout ss));
          la = issuePong (la\<lparr>la_lifetime := RebornIfDead (clk 0) (la_lifetime la), la_session := Some (ss\<lparr>ss_Timeout := t\<rparr>)\<rparr>)
      in la\<lparr>la_collector := (la_collector la)\<lparr>co_Prefix := ie_Prefix input\<rparr>, la_logLevel := ie_Log input\<rparr>)"

definition with_store :: "'t \<Rightarrow> 's lambda \<Rightarrow> 't lambda" where
  "with_store st la = \<lparr>la_lifetime = la_lifetime la, la_store = st, la_storeId = la_storeId la, la_proxy = la_proxy la,
     la_proxyConn = la_proxyConn la, la_pongLimiter = la_pongLimiter la, la_session = la_session la,
     la_collector = la_collector la, la_closed = la_closed la, la_logLevel = la_logLevel la\<rparr>"

text \<open>
  The branch for \<open>migrate\<close>.  \<open>dial\<close> and \<open>hello\<close> are the outcomes of connecting to the migrator and of
  sending \<open>mhello\<close>; \<open>open_conn\<close> gives the state of the connection afterwards.  Left: the invocation
  returned.  Right: the adapter is in place and the goroutine that runs \<open>Client_Migrate\<close> is started.
\<close>

definition hr_migrate :: "(nat \<Rightarrow> int) \<Rightarrow> error + conn \<Rightarrow> (nat \<Rightarrow> error option) \<Rightarrow> (conn \<Rightarrow> frame list \<Rightarrow> 'r) \<Rightarrow> InputEvent
    \<Rightarrow> 's lambda \<Rightarrow> ('s lambda + ('s, 'r) StorageAdapter lambda) res option" where
  "hr_migrate clk dial hello open_conn input la0 =
     (case la_session la0 of
        None \<Rightarrow> Some (Inl NilDereference)
      | Some ss \<Rightarrow>
          let la = collect \<lparr>de_Op = OP_MIGRATION, de_Status = [], de_ReqId = [], de_ChunkId = [], de_DurationAppend = 0,
                     de_DurationFlush = 0, de_Duration = 0, de_Session = ss_Id ss\<rparr> la0
          in if ie_Addr input = [] then Some (Inr (Inl la))
             else
               let la = (case la_proxyConn la of
                           None \<Rightarrow> la
                         | Some cn \<Rightarrow> la\<lparr>la_closed := la_closed la @ [cn], la_proxyConn := None,
                                         la_lifetime := Reborn (clk 3) (la_lifetime la)\<rparr>)
               in case Connect dial NewClient of
                    None \<Rightarrow> None
                  | Some (Inl p) \<Rightarrow> Some (Inl p)
                  | Some (Inr (Some _, m)) \<Rightarrow> Some (Inr (Inl (la\<lparr>la_session := Some (ss\<lparr>ss_Migrator := Some m\<rparr>)\<rparr>)))
                  | Some (Inr (None, m)) \<Rightarrow>
                      let la = la\<lparr>la_session := Some (ss\<lparr>ss_Migrator := Some m\<rparr>)\<rparr>;
                          (ws, err) = Send hello ''mhello'' None []
                      in (case err of
                            Some _ \<Rightarrow> Some (Inr (Inl la))
                          | None \<Rightarrow>
                              (case cl_cn m of
                                 None \<Rightarrow> Some (Inl NilDereference)
                               | Some cn \<Rightarrow>
                                   Some (Inr (Inr (with_store (newStorageAdapter (open_conn cn (frames ws)) (la_store la)) la))))))"

text \<open>From line 144 on: reuse or open the connection to the proxy, extend the timeout, answer with a pong.\<close>

definition hr_connect :: "int \<Rightarrow> (nat \<Rightarrow> int) \<Rightarrow> (wcall \<Rightarrow> error option) \<Rightarrow> error + conn \<Rightarrow> InputEvent \<Rightarrow> 's lambda
    \<Rightarrow> 's lambda invocation res" where
  "hr_connect mem clk werr dial input la0 =
     (case la_session la0 of
        None \<Rightarrow> Inl NilDereference
      | Some ss0 \<Rightarrow>
          let ss = ss0\<lparr>ss_Connection := la_proxyConn la0\<rparr>;
              la = la0\<lparr>la_session := Some ss\<rparr>;
              ready = (\<lambda>cn la.
                let ext = (if ie_Cmd input = ''warmup'' then TICK_ERROR mem else TICK_ERROR_EXTEND mem);
                    la = update_session (\<lambda>ss. ss\<lparr>ss_Timeout := fst (ResetWithExtension mem (clk 4) ext (ss_Timeout ss))\<rparr>) la;
                    la = (if ie_Cmd input = ''warmup''
                          then collect \<lparr>de_Op = OP_WARMUP, de_Status = [], de_ReqId = [], de_ChunkId = [],
                                 de_DurationAppend = 0, de_DurationFlush = 0, de_Duration = 0, de_Session = ss_Id ss\<rparr> la
                          else la);
                    (la, w, _) = lambda_pongHandler werr cn la
                in Waiting la [w])
          in case la_proxyConn la of
               Some cn \<Rightarrow> Inr (ready cn la)
             | None \<Rightarrow>
                 if ie_Proxy input = [] then Inr (Returned None la)
                 else
                   let la = la\<lparr>la_storeId := ie_Id input, la_proxy := ie_Proxy input\<rparr>
                   in (case dial of
                         Inl e \<Rightarrow> Inr (Returned (Some e) la)
                       | Inr cn \<Rightarrow>
                           Inr (ready cn (la\<lparr>la_session := Some (ss\<lparr>ss_Connection := Some cn\<rparr>), la_proxyConn := Some cn\<rparr>))))"

fun map_invocation :: "('a \<Rightarrow> 'b) \<Rightarrow> 'a invocation \<Rightarrow> 'b invocation" where
  "map_invocation f (Returned e x) = Returned e (f x)"
| "map_invocation f (Waiting x ws) = Waiting (f x) ws"

definition HandleRequest :: "int \<Rightarrow> (nat \<Rightarrow> int) \<Rightarrow> (wcall \<Rightarrow> error option) \<Rightarrow> error + conn \<Rightarrow> error + conn \<Rightarrow>
    (nat \<Rightarrow> error option) \<Rightarrow> (conn \<Rightarrow> frame list \<Rightarrow> 'r) \<Rightarrow> string \<Rightarrow> int \<Rightarrow> InputEvent \<Rightarrow> 's lambda
    \<Rightarrow> ('s lambda + ('s, 'r) StorageAdapter lambda) invocation res option" where
  "HandleRequest mem clk werr dialProxy dialMigrator hello open_conn awsReqId deadline input la =
     (let la = hr_begin mem clk awsReqId deadline input la
      in if ie_Cmd input = ''migrate''
         then map_option (\<lambda>r. bindR r (\<lambda>m.
                case m of
                  Inl la \<Rightarrow> Inr (Returned None (Inl la))
                | Inr la \<Rightarrow> bindR (hr_connect mem clk werr dialProxy input la) (\<lambda>inv. Inr (map_invocation Inr inv))))
                (hr_migrate clk dialMigrator hello open_conn input la)
         else Some (bindR (hr_connect mem clk werr dialProxy input la) (\<lambda>inv. Inr (map_invocation Inl inv))))"

text \<open>The deferred \<open>ClearSession\<close> runs when the invocation returns.\<close>

definition hr_return :: "'s lambda \<Rightarrow> 's lambda" where
  "hr_return la = la\<lparr>la_session := ClearSession (la_session la)\<rparr>"

text \<open>The goroutine that serves the connection to the proxy, once the connection has ended.\<close>

definition proxy_served :: "int \<Rightarrow> int \<Rightarrow> conn \<Rightarrow> 's lambda \<Rightarrow> 's lambda res" where
  "proxy_served mem now cn la0 =
     (let ss = GetOrCreateSession mem now (la_session la0);
          la = la0\<lparr>la_closed := la_closed la0 @ [cn], la_session := Some ss\<rparr>
      in case ss_Connection ss of
           None \<Rightarrow> Inr (la\<lparr>la_proxyConn := None, la_lifetime := Reborn now (la_lifetime la)\<rparr>)
         | Some cn' \<Rightarrow>
             if cn' \<noteq> cn then Inr la
             else (case ss_Migrator ss of
                     Some m \<Rightarrow>
                       bindR (SetReady m) (\<lambda>m.
                         Inr (la\<lparr>la_proxyConn := None, la_session := Some (ss\<lparr>ss_Migrator := Some m\<rparr>)\<rparr>))
                   | None \<Rightarrow>
                       Inr (la\<lparr>la_proxyConn := None, la_lifetime := Rest_lifetime (la_lifetime la),
                               la_session := Some (DoneLocked ss)\<rparr>)))"

text \<open>
  \<open>Wait\<close> when the timeout fires: the Lambda says goodbye and its session ends, or, when its life is over
  and it holds chunks, it starts to initiate a migration with a new client.
\<close>

datatype 'l waited = SaidBye 'l "wcall list" | Initiating 'l

definition Wait_timeout :: "'s storage_if \<Rightarrow> int \<Rightarrow> (wcall \<Rightarrow> error option) \<Rightarrow> 's lambda \<Rightarrow> 's lambda waited res" where
  "Wait_timeout I now werr la =
     (case la_session la of
        None \<Rightarrow> Inl NilDereference
      | Some ss \<Rightarrow>
          let ss = ss\<lparr>ss_Timeout := Halt (ss_Timeout ss)\<rparr>
          in if IsTimeUp now (la_lifetime la) \<and> 0 < sg_Len I (la_store la)
             then Inr (Initiating (la\<lparr>la_session := Some (ss\<lparr>ss_Migrator := Some NewClient\<rparr>)\<rparr>))
             else Inr (SaidBye (la\<lparr>la_session := Some (DoneLocked ss)\<rparr>) (fst (byeHandler werr))))"

text \<open>
  The loop over \<open>Initiate\<close>; \<open>rs\<close> are the values its calls receive from the channel.  \<open>None\<close>: the loop still
  waits for a value; the flag tells that the migration is initiated.
\<close>

fun initiate_loop :: "(wcall \<Rightarrow> error option) \<Rightarrow> error option list \<Rightarrow> (bool \<times> wcall list) option" where
  "initiate_loop werr [] = None"
| "initiate_loop werr (r # rs) =
     (let (ws, werror) = lambda_initMigrateHandler werr; err = (if werror \<noteq> None then werror else r)
      in case err of
           None \<Rightarrow> Some (True, ws)
         | Some e \<Rightarrow>
             if e = ErrProxyClosing then Some (False, ws)
             else map_option (\<lambda>(b, ws'). (b, ws @ ws')) (initiate_loop werr rs))"

section \<open>What the handlers answer\<close>

lemma Prepare_frames: "frames (Prepare r) =
    map FBulk ([lr_Cmd r, lr_ConnId r, lr_ReqId r, lr_ChunkId r] @ (if lr_Val r = [] then [] else [lr_Val r]))"
  by (simp add: Prepare_def)

lemma Flush_frames:
  assumes "\<And>w. werr w = None"
  shows "frames (fst (Flush_response werr r)) =
     (case lr_Body r of Some b \<Rightarrow> [FBulk b] | None \<Rightarrow> (case lr_BodyStream r of Some st \<Rightarrow> frames_of (CopyBulk st) | None \<Rightarrow> []))"
    "snd (Flush_response werr r) = None"
  using assms by (auto simp: Flush_response_def NewInlineReader_def Let_def split: option.splits)

text \<open>The part of the state a request does not touch, and the balance of \<open>Busy\<close> and \<open>DoneBusy\<close>.\<close>

definition active :: "'s lambda \<Rightarrow> (32 word) option" where
  "active la = map_option (t_active \<circ> ss_Timeout) (la_session la)"

definition same_frame :: "'s lambda \<Rightarrow> 's lambda \<Rightarrow> bool" where
  "same_frame la la' \<longleftrightarrow> active la' = active la \<and> la_proxyConn la' = la_proxyConn la \<and> la_lifetime la' = la_lifetime la \<and>
     la_pongLimiter la' = la_pongLimiter la \<and>
     map_option ss_Migrator (la_session la') = map_option ss_Migrator (la_session la) \<and>
     map_option ss_Requests (la_session la') = map_option (\<lambda>ss. ss_Requests ss + 1) (la_session la)"

lemma begin_request_ok:
  assumes "la_session la = Some ss"
  shows "\<exists>la1 ss1 ext. begin_request mem la = Inr (la1, ss1, ext) \<and> la_store la1 = la_store la \<and> la_session la1 = Some ss1 \<and>
     (\<forall>now s. same_frame la (end_request mem now ext (la1\<lparr>la_store := s\<rparr>)) \<and>
        (\<forall>e. same_frame la (end_request mem now ext (collect e (la1\<lparr>la_store := s\<rparr>)))))"
  using assms
  by (auto simp: begin_request_def Let_def same_frame_def active_def end_request_def collect_def DoneBusyWithReset_def
      DoneBusy_def Busy_def ResetWithExtension_def Reset_timeout_def resetLocked_def)

lemma la_store_end [simp]: "la_store (end_request mem now ext la) = la_store la" "la_store (collect e la) = la_store la"
  by (simp_all add: end_request_def collect_def)

context storage_contract
begin

lemma get_handler_ok:
  assumes "ok (la_store la)" and "la_session la \<noteq> None" and "\<And>w. werr w = None"
  shows "\<exists>la' ws. get_handler I mem werr clk c la = Inr (la', ws) \<and> ok (la_store la') \<and> view (la_store la') = view (la_store la) \<and>
     same_frame la la' \<and> (\<exists>r. sg_GetStream I (clk 2) (cd_Arg c 3) (la_store la) = Inr (r, la_store la')) \<and>
     (case view (la_store la) (cd_Arg c 3) of
        None \<Rightarrow> \<exists>m. frames ws = [FError m]
      | Some (i, b) \<Rightarrow> frames ws = map FBulk [cd_Name c, cd_Arg c 0, cd_Arg c 1, i, b])"
proof -
  obtain la1 ss1 ext where b: "begin_request mem la = Inr (la1, ss1, ext)" "la_store la1 = la_store la"
      "\<And>now s. same_frame la (end_request mem now ext (la1\<lparr>la_store := s\<rparr>))"
      "\<And>now s e. same_frame la (end_request mem now ext (collect e (la1\<lparr>la_store := s\<rparr>)))"
    using assms(2) begin_request_ok [of la _ mem] by fast
  obtain r s where g: "sg_GetStream I (clk 2) (cd_Arg c 3) (la_store la) = Inr (r, s)" "ok s" "view s = view (la_store la)"
      "stream_answer r (view (la_store la) (cd_Arg c 3))"
    using GetStream_law [OF assms(1)] by metis
  show ?thesis
  proof (cases "view (la_store la) (cd_Arg c 3)")
    case None
    then obtain e where "r = Inl e" using g(4) by (auto simp: stream_answer_def)
    then show ?thesis using None b g by (simp add: get_handler_def Let_def)
  next
    case (Some ib)
    obtain i v where ib: "ib = (i, v)" by (cases ib)
    then have r: "r = Inr (i, NewInlineReader v)" using Some g(4) by (simp add: stream_answer_def)
    let ?rsp = "\<lparr>lr_Cmd = cd_Name c, lr_ConnId = cd_Arg c 0, lr_ReqId = cd_Arg c 1, lr_ChunkId = i,
       lr_Val = [], lr_Body = None, lr_BodyStream = Some (NewInlineReader v)\<rparr>"
    obtain ws where "Flush_response werr ?rsp = (ws, None)" "frames ws = [FBulk v]"
      using Flush_frames [of werr ?rsp, OF assms(3)] by (cases "Flush_response werr ?rsp") (simp add: NewInlineReader_def)
    then show ?thesis using Some ib r b g by (simp add: get_handler_def Let_def Prepare_frames)
  qed
qed

lemma set_handler_ok:
  assumes "ok (la_store la)" and "la_session la \<noteq> None" and "\<And>w. werr w = None" and "cs_Next c = Inr (NewInlineReader b)"
  shows "\<exists>la' ws. set_handler I mem werr clk c la = Inr (la', ws) \<and> ok (la_store la') \<and>
     view (la_store la') = (view (la_store la))(cs_NextArg c 3 \<mapsto> (cs_NextArg c 2, b)) \<and> same_frame la la' \<and>
     sg_SetStream I (clk 1) (cs_NextArg c 3) (cs_NextArg c 2) (NewInlineReader b) (la_store la) = Inr (None, la_store la') \<and>
     frames ws = map FBulk [''set'', cs_NextArg c 0, cs_NextArg c 1, cs_NextArg c 2]"
proof -
  obtain la1 ss1 ext where br: "begin_request mem la = Inr (la1, ss1, ext)" "la_store la1 = la_store la"
      "\<And>now s. same_frame la (end_request mem now ext (la1\<lparr>la_store := s\<rparr>))"
      "\<And>now s e. same_frame la (end_request mem now ext (collect e (la1\<lparr>la_store := s\<rparr>)))"
    using assms(2) begin_request_ok [of la _ mem] by fast
  obtain s where g: "sg_SetStream I (clk 1) (cs_NextArg c 3) (cs_NextArg c 2) (NewInlineReader b) (la_store la) = Inr (None, s)"
      "ok s" "view s = (view (la_store la))(cs_NextArg c 3 \<mapsto> (cs_NextArg c 2, b))"
    using SetStream_law [OF assms(1)] by metis
  let ?rsp = "\<lparr>lr_Cmd = ''set'', lr_ConnId = cs_NextArg c 0, lr_ReqId = cs_NextArg c 1, lr_ChunkId = cs_NextArg c 2,
     lr_Val = [], lr_Body = None, lr_BodyStream = None\<rparr>"
  obtain ws where "Flush_response werr ?rsp = (ws, None)" "frames ws = []"
    using Flush_frames [of werr ?rsp, OF assms(3)] by (cases "Flush_response werr ?rsp") simp
  then show ?thesis using br g assms(4) by (simp add: set_handler_def Let_def Prepare_frames)
qed

lemma del_handler_ok:
  assumes "ok (la_store la)" and "la_session la \<noteq> None" and "\<And>w. werr w = None"
  shows "\<exists>la' ws. del_handler I mem werr clk c la = Inr (la', ws) \<and> ok (la_store la') \<and>
     view (la_store la') = (view (la_store la))(cd_Arg c 3 := None) \<and> same_frame la la' \<and>
     (\<exists>e s. sg_Del I (clk 0) (cd_Arg c 3) (cd_Arg c 2) (la_store la) = Inr (e, s) \<and> la_store la' = s \<and>
        (if e = None then frames ws = map FBulk [''del'', cd_Arg c 0, cd_Arg c 1, cd_Arg c 2] else \<exists>m. frames ws = [FError m]))"
proof -
  obtain la1 ss1 ext where b: "begin_request mem la = Inr (la1, ss1, ext)" "la_store la1 = la_store la"
      "\<And>now s. same_frame la (end_request mem now ext (la1\<lparr>la_store := s\<rparr>))"
    using assms(2) begin_request_ok [of la _ mem] by fast
  obtain e s where g: "sg_Del I (clk 0) (cd_Arg c 3) (cd_Arg c 2) (la_store la) = Inr (e, s)"
      "ok s" "view s = (view (la_store la))(cd_Arg c 3 := None)"
    using Del_law [OF assms(1)] by metis
  then show ?thesis using b Flush_frames(1) [of werr, OF assms(3)]
    by (cases e) (simp_all add: del_handler_def Let_def Prepare_frames)
qed

end

end
