(* ===== verification/Migration.thy ===== *)
theory Migration
  imports LambdaHandler
begin

text \<open>
  Two Lambdas in a migration: the destination's adapter talks to the handlers of the source.  First the
  migration with requests of the proxy in between, for any source that keeps the contract
  \<open>migration_peer\<close>; then the handlers of \<open>handler.go\<close> as such a source, and the key list of \<open>mhello\<close>.
\<close>

section \<open>Requests during a migration\<close>

datatype mop = MGet string | MSet string string bytes | MDel string string | MNext

text \<open>
  \<open>MNext\<close> is one round of the loop of \<open>Client.Migrate\<close>, the others are requests served by the store in
  between; the result collects what the gets returned, the keys left and the adapter.
\<close>

fun migration_run :: "'s storage_if \<Rightarrow> 'r wire \<Rightarrow> int \<Rightarrow> mop list \<Rightarrow> string list \<Rightarrow> ('s, 'r) StorageAdapter
    \<Rightarrow> ((error + string \<times> rstream) list \<times> string list \<times> ('s, 'r) StorageAdapter) res" where
  "migration_run I W t [] keys a = Inr ([], keys, a)"
| "migration_run I W t (MGet k # ops) keys a =
     bindR (sa_GetStream I W t k a) (\<lambda>(r, a). bindR (migration_run I W t ops keys a) (\<lambda>(rs, x). Inr (r # rs, x)))"
| "migration_run I W t (MSet k i b # ops) keys a =
     bindR (sa_Set I W t k i b a) (\<lambda>(_, a). migration_run I W t ops keys a)"
| "migration_run I W t (MDel k i # ops) keys a =
     bindR (sa_Del I W t k i a) (\<lambda>(_, a). migration_run I W t ops keys a)"
| "migration_run I W t (MNext # ops) [] a = migration_run I W t ops [] a"
| "migration_run I W t (MNext # ops) (c # keys) a =
     bindR (migrate_one I W t c a) (\<lambda>(go, a). migration_run I W t ops (if go then keys else []) a)"

text \<open>The specification: one map, for which the migration does nothing.\<close>

fun map_run :: "mop list \<Rightarrow> (string \<Rightarrow> (string \<times> bytes) option) \<Rightarrow> (string \<times> bytes) option list \<times> (string \<Rightarrow> (string \<times> bytes) option)" where
  "map_run [] m = ([], m)"
| "map_run (MGet k # ops) m = (let (rs, m') = map_run ops m in (m k # rs, m'))"
| "map_run (MSet k i b # ops) m = map_run ops (m(k \<mapsto> (i, b)))"
| "map_run (MDel k i # ops) m = map_run ops (m(k := None))"
| "map_run (MNext # ops) m = map_run ops m"

fun sets_of :: "mop list \<Rightarrow> string set" where
  "sets_of [] = {}"
| "sets_of (MSet k i b # ops) = insert k (sets_of ops)"
| "sets_of (_ # ops) = sets_of ops"

fun nexts :: "mop list \<Rightarrow> nat" where
  "nexts [] = 0"
| "nexts (MNext # ops) = Suc (nexts ops)"
| "nexts (_ # ops) = nexts ops"

text \<open>A key list: every entry says get or delete, and a key to be deleted is not in the map.\<close>

definition keys_ok :: "string list \<Rightarrow> (string \<Rightarrow> (string \<times> bytes) option) \<Rightarrow> (string \<Rightarrow> (string \<times> bytes) option) \<Rightarrow> bool" where
  "keys_ok keys m local \<longleftrightarrow>
     (\<forall>c \<in> set keys. \<exists>k. c = itoa OP_GET @ k \<or> c = itoa OP_DEL @ k \<and> m k = None) \<and>
     (\<forall>k. m k \<noteq> None \<longrightarrow> local k = None \<longrightarrow> itoa OP_GET @ k \<in> set keys)"

lemma itoa_ops: "itoa OP_GET = ''1''" "itoa OP_DEL = ''2''"
  by code_simp+

lemma keys_ok_empty:
  assumes "keys_ok [] m local" and "m = p ++ local"
  shows "local = m"
proof
  fix k
  show "local k = m k"
  proof (cases "local k")
    case None
    then have "m k = None" using assms(1) unfolding keys_ok_def by (metis empty_iff list.set(1))
    then show ?thesis using None by simp
  next
    case (Some v)
    then show ?thesis by (simp add: assms(2))
  qed
qed

context migrating_store
begin

lemma migrate_one_ok:
  assumes "adapter_ok ok view fr src pok known a" and "keys_ok (c # keys) (adapter_view view src pview a) (view (sa_store a))"
  shows "\<exists>a'. migrate_one I W t c a = Inr (True, a') \<and> adapter_ok ok view fr src pok known a' \<and>
     adapter_view view src pview a' = adapter_view view src pview a \<and>
     keys_ok keys (adapter_view view src pview a') (view (sa_store a'))"
proof -
  obtain k where k: "c = ''1'' @ k \<or> c = ''2'' @ k \<and> adapter_view view src pview a k = None"
    using assms(2) by (auto simp: keys_ok_def itoa_ops)
  then show ?thesis
  proof
    assume c: "c = ''1'' @ k"
    obtain r a' where m: "sa_Migrate I W t k a = Inr (r, a')" "r \<noteq> Inl ErrClosed" "adapter_ok ok view fr src pok known a'"
        "adapter_view view src pview a' = adapter_view view src pview a"
        "view (sa_store a') = (view (sa_store a))(k := adapter_view view src pview a k)"
      using Migrate_ok [OF assms(1), of t k] by blast
    then have "keys_ok keys (adapter_view view src pview a') (view (sa_store a'))"
      using assms(2) c by (auto simp: keys_ok_def itoa_ops)
    then show ?thesis using m c by (simp add: migrate_one_def itoa_ops)
  next
    assume c: "c = ''2'' @ k \<and> adapter_view view src pview a k = None"
    obtain a' where d: "LocalDel I t k a = Inr a'" "adapter_ok ok view fr src pok known a'" "sa_conn a' = sa_conn a"
        "view (sa_store a') = (view (sa_store a))(k := None)"
      using LocalDel_ok [OF assms(1), of t k] by blast
    have "view (sa_store a) k = None" using c by (auto simp: adapter_view_def)
    then have "view (sa_store a') = view (sa_store a)" using d(4) by auto
    then have v: "adapter_view view src pview a' = adapter_view view src pview a" "view (sa_store a') = view (sa_store a)"
      using d(3) by (simp_all add: adapter_view_def)
    then have "keys_ok keys (adapter_view view src pview a') (view (sa_store a'))"
      using assms(2) c by (auto simp: keys_ok_def itoa_ops)
    then show ?thesis using d v c by (simp add: migrate_one_def itoa_ops)
  qed
qed

lemma migration_run_ok:
  assumes "adapter_ok ok view fr src pok known a" and "adapter_view view src pview a = m"
    and "keys_ok keys m (view (sa_store a))" and "\<forall>k \<in> sets_of ops. itoa OP_DEL @ k \<notin> set keys"
  shows "\<exists>rs a'. migration_run I W t ops keys a = Inr (rs, drop (nexts ops) keys, a') \<and> adapter_ok ok view fr src pok known a' \<and>
     adapter_view view src pview a' = snd (map_run ops m) \<and> list_all2 stream_answer rs (fst (map_run ops m)) \<and>
     keys_ok (drop (nexts ops) keys) (snd (map_run ops m)) (view (sa_store a'))"
  using assms
proof (induction ops arbitrary: keys a m)
  case Nil
  then show ?case by simp
next
  case (Cons op ops)
  note p = Cons.prems
  show ?case
  proof (cases op)
    case (MGet k)
    obtain r a' where g: "sa_GetStream I W t k a = Inr (r, a')" "adapter_ok ok view fr src pok known a'"
        "adapter_view view src pview a' = m" "stream_answer r (m k)" "view (sa_store a') = (view (sa_store a))(k := m k)"
      using adapter_getHandler_ok [OF p(1), of t k] p(2) by blast
    then have "keys_ok keys m (view (sa_store a'))" using p(3) by (auto simp: keys_ok_def)
    from Cons.IH [OF g(2,3) this] show ?thesis
      using p(4) MGet g(1,4) by (auto simp: case_prod_unfold Let_def)
  next
    case (MSet k i b)
    obtain a' where g: "sa_Set I W t k i b a = Inr (None, a')" "adapter_ok ok view fr src pok known a'"
        "adapter_view view src pview a' = m(k \<mapsto> (i, b))" "view (sa_store a') = (view (sa_store a))(k \<mapsto> (i, b))"
      using adapter_setHandler_ok [OF p(1), of t k i b] p(2) by (auto simp: sa_Set_def)
    then have "keys_ok keys (m(k \<mapsto> (i, b))) (view (sa_store a'))" using p(3,4) MSet by (auto simp: keys_ok_def)
    from Cons.IH [OF g(2,3) this] show ?thesis using p(4) MSet g(1) by (simp del: fun_upd_apply)
  next
    case (MDel k i)
    obtain e a' where g: "sa_Del I W t k i a = Inr (e, a')" "adapter_ok ok view fr src pok known a'"
        "adapter_view view src pview a' = m(k := None)" "view (sa_store a') = (view (sa_store a))(k := None)"
      using adapter_delHandler_ok [OF p(1), of t k i] p(2) by blast
    then have "keys_ok keys (m(k := None)) (view (sa_store a'))" using p(3) by (auto simp: keys_ok_def)
    from Cons.IH [OF g(2,3) this] show ?thesis using p(4) MDel g(1) by (simp del: fun_upd_apply)
  next
    case MNext
    show ?thesis
    proof (cases keys)
      case Nil
      then show ?thesis using Cons.IH [OF p(1-3)] p(4) MNext by auto
    next
      case (Cons c keys')
      have "keys_ok (c # keys') (adapter_view view src pview a) (view (sa_store a))" using p(3) Cons unfolding p(2) by simp
      then obtain a' where g: "migrate_one I W t c a = Inr (True, a')" "adapter_ok ok view fr src pok known a'"
          "adapter_view view src pview a' = m" "keys_ok keys' m (view (sa_store a'))"
        using migrate_one_ok [OF p(1), of c keys' t] unfolding p(2) by auto
      from local.Cons.IH [OF g(2-4)] show ?thesis using p(4) MNext Cons g(1) by auto
    qed
  qed
qed

lemma migrate_keys_run: "migrate_keys I W t keys a =
    bindR (migration_run I W t (replicate (length keys) MNext) keys a) (\<lambda>(_, _, a). Inr a)"
proof (induction keys arbitrary: a)
  case Nil
  then show ?case by simp
next
  case (Cons c keys)
  have e: "migration_run I W t (replicate n MNext) [] a = Inr ([], [], a)" for n a
    by (induction n) simp_all
  show ?case
    using Cons.IH by (cases "migrate_one I W t c a") (auto simp: e bindR_assoc)
qed

lemma read_keys_ok: "fr r = map FBulk ks @ fs \<Longrightarrow>
    \<exists>r'. read_keys (wi_reader W) (length ks) r = (Inr ks, r') \<and> fr r' = fs \<and> src r' = src r"
proof (induction ks arbitrary: r)
  case Nil
  then show ?case by simp
next
  case (Cons k ks)
  obtain r1 where 1: "rd_ReadBulkString (wi_reader W) r = (Inr k, r1)" "fr r1 = map FBulk ks @ fs" "src r1 = src r"
    using read_bulk [of r k "map FBulk ks @ fs"] Cons.prems by auto
  then show ?case using Cons.IH [OF 1(2)] by auto
qed

lemma read_mhello_ok:
  assumes "fr r = map FBulk (c # itoa (int (length ks)) # ks)" and "length ks < 2 ^ 63"
  shows "\<exists>r'. read_mhello (wi_reader W) r = Inr (Inr ks, r') \<and> fr r' = [] \<and> src r' = src r"
proof -
  obtain r1 where 1: "rd_ReadBulkString (wi_reader W) r = (Inr c, r1)" "fr r1 = map FBulk (itoa (int (length ks)) # ks)" "src r1 = src r"
    using read_bulk [of r c "map FBulk (itoa (int (length ks)) # ks)"] assms(1) by auto
  obtain r2 where 2: "rd_ReadBulkString (wi_reader W) r1 = (Inr (itoa (int (length ks))), r2)" "fr r2 = map FBulk ks @ []" "src r2 = src r1"
    using read_bulk [of r1 "itoa (int (length ks))" "map FBulk ks"] 1(2) by auto
  have "atoi (itoa (int (length ks))) = Some (int (length ks))"
    using assms(2) by (intro atoi_itoa) (simp_all flip: of_nat_less_iff)
  then show ?thesis using 1 2 read_keys_ok [OF 2(2)] by (auto simp: read_mhello_def)
qed

end

section \<open>The key list\<close>

text \<open>The two slices of one array hold what two separate lists would, as long as the deleted keys fit.\<close>

definition lists_are :: "lists \<Rightarrow> string list \<Rightarrow> string list \<Rightarrow> bool" where
  "lists_are l ds gs \<longleftrightarrow>
     length (ls_array l) = 2 * ls_n l \<and> ls_dspill l = None \<and> ls_dlen l = length ds \<and> length ds \<le> ls_n l \<and>
     take (length ds) (ls_array l) = ds \<and>
     (case ls_gspill l of
        Some xs \<Rightarrow> xs = gs
      | None \<Rightarrow> ls_glen l = length gs \<and> length gs \<le> ls_n l \<and> take (length gs) (drop (ls_n l) (ls_array l)) = gs)"

lemma lists_are_make: "lists_are (make_lists n) [] []"
  by (simp add: lists_are_def make_lists_def)

lemma lists_areD: "lists_are l ds gs \<Longrightarrow> delList l = ds \<and> getList l = gs"
  by (auto simp: lists_are_def delList_def getList_def split: option.splits)

lemma take_snoc_update: "d < length xs \<Longrightarrow> take d xs = ds \<Longrightarrow> take (Suc d) (xs[d := k]) = ds @ [k]"
  by (simp add: take_Suc_conv_app_nth)

lemma lists_are_append_del:
  assumes "lists_are l ds gs" and "length ds < ls_n l"
  shows "lists_are (append_del k l) (ds @ [k]) gs" "ls_n (append_del k l) = ls_n l"
  using assms take_snoc_update [of "length ds" "ls_array l" ds k]
  by (auto simp: lists_are_def append_del_def split: option.splits)

lemma lists_are_append_get:
  assumes "lists_are l ds gs"
  shows "lists_are (append_get k l) ds (gs @ [k])" "ls_n (append_get k l) = ls_n l"
proof -
  show "ls_n (append_get k l) = ls_n l" by (simp add: append_get_def)
  show "lists_are (append_get k l) ds (gs @ [k])"
  proof (cases "ls_gspill l = None \<and> ls_glen l < ls_n l")
    case True
    then have g: "ls_glen l = length gs" "take (length gs) (drop (ls_n l) (ls_array l)) = gs" "length gs < ls_n l"
      using assms by (auto simp: lists_are_def)
    have "take (Suc (length gs)) ((drop (ls_n l) (ls_array l))[length gs := k]) = gs @ [k]"
      using g assms by (intro take_snoc_update) (auto simp: lists_are_def)
    then show ?thesis using assms True g by (auto simp: lists_are_def append_get_def drop_update_swap)
  next
    case False
    then show ?thesis using assms by (auto simp: lists_are_def append_get_def getList_def split: option.splits)
  qed
qed

definition known_keys :: "repo \<Rightarrow> string set" where
  "known_keys s = fst ` set s"

lemma known_keys_Get: "known_keys (snd (Storage_Get t k s)) = known_keys s"
  by (auto simp: known_keys_def Storage_Get_def dom_update image_iff map_of_eq_None_iff dest!: map_of_SomeD split: option.splits)
     (force dest: map_of_SomeD)

lemma mhello_scan_ok:
  assumes "repo_wf s" and "lists_are l ds gs" and "length (ds @ filter (\<lambda>k. repo_view s k = None) keys) \<le> ls_n l"
  shows "\<exists>l' s'. mhello_scan (repo_if f) t keys (l, s) = Inr (l', s') \<and> repo_wf s' \<and> repo_view s' = repo_view s \<and>
     known_keys s' = known_keys s \<and>
     lists_are l' (ds @ filter (\<lambda>k. repo_view s k = None) keys) (gs @ filter (\<lambda>k. repo_view s k \<noteq> None) keys)"
  using assms
proof (induction keys arbitrary: s l ds gs)
  case Nil
  then show ?case by simp
next
  case (Cons k keys)
  let ?s = "snd (Storage_Get t k s)"
  have v: "repo_view ?s = repo_view s" and w: "repo_wf ?s" using lstore.get_view repo_wf_Get Cons.prems(1) by auto
  have g: "sg_Get (repo_if f) t k s = Inr (fst (Storage_Get t k s), ?s)" by (simp add: repo_if_def)
  show ?case
  proof (cases "repo_view s k")
    case None
    then have "fst (Storage_Get t k s) = Inl ErrNotFound" by (simp add: lstore.get_value)
    then show ?thesis
      using Cons.IH [of ?s "append_del k l" "ds @ [k]" gs] lists_are_append_del [OF Cons.prems(2), of k] Cons.prems(3)
        None v w g known_keys_Get [of t k s] by (simp add: case_prod_unfold)
  next
    case (Some x)
    then have "fst (Storage_Get t k s) \<noteq> Inl ErrNotFound" by (simp add: lstore.get_value)
    then show ?thesis
      using Cons.IH [of ?s "append_get k l" ds "gs @ [k]"] lists_are_append_get [OF Cons.prems(2), of k] Cons.prems(3)
        Some v w g known_keys_Get [of t k s] by (simp add: case_prod_unfold)
  qed
qed

definition ready_to_send :: "'s lambda \<Rightarrow> bool" where
  "ready_to_send la \<longleftrightarrow> (\<exists>ss m. la_session la = Some ss \<and> ss_Migrator ss = Some m \<and> status m = Ready)"

lemma mhello_ok:
  assumes "repo_wf (la_store la)" and "range_ok f" and "ready_to_send la"
  defines "keys \<equiv> Storage_Keys f (la_store la)"
  shows "\<exists>la' ws. mhello_handler (repo_if f) t la = Some (Inr (la', ws)) \<and>
     frames ws = map FBulk (''mhello'' # itoa (int (Storage_Len (la_store la))) #
        map ((@) (itoa OP_DEL)) (filter (\<lambda>k. repo_view (la_store la) k = None) keys) @
        map ((@) (itoa OP_GET)) (filter (\<lambda>k. repo_view (la_store la) k \<noteq> None) keys)) \<and>
     repo_wf (la_store la') \<and> repo_view (la_store la') = repo_view (la_store la) \<and>
     known_keys (la_store la') = known_keys (la_store la) \<and> la_session la' = la_session la"
proof -
  obtain ss m where ss: "la_session la = Some ss" "ss_Migrator ss = Some m" "recv_ready m = Some (None, m)"
    using assms(3) by (auto simp: ready_to_send_def status_def recv_ready_def split: option.splits if_splits)
  let ?n = "Storage_Len (la_store la)"
  have "length (filter (\<lambda>k. repo_view (la_store la) k = None) keys) \<le> ?n"
    using Storage_Keys_complete(3) [OF assms(1,2)] by (metis keys_def length_filter_le)
  then obtain l s where sc: "mhello_scan (repo_if f) t keys (make_lists ?n, la_store la) = Inr (l, s)" "repo_wf s"
      "repo_view s = repo_view (la_store la)" "known_keys s = known_keys (la_store la)"
      "lists_are l (filter (\<lambda>k. repo_view (la_store la) k = None) keys) (filter (\<lambda>k. repo_view (la_store la) k \<noteq> None) keys)"
    using mhello_scan_ok [OF assms(1) lists_are_make, of keys ?n f t] by (auto simp: make_lists_def)
  have b: "frames (map (\<lambda>key. AppendBulkString (c @ key)) ks) = map FBulk (map ((@) c) ks)" for c ks
    by (induction ks) simp_all
  have "sg_Len (repo_if f) (la_store la) = ?n" "sg_Keys (repo_if f) (la_store la) = keys"
    by (simp_all add: repo_if_def keys_def)
  then show ?thesis using ss sc lists_areD [OF sc(5)]
    by (simp add: mhello_handler_def b)
qed

section \<open>The source of a migration\<close>

text \<open>
  The handlers of the source behind its RESP server, which calls the handler registered for a command with
  the arguments received.  \<open>serve_frames\<close> is the part for the requests \<open>get\<close>, \<open>set\<close> and \<open>del\<close>, which are all that an
  adapter or the proxy's queue of requests sends; \<open>lambda_serve\<close> below adds the control commands.
\<close>

definition bulk_arg :: "frame list \<Rightarrow> nat \<Rightarrow> string" where
  "bulk_arg args i = (case drop i args of FBulk b # _ \<Rightarrow> b | _ \<Rightarrow> [])"

definition serve_frames :: "(repo \<Rightarrow> Chunk list) \<Rightarrow> int \<Rightarrow> (nat \<Rightarrow> int) \<Rightarrow> frame list \<Rightarrow> repo lambda \<Rightarrow> (repo lambda \<times> wcall list) res" where
  "serve_frames f mem clk fs la =
     (case fs of
        FArray _ # FBulk name # args \<Rightarrow>
          if name = ''get'' then get_handler (repo_if f) mem (\<lambda>_. None) clk \<lparr>cd_Name = name, cd_Arg = bulk_arg args\<rparr> la
          else if name = ''del'' then del_handler (repo_if f) mem (\<lambda>_. None) clk \<lparr>cd_Name = name, cd_Arg = bulk_arg args\<rparr> la
          else if name = ''set''
          then set_handler (repo_if f) mem (\<lambda>_. None) clk
                 \<lparr>cs_NextArg = bulk_arg args,
                  cs_Next = (case drop 4 args of FBulk b # _ \<Rightarrow> Inr (NewInlineReader b) | _ \<Rightarrow> Inl ErrUnexpectedEOF)\<rparr> la
          else Inr (la, [])
      | _ \<Rightarrow> Inr (la, []))"

definition command_name :: "frame list \<Rightarrow> string option" where
  "command_name fs = (case fs of FArray _ # FBulk name # args \<Rightarrow> Some name | _ \<Rightarrow> None)"

text \<open>
  The whole table of handlers.  \<open>None\<close>: the handler waits.  \<open>migrate\<close> answers nothing; the goroutine it may start is
  \<open>migrate_served\<close>.  An unknown command is answered by the package \<open>redeo\<close> itself.
\<close>

definition lambda_serve :: "error + conn \<Rightarrow> error + int \<Rightarrow> (repo \<Rightarrow> Chunk list) \<Rightarrow> int \<Rightarrow> (nat \<Rightarrow> int) \<Rightarrow> frame list \<Rightarrow> repo lambda
    \<Rightarrow> (repo lambda \<times> wcall list) res option" where
  "lambda_serve dial invoke f mem clk fs la =
     (if command_name fs = Some ''ping'' then Some (Inr (ping_handler mem (clk 0) (\<lambda>_. None) la))
      else if command_name fs = Some ''data''
      then map_option (\<lambda>r. bindR r (\<lambda>(x, ws). Inr (case x of Inl la \<Rightarrow> la | Inr la \<Rightarrow> la, ws))) (data_handler (\<lambda>_. None) la)
      else if command_name fs = Some ''migrate''
      then map_option (\<lambda>r. bindR r (\<lambda>(started, fromProxy, la). Inr (la, []))) (migrate_handler dial invoke la)
      else if command_name fs = Some ''mhello'' then mhello_handler (repo_if f) (clk 0) la
      else Some (serve_frames f mem clk fs la))"

definition lift_op :: "(frame list \<Rightarrow> (error + 'a) \<times> frame list) \<Rightarrow> 'p \<times> frame list \<Rightarrow> (error + 'a) \<times> 'p \<times> frame list" where
  "lift_op op r = (let (v, fs) = op (snd r) in (v, fst r, fs))"

definition pair_reader :: "('p \<times> frame list) resp_reader" where
  "pair_reader = \<lparr>
     rd_PeekType = lift_op (rd_PeekType list_reader),
     rd_ReadBulkString = lift_op (rd_ReadBulkString list_reader),
     rd_ReadBulk = lift_op (rd_ReadBulk list_reader),
     rd_ReadInt = lift_op (rd_ReadInt list_reader),
     rd_ReadError = lift_op (rd_ReadError list_reader),
     rd_ReadInlineString = lift_op (rd_ReadInlineString list_reader),
     rd_StreamBulk = lift_op (rd_StreamBulk list_reader),
     rd_SkipBulk = lift_op (rd_SkipBulk list_reader)\<rparr>"

definition source_wire :: "(repo \<Rightarrow> Chunk list) \<Rightarrow> int \<Rightarrow> (nat \<Rightarrow> int) \<Rightarrow> (repo lambda \<times> frame list) wire" where
  "source_wire f mem clk = \<lparr>
     wi_reader = pair_reader,
     wi_peer = (\<lambda>fs (la, q). case serve_frames f mem clk fs la of Inl _ \<Rightarrow> (la, q) | Inr (la', ws) \<Rightarrow> (la', q @ frames ws)),
     wi_oc = (\<lambda>_ _. None),
     wi_reads = (\<lambda>st. case st_ReadAll st of Inl e \<Rightarrow> [([], Some e)] | Inr b \<Rightarrow> [(b, None)])\<rparr>"

lemma lift_reads: "reads op id val \<Longrightarrow> reads (lift_op op) snd val"
  unfolding reads_def lift_op_def by (auto simp: Let_def split: prod.splits) (metis Pair_inject snd_conv)+

lemma pair_reader_ok: "reader_ok pair_reader snd"
proof -
  note l = reader_okD(3-9) [OF list_reader_ok]
  show ?thesis
    unfolding reader_ok_def
  proof (intro conjI)
    show "\<forall>r x fs. snd r = x # fs \<longrightarrow> (\<exists>r'. rd_PeekType pair_reader r = (Inr (type_of_frame x), r') \<and> snd r' = snd r)"
      by (auto simp: pair_reader_def lift_op_def list_reader_def)
    show "\<forall>r. snd r = [] \<longrightarrow> (\<exists>e r'. rd_PeekType pair_reader r = (Inl e, r'))"
      by (auto simp: pair_reader_def lift_op_def list_reader_def)
  qed (simp_all add: pair_reader_def lift_reads l)
qed

definition source_ok :: "repo lambda \<Rightarrow> bool" where
  "source_ok la \<longleftrightarrow> repo_wf (la_store la) \<and> la_session la \<noteq> None"

lemma same_frame_session: "same_frame la la' \<Longrightarrow> la_session la' = None \<longleftrightarrow> la_session la = None"
  by (cases "la_session la'"; cases "la_session la") (auto simp: same_frame_def active_def)

lemma repo_view_known: "repo_view s k \<noteq> None \<Longrightarrow> k \<in> known_keys s"
  by (auto simp: repo_view_def known_keys_def image_iff dest!: map_of_SomeD split: bind_splits) (metis fst_conv)

lemma known_keys_update: "known_keys (AList.update k c s) = insert k (known_keys s)"
  by (simp add: known_keys_def dom_update)

lemma known_keys_iff: "k \<in> known_keys s \<longleftrightarrow> map_of s k \<noteq> None"
  by (simp add: known_keys_def map_of_eq_None_iff)

lemma known_keys_Del: "known_keys (snd (Storage_Del t k i s)) = known_keys s"
  "fst (Storage_Del t k i s) = None \<longleftrightarrow> k \<in> known_keys s"
  by (cases "map_of s k"; simp add: Storage_Del_def known_keys_update known_keys_iff insert_absorb)+

lemma serve_get:
  assumes "source_ok la" and "well_framed fs [''get'', c, q, x, k]"
  shows "\<exists>la' ws. serve_frames f mem clk fs la = Inr (la', ws) \<and> source_ok la' \<and> repo_view (la_store la') = repo_view (la_store la) \<and>
     known_keys (la_store la') = known_keys (la_store la) \<and>
     (case repo_view (la_store la) k of
        None \<Rightarrow> \<exists>m. frames ws = [FError m] | Some (i, b) \<Rightarrow> frames ws = map FBulk [''get'', c, q, i, b])"
proof -
  let ?c = "\<lparr>cd_Name = ''get'', cd_Arg = bulk_arg [FBulk c, FBulk q, FBulk x, FBulk k]\<rparr>"
  have arg: "cd_Name ?c = ''get''" "cd_Arg ?c 0 = c" "cd_Arg ?c 1 = q" "cd_Arg ?c 3 = k"
    by (simp_all add: bulk_arg_def)
  have s: "serve_frames f mem clk fs la = get_handler (repo_if f) mem (\<lambda>_. None) clk ?c la"
    using assms(2) by (simp add: serve_frames_def well_framed_def)
  have "repo_wf (la_store la)" "la_session la \<noteq> None" using assms(1) by (simp_all add: source_ok_def)
  then obtain la' ws r where "get_handler (repo_if f) mem (\<lambda>_. None) clk ?c la = Inr (la', ws)" "repo_wf (la_store la')"
      "repo_view (la_store la') = repo_view (la_store la)" "same_frame la la'"
      "sg_GetStream (repo_if f) (clk 2) k (la_store la) = Inr (r, la_store la')"
      "case repo_view (la_store la) k of
         None \<Rightarrow> \<exists>m. frames ws = [FError m] | Some (i, b) \<Rightarrow> frames ws = map FBulk [''get'', c, q, i, b]"
    using repo_store.get_handler_ok [of la "\<lambda>_. None" f mem clk ?c, unfolded arg] by blast
  moreover have "known_keys (la_store la') = known_keys (la_store la)"
    using calculation(5) known_keys_Get [of "clk 2" k "la_store la"]
    by (auto simp: repo_if_def Storage_GetStream_def split: prod.splits sum.splits)
  ultimately show ?thesis
    using s same_frame_session [of la la'] \<open>la_session la \<noteq> None\<close> by (simp add: source_ok_def)
qed

lemma serve_set:
  assumes "source_ok la" and "well_framed fs [''set'', c, q, i, k, b]"
  shows "\<exists>la' ws. serve_frames f mem clk fs la = Inr (la', ws) \<and> source_ok la' \<and>
     repo_view (la_store la') = (repo_view (la_store la))(k \<mapsto> (i, b)) \<and>
     known_keys (la_store la') = insert k (known_keys (la_store la)) \<and> frames ws = map FBulk [''set'', c, q, i]"
proof -
  let ?args = "[FBulk c, FBulk q, FBulk i, FBulk k, FBulk b]"
  let ?c = "\<lparr>cs_NextArg = bulk_arg ?args, cs_Next = Inr (NewInlineReader b)\<rparr>"
  have arg: "cs_NextArg ?c 0 = c" "cs_NextArg ?c 1 = q" "cs_NextArg ?c 2 = i" "cs_NextArg ?c 3 = k"
    "cs_Next ?c = Inr (NewInlineReader b)"
    by (simp_all add: bulk_arg_def)
  have s: "serve_frames f mem clk fs la = set_handler (repo_if f) mem (\<lambda>_. None) clk ?c la"
    using assms(2) by (simp add: serve_frames_def well_framed_def)
  have "repo_wf (la_store la)" "la_session la \<noteq> None" using assms(1) by (simp_all add: source_ok_def)
  then obtain la' ws where "set_handler (repo_if f) mem (\<lambda>_. None) clk ?c la = Inr (la', ws)" "repo_wf (la_store la')"
      "repo_view (la_store la') = (repo_view (la_store la))(k \<mapsto> (i, b))" "same_frame la la'"
      "sg_SetStream (repo_if f) (clk 1) k i (NewInlineReader b) (la_store la) = Inr (None, la_store la')"
      "frames ws = map FBulk [''set'', c, q, i]"
    using repo_store.set_handler_ok [of la "\<lambda>_. None" ?c b f mem clk, unfolded arg] by blast
  moreover have "known_keys (la_store la') = insert k (known_keys (la_store la))"
    using calculation(5) known_keys_update [of k "(NewChunk (clk 1) i b)\<lparr>c_Key := k\<rparr>" "la_store la"]
    by (simp add: repo_if_def Storage_SetStream_def Storage_Set_def NewInlineReader_def)
  ultimately show ?thesis
    using s same_frame_session [of la la'] \<open>la_session la \<noteq> None\<close> by (simp add: source_ok_def)
qed

lemma serve_del:
  assumes "source_ok la" and "well_framed fs [''del'', c, q, i, k]"
  shows "\<exists>la' ws. serve_frames f mem clk fs la = Inr (la', ws) \<and> source_ok la' \<and>
     repo_view (la_store la') = (repo_view (la_store la))(k := None) \<and>
     known_keys (la_store la') = known_keys (la_store la) \<and>
     (if k \<in> known_keys (la_store la) then frames ws = map FBulk [''del'', c, q, i] else \<exists>m. frames ws = [FError m])"
proof -
  let ?c = "\<lparr>cd_Name = ''del'', cd_Arg = bulk_arg [FBulk c, FBulk q, FBulk i, FBulk k]\<rparr>"
  have arg: "cd_Arg ?c 0 = c" "cd_Arg ?c 1 = q" "cd_Arg ?c 2 = i" "cd_Arg ?c 3 = k"
    by (simp_all add: bulk_arg_def)
  have s: "serve_frames f mem clk fs la = del_handler (repo_if f) mem (\<lambda>_. None) clk ?c la"
    using assms(2) by (simp add: serve_frames_def well_framed_def)
  have "repo_wf (la_store la)" "la_session la \<noteq> None" using assms(1) by (simp_all add: source_ok_def)
  then obtain la' ws e where h: "del_handler (repo_if f) mem (\<lambda>_. None) clk ?c la = Inr (la', ws)" "repo_wf (la_store la')"
      "repo_view (la_store la') = (repo_view (la_store la))(k := None)" "same_frame la la'"
      "sg_Del (repo_if f) (clk 0) k i (la_store la) = Inr (e, la_store la')"
      "if e = None then frames ws = map FBulk [''del'', c, q, i] else \<exists>m. frames ws = [FError m]"
    using repo_store.del_handler_ok [of la "\<lambda>_. None" f mem clk ?c, unfolded arg] by blast
  have d: "Storage_Del (clk 0) k i (la_store la) = (e, la_store la')" using h(5) by (simp add: repo_if_def)
  then have "known_keys (la_store la') = known_keys (la_store la)" "e = None \<longleftrightarrow> k \<in> known_keys (la_store la)"
    using known_keys_Del [of "clk 0" k i "la_store la"] by simp_all
  then show ?thesis
    using s h same_frame_session [of la la'] \<open>la_session la \<noteq> None\<close> by (simp add: source_ok_def del: fun_upd_apply)
qed

interpretation migr: migrating_store "repo_if f" repo_wf repo_view "source_wire f mem clk" snd fst source_ok
  "repo_view \<circ> la_store" "known_keys \<circ> la_store"
proof unfold_locales
  show "reader_ok (wi_reader (source_wire f mem clk)) snd" by (simp add: source_wire_def pair_reader_ok)
next
  fix r :: "repo lambda \<times> frame list"
  show "fst (snd (rd_PeekType (wi_reader (source_wire f mem clk)) r)) = fst r"
    "fst (snd (rd_ReadError (wi_reader (source_wire f mem clk)) r)) = fst r"
    "fst (snd (rd_ReadBulkString (wi_reader (source_wire f mem clk)) r)) = fst r"
    "fst (snd (rd_StreamBulk (wi_reader (source_wire f mem clk)) r)) = fst r"
    by (simp_all add: source_wire_def pair_reader_def lift_op_def case_prod_unfold Let_def)
next
  fix b r n
  show "concat (map fst (wi_reads (source_wire f mem clk) (NewInlineReader b))) = b"
    "\<forall>x \<in> set (wi_reads (source_wire f mem clk) (NewInlineReader b)). snd x = None"
    "wi_oc (source_wire f mem clk) r n = None"
    by (simp_all add: source_wire_def NewInlineReader_def)
next
  fix p
  show "dom ((repo_view \<circ> la_store) p) \<subseteq> (known_keys \<circ> la_store) p"
    using repo_view_known by (auto simp: domIff)
next
  fix r :: "repo lambda \<times> frame list" and fs c q x k i b
  assume r: "snd r = []" "source_ok (fst r)"
  let ?r = "wi_peer (source_wire f mem clk) fs r"
  have peer: "?r = (la', frames ws)" if "serve_frames f mem clk fs (fst r) = Inr (la', ws)" for la' ws
    using r(1) that by (cases r) (simp add: source_wire_def)
  {
    assume "well_framed fs [''get'', c, q, x, k]"
    from serve_get [OF r(2) this, of f mem clk] show "source_ok (fst ?r) \<and> (repo_view \<circ> la_store) (fst ?r) = (repo_view \<circ> la_store) (fst r) \<and>
        (known_keys \<circ> la_store) (fst ?r) = (known_keys \<circ> la_store) (fst r) \<and>
        (case (repo_view \<circ> la_store) (fst r) k of
           None \<Rightarrow> \<exists>m. snd ?r = [FError m]
         | Some (i, b) \<Rightarrow> snd ?r = map FBulk [''get'', c, q, i, b])"
      by (elim exE conjE) (simp only: peer fst_conv snd_conv o_apply simp_thms)
  next
    assume "well_framed fs [''set'', c, q, i, k, b]"
    from serve_set [OF r(2) this, of f mem clk] show "source_ok (fst ?r) \<and> (repo_view \<circ> la_store) (fst ?r) = ((repo_view \<circ> la_store) (fst r))(k \<mapsto> (i, b)) \<and>
        (known_keys \<circ> la_store) (fst ?r) = insert k ((known_keys \<circ> la_store) (fst r)) \<and>
        snd ?r = map FBulk [''set'', c, q, i]"
      by (elim exE conjE) (simp only: peer fst_conv snd_conv o_apply simp_thms)
  next
    assume "well_framed fs [''del'', c, q, i, k]"
    from serve_del [OF r(2) this, of f mem clk] show "source_ok (fst ?r) \<and> (repo_view \<circ> la_store) (fst ?r) = ((repo_view \<circ> la_store) (fst r))(k := None) \<and>
        (known_keys \<circ> la_store) (fst ?r) = (known_keys \<circ> la_store) (fst r) \<and>
        (if k \<in> (known_keys \<circ> la_store) (fst r) then snd ?r = map FBulk [''del'', c, q, i] else \<exists>m. snd ?r = [FError m])"
      by (elim exE conjE) (simp only: peer fst_conv snd_conv o_apply simp_thms)
  }
qed

section \<open>A whole migration\<close>

lemma keys_ok_mhello:
  assumes "repo_wf s" and "range_ok f" and "keys = map ((@) (itoa OP_DEL)) (filter (\<lambda>k. repo_view s k = None) (Storage_Keys f s)) @
     map ((@) (itoa OP_GET)) (filter (\<lambda>k. repo_view s k \<noteq> None) (Storage_Keys f s))"
  shows "keys_ok keys (repo_view s) local" "length keys = Storage_Len s"
    "itoa OP_DEL @ k \<in> set keys \<longleftrightarrow> k \<in> known_keys s \<and> repo_view s k = None"
proof -
  have ks: "set (Storage_Keys f s) = known_keys s"
    using Storage_Keys_complete(1) [OF assms(1,2)] by (metis known_keys_def list.set_map set_mset_mset)
  show "keys_ok keys (repo_view s) local"
    using repo_view_known ks unfolding keys_ok_def assms(3) by fastforce
  show "length keys = Storage_Len s"
    using Storage_Keys_complete(3) [OF assms(1,2)] sum_length_filter_compl [of "\<lambda>k. repo_view s k = None" "Storage_Keys f s"]
    by (simp add: assms(3))
  show "itoa OP_DEL @ k \<in> set keys \<longleftrightarrow> k \<in> known_keys s \<and> repo_view s k = None"
    using ks by (auto simp: assms(3) itoa_ops)
qed

lemma migration_starts:
  assumes "repo_wf (la_store la)" and "range_ok f" and "ready_to_send la" and "Storage_Len (la_store la) < 2 ^ 63"
    and "repo_wf s" and "repo_view s = Map.empty"
  shows "\<exists>la' ws keys r. mhello_handler (repo_if f) t la = Some (Inr (la', ws)) \<and>
     read_mhello (wi_reader (source_wire f mem clk)) (la', frames ws) = Inr (Inr keys, r) \<and>
     adapter_ok repo_wf repo_view snd fst source_ok (known_keys \<circ> la_store) (newStorageAdapter r s) \<and>
     adapter_view repo_view fst (repo_view \<circ> la_store) (newStorageAdapter r s) = repo_view (la_store la) \<and>
     keys_ok keys (repo_view (la_store la)) (repo_view s) \<and> length keys = Storage_Len (la_store la) \<and>
     (\<forall>k. itoa OP_DEL @ k \<in> set keys \<longleftrightarrow> k \<in> known_keys (la_store la) \<and> repo_view (la_store la) k = None)"
proof -
  let ?keys = "map ((@) (itoa OP_DEL)) (filter (\<lambda>k. repo_view (la_store la) k = None) (Storage_Keys f (la_store la))) @
     map ((@) (itoa OP_GET)) (filter (\<lambda>k. repo_view (la_store la) k \<noteq> None) (Storage_Keys f (la_store la)))"
  note k = keys_ok_mhello [OF assms(1,2) refl]
  obtain la' ws where m: "mhello_handler (repo_if f) t la = Some (Inr (la', ws))"
      "frames ws = map FBulk (''mhello'' # itoa (int (Storage_Len (la_store la))) # ?keys)"
      "repo_wf (la_store la')" "repo_view (la_store la') = repo_view (la_store la)" "la_session la' = la_session la"
    using mhello_ok [OF assms(1-3), of t] by blast
  have "snd (la', frames ws) = map FBulk (''mhello'' # itoa (int (length ?keys)) # ?keys)"
    using m(2) k(2) by simp
  then obtain r where r: "read_mhello (wi_reader (source_wire f mem clk)) (la', frames ws) = Inr (Inr ?keys, r)"
      "snd r = []" "fst r = la'"
    using migr.read_mhello_ok [of "(la', frames ws)" "''mhello''" ?keys f mem clk] k(2) assms(4) by auto
  have "la_session la' \<noteq> None" using assms(3) m(5) by (auto simp: ready_to_send_def)
  then have "adapter_ok repo_wf repo_view snd fst source_ok (known_keys \<circ> la_store) (newStorageAdapter r s)"
    using r m(3) assms(5,6) by (simp add: adapter_ok_def newStorageAdapter_def source_ok_def)
  moreover have "adapter_view repo_view fst (repo_view \<circ> la_store) (newStorageAdapter r s) = repo_view (la_store la)"
    using r m(4) assms(6) by (simp add: adapter_view_def newStorageAdapter_def)
  ultimately show ?thesis using m(1) r(1) k by blast
qed

lemma migration_run_all:
  assumes "repo_wf (la_store la)" and "range_ok f" and "ready_to_send la" and "Storage_Len (la_store la) < 2 ^ 63"
    and "repo_wf s" and "repo_view s = Map.empty"
    and "\<forall>k \<in> sets_of ops. k \<in> known_keys (la_store la) \<longrightarrow> repo_view (la_store la) k \<noteq> None"
  shows "\<exists>la' ws keys r rs a. mhello_handler (repo_if f) t la = Some (Inr (la', ws)) \<and>
     read_mhello (wi_reader (source_wire f mem clk)) (la', frames ws) = Inr (Inr keys, r) \<and>
     length keys = Storage_Len (la_store la) \<and>
     migration_run (repo_if f) (source_wire f mem clk) t' ops keys (newStorageAdapter r s) = Inr (rs, drop (nexts ops) keys, a) \<and>
     list_all2 stream_answer rs (fst (map_run ops (repo_view (la_store la)))) \<and>
     adapter_view repo_view fst (repo_view \<circ> la_store) a = snd (map_run ops (repo_view (la_store la))) \<and>
     (Storage_Len (la_store la) \<le> nexts ops \<longrightarrow>
        repo_view (fst (Restore a)) = snd (map_run ops (repo_view (la_store la))))"
proof -
  obtain la' ws keys r where st: "mhello_handler (repo_if f) t la = Some (Inr (la', ws))"
     "read_mhello (wi_reader (source_wire f mem clk)) (la', frames ws) = Inr (Inr keys, r)"
     "adapter_ok repo_wf repo_view snd fst source_ok (known_keys \<circ> la_store) (newStorageAdapter r s)"
     "adapter_view repo_view fst (repo_view \<circ> la_store) (newStorageAdapter r s) = repo_view (la_store la)"
     "keys_ok keys (repo_view (la_store la)) (repo_view s)" "length keys = Storage_Len (la_store la)"
     "\<forall>k. itoa OP_DEL @ k \<in> set keys \<longleftrightarrow> k \<in> known_keys (la_store la) \<and> repo_view (la_store la) k = None"
    using migration_starts [OF assms(1-6), of t mem clk] by blast
  have "keys_ok keys (repo_view (la_store la)) (repo_view (sa_store (newStorageAdapter r s)))"
    using st(5) by (simp add: newStorageAdapter_def)
  moreover have "\<forall>k \<in> sets_of ops. itoa OP_DEL @ k \<notin> set keys" using assms(7) st(7) by blast
  ultimately obtain rs a where run: "migration_run (repo_if f) (source_wire f mem clk) t' ops keys (newStorageAdapter r s) =
        Inr (rs, drop (nexts ops) keys, a)"
      "adapter_view repo_view fst (repo_view \<circ> la_store) a = snd (map_run ops (repo_view (la_store la)))"
      "list_all2 stream_answer rs (fst (map_run ops (repo_view (la_store la))))"
      "keys_ok (drop (nexts ops) keys) (snd (map_run ops (repo_view (la_store la)))) (repo_view (sa_store a))"
    using migr.migration_run_ok [OF st(3,4), where ops = ops and t = t'] by blast
  have "repo_view (sa_store a) = snd (map_run ops (repo_view (la_store la)))" if "length keys \<le> nexts ops"
  proof (rule keys_ok_empty)
    show "keys_ok [] (snd (map_run ops (repo_view (la_store la)))) (repo_view (sa_store a))" using run(4) that by simp
    show "snd (map_run ops (repo_view (la_store la))) = repo_view (la_store (fst (sa_conn a))) ++ repo_view (sa_store a)"
      using run(2) by (simp add: adapter_view_def)
  qed
  then have "Storage_Len (la_store la) \<le> nexts ops \<longrightarrow> repo_view (fst (Restore a)) = snd (map_run ops (repo_view (la_store la)))"
    using st(6) by (simp add: Restore_def)
  then show ?thesis using st(1,2,6) run by blast
qed

lemma map_run_nexts: "map_run (replicate n MNext) m = ([], m)"
  by (induction n) simp_all

lemma nexts_replicate: "nexts (replicate n MNext) = n" "sets_of (replicate n MNext) = {}"
  by (induction n) simp_all

lemma Client_Migrate_all:
  assumes "repo_wf (la_store la)" and "range_ok f" and "ready_to_send la" and "Storage_Len (la_store la) < 2 ^ 63"
    and "repo_wf s" and "repo_view s = Map.empty"
  shows "\<exists>la' ws a. mhello_handler (repo_if f) t la = Some (Inr (la', ws)) \<and>
     Client_Migrate (repo_if f) (source_wire f mem clk) t' (newStorageAdapter (la', frames ws) s) = Inr a \<and>
     repo_view (fst (Restore a)) = repo_view (la_store la)"
proof -
  let ?ops = "replicate (Storage_Len (la_store la)) MNext"
  obtain la' ws keys r rs a where st: "mhello_handler (repo_if f) t la = Some (Inr (la', ws))"
      "read_mhello (wi_reader (source_wire f mem clk)) (la', frames ws) = Inr (Inr keys, r)"
      "length keys = Storage_Len (la_store la)"
      "migration_run (repo_if f) (source_wire f mem clk) t' ?ops keys (newStorageAdapter r s) = Inr (rs, [], a)"
      "repo_view (fst (Restore a)) = repo_view (la_store la)"
    using migration_run_all [OF assms, of ?ops t mem clk t'] by (auto simp: nexts_replicate map_run_nexts)
  then have "Client_Migrate (repo_if f) (source_wire f mem clk) t' (newStorageAdapter (la', frames ws) s) = Inr a"
    using migr.migrate_keys_run [of f mem clk t' keys "newStorageAdapter r s"]
    by (simp add: Client_Migrate_def newStorageAdapter_def)
  then show ?thesis using st by blast
qed

text \<open>A get through \<open>ReadAll\<close> leaves zeros behind: the interceptor has seen no \<open>Read\<close>.\<close>

lemma Get_leaves_zeros:
  assumes "adapter_ok repo_wf repo_view snd fst source_ok (known_keys \<circ> la_store) a" and "repo_view (sa_store a) k = None"
    and "repo_view (la_store (fst (sa_conn a))) k = Some (i, b)"
  shows "\<exists>a'. sa_Get (repo_if f) (source_wire f mem clk) t k a = Inr (Inr (i, b), a') \<and>
     repo_view (sa_store a') k = Some (i, replicate (length b) (CHR 0x00))"
proof -
  obtain s where g: "sg_GetStream (repo_if f) t k (sa_store a) = Inr (Inl ErrNotFound, s)" "repo_wf s" "repo_view s = repo_view (sa_store a)"
    using assms(1,2) lstore.get_value [of t k "sa_store a"] lstore.get_view [of t k "sa_store a"] repo_wf_Get [of "sa_store a" t k]
    by (cases "Storage_Get t k (sa_store a)") (auto simp: adapter_ok_def repo_if_def Storage_GetStream_def)
  have "adapter_ok repo_wf repo_view snd fst source_ok (known_keys \<circ> la_store) (a\<lparr>sa_store := s\<rparr>)"
    using assms(1) g by (simp add: adapter_ok_def)
  then obtain a2 cmd a3 where f: "sa_Send (source_wire f mem clk) ''get'' None [''migrator'', ''proxy'', [], k] (a\<lparr>sa_store := s\<rparr>) = (None, a2)"
      "readGetResponse (wi_reader (source_wire f mem clk)) \<lparr>sc_key = k, sc_chunk = [], sc_bodyStream = None\<rparr> a2 = (None, cmd, a3)"
      "sc_chunk cmd = i" "sc_bodyStream cmd = Some (NewInlineReader b)"
    using migr.fetch [of "a\<lparr>sa_store := s\<rparr>" f mem clk "''migrator''" "''proxy''" k] assms(3) by auto
  have "NewInterceptReader (Some (NewInlineReader b)) =
      Inr \<lparr>ir_stream = NewInlineReader b, ir_buf = replicate (length b) (CHR 0x00), ir_r = 0, ir_lastError = None\<rparr>"
    by (simp add: NewInterceptReader_def NewInlineReader_def)
  then show ?thesis using g f
    by (auto simp: sa_Get_def sa_getHandler_def LastError_def Intercepted_def sa_store_Set_def repo_if_def NewInlineReader_def lstore.set_view)
qed

end
