(* ===== verification/EndToEnd.thy ===== *)
theory EndToEnd
  imports GetReplies Migration
begin

text \<open>
  The path of a chunk: the request the proxy writes (\<open>ProxyTypes\<close>), the handlers of the Lambda
  (\<open>LambdaHandler\<close>) and the proxy's reading of the answer (\<open>LambdaConnection\<close>, \<open>GetReplies\<close>).
\<close>

text \<open>The frames of a request, when nothing fails while writing.\<close>

definition request_frames :: "Request \<Rightarrow> frame list" where
  "request_frames q =
     (case prepare_request (rq_Cmd q) q of
        None \<Rightarrow> []
      | Some (ws, q1) \<Rightarrow> frames (ws @ fst (Flush_request (\<lambda>_. None) q1)))"

lemma set_frames:
  assumes "rq_Cmd q = ''set''" and "rq_Body q = None" and "rq_BodyStream q = Some (NewInlineReader b)"
  shows "well_framed (request_frames q) [''set'', itoa (ConnId (rq_Id q)), ReqId (rq_Id q), ChunkId (rq_Id q), rq_Key q, b]"
  using PrepareForSet_stream_framed [of q "NewInlineReader b" b "\<lambda>_. None"] assms
  by (auto simp: request_frames_def prepare_request_def NewInlineReader_def split: prod.splits)

lemma get_frames:
  assumes "rq_Cmd q = ''get''" and "rq_BodyStream q = None"
  shows "well_framed (request_frames q) [''get'', itoa (ConnId (rq_Id q)), ReqId (rq_Id q), [], rq_Key q]"
  using assms
  by (simp add: request_frames_def prepare_request_def PrepareForGet_def Flush_request_def well_framed_def)

lemma lambda_set_get:
  assumes "source_ok la" and "rq_Cmd q = ''set''" and "rq_Body q = None" and "rq_BodyStream q = Some (NewInlineReader b)"
    and "rq_Cmd g = ''get''" and "rq_BodyStream g = None" and "rq_Key g = rq_Key q"
  shows "\<exists>la1 ws1 la2 ws2. serve_frames f mem clk (request_frames q) la = Inr (la1, ws1) \<and>
     frames ws1 = map FBulk [''set'', itoa (ConnId (rq_Id q)), ReqId (rq_Id q), ChunkId (rq_Id q)] \<and>
     serve_frames f mem clk' (request_frames g) la1 = Inr (la2, ws2) \<and> source_ok la2 \<and>
     frames ws2 = map FBulk [''get'', itoa (ConnId (rq_Id g)), ReqId (rq_Id g), ChunkId (rq_Id q), b]"
proof -
  obtain la1 ws1 where 1: "serve_frames f mem clk (request_frames q) la = Inr (la1, ws1)" "source_ok la1"
      "repo_view (la_store la1) = (repo_view (la_store la))(rq_Key q \<mapsto> (ChunkId (rq_Id q), b))"
      "frames ws1 = map FBulk [''set'', itoa (ConnId (rq_Id q)), ReqId (rq_Id q), ChunkId (rq_Id q)]"
    using serve_set [OF assms(1) set_frames [OF assms(2-4)], of f mem clk] by blast
  have "repo_view (la_store la1) (rq_Key g) = Some (ChunkId (rq_Id q), b)" using 1(3) assms(7) by simp
  then obtain la2 ws2 where 2: "serve_frames f mem clk' (request_frames g) la1 = Inr (la2, ws2)" "source_ok la2"
      "frames ws2 = map FBulk [''get'', itoa (ConnId (rq_Id g)), ReqId (rq_Id g), ChunkId (rq_Id q), b]"
    using serve_get [OF 1(2) get_frames [OF assms(5,6)], of f mem clk'] by auto
  show ?thesis using 1 2 by blast
qed

end
