(* ===== verification/ErasureCode.thy ===== *)
theory ErasureCode
  imports Resp
begin

text \<open>
  \<open>src/client/ec.go\<close> and the coding part of \<open>src/client/ecRedis.go\<close>.  The interface \<open>reedsolomon.Encoder\<close> is a
  record of operations; the third-party code behind it is a parameter, \<open>DummyEncoder\<close> the implementation
  of the repository.  A shard is an optional byte string: \<open>None\<close> is a nil slice.  The writer \<open>Join\<close> writes to
  takes all bytes.
\<close>

section \<open>The interface\<close>

type_synonym shard = "bytes option"

fun shard_len :: "shard \<Rightarrow> nat" where
  "shard_len None = 0" | "shard_len (Some b) = length b"

record encoder =
  en_Encode :: "shard list \<Rightarrow> error + shard list"
  en_Verify :: "shard list \<Rightarrow> bool \<times> error option"
  en_Reconstruct :: "shard list \<Rightarrow> error + shard list"
  en_Split :: "bytes \<Rightarrow> (error + shard list) res"
  en_Join :: "shard list \<Rightarrow> int \<Rightarrow> (bytes \<times> error option) res"

definition ErrTooFewShards :: error where "ErrTooFewShards = ErrOther ''too few shards given''"
definition ErrShortData :: error where "ErrShortData = ErrOther ''not enough data to fill the number of requested shards''"
definition ErrReconstructRequired :: error where
  "ErrReconstructRequired = ErrOther ''reconstruction required as one or more required data shards are nil''"

section \<open>DummyEncoder\<close>

definition dummy_Encode :: "nat \<Rightarrow> shard list \<Rightarrow> error + shard list" where
  "dummy_Encode d shards = Inr shards"

definition dummy_Verify :: "nat \<Rightarrow> shard list \<Rightarrow> bool \<times> error option" where
  "dummy_Verify d shards =
     (if length shards \<noteq> d then (False, Some ErrTooFewShards)
      else if list_ex (\<lambda>s. shard_len s = 0) shards then (False, Some ErrTooFewShards)
      else (True, None))"

definition dummy_Reconstruct :: "nat \<Rightarrow> shard list \<Rightarrow> error + shard list" where
  "dummy_Reconstruct d shards = (case snd (dummy_Verify d shards) of Some e \<Rightarrow> Inl e | None \<Rightarrow> Inr shards)"

definition dummy_ReconstructData :: "nat \<Rightarrow> shard list \<Rightarrow> error + shard list" where
  "dummy_ReconstructData d shards = (case snd (dummy_Verify d shards) of Some e \<Rightarrow> Inl e | None \<Rightarrow> Inr shards)"

definition ErrNotImplemented :: error where "ErrNotImplemented = ErrOther ''Not implemented''"

definition dummy_Update :: "nat \<Rightarrow> shard list \<Rightarrow> shard list \<Rightarrow> error option" where
  "dummy_Update d shards newDatashards = Some ErrNotImplemented"

fun split_loop :: "nat \<Rightarrow> nat \<Rightarrow> bytes \<Rightarrow> shard list" where
  "split_loop perShard 0 data = []"
| "split_loop perShard (Suc n) data =
     (if perShard \<le> length data then Some (take perShard data) # split_loop perShard n (drop perShard data)
      else Some data # replicate n None)"

definition per_shard :: "nat \<Rightarrow> bytes \<Rightarrow> nat" where
  "per_shard d data = (length data + d - 1) div d"

definition dummy_Split :: "nat \<Rightarrow> bytes \<Rightarrow> (error + shard list) res" where
  "dummy_Split d data =
     (if data = [] then Inr (Inl ErrShortData)
      else if d = 0 then Inl DivideByZero
      else Inr (Inr (split_loop (per_shard d data) d data)))"

text \<open>The first loop of \<open>Join\<close>: \<open>Inl\<close> a nil shard was met, otherwise the size reached.\<close>

fun join_size :: "int \<Rightarrow> int \<Rightarrow> shard list \<Rightarrow> error + int" where
  "join_size outSize sz [] = Inr sz"
| "join_size outSize sz (None # shards) = Inl ErrReconstructRequired"
| "join_size outSize sz (Some b # shards) =
     (let sz' = sz + int (length b) in if outSize \<le> sz' then Inr sz' else join_size outSize sz' shards)"

fun join_write :: "int \<Rightarrow> shard list \<Rightarrow> bytes res" where
  "join_write wr [] = Inr []"
| "join_write wr (s # shards) =
     (let b = (case s of None \<Rightarrow> [] | Some b \<Rightarrow> b)
      in if wr < int (length b) then (if wr < 0 then Inl SliceOutOfRange else Inr (take (nat wr) b))
         else bindR (join_write (wr - int (length b)) shards) (\<lambda>rest. Inr (b @ rest)))"

definition dummy_Join :: "nat \<Rightarrow> shard list \<Rightarrow> int \<Rightarrow> (bytes \<times> error option) res" where
  "dummy_Join d shards outSize =
     (if length shards < d then Inr ([], Some ErrTooFewShards)
      else
        (case join_size outSize 0 (take d shards) of
           Inl e \<Rightarrow> Inr ([], Some e)
         | Inr sz \<Rightarrow>
             if sz < outSize then Inr ([], Some ErrShortData)
             else bindR (join_write outSize (take d shards)) (\<lambda>b. Inr (b, None))))"

definition DummyEncoder :: "nat \<Rightarrow> encoder" where
  "DummyEncoder d = \<lparr>en_Encode = dummy_Encode d, en_Verify = dummy_Verify d, en_Reconstruct = dummy_Reconstruct d,
     en_Split = dummy_Split d, en_Join = dummy_Join d\<rparr>"

text \<open>\<open>rs\<close> is \<open>reedsolomon.New\<close>.\<close>

definition NewEncoder :: "(nat \<Rightarrow> nat \<Rightarrow> encoder) \<Rightarrow> nat \<Rightarrow> nat \<Rightarrow> encoder" where
  "NewEncoder rs d p = (if p = 0 then DummyEncoder d else rs d p)"

section \<open>Encoding and decoding in the client\<close>

text \<open>\<open>encode\<close>: a failed verification without an error returns no shards and no error.\<close>

definition encode :: "encoder \<Rightarrow> bytes \<Rightarrow> (error option + shard list) res" where
  "encode E obj =
     bindR (en_Split E obj) (\<lambda>r.
       case r of
         Inl e \<Rightarrow> Inr (Inl (Some e))
       | Inr shards \<Rightarrow>
           (case en_Encode E shards of
              Inl e \<Rightarrow> Inr (Inl (Some e))
            | Inr shards \<Rightarrow>
                (case en_Verify E shards of
                   (False, err) \<Rightarrow> Inr (Inl err)
                 | (True, Some e) \<Rightarrow> Inr (Inl (Some e))
                 | (True, None) \<Rightarrow> Inr (Inr shards))))"

record decode_stats =
  ds_AllGood :: bool
  ds_Corrupted :: bool

text \<open>\<open>Inr\<close> is what the goroutine running \<open>Join\<close> writes into the pipe the caller reads.\<close>

definition decode :: "encoder \<Rightarrow> shard list \<Rightarrow> int \<Rightarrow> decode_stats \<Rightarrow>
    (decode_stats \<times> (error option + (bytes \<times> error option) res) \<times> shard list)" where
  "decode E data sz stats =
     (let stats = stats\<lparr>ds_AllGood := fst (en_Verify E data)\<rparr>
      in if ds_AllGood stats then (stats, Inr (en_Join E data sz), data)
         else (case en_Reconstruct E data of
                 Inl e \<Rightarrow> (stats, Inl (Some e), data)
               | Inr data \<Rightarrow>
                   let (good, err) = en_Verify E data; stats = stats\<lparr>ds_Corrupted := good\<rparr>
                   in if \<not> good then (stats, Inl err, data) else (stats, Inr (en_Join E data sz), data)))"

section \<open>What the client relies on\<close>

definition erased :: "nat \<Rightarrow> shard list \<Rightarrow> shard list \<Rightarrow> bool" where
  "erased p shards xs \<longleftrightarrow>
     list_all2 (\<lambda>s x. x = None \<or> x = s) shards xs \<and> length (filter (\<lambda>x. x = None) xs) \<le> p"

locale erasure_code =
  fixes E :: encoder and p :: nat
  assumes verify_encoded: "encode E obj = Inr (Inr shards) \<Longrightarrow> en_Verify E shards = (True, None)"
    and join_encoded: "encode E obj = Inr (Inr shards) \<Longrightarrow> en_Join E shards (int (length obj)) = Inr (obj, None)"
    and verify_erased: "encode E obj = Inr (Inr shards) \<Longrightarrow> erased p shards xs \<Longrightarrow> xs \<noteq> shards \<Longrightarrow> \<not> fst (en_Verify E xs)"
    and reconstruct: "encode E obj = Inr (Inr shards) \<Longrightarrow> erased p shards xs \<Longrightarrow> xs \<noteq> shards \<Longrightarrow> en_Reconstruct E xs = Inr shards"
begin

lemma decode_erased:
  assumes "encode E obj = Inr (Inr shards)" and "erased p shards xs"
  shows "\<exists>stats'. decode E xs (int (length obj)) stats = (stats', Inr (Inr (obj, None)), shards)"
proof (cases "xs = shards")
  case True
  then show ?thesis using verify_encoded [OF assms(1)] join_encoded [OF assms(1)] by (simp add: decode_def Let_def)
next
  case False
  then show ?thesis
    using verify_encoded [OF assms(1)] join_encoded [OF assms(1)] verify_erased [OF assms] reconstruct [OF assms]
    by (simp add: decode_def Let_def)
qed

end

section \<open>DummyEncoder keeps the contract\<close>

definition bytes_of :: "shard list \<Rightarrow> bytes" where
  "bytes_of shards = concat (map (\<lambda>s. case s of None \<Rightarrow> [] | Some b \<Rightarrow> b) shards)"

lemma bytes_of_simps [simp]: "bytes_of [] = []" "bytes_of (Some b # s) = b @ bytes_of s" "bytes_of (None # s) = bytes_of s"
  "bytes_of (replicate n None) = []"
  by (simp_all add: bytes_of_def)

lemma length_split_loop: "length (split_loop per n data) = n"
  by (induction per n data rule: split_loop.induct) simp_all

lemma bytes_of_split_loop: "length data \<le> per * n \<Longrightarrow> bytes_of (split_loop per n data) = data"
  by (induction per n data rule: split_loop.induct) (auto simp: append_take_drop_id)

lemma per_shard_enough:
  assumes "0 < d"
  shows "length data \<le> per_shard d data * d"
proof -
  have "length data + d - 1 < (length data + d - 1) div d * d + d"
    using assms by (metis add.commute add_less_cancel_left div_mult_mod_eq mod_less_divisor)
  then show ?thesis by (simp add: per_shard_def)
qed

lemma per_shard_pos: "0 < d \<Longrightarrow> data \<noteq> [] \<Longrightarrow> 0 < per_shard d data"
  by (cases data) (auto simp: per_shard_def div_greater_zero_iff)

text \<open>All shards are filled exactly when the last one still gets a byte.\<close>

lemma split_loop_nonempty:
  assumes "0 < per"
  shows "list_ex (\<lambda>s. shard_len s = 0) (split_loop per n data) \<longleftrightarrow> 0 < n \<and> length data \<le> per * (n - 1)"
  using assms
proof (induction n arbitrary: data)
  case 0
  then show ?case by simp
next
  case (Suc n)
  show ?case
  proof (cases "per \<le> length data")
    case True
    then have e: "split_loop per (Suc n) data = Some (take per data) # split_loop per n (drop per data)" by simp
    have "length data - per \<le> per * (n - 1) \<longleftrightarrow> length data \<le> per * n" if "0 < n"
      using that True by (cases n) auto
    moreover have "\<not> length data \<le> per * n" if "n = 0" using that True Suc.prems by auto
    ultimately show ?thesis
      unfolding e using Suc.IH [OF Suc.prems, of "drop per data"] True Suc.prems by (cases "n = 0") (auto simp del: split_loop.simps(2))
  next
    case False
    have "list_ex (\<lambda>s. shard_len s = 0) (replicate n None) \<longleftrightarrow> 0 < n" by (induction n) simp_all
    moreover have "length data \<le> per * n \<longleftrightarrow> data = [] \<or> 0 < n"
      using False Suc.prems by (cases n) auto
    ultimately show ?thesis using False by simp
  qed
qed

lemma encode_dummy:
  assumes "0 < d" and "obj \<noteq> []"
  shows "encode (DummyEncoder d) obj =
     Inr (if length obj \<le> per_shard d obj * (d - 1) then Inl (Some ErrTooFewShards)
          else Inr (split_loop (per_shard d obj) d obj))"
  using assms split_loop_nonempty [OF per_shard_pos [OF assms], of d obj]
  by (simp add: encode_def DummyEncoder_def dummy_Split_def dummy_Encode_def dummy_Verify_def length_split_loop)

lemma encode_dummyD:
  assumes "encode (DummyEncoder d) obj = Inr (Inr shards)"
  shows "0 < d" "obj \<noteq> []" "shards = split_loop (per_shard d obj) d obj" "\<not> list_ex (\<lambda>s. shard_len s = 0) shards"
proof -
  show d: "0 < d" and o: "obj \<noteq> []"
    using assms by (auto simp: encode_def DummyEncoder_def dummy_Split_def split: if_splits)
  show s: "shards = split_loop (per_shard d obj) d obj"
    using assms encode_dummy [OF d o] by (simp split: if_splits)
  show "\<not> list_ex (\<lambda>s. shard_len s = 0) shards"
    using assms encode_dummy [OF d o] split_loop_nonempty [OF per_shard_pos [OF d o], of d obj] s by (auto split: if_splits)
qed

lemma erased_encoded:
  assumes "encode (DummyEncoder d) obj = Inr (Inr shards)"
  shows "erased 0 shards shards"
proof -
  have n: "x \<noteq> None" if "x \<in> set shards" for x
    using encode_dummyD(4) [OF assms] that by (cases x) (auto simp: list_ex_iff)
  have "filter (\<lambda>x. x = None) shards = []" by (rule filter_False) (use n in blast)
  then show ?thesis by (simp add: erased_def list_all2_same)
qed

lemma join_size_all:
  assumes "\<not> list_ex (\<lambda>s. shard_len s = 0) shards" and "outSize = sz + int (length (bytes_of shards))" and "shards \<noteq> []"
  shows "join_size outSize sz shards = Inr outSize"
  using assms
proof (induction shards arbitrary: sz)
  case Nil
  then show ?case by simp
next
  case (Cons s shards)
  then obtain b where s: "s = Some b" by (cases s) auto
  show ?case
  proof (cases "shards = []")
    case True
    then show ?thesis using Cons.prems s by simp
  next
    case False
    then obtain s' t where "shards = s' # t" by (cases shards) auto
    moreover have "shard_len s' \<noteq> 0" using Cons.prems(1) calculation by simp
    ultimately have "0 < length (bytes_of shards)" by (cases s') auto
    then show ?thesis using Cons False s by simp
  qed
qed

lemma join_write_all: "join_write (int (length (bytes_of shards))) shards = Inr (bytes_of shards)"
proof (induction shards)
  case (Cons s shards)
  then show ?case by (cases s) simp_all
qed simp

lemma erased_none: "erased 0 shards xs \<Longrightarrow> xs = shards"
  unfolding erased_def
  by (rule nth_equalityI) (auto simp: list_all2_conv_all_nth filter_empty_conv all_set_conv_all_nth, metis option.distinct(1))

interpretation dummy: erasure_code "DummyEncoder d" 0
proof unfold_locales
  fix obj shards
  assume e: "encode (DummyEncoder d) obj = Inr (Inr shards)"
  note s = encode_dummyD [OF e]
  have l: "length shards = d" by (simp add: s(3) length_split_loop)
  show "en_Verify (DummyEncoder d) shards = (True, None)"
    using l s(4) by (simp add: DummyEncoder_def dummy_Verify_def)
  have b: "bytes_of shards = obj" unfolding s(3) using bytes_of_split_loop [OF per_shard_enough [OF s(1)]] .
  have "shards \<noteq> []" using l s(1) by auto
  then have "join_size (int (length obj)) 0 shards = Inr (int (length obj))"
    using join_size_all [OF s(4), of "int (length obj)" 0] b by simp
  then show "en_Join (DummyEncoder d) shards (int (length obj)) = Inr (obj, None)"
    using join_write_all [of shards] b l by (simp add: DummyEncoder_def dummy_Join_def)
qed (use erased_none in blast)+

end
