(* ===== verification/EcClient.thy ===== *)
theory EcClient
  imports ErasureCode
begin

text \<open>
  \<open>src/client/client.go\<close> and \<open>src/client/ecRedis.go\<close>: the client library.  A connection is the state of its
  reader and what has been written to it; the network is the record \<open>knet\<close>: the outcome of dialling, what a
  connection holds after the proxy has got the frames written to it, the outcome of \<open>CopyBulk\<close> (0) and
  \<open>Flush\<close> (1), and the ring that maps a key to a proxy (\<open>kl_Ring\<close> are its members; without a ring locating a key panics).
  \<open>kl_MappingTable\<close> are the addresses that have a filter.  The goroutines of a request work on one
  connection and one slot of the result each; here they run one after the other.  \<open>rand.Perm\<close> and the
  request id are arguments; deadlines and statistics other than those of decoding are left out.
\<close>

section \<open>Connections\<close>

record 'r kconn =
  kn_r :: 'r
  kn_w :: "wcall list"

record 'r EcClient =
  kl_Conns :: "string \<Rightarrow> 'r kconn option list"
  kl_closed :: nat
  kl_EC :: encoder
  kl_MappingTable :: "string list"
  kl_Ring :: "string list option"
  kl_Data :: decode_stats
  kl_DataShards :: nat
  kl_ParityShards :: nat
  kl_Shards :: nat

record 'r knet =
  kt_reader :: "'r resp_reader"
  kt_Dial :: "string \<Rightarrow> nat \<Rightarrow> error + 'r"
  kt_peer :: "string \<Rightarrow> nat \<Rightarrow> frame list \<Rightarrow> 'r \<Rightarrow> 'r"
  kt_oc :: "string \<Rightarrow> nat \<Rightarrow> nat \<Rightarrow> error option"
  kt_Locate :: "string \<Rightarrow> string"

definition NewEcClient :: "(nat \<Rightarrow> nat \<Rightarrow> encoder) \<Rightarrow> nat \<Rightarrow> nat \<Rightarrow> 'r EcClient" where
  "NewEcClient rs d p =
     \<lparr>kl_Conns = (\<lambda>_. []), kl_closed = 0, kl_EC = NewEncoder rs d p, kl_MappingTable = [],
      kl_Ring = None, kl_Data = \<lparr>ds_AllGood = False, ds_Corrupted = False\<rparr>,
      kl_DataShards = d, kl_ParityShards = p, kl_Shards = d + p\<rparr>"

text \<open>\<open>getHost\<close> asks the filter of every proxy for the key, in the order \<open>ms\<close> in which the map is visited.\<close>

fun getHost :: "(string \<times> (string \<Rightarrow> bool)) list \<Rightarrow> string \<Rightarrow> string \<times> bool" where
  "getHost [] key = ([], False)"
| "getHost ((addr, lookup) # ms) key = (if lookup key then (addr, True) else getHost ms key)"

lemma getHost_found:
  "if snd (getHost ms key) then \<exists>lookup. (fst (getHost ms key), lookup) \<in> set ms \<and> lookup key
   else \<forall>(addr, lookup) \<in> set ms. \<not> lookup key"
proof (induction ms)
  case (Cons x ms)
  then show ?case by (cases x) auto
qed simp

definition get_conn :: "'r EcClient \<Rightarrow> string \<Rightarrow> nat \<Rightarrow> 'r kconn option res" where
  "get_conn c addr i = index (kl_Conns c addr) (int i)"

definition put_conn :: "string \<Rightarrow> nat \<Rightarrow> 'r kconn option \<Rightarrow> 'r EcClient \<Rightarrow> 'r EcClient res" where
  "put_conn addr i cn c =
     bindR (assign (kl_Conns c addr) (int i) cn) (\<lambda>cs. Inr (c\<lparr>kl_Conns := (kl_Conns c)(addr := cs)\<rparr>))"

definition connect :: "'r knet \<Rightarrow> string \<Rightarrow> nat \<Rightarrow> 'r EcClient \<Rightarrow> (error option \<times> 'r EcClient) res" where
  "connect N addr i c =
     (case kt_Dial N addr i of
        Inl e \<Rightarrow> Inr (Some e, c)
      | Inr r \<Rightarrow> bindR (put_conn addr i (Some \<lparr>kn_r = r, kn_w = []\<rparr>) c) (\<lambda>c. Inr (None, c)))"

definition disconnect :: "string \<Rightarrow> nat \<Rightarrow> 'r EcClient \<Rightarrow> 'r EcClient res" where
  "disconnect addr i c =
     bindR (get_conn c addr i) (\<lambda>cn.
       case cn of None \<Rightarrow> Inr c | Some _ \<Rightarrow> put_conn addr i None (c\<lparr>kl_closed := Suc (kl_closed c)\<rparr>))"

definition validate_conn :: "'r knet \<Rightarrow> string \<Rightarrow> nat \<Rightarrow> 'r EcClient \<Rightarrow> (error option \<times> 'r EcClient) res" where
  "validate_conn N addr i c =
     bindR (get_conn c addr i) (\<lambda>cn. case cn of None \<Rightarrow> connect N addr i c | Some _ \<Rightarrow> Inr (None, c))"

fun dial_loop :: "'r knet \<Rightarrow> string \<Rightarrow> nat list \<Rightarrow> 'r EcClient \<Rightarrow> (error option \<times> 'r EcClient) res" where
  "dial_loop N addr [] c = Inr (None, c)"
| "dial_loop N addr (i # is) c =
     bindR (connect N addr i c) (\<lambda>(err, c). case err of Some e \<Rightarrow> Inr (Some e, c) | None \<Rightarrow> dial_loop N addr is c)"

definition initDial :: "'r knet \<Rightarrow> string \<Rightarrow> 'r EcClient \<Rightarrow> (error option \<times> 'r EcClient) res" where
  "initDial N addr c =
     bindR (dial_loop N addr [0..<kl_Shards c] (c\<lparr>kl_Conns := (kl_Conns c)(addr := replicate (kl_Shards c) None)\<rparr>)) (\<lambda>(err, c).
       case err of Some e \<Rightarrow> Inr (Some e, c) | None \<Rightarrow> Inr (None, c\<lparr>kl_MappingTable := List.insert addr (kl_MappingTable c)\<rparr>))"

fun close_conns :: "string \<Rightarrow> nat list \<Rightarrow> 'r EcClient \<Rightarrow> 'r EcClient res" where
  "close_conns addr [] c = Inr c"
| "close_conns addr (i # is) c = bindR (disconnect addr i c) (close_conns addr is)"

text \<open>\<open>addrs\<close>: the addresses in \<open>Conns\<close>, in the order \<open>range\<close> visits them.\<close>

fun Close_EcClient :: "string list \<Rightarrow> 'r EcClient \<Rightarrow> 'r EcClient res" where
  "Close_EcClient [] c = Inr c"
| "Close_EcClient (a # addrs) c = bindR (close_conns a [0..<length (kl_Conns c a)] c) (Close_EcClient addrs)"

fun dial_all :: "'r knet \<Rightarrow> string list \<Rightarrow> string list \<Rightarrow> 'r EcClient \<Rightarrow> (bool \<times> 'r EcClient) res" where
  "dial_all N dialed [] c = Inr (True, c)"
| "dial_all N dialed (a # addrs) c =
     bindR (initDial N a c) (\<lambda>(err, c).
       case err of
         Some _ \<Rightarrow> bindR (Close_EcClient (dialed @ [a]) c) (\<lambda>c. Inr (False, c))
       | None \<Rightarrow> dial_all N (dialed @ [a]) addrs c)"

definition Dial :: "'r knet \<Rightarrow> string list \<Rightarrow> 'r EcClient \<Rightarrow> (bool \<times> 'r EcClient) res" where
  "Dial N addrArr c = dial_all N [] addrArr (c\<lparr>kl_Ring := Some addrArr\<rparr>)"

text \<open>After a successful \<open>Dial\<close> there is a ring, and all connections to every address are open.\<close>

definition connected :: "'r EcClient \<Rightarrow> string \<Rightarrow> bool" where
  "connected c a \<longleftrightarrow> length (kl_Conns c a) = kl_Shards c \<and> None \<notin> set (kl_Conns c a)"

definition same_setup :: "'r EcClient \<Rightarrow> 'r EcClient \<Rightarrow> bool" where
  "same_setup c c' \<longleftrightarrow> kl_Ring c' = kl_Ring c \<and> kl_EC c' = kl_EC c \<and> kl_Shards c' = kl_Shards c"

lemma dial_loop_connects:
  assumes "dial_loop N addr is c = Inr (None, c')" and "\<forall>i < length (kl_Conns c addr). i \<in> set is \<or> kl_Conns c addr ! i \<noteq> None"
  shows "same_setup c c' \<and> (\<forall>a. a \<noteq> addr \<longrightarrow> kl_Conns c' a = kl_Conns c a) \<and>
     length (kl_Conns c' addr) = length (kl_Conns c addr) \<and> None \<notin> set (kl_Conns c' addr)"
  using assms
proof (induction "is" arbitrary: c)
  case Nil
  then show ?case by (auto simp: same_setup_def in_set_conv_nth)
next
  case (Cons i "is")
  obtain r where r: "kt_Dial N addr i = Inr r"
    using Cons.prems(1) by (cases "kt_Dial N addr i") (simp_all add: connect_def)
  let ?c = "c\<lparr>kl_Conns := (kl_Conns c)(addr := (kl_Conns c addr)[i := Some \<lparr>kn_r = r, kn_w = []\<rparr>])\<rparr>"
  have "i < length (kl_Conns c addr)" and d: "dial_loop N addr is ?c = Inr (None, c')"
    using Cons.prems(1) r by (auto simp: connect_def put_conn_def go_simps split: if_splits)
  then have "\<forall>j < length (kl_Conns ?c addr). j \<in> set is \<or> kl_Conns ?c addr ! j \<noteq> None"
    using Cons.prems(2) by (auto simp: nth_list_update)
  from Cons.IH [OF d this] show ?case by (simp add: same_setup_def)
qed

lemma initDial_connects:
  assumes "initDial N a c = Inr (None, c')"
  shows "same_setup c c'" "connected c' a" "b \<noteq> a \<Longrightarrow> kl_Conns c' b = kl_Conns c b"
proof -
  let ?c = "c\<lparr>kl_Conns := (kl_Conns c)(a := replicate (kl_Shards c) None)\<rparr>"
  obtain c1 where c1: "dial_loop N a [0..<kl_Shards c] ?c = Inr (None, c1)" "c' = c1\<lparr>kl_MappingTable := List.insert a (kl_MappingTable c1)\<rparr>"
    using assms by (auto simp: initDial_def go_simps split: option.splits)
  have "same_setup ?c c1 \<and> (\<forall>b. b \<noteq> a \<longrightarrow> kl_Conns c1 b = kl_Conns ?c b) \<and>
      length (kl_Conns c1 a) = length (kl_Conns ?c a) \<and> None \<notin> set (kl_Conns c1 a)"
    by (rule dial_loop_connects [OF c1(1)]) simp
  then show "same_setup c c'" "connected c' a" "b \<noteq> a \<Longrightarrow> kl_Conns c' b = kl_Conns c b"
    using c1(2) by (auto simp: same_setup_def connected_def)
qed

lemma dial_all_connects:
  assumes "dial_all N ds addrs c = Inr (True, c')"
  shows "same_setup c c' \<and> (\<forall>a \<in> set addrs. connected c' a) \<and> (\<forall>a. a \<notin> set addrs \<longrightarrow> kl_Conns c' a = kl_Conns c a)"
  using assms
proof (induction addrs arbitrary: ds c)
  case Nil
  then show ?case by (simp add: same_setup_def)
next
  case (Cons a addrs)
  obtain c1 where c1: "initDial N a c = Inr (None, c1)" "dial_all N (ds @ [a]) addrs c1 = Inr (True, c')"
    using Cons.prems by (auto simp: go_simps split: option.splits)
  note i = initDial_connects [OF c1(1)] and h = Cons.IH [OF c1(2)]
  have "connected c' a" using i h by (cases "a \<in> set addrs") (auto simp: connected_def same_setup_def)
  then show ?case using i(1,3) h by (auto simp: same_setup_def)
qed

lemma Dial_connects:
  assumes "Dial N addrs c = Inr (True, c')"
  shows "kl_Ring c' = Some addrs" "kl_EC c' = kl_EC c" "kl_Shards c' = kl_Shards c" "a \<in> set addrs \<Longrightarrow> connected c' a"
  using dial_all_connects [of N "[]" addrs "c\<lparr>kl_Ring := Some addrs\<rparr>" c'] assms by (auto simp: Dial_def same_setup_def)

section \<open>Results\<close>

record ecRet =
  er_Rets :: "(error + bytes) option list"
  er_Err :: "error option"

definition newEcRet :: "nat \<Rightarrow> ecRet" where
  "newEcRet n = \<lparr>er_Rets = replicate n None, er_Err = None\<rparr>"

definition er_Set :: "nat \<Rightarrow> bytes \<Rightarrow> ecRet \<Rightarrow> ecRet res" where
  "er_Set i v r = bindR (assign (er_Rets r) (int i) (Some (Inr v))) (\<lambda>xs. Inr (r\<lparr>er_Rets := xs\<rparr>))"

definition er_SetError :: "nat \<Rightarrow> error \<Rightarrow> ecRet \<Rightarrow> ecRet res" where
  "er_SetError i e r = bindR (assign (er_Rets r) (int i) (Some (Inl e))) (\<lambda>xs. Inr (r\<lparr>er_Rets := xs, er_Err := Some e\<rparr>))"

fun er_Ret :: "(error + bytes) option \<Rightarrow> bytes option" where
  "er_Ret (Some (Inr v)) = Some v" | "er_Ret _ = None"

fun er_Error :: "(error + bytes) option \<Rightarrow> error option" where
  "er_Error (Some (Inl e)) = Some e" | "er_Error _ = None"

type_synonym 'r running = "'r EcClient \<times> ecRet"

definition setError :: "string \<Rightarrow> nat \<Rightarrow> error \<Rightarrow> 'r running \<Rightarrow> 'r running res" where
  "setError addr i err = (\<lambda>(c, ret).
     bindR (if err = ErrEOF \<or> err = ErrTimeout then disconnect addr i c else Inr c) (\<lambda>c.
     bindR (er_SetError i err ret) (\<lambda>ret. Inr (c, ret))))"

section \<open>One chunk\<close>

definition ErrUnexpectedResponse :: error where "ErrUnexpectedResponse = ErrOther ''Unexpected response''"

text \<open>Reads of \<open>rec\<close>; the result is what becomes of slot \<open>i\<close>: an error set with \<open>setError\<close> (flag) or \<open>SetError\<close>.\<close>

datatype received = RcvError error | RcvUnexpected | RcvLate | RcvValue bytes

definition rec_read :: "'r resp_reader \<Rightarrow> string \<Rightarrow> 'r \<Rightarrow> received \<times> 'r" where
  "rec_read R reqId r0 =
     (case rd_PeekType R r0 of
        (Inl e, r) \<Rightarrow> (RcvError e, r)
      | (Inr TypeError, r) \<Rightarrow>
          (case rd_ReadError R r of (Inl e, r) \<Rightarrow> (RcvError e, r) | (Inr str, r) \<Rightarrow> (RcvError (ErrOther str), r))
      | (Inr _, r) \<Rightarrow>
          (case rd_ReadBulkString R r of
             (Inl e, r) \<Rightarrow> (RcvError e, r)
           | (Inr respId, r) \<Rightarrow>
               if respId \<noteq> reqId then (RcvUnexpected, snd (rd_SkipBulk R (snd (rd_ReadBulkString R r))))
               else
                 (case rd_ReadBulkString R r of
                    (Inl e, r) \<Rightarrow> (RcvError e, r)
                  | (Inr chunkId, r) \<Rightarrow>
                      if chunkId = ''-1'' then (RcvLate, r)
                      else
                        (case rd_StreamBulk R r of
                           (Inl e, r) \<Rightarrow> (RcvError e, r)
                         | (Inr st, r) \<Rightarrow>
                             (case st_ReadAll st of Inl e \<Rightarrow> (RcvError e, r) | Inr v \<Rightarrow> (RcvValue v, r))))))"

definition cl_rec :: "'r knet \<Rightarrow> string \<Rightarrow> nat \<Rightarrow> string \<Rightarrow> 'r running \<Rightarrow> 'r running res" where
  "cl_rec N addr i reqId = (\<lambda>(c, ret).
     bindR (get_conn c addr i) (\<lambda>cn.
       case cn of
         None \<Rightarrow> Inl NilDereference
       | Some cn \<Rightarrow>
           let (x, r) = rec_read (kt_reader N) reqId (kn_r cn)
           in bindR (put_conn addr i (Some (cn\<lparr>kn_r := r\<rparr>)) c) (\<lambda>c.
                case x of
                  RcvError e \<Rightarrow> setError addr i e (c, ret)
                | RcvUnexpected \<Rightarrow> bindR (er_SetError i ErrUnexpectedResponse ret) (\<lambda>ret. Inr (c, ret))
                | RcvLate \<Rightarrow> Inr (c, ret)
                | RcvValue v \<Rightarrow> bindR (er_Set i v ret) (\<lambda>ret. Inr (c, ret)))))"

text \<open>Writing the calls \<open>ws\<close>, of which the k-th that can fail has the outcome \<open>kt_oc N addr i k\<close>.\<close>

definition kn_send :: "'r knet \<Rightarrow> string \<Rightarrow> nat \<Rightarrow> wcall list \<Rightarrow> 'r EcClient \<Rightarrow> 'r EcClient res" where
  "kn_send N addr i ws c =
     bindR (get_conn c addr i) (\<lambda>cn.
       case cn of
         None \<Rightarrow> Inl NilDereference
       | Some cn \<Rightarrow> put_conn addr i (Some \<lparr>kn_r = kt_peer N addr i (frames ws) (kn_r cn), kn_w = kn_w cn @ ws\<rparr>) c)"

definition set_calls :: "nat \<Rightarrow> string \<Rightarrow> bytes \<Rightarrow> nat \<Rightarrow> nat \<Rightarrow> string \<Rightarrow> 'r EcClient \<Rightarrow> wcall list" where
  "set_calls MaxLambdaStores key val i lambdaId reqId c =
     WriteMultiBulkSize 9 #
     map WriteBulkString [''set'', key, itoa (int i), itoa (int lambdaId), itoa (int MaxLambdaStores), reqId,
       itoa (int (kl_DataShards c)), itoa (int (kl_ParityShards c))] @ [CopyBulk (NewInlineReader val)]"

definition cl_set :: "'r knet \<Rightarrow> nat \<Rightarrow> string \<Rightarrow> string \<Rightarrow> bytes \<Rightarrow> nat \<Rightarrow> nat \<Rightarrow> string \<Rightarrow> 'r running \<Rightarrow> 'r running res" where
  "cl_set N MaxLambdaStores addr key val i lambdaId reqId = (\<lambda>(c, ret).
     bindR (validate_conn N addr i c) (\<lambda>(err, c).
       case err of
         Some e \<Rightarrow> setError addr i e (c, ret)
       | None \<Rightarrow>
           let ws = set_calls MaxLambdaStores key val i lambdaId reqId c
           in (case kt_oc N addr i 0 of
                 Some e \<Rightarrow> bindR (kn_send N addr i ws c) (\<lambda>c. setError addr i e (c, ret))
               | None \<Rightarrow>
                   bindR (kn_send N addr i (ws @ [Flush]) c) (\<lambda>c.
                     case kt_oc N addr i 1 of
                       Some e \<Rightarrow> setError addr i e (c, ret)
                     | None \<Rightarrow> cl_rec N addr i reqId (c, ret)))))"

definition get_calls :: "string \<Rightarrow> nat \<Rightarrow> string \<Rightarrow> 'r EcClient \<Rightarrow> wcall list" where
  "get_calls key i reqId c =
     [WriteCmdString [''get'', key, itoa (int i), reqId, itoa (int (kl_DataShards c)), itoa (int (kl_ParityShards c))], Flush]"

definition cl_get :: "'r knet \<Rightarrow> string \<Rightarrow> string \<Rightarrow> nat \<Rightarrow> string \<Rightarrow> 'r running \<Rightarrow> 'r running res" where
  "cl_get N addr key i reqId = (\<lambda>(c, ret).
     bindR (validate_conn N addr i c) (\<lambda>(err, c).
       case err of
         Some e \<Rightarrow> setError addr i e (c, ret)
       | None \<Rightarrow>
           bindR (kn_send N addr i (get_calls key i reqId c) c) (\<lambda>c.
             case kt_oc N addr i 1 of
               Some e \<Rightarrow> setError addr i e (c, ret)
             | None \<Rightarrow> cl_rec N addr i reqId (c, ret))))"

section \<open>Objects\<close>

fun set_all :: "'r knet \<Rightarrow> nat \<Rightarrow> string \<Rightarrow> string \<Rightarrow> shard list \<Rightarrow> (nat \<Rightarrow> nat) \<Rightarrow> string \<Rightarrow> nat list \<Rightarrow> 'r running \<Rightarrow> 'r running res" where
  "set_all N mx host key shards lambda reqId [] cr = Inr cr"
| "set_all N mx host key shards lambda reqId (i # is) cr =
     bindR (index shards (int i)) (\<lambda>s.
     bindR (cl_set N mx host key (case s of None \<Rightarrow> [] | Some b \<Rightarrow> b) i (lambda i) reqId cr)
       (set_all N mx host key shards lambda reqId is))"

fun get_all :: "'r knet \<Rightarrow> string \<Rightarrow> string \<Rightarrow> string \<Rightarrow> nat list \<Rightarrow> 'r running \<Rightarrow> 'r running res" where
  "get_all N host key reqId [] cr = Inr cr"
| "get_all N host key reqId (i # is) cr = bindR (cl_get N host key i reqId cr) (get_all N host key reqId is)"

definition random :: "(nat \<Rightarrow> nat list) \<Rightarrow> nat \<Rightarrow> nat \<Rightarrow> nat list res" where
  "random Perm cluster n = (if length (Perm cluster) < n then Inl SliceOutOfRange else Inr (take n (Perm cluster)))"

text \<open>The values read back into \<open>placements\<close>; a slot without a byte string panics.\<close>

fun placed :: "(error + bytes) option list \<Rightarrow> int list res" where
  "placed [] = Inr []"
| "placed (Some (Inr v) # xs) = bindR (placed xs) (\<lambda>ps. Inr (Atoi_value v # ps))"
| "placed (_ # xs) = Inl FailedTypeAssertion"

text \<open>\<open>placements\<close> is \<open>None\<close> when not given or too short; the result is the flag and the placements written.\<close>

definition EcSet :: "'r knet \<Rightarrow> (nat \<Rightarrow> nat list) \<Rightarrow> nat \<Rightarrow> string \<Rightarrow> nat \<Rightarrow> int list option \<Rightarrow> string \<Rightarrow> bytes \<Rightarrow> 'r EcClient
    \<Rightarrow> ((bool \<times> int list option) \<times> 'r EcClient) res" where
  "EcSet N Perm MaxLambdaStores reqId dryrun placements0 key val c =
     (let placements = (case placements0 of Some ps \<Rightarrow> if kl_Shards c \<le> length ps then Some ps else None | None \<Rightarrow> None);
          numClusters = (if 0 < dryrun then dryrun else MaxLambdaStores)
      in bindR (random Perm numClusters (kl_Shards c)) (\<lambda>idx.
           if 0 < dryrun \<and> placements \<noteq> None
           then Inr ((True, map_option (\<lambda>ps. map int idx @ drop (length idx) ps) placements), c)
           else if kl_Ring c = None then Inl NilDereference
           else
             bindR (encode (kl_EC c) val) (\<lambda>r.
               case r of
                 Inl (Some _) \<Rightarrow> Inr ((False, placements), c)
               | Inl None \<Rightarrow> if kl_Shards c = 0 then Inr ((True, placements), c) else Inl IndexOutOfRange
               | Inr shards \<Rightarrow>
                   bindR (set_all N MaxLambdaStores (kt_Locate N key) key shards (\<lambda>i. idx ! i) reqId [0..<kl_Shards c]
                            (c, newEcRet (kl_Shards c))) (\<lambda>(c, ret).
                     if er_Err ret \<noteq> None then Inr ((False, placements), c)
                     else (case placements of
                             None \<Rightarrow> Inr ((True, None), c)
                           | Some ps \<Rightarrow>
                               bindR (placed (er_Rets ret)) (\<lambda>qs. Inr ((True, Some (qs @ drop (length qs) ps)), c)))))))"

definition recover :: "'r knet \<Rightarrow> nat \<Rightarrow> string \<Rightarrow> string \<Rightarrow> string \<Rightarrow> shard list \<Rightarrow> nat list \<Rightarrow> 'r EcClient \<Rightarrow> 'r running res" where
  "recover N MaxLambdaStores addr key reqId shards failed c =
     set_all N MaxLambdaStores addr key shards (\<lambda>_. 0) reqId failed (c, newEcRet (kl_Shards c))"

text \<open>The result: what the reader returned by \<open>EcGet\<close> delivers (\<open>None\<close> is nil) and the flag.\<close>

definition EcGet :: "'r knet \<Rightarrow> nat \<Rightarrow> string \<Rightarrow> string \<Rightarrow> nat \<Rightarrow> string \<Rightarrow> int \<Rightarrow> 'r EcClient
    \<Rightarrow> (((bytes \<times> error option) res option \<times> bool) \<times> 'r EcClient) res" where
  "EcGet N MaxLambdaStores reqId reqId' dryrun key sz c =
     (if 0 < dryrun then Inr ((None, True), c)
      else if kl_Ring c = None then Inl NilDereference
      else
        bindR (get_all N (kt_Locate N key) key reqId [0..<kl_Shards c] (c, newEcRet (kl_Shards c))) (\<lambda>(c, ret).
          let failed = filter (\<lambda>i. er_Error (er_Rets ret ! i) \<noteq> None) [0..<length (er_Rets ret)];
              chunks = map er_Ret (er_Rets ret);
              (stats, r, data) = decode (kl_EC c) chunks sz (kl_Data c);
              c = c\<lparr>kl_Data := stats\<rparr>
          in case r of
               Inl None \<Rightarrow> bindR (if failed = [] then Inr (c, newEcRet 0)
                                  else recover N MaxLambdaStores (kt_Locate N key) key reqId' data failed c)
                             (\<lambda>(c, _). Inr ((None, True), c))
             | Inl (Some _) \<Rightarrow> Inr ((None, False), c)
             | Inr j \<Rightarrow> bindR (if failed = [] then Inr (c, newEcRet 0)
                               else recover N MaxLambdaStores (kt_Locate N key) key reqId' data failed c)
                          (\<lambda>(c, _). Inr ((Some j, True), c))))"

section \<open>The example program\<close>

text \<open>
  \<open>src/client/example/main.go\<close>: the result is the message of \<open>log.Fatal\<close>, if any.  The result of \<open>Dial\<close> is dropped, and a
  reader is closed that is nil when \<open>decode\<close> returns neither data nor an error.
\<close>

definition example_main ::
    "'r knet \<Rightarrow> (nat \<Rightarrow> nat \<Rightarrow> encoder) \<Rightarrow> (nat \<Rightarrow> nat list) \<Rightarrow> nat \<Rightarrow> (nat \<Rightarrow> string) \<Rightarrow> bytes \<Rightarrow> string option res" where
  "example_main N rs Perm mx uuid val =
     bindR (Dial N [''127.0.0.1:6378''] (NewEcClient rs 10 2)) (\<lambda>(_, c1).
     bindR (EcSet N Perm mx (uuid 0) 0 None ''foo'' val c1) (\<lambda>((ok, _), c2).
       if \<not> ok then Inr (Some ''Failed to set'')
       else
         bindR (EcGet N mx (uuid 1) (uuid 2) 0 ''foo'' 1024 c2) (\<lambda>((reader, ok), c3).
           if \<not> ok then Inr (Some ''Failed to get'')
           else (case reader of None \<Rightarrow> Inl NilDereference | Some _ \<Rightarrow> Inr None))))"

section \<open>Reading an object\<close>

text \<open>The answer of the proxy for one chunk: the chunk, or nothing when enough others came first.\<close>

definition chunk_answer :: "string \<Rightarrow> nat \<Rightarrow> shard \<Rightarrow> frame list" where
  "chunk_answer reqId i x =
     (case x of None \<Rightarrow> [FBulk reqId, FBulk ''-1''] | Some b \<Rightarrow> [FBulk reqId, FBulk (itoa (int i)), FBulk b])"

lemma rec_read_answer:
  assumes R: "reader_ok R fr" and fr: "fr r = chunk_answer reqId i x @ rest"
  shows "\<exists>r'. rec_read R reqId r = (case x of None \<Rightarrow> RcvLate | Some b \<Rightarrow> RcvValue b, r') \<and> fr r' = rest"
proof -
  define y where "y = (case x of None \<Rightarrow> ''-1'' | Some b \<Rightarrow> itoa (int i))"
  define tl where "tl = (case x of None \<Rightarrow> rest | Some b \<Rightarrow> FBulk b # rest)"
  have fr': "fr r = FBulk reqId # FBulk y # tl" using fr by (auto simp: chunk_answer_def y_def tl_def split: option.splits)
  obtain r0 where 0: "rd_PeekType R r = (Inr TypeBulk, r0)" "fr r0 = FBulk reqId # FBulk y # tl"
    using reader_okD(1) [OF R fr'] fr' by auto
  obtain r1 where 1: "rd_ReadBulkString R r0 = (Inr reqId, r1)" "fr r1 = FBulk y # tl"
    using reads_step [OF reader_okD(3) [OF R] 0(2), of reqId] by auto
  obtain r2 where 2: "rd_ReadBulkString R r1 = (Inr y, r2)" "fr r2 = tl"
    using reads_step [OF reader_okD(3) [OF R] 1(2), of y] by auto
  show ?thesis
  proof (cases x)
    case None
    then show ?thesis using 0 1 2 by (simp add: rec_read_def y_def tl_def)
  next
    case (Some b)
    have "itoa (int i) \<noteq> ''-1''" using hd_itoa_nat [of i] by (auto simp: itoa_def)
    moreover obtain r3 where "rd_StreamBulk R r2 = (Inr (NewInlineReader b), r3)" "fr r3 = rest"
      using reads_step [OF reader_okD(8) [OF R], of r2 "FBulk b" rest "NewInlineReader b"] 2(2) Some by (auto simp: tl_def)
    ultimately show ?thesis using 0 1 2 Some by (simp add: rec_read_def y_def NewInlineReader_def)
  qed
qed

text \<open>A client whose connections to \<open>host\<close> are open and on which the proxy will answer the chunks \<open>xs\<close>.\<close>

definition will_answer :: "'r knet \<Rightarrow> ('r \<Rightarrow> frame list) \<Rightarrow> string \<Rightarrow> string \<Rightarrow> string \<Rightarrow> shard list \<Rightarrow> 'r EcClient \<Rightarrow> nat \<Rightarrow> bool" where
  "will_answer N fr host key reqId xs c i \<longleftrightarrow>
     i < length (kl_Conns c host) \<and> kt_oc N host i 1 = None \<and>
     (\<exists>cn rest. kl_Conns c host ! i = Some cn \<and>
        fr (kt_peer N host i (frames (get_calls key i reqId c)) (kn_r cn)) = chunk_answer reqId i (xs ! i) @ rest)"

lemma cl_get_answer:
  assumes R: "reader_ok (kt_reader N) fr" and w: "will_answer N fr host key reqId xs c i" and l: "i < length (er_Rets ret)"
    and "er_Rets ret ! i = None"
  shows "\<exists>cs. cl_get N host key i reqId (c, ret) =
       Inr (c\<lparr>kl_Conns := (kl_Conns c)(host := cs)\<rparr>, ret\<lparr>er_Rets := (er_Rets ret)[i := map_option Inr (xs ! i)]\<rparr>) \<and>
     length cs = length (kl_Conns c host) \<and> (\<forall>j. j \<noteq> i \<longrightarrow> cs ! j = kl_Conns c host ! j)"
proof -
  obtain cn rest where cn: "i < length (kl_Conns c host)" "kt_oc N host i 1 = None" "kl_Conns c host ! i = Some cn"
      and fr: "fr (kt_peer N host i (frames (get_calls key i reqId c)) (kn_r cn)) = chunk_answer reqId i (xs ! i) @ rest"
    using w by (auto simp: will_answer_def)
  let ?ws = "get_calls key i reqId c"
  obtain r' where r': "rec_read (kt_reader N) reqId (kt_peer N host i (frames ?ws) (kn_r cn)) =
      (case xs ! i of None \<Rightarrow> RcvLate | Some b \<Rightarrow> RcvValue b, r')"
    using rec_read_answer [OF R fr] by blast
  let ?cn = "\<lparr>kn_r = kt_peer N host i (frames ?ws) (kn_r cn), kn_w = kn_w cn @ ?ws\<rparr>"
  have "ret\<lparr>er_Rets := (er_Rets ret)[i := None]\<rparr> = ret" if "xs ! i = None" using assms(4) list_update_id [of "er_Rets ret" i] by simp
  then show ?thesis
    using cn r' l
    by (intro exI [of _ "(kl_Conns c host)[i := Some (?cn\<lparr>kn_r := r'\<rparr>)]"])
       (auto simp: cl_get_def validate_conn_def get_conn_def kn_send_def put_conn_def cl_rec_def er_Set_def split: option.splits)
qed

lemma get_calls_conns: "get_calls key i reqId (c\<lparr>kl_Conns := f\<rparr>) = get_calls key i reqId c"
  by (simp add: get_calls_def)

lemma get_all_answers:
  assumes R: "reader_ok (kt_reader N) fr" and "distinct is" and "\<forall>i \<in> set is. will_answer N fr host key reqId xs c i"
    and "\<forall>i \<in> set is. i < length (er_Rets ret) \<and> er_Rets ret ! i = None"
  shows "\<exists>cs ret'. get_all N host key reqId is (c, ret) = Inr (c\<lparr>kl_Conns := (kl_Conns c)(host := cs)\<rparr>, ret') \<and>
     er_Err ret' = er_Err ret \<and> length (er_Rets ret') = length (er_Rets ret) \<and>
     (\<forall>j < length (er_Rets ret). er_Rets ret' ! j = (if j \<in> set is then map_option Inr (xs ! j) else er_Rets ret ! j))"
  using assms(2-)
proof (induction "is" arbitrary: c ret)
  case Nil
  have "c = c\<lparr>kl_Conns := (kl_Conns c)(host := kl_Conns c host)\<rparr>" by simp
  then show ?case by (metis get_all.simps(1) list.set(1) empty_iff)
next
  case (Cons i "is")
  obtain cs where g: "cl_get N host key i reqId (c, ret) =
       Inr (c\<lparr>kl_Conns := (kl_Conns c)(host := cs)\<rparr>, ret\<lparr>er_Rets := (er_Rets ret)[i := map_option Inr (xs ! i)]\<rparr>)"
     "length cs = length (kl_Conns c host)" "\<forall>j. j \<noteq> i \<longrightarrow> cs ! j = kl_Conns c host ! j"
    using cl_get_answer [OF R, of host key reqId xs c i ret] Cons.prems by auto
  let ?c = "c\<lparr>kl_Conns := (kl_Conns c)(host := cs)\<rparr>" and ?ret = "ret\<lparr>er_Rets := (er_Rets ret)[i := map_option Inr (xs ! i)]\<rparr>"
  have ni: "\<forall>j \<in> set is. j \<noteq> i" using Cons.prems(1) by auto
  have "\<forall>j \<in> set is. will_answer N fr host key reqId xs ?c j"
    using Cons.prems(2) g(2,3) ni by (auto simp: will_answer_def get_calls_conns)
  moreover have "\<forall>j \<in> set is. j < length (er_Rets ?ret) \<and> er_Rets ?ret ! j = None"
    using Cons.prems(3) ni by auto
  ultimately obtain cs' ret' where "get_all N host key reqId is (?c, ?ret) = Inr (?c\<lparr>kl_Conns := (kl_Conns ?c)(host := cs')\<rparr>, ret')"
     "er_Err ret' = er_Err ret" "length (er_Rets ret') = length (er_Rets ret)"
     "\<forall>j < length (er_Rets ret). er_Rets ret' ! j = (if j \<in> set is then map_option Inr (xs ! j) else er_Rets ?ret ! j)"
    using Cons.IH [of ?c ?ret] Cons.prems(1) by (auto simp del: fun_upd_apply)
  then show ?case using g(1) Cons.prems(3)
    by (intro exI [of _ cs'] exI [of _ ret']) (auto simp: nth_list_update simp del: fun_upd_apply)
qed

lemma er_Ret_Inr [simp]: "er_Ret (map_option Inr x) = x" "er_Error (map_option Inr x) = None"
  by (cases x; simp)+

context erasure_code
begin

lemma EcGet_decodes:
  assumes R: "reader_ok (kt_reader N) fr" and "kl_EC c = E" and "encode E obj = Inr (Inr shards)" and "erased p shards xs"
    and "kl_Shards c = length shards" and "\<forall>i < length shards. will_answer N fr (kt_Locate N key) key reqId xs c i"
    and "kl_Ring c \<noteq> None"
  shows "\<exists>c'. EcGet N mx reqId reqId' 0 key (int (length obj)) c = Inr ((Some (Inr (obj, None)), True), c')"
proof -
  let ?n = "length shards" and ?ret = "newEcRet (length shards)"
  have l: "length xs = ?n" using assms(4) by (auto simp: erased_def list_all2_lengthD)
  obtain cs ret where g: "get_all N (kt_Locate N key) key reqId [0..<?n] (c, ?ret) =
        Inr (c\<lparr>kl_Conns := (kl_Conns c)(kt_Locate N key := cs)\<rparr>, ret)"
      "length (er_Rets ret) = ?n" "\<forall>j < ?n. er_Rets ret ! j = map_option Inr (xs ! j)"
    using get_all_answers [OF R, of "[0..<?n]" "kt_Locate N key" key reqId xs c ?ret] assms(6) by (auto simp: newEcRet_def)
  have ch: "map er_Ret (er_Rets ret) = xs" using g(2,3) l by (intro nth_equalityI) auto
  have fl: "filter (\<lambda>i. \<exists>y. er_Error (er_Rets ret ! i) = Some y) [0..<length (er_Rets ret)] = []"
    using g(2,3) by (auto simp: filter_empty_conv)
  obtain st where d: "decode E xs (int (length obj)) (kl_Data c) = (st, Inr (Inr (obj, None)), shards)"
    using decode_erased [OF assms(3,4)] by blast
  show ?thesis
    using assms(7) by (simp add: EcGet_def assms(2,5) g(1) ch fl d Let_def)
qed

end

end
