(* ===== verification/ObjectMeta.thy ===== *)
theory ObjectMeta
  imports GroupSlice
begin

text \<open>
  \<open>src/proxy/server/meta.go\<close> and the \<open>PlacerMeta\<close> part of \<open>src/proxy/server/placer.go\<close>: the
  metadata of an object and its placement.  A Go slice is its visible elements and its capacity;
  \<open>None\<close> is the nil slice.  Metadata objects live in a heap and are named by addresses
  (\<open>Placer\<close>), so \<open>PlacerMeta.evicts\<close> is an address.  Mutexes are not modelled: every operation
  below runs under the locks the code takes (see \<open>Placer\<close>).
\<close>

type_synonym addr = nat

section \<open>Placements\<close>

record goslice =
  elems :: "int list"
  s_cap :: nat

type_synonym Placement = "goslice option"

definition pl_elems :: "Placement \<Rightarrow> int list" where
  "pl_elems p = (case p of None \<Rightarrow> [] | Some s \<Rightarrow> elems s)"

definition pl_update :: "Placement \<Rightarrow> int \<Rightarrow> int \<Rightarrow> Placement res" where
  "pl_update p i v = bindR (assign (pl_elems p) i v) (\<lambda>xs. Inr (map_option (\<lambda>s. s\<lparr>elems := xs\<rparr>) p))"

definition emptyPlacement_len :: int where
  "emptyPlacement_len = 100"

definition make_placement :: "int \<Rightarrow> Placement res" where
  "make_placement sz =
     (if sz < 0 then Inl SliceOutOfRange
      else Inr (Some \<lparr>elems = replicate (nat sz) 0, s_cap = nat sz\<rparr>))"

definition initPlacement :: "Placement \<Rightarrow> int \<Rightarrow> Placement res" where
  "initPlacement p sz =
     (case p of
        None \<Rightarrow> if sz = 0 then Inr None else make_placement sz
      | Some s \<Rightarrow>
          if int (s_cap s) < sz then make_placement sz
          else if sz < 0 then Inl SliceOutOfRange
          else if 0 < sz then
            (if emptyPlacement_len < sz then Inl SliceOutOfRange
             else Inr (Some (s\<lparr>elems := replicate (nat sz) 0\<rparr>)))
          else Inr (Some (s\<lparr>elems := []\<rparr>)))"

definition copyPlacement :: "Placement \<Rightarrow> Placement \<Rightarrow> Placement" where
  "copyPlacement p src =
     (let xs = pl_elems src; sz = length xs;
          d = (case p of
                 None \<Rightarrow> \<lparr>elems = replicate sz 0, s_cap = sz\<rparr>
               | Some s \<Rightarrow> if s_cap s < sz then \<lparr>elems = replicate sz 0, s_cap = sz\<rparr> else s)
      in Some (d\<lparr>elems := take (length (elems d)) xs @ drop sz (elems d)\<rparr>))"

definition IsPlacementEmpty :: "Placement \<Rightarrow> bool" where
  "IsPlacementEmpty p \<longleftrightarrow> p = None \<or> length (pl_elems p) = 0"

section \<open>Per-object state of the placer\<close>

record PlacerMeta =
  pos :: "nat \<Rightarrow> nat"
  visited :: bool
  visitedAt :: int
  confirmed :: "bool list"
  numConfirmed :: nat
  swapMap :: Placement
  evicts :: "addr option"
  suggestMap :: Placement
  once :: "bool option"

definition newPlacerMeta :: "nat \<Rightarrow> PlacerMeta" where
  "newPlacerMeta numChunks =
     \<lparr>pos = (\<lambda>_. 0), visited = False, visitedAt = 0, confirmed = replicate numChunks False,
      numConfirmed = 0, swapMap = None, evicts = None, suggestMap = None, once = None\<rparr>"

definition confirm :: "PlacerMeta \<Rightarrow> int \<Rightarrow> PlacerMeta res" where
  "confirm pm chunk =
     bindR (index (confirmed pm) chunk) (\<lambda>c.
       if c then Inr pm
       else bindR (assign (confirmed pm) chunk True) (\<lambda>cs.
              Inr (pm\<lparr>confirmed := cs, numConfirmed := numConfirmed pm + 1\<rparr>)))"

definition allConfirmed :: "PlacerMeta \<Rightarrow> bool" where
  "allConfirmed pm \<longleftrightarrow> numConfirmed pm = length (confirmed pm)"

text \<open>
  \<open>postProcess\<close> runs its action through a \<open>sync.Once\<close>; the second component says whether the
  action ran and on which object (\<open>pm.evicts\<close>, which the run clears).
\<close>

definition doPostProcess :: "PlacerMeta \<Rightarrow> PlacerMeta \<times> addr option" where
  "doPostProcess pm = (pm\<lparr>evicts := None\<rparr>, evicts pm)"

definition postProcess :: "PlacerMeta \<Rightarrow> PlacerMeta \<times> addr option option" where
  "postProcess pm =
     (case once pm of
        None \<Rightarrow> (pm, None)
      | Some True \<Rightarrow> (pm, None)
      | Some False \<Rightarrow> (let (pm', e) = doPostProcess (pm\<lparr>once := Some True\<rparr>) in (pm', Some e)))"

section \<open>Object metadata\<close>

record Meta =
  Key :: string
  NumChunks :: int
  Placement :: Placement
  ChunkSize :: int64
  Reset :: bool
  Deleted :: bool
  slice :: Slice
  placerMeta :: "PlacerMeta option"
  lastChunk :: int

definition zeroMeta :: Meta where
  "zeroMeta = \<lparr>Key = [], NumChunks = 0, Placement = None, ChunkSize = 0, Reset = False,
     Deleted = False, slice = zeroSlice, placerMeta = None, lastChunk = 0\<rparr>"

text \<open>\<open>NewMeta\<close> reinitialises \<open>m0\<close>, the object the \<open>sync.Pool\<close> handed out (possibly a used one).\<close>

definition NewMeta :: "Meta \<Rightarrow> string \<Rightarrow> int \<Rightarrow> int64 \<Rightarrow> Meta res" where
  "NewMeta m0 key numChunks chunkSize =
     bindR (initPlacement (Placement m0) numChunks) (\<lambda>pl.
       Inr (m0\<lparr>Key := key, NumChunks := numChunks, Placement := pl, ChunkSize := chunkSize,
               Deleted := False,
               slice := (if initialized (slice m0) then zeroSlice else slice m0),
               placerMeta := None\<rparr>))"

definition InitMeta :: "Meta \<Rightarrow> int \<Rightarrow> Meta" where
  "InitMeta m sliceSize = m\<lparr>slice := (slice m)\<lparr>s_size := sliceSize\<rparr>\<rparr>"

definition ChunkKey :: "Meta \<Rightarrow> int \<Rightarrow> string" where
  "ChunkKey m chunkId = itoa chunkId @ ''@'' @ Key m"

section \<open>Facts\<close>

lemma pl_elems_simps [simp]: "pl_elems None = []" "pl_elems (Some s) = elems s"
  by (simp_all add: pl_elems_def)

lemma pl_update_ok:
  "in_range i (pl_elems p) \<Longrightarrow> \<exists>p'. pl_update p i v = Inr p' \<and> pl_elems p' = (pl_elems p)[nat i := v]"
  by (cases p) (auto simp: pl_update_def)

lemma pl_update_elems:
  "pl_update p i v = Inr p' \<Longrightarrow> in_range i (pl_elems p) \<and> pl_elems p' = (pl_elems p)[nat i := v]"
  by (cases p) (auto simp: pl_update_def go_simps in_range_def)

lemma make_placement_elems:
  "make_placement sz = Inr p \<Longrightarrow> pl_elems p = replicate (nat sz) 0"
  by (auto simp: make_placement_def split: if_splits)

lemma initPlacement_elems:
  "initPlacement p sz = Inr p' \<Longrightarrow> pl_elems p' = replicate (nat sz) 0 \<and> 0 \<le> sz"
  by (auto simp: initPlacement_def make_placement_def split: option.splits if_splits)

lemma copyPlacement_None: "pl_elems (copyPlacement None src) = pl_elems src"
  by (simp add: copyPlacement_def Let_def)

lemma copyPlacement_empty: "IsPlacementEmpty (copyPlacement None src) \<longleftrightarrow> pl_elems src = []"
  by (simp add: IsPlacementEmpty_def copyPlacement_None) (simp add: copyPlacement_def Let_def)

definition pm_wf :: "PlacerMeta \<Rightarrow> bool" where
  "pm_wf pm \<longleftrightarrow> numConfirmed pm = length (filter id (confirmed pm))"

lemma pm_wf_new [simp]: "pm_wf (newPlacerMeta n)"
  by (simp add: pm_wf_def newPlacerMeta_def)

lemma length_filter_update_True:
  "i < length xs \<Longrightarrow> \<not> xs ! i \<Longrightarrow> length (filter id (xs[i := True])) = Suc (length (filter id xs))"
  by (induction xs arbitrary: i) (auto simp: nth_Cons split: nat.splits)

lemma list_update_True_same: "xs ! i \<Longrightarrow> xs[i := True] = xs"
  by (metis list_update_id)

lemma confirm_ok:
  assumes "confirm pm chunk = Inr pm'"
  shows "in_range chunk (confirmed pm) \<and> confirmed pm' = (confirmed pm)[nat chunk := True]
     \<and> (pm_wf pm \<longrightarrow> pm_wf pm')
     \<and> pm' = pm\<lparr>confirmed := confirmed pm', numConfirmed := numConfirmed pm'\<rparr>"
  using assms length_filter_update_True [of "nat chunk" "confirmed pm"]
  by (auto simp: confirm_def go_simps pm_wf_def in_range_def list_update_True_same split: if_splits)

lemma confirm_total: "in_range chunk (confirmed pm) \<Longrightarrow> \<exists>pm'. confirm pm chunk = Inr pm'"
  by (auto simp: confirm_def)

lemma length_filter_id_eq: "length (filter id xs) = length xs \<longleftrightarrow> (\<forall>x \<in> set xs. x)"
  by (metis filter_id_conv id_apply length_filter_less less_irrefl)

lemma allConfirmed_iff: "pm_wf pm \<Longrightarrow> allConfirmed pm \<longleftrightarrow> (\<forall>c \<in> set (confirmed pm). c)"
  by (simp add: allConfirmed_def pm_wf_def length_filter_id_eq)

lemma ChunkKey_inj: "ChunkKey m i = ChunkKey m' j \<longleftrightarrow> i = j \<and> Key m = Key m'"
  using append_sep_inj [of "itoa i" "CHR ''@''" "Key m" "itoa j" "Key m'"]
  by (auto simp: ChunkKey_def)

end
