(* ===== verification/LambdaMeta.thy ===== *)
theory LambdaMeta
  imports Prelude
begin

text \<open>
  \<open>src/proxy/lambdastore/meta.go\<close>: the bookkeeping record of one Lambda instance.  The size
  counter is a \<open>uint64\<close> that is only changed by atomic additions, so it is kept as a 64-bit word
  and wraps.  The locale \<open>size_counter\<close> is the contract the placer relies on (an addition and a
  subtraction of a signed amount); it is interpreted on the methods of the record.
\<close>

record ChunkMeta =
  cm_Key :: string
  cm_Size :: uint64
  cm_Hit :: bool
  cm_Accessed :: int

record LMeta =
  Term :: uint64
  Updates :: uint64
  Hash :: string
  SnapShotTerm :: uint64
  SnapshotUpdates :: uint64
  SnapshotSize :: uint64
  Capacity :: uint64
  lm_size :: uint64

definition zeroLMeta :: LMeta where
  "zeroLMeta = \<lparr>Term = 0, Updates = 0, Hash = [], SnapShotTerm = 0, SnapshotUpdates = 0,
     SnapshotSize = 0, Capacity = 0, lm_size = 0\<rparr>"

definition Size :: "LMeta \<Rightarrow> uint64" where
  "Size m = lm_size m"

definition IncreaseSize :: "LMeta \<Rightarrow> int64 \<Rightarrow> LMeta" where
  "IncreaseSize m inc = m\<lparr>lm_size := lm_size m + inc\<rparr>"

definition DecreaseSize :: "LMeta \<Rightarrow> int64 \<Rightarrow> LMeta" where
  "DecreaseSize m dec = m\<lparr>lm_size := lm_size m + not (dec - 1)\<rparr>"

lemma complement_pred: "not (d - 1) = - (d :: 'a::len word)"
  by (simp add: not_eq_complement)

lemma Size_IncreaseSize [simp]: "Size (IncreaseSize m i) = Size m + i"
  by (simp add: Size_def IncreaseSize_def)

lemma Size_DecreaseSize [simp]: "Size (DecreaseSize m d) = Size m - d"
  by (simp add: Size_def DecreaseSize_def complement_pred)

lemma Capacity_size_ops [simp]:
  "Capacity (IncreaseSize m i) = Capacity m"
  "Capacity (DecreaseSize m i) = Capacity m"
  by (simp_all add: IncreaseSize_def DecreaseSize_def)

section \<open>The contract of the size counter\<close>

locale size_counter =
  fixes read :: "'c \<Rightarrow> 64 word"
    and inc :: "'c \<Rightarrow> 64 word \<Rightarrow> 'c"
    and dec :: "'c \<Rightarrow> 64 word \<Rightarrow> 'c"
  assumes read_inc: "read (inc c i) = read c + i"
    and read_dec: "read (dec c i) = read c - i"
begin

lemma inc_then_dec: "read (dec (inc c i) i) = read c"
  by (simp add: read_inc read_dec)

lemma swap_amount: "read (inc c (new - old)) = read (inc (dec c old) new)"
  by (simp add: read_inc read_dec)

lemma inc_below_capacity:
  assumes "read c + i < cap" and "0 \<le> sint i" and "uint (read c) + sint i < 2 ^ 64"
  shows "uint (read (inc c i)) = uint (read c) + sint i \<and> read (inc c i) < cap"
proof -
  have si: "sint i = uint i" using assms(2) by (rule sint_nonneg_uint)
  have "uint (read c + i) = uint (read c) + uint i"
    using assms(3) si by (simp add: uint_word_ariths)
  then show ?thesis using assms(1) si by (simp add: read_inc)
qed

lemma fold_inc: "read (fold (\<lambda>i c. inc c i) is c) = read c + sum_list is"
  by (induction "is" arbitrary: c) (simp_all add: read_inc algebra_simps)

end

interpretation lsize: size_counter Size IncreaseSize DecreaseSize
  by unfold_locales simp_all

end
