(* ===== verification/Placer.thy ===== *)
theory Placer
  imports ObjectMeta LambdaMeta HashMap
begin

text \<open>
  \<open>src/proxy/server/placer.go\<close> and \<open>src/proxy/server/metastore.go\<close>: the Clock-LRU placer.

  The record \<open>placer\<close> is the state the operations reach: the heap of \<open>Meta\<close> objects (\<open>metas\<close>,
  with \<open>nextMeta\<close> the next unused address), the \<open>sync.Pool\<close> of recycled ones, the \<open>MetaStore\<close>
  (\<open>metaMap\<close>, an abstract hash map with operations \<open>H\<close>), the bookkeeping of the group's instances,
  and the placer's own fields.  A nil \<open>*Meta\<close> in the object arrays is \<open>None\<close>; the nil secondary array
  is the empty list (slot 0 is reserved, so an allocated array is never empty).

  \<open>GetOrInsert\<close> takes two locks: \<open>meta.mu\<close> first, then \<open>p.mu\<close>.  It is split at that point into
  \<open>GetOrInsert_enter\<close> and \<open>GetOrInsert_locked\<close>, so that steps of other requests may run between
  the two.  The retry loop around \<open>NextAvailableObject\<close> has no bound in the code: it is a
  \<open>partial_function\<close> whose value \<open>None\<close> means that the call never returns.  Logging is left out.
\<close>

section \<open>State\<close>

record 'm placer =
  metas :: "addr \<Rightarrow> Meta"
  nextMeta :: addr
  metaPool :: "addr list"
  metaMap :: 'm
  pgroup :: "LMeta Group"
  objects :: "nat \<Rightarrow> addr option list"
  cursor :: nat
  cursorBound :: nat
  primary :: nat
  secondary :: nat

definition NewPlacer :: "('m, string, addr) hashmap \<Rightarrow> LMeta Group \<Rightarrow> 'm placer" where
  "NewPlacer H g =
     \<lparr>metas = (\<lambda>_. zeroMeta), nextMeta = 0, metaPool = [], metaMap = hm_New H, pgroup = g,
      objects = (\<lambda>_. [])(0 := [None]), cursor = 0, cursorBound = 0, primary = 0, secondary = 1\<rparr>"

definition upd_meta :: "addr \<Rightarrow> (Meta \<Rightarrow> Meta) \<Rightarrow> 'm placer \<Rightarrow> 'm placer" where
  "upd_meta a f p = p\<lparr>metas := (metas p)(a := f (metas p a))\<rparr>"

definition upd_pm :: "addr \<Rightarrow> (PlacerMeta \<Rightarrow> PlacerMeta) \<Rightarrow> 'm placer \<Rightarrow> 'm placer" where
  "upd_pm a f p = upd_meta a (\<lambda>m. m\<lparr>placerMeta := map_option f (placerMeta m)\<rparr>) p"

definition upd_objects :: "nat \<Rightarrow> (addr option list \<Rightarrow> addr option list) \<Rightarrow> 'm placer \<Rightarrow> 'm placer" where
  "upd_objects i f p = p\<lparr>objects := (objects p)(i := f (objects p i))\<rparr>"

section \<open>The pool of metadata objects and the store\<close>

definition pool_Get :: "nat \<Rightarrow> 'm placer \<Rightarrow> addr \<times> 'm placer" where
  "pool_Get choice p =
     (if choice < length (metaPool p)
      then (metaPool p ! choice,
            p\<lparr>metaPool := take choice (metaPool p) @ drop (Suc choice) (metaPool p)\<rparr>)
      else (nextMeta p,
            p\<lparr>nextMeta := Suc (nextMeta p), metas := (metas p)(nextMeta p := zeroMeta)\<rparr>))"

definition close_meta :: "addr \<Rightarrow> 'm placer \<Rightarrow> 'm placer" where
  "close_meta a p = p\<lparr>metaPool := a # metaPool p\<rparr>"

definition MetaStore_GetOrInsert ::
    "('m, string, addr) hashmap \<Rightarrow> string \<Rightarrow> addr \<Rightarrow> 'm placer \<Rightarrow> addr \<times> bool \<times> 'm placer" where
  "MetaStore_GetOrInsert H key ins p =
     (let (mm, meta, ok) = hm_GetOrInsert H (metaMap p) key ins
      in (meta, ok, p\<lparr>metaMap := mm\<rparr>))"

definition MetaStore_Get :: "('m, string, addr) hashmap \<Rightarrow> string \<Rightarrow> 'm placer \<Rightarrow> addr option" where
  "MetaStore_Get H key p = hm_Get H (metaMap p) key"

definition Placer_NewMeta ::
    "nat \<Rightarrow> string \<Rightarrow> int \<Rightarrow> int \<Rightarrow> int \<Rightarrow> int \<Rightarrow> int64 \<Rightarrow> 'm placer \<Rightarrow> (addr \<times> 'm placer) res" where
  "Placer_NewMeta choice key sliceSize numChunks chunk lambdaId chunkSize p =
     (let (a, p1) = pool_Get choice p in
      bindR (NewMeta (metas p1 a) key numChunks chunkSize) (\<lambda>m.
      bindR (pl_update (Placement (InitMeta m sliceSize)) chunk lambdaId) (\<lambda>pl.
        Inr (a, upd_meta a (\<lambda>_. (InitMeta m sliceSize)\<lparr>Placement := pl, lastChunk := chunk\<rparr>) p1))))"

section \<open>Clock LRU\<close>

definition AddObject :: "int \<Rightarrow> addr \<Rightarrow> 'm placer \<Rightarrow> 'm placer" where
  "AddObject now a p =
     upd_objects (primary p) (\<lambda>xs. xs @ [Some a])
       (upd_pm a (\<lambda>pm. pm\<lparr>pos := (pos pm)(primary p := length (objects p (primary p))),
                          visited := True, visitedAt := now\<rparr>) p)"

definition TouchObject :: "int \<Rightarrow> addr \<Rightarrow> 'm placer \<Rightarrow> 'm placer" where
  "TouchObject now a p = upd_pm a (\<lambda>pm. pm\<lparr>visited := True, visitedAt := now\<rparr>) p"

definition start_iteration :: "'m placer \<Rightarrow> 'm placer" where
  "start_iteration p =
     (if cursor p = 0
      then p\<lparr>objects := (objects p)(secondary p :=
               (if objects p (secondary p) = [] then [None] else take 1 (objects p (secondary p)))),
             cursorBound := length (objects p (primary p)),
             cursor := 1\<rparr>
      else p)"

definition to_secondary :: "addr \<Rightarrow> 'm placer \<Rightarrow> 'm placer" where
  "to_secondary m p =
     upd_objects (secondary p) (\<lambda>xs. xs @ [Some m])
       (upd_pm m (\<lambda>pm. pm\<lparr>pos := (pos pm)(secondary p := length (objects p (secondary p)))\<rparr>) p)"

definition advance :: "'m placer \<Rightarrow> 'm placer" where
  "advance p = p\<lparr>cursor := Suc (cursor p)\<rparr>"

definition evict :: "int \<Rightarrow> addr \<Rightarrow> addr \<Rightarrow> 'm placer \<Rightarrow> 'm placer res" where
  "evict now meta m p =
     (let p1 = upd_meta m (\<lambda>x. x\<lparr>Deleted := True\<rparr>) p;
          p2 = upd_pm meta (\<lambda>pm. pm\<lparr>swapMap := copyPlacement (swapMap pm) (Placement (metas p1 m)),
                                    evicts := Some m\<rparr>) p1
      in case placerMeta (metas p2 meta) of
           None \<Rightarrow> Inl NilDereference
         | Some pm \<Rightarrow>
             bindR (assign (objects p2 (primary p2)) (int (pos pm (primary p2))) None) (\<lambda>xs.
             bindR (assign xs (int (cursor p2)) (Some meta)) (\<lambda>ys.
               Inr (upd_pm meta (\<lambda>q. q\<lparr>pos := (pos q)(primary p2 := cursor p2),
                                       visited := True, visitedAt := now\<rparr>)
                     (p2\<lparr>objects := (objects p2)(primary p2 := ys)\<rparr>)))))"

fun scan :: "int \<Rightarrow> addr \<Rightarrow> addr option list \<Rightarrow> 'm placer \<Rightarrow> (bool \<times> 'm placer) res" where
  "scan now meta [] p = Inr (False, p)"
| "scan now meta (None # xs) p = scan now meta xs (advance p)"
| "scan now meta (Some m # xs) p =
     (case placerMeta (metas p m) of
        None \<Rightarrow> Inl NilDereference
      | Some pm \<Rightarrow>
          if m = meta then scan now meta xs (advance (to_secondary m p))
          else if visited pm \<and> allConfirmed pm then
            scan now meta xs (advance (to_secondary m (upd_pm m (\<lambda>q. q\<lparr>visited := False\<rparr>) p)))
          else if \<not> visited pm then
            bindR (evict now meta m p) (\<lambda>p'. Inr (True, advance (to_secondary meta p')))
          else scan now meta xs (advance (to_secondary m p)))"

fun compact :: "addr option list \<Rightarrow> 'm placer \<Rightarrow> 'm placer res" where
  "compact [] p = Inr p"
| "compact (None # xs) p = compact xs p"
| "compact (Some m # xs) p =
     (case placerMeta (metas p m) of
        None \<Rightarrow> Inl NilDereference
      | Some _ \<Rightarrow> compact xs (to_secondary m p))"

definition switch_arrays :: "'m placer \<Rightarrow> 'm placer" where
  "switch_arrays p = p\<lparr>cursor := 0, primary := secondary p, secondary := primary p\<rparr>"

definition NextAvailableObject :: "int \<Rightarrow> addr \<Rightarrow> 'm placer \<Rightarrow> (bool \<times> 'm placer) res" where
  "NextAvailableObject now meta p =
     (let p0 = start_iteration p; xs = objects p0 (primary p0) in
      if cursor p0 \<le> cursorBound p0 \<and> cursorBound p0 \<le> length xs then
        bindR (scan now meta (drop (cursor p0) (take (cursorBound p0) xs)) p0) (\<lambda>(found, p1).
          if found then Inr (True, p1)
          else bindR (if cursor p1 < length (objects p1 (primary p1))
                      then compact (drop (cursor p1) (objects p1 (primary p1))) p1
                      else Inr p1)
                 (\<lambda>p2. Inr (False, switch_arrays p2)))
      else Inl SliceOutOfRange)"

partial_function (option) evict_loop :: "int \<Rightarrow> addr \<Rightarrow> 'm placer \<Rightarrow> 'm placer res option" where
  "evict_loop now meta p =
     (case NextAvailableObject now meta p of
        Inl e \<Rightarrow> Some (Inl e)
      | Inr r \<Rightarrow> if fst r then Some (Inr (snd r)) else evict_loop now meta (snd r))"

declare evict_loop.simps [code]

section \<open>Placement of a chunk\<close>

fun swap_sizes ::
    "bool list \<Rightarrow> int64 \<Rightarrow> int64 \<Rightarrow> nat \<Rightarrow> int list \<Rightarrow> LMeta Group \<Rightarrow> LMeta Group res" where
  "swap_sizes cs new old i [] g = Inr g"
| "swap_sizes cs new old i (tbe # rest) g =
     bindR (GInstance g tbe) (\<lambda>ins.
     bindR (index cs (int i)) (\<lambda>c.
       swap_sizes cs new old (Suc i) rest
         (set_instance g tbe (if \<not> c then IncreaseSize ins (new - old) else DecreaseSize ins old))))"

text \<open>
  Up to the placer's lock: the entry, the object's address, whether it was there before, the
  chunk and the Lambda number asked for, and whether the call returns at this point.
\<close>

record enter_result =
  er_meta :: addr
  er_got :: bool
  er_chunk :: int
  er_lambda :: int
  er_return :: bool

definition revive :: "addr \<Rightarrow> 'm placer \<Rightarrow> 'm placer" where
  "revive a p =
     (if Deleted (metas p a) then upd_meta a (\<lambda>m. m\<lparr>placerMeta := None, Deleted := False\<rparr>) p else p)"

definition GetOrInsert_enter ::
    "('m, string, addr) hashmap \<Rightarrow> string \<Rightarrow> addr \<Rightarrow> 'm placer \<Rightarrow> (enter_result \<times> 'm placer) res" where
  "GetOrInsert_enter H key newMeta p =
     (let chunk = lastChunk (metas p newMeta) in
      bindR (index (pl_elems (Placement (metas p newMeta))) chunk) (\<lambda>lambdaId.
      let (meta, got, p1) = MetaStore_GetOrInsert H key newMeta p;
          p2 = revive meta (if got then close_meta newMeta p1 else p1);
          r = \<lparr>er_meta = meta, er_got = got, er_chunk = chunk, er_lambda = lambdaId, er_return = False\<rparr>
      in case placerMeta (metas p2 meta) of
           Some pm \<Rightarrow>
             bindR (index (confirmed pm) chunk) (\<lambda>c.
               if c then Inr (r\<lparr>er_return := True\<rparr>, upd_meta meta (\<lambda>m. m\<lparr>Reset := True\<rparr>) p2)
               else Inr (r, p2))
         | None \<Rightarrow>
             Inr (r, upd_meta meta (\<lambda>m. m\<lparr>placerMeta :=
                        Some (newPlacerMeta (length (pl_elems (Placement m))))\<rparr>) p2)))"

definition place_chunk :: "addr \<Rightarrow> int \<Rightarrow> int \<Rightarrow> 'm placer \<Rightarrow> 'm placer res" where
  "place_chunk meta chunk dest p =
     bindR (pl_update (Placement (metas p meta)) chunk dest) (\<lambda>pl.
       case placerMeta (metas p meta) of
         None \<Rightarrow> Inl NilDereference
       | Some pm \<Rightarrow> bindR (confirm pm chunk) (\<lambda>pm'.
           Inr (upd_meta meta (\<lambda>m. m\<lparr>Placement := pl, placerMeta := Some pm'\<rparr>) p)))"

definition place_evicting :: "int \<Rightarrow> addr \<Rightarrow> int \<Rightarrow> 'm placer \<Rightarrow> 'm placer res option" where
  "place_evicting now meta chunk p =
     (case evict_loop now meta p of
        None \<Rightarrow> None
      | Some r \<Rightarrow> Some (bindR r (\<lambda>p1.
          case placerMeta (metas p1 meta) of
            None \<Rightarrow> Inl NilDereference
          | Some pm \<Rightarrow>
             (case evicts pm of
                None \<Rightarrow> Inl NilDereference
              | Some ev \<Rightarrow>
                  bindR (swap_sizes (confirmed pm) (ChunkSize (metas p1 meta)) (ChunkSize (metas p1 ev))
                           0 (pl_elems (swapMap pm)) (pgroup p1)) (\<lambda>g.
                  bindR (index (pl_elems (swapMap pm)) chunk) (\<lambda>dest.
                  bindR (place_chunk meta chunk dest (p1\<lparr>pgroup := g\<rparr>)) (\<lambda>p2.
                    Inr (upd_pm meta (\<lambda>q. q\<lparr>once := Some False\<rparr>) p2))))))))"

definition place_fitting :: "int \<Rightarrow> addr \<Rightarrow> int \<Rightarrow> int \<Rightarrow> LMeta \<Rightarrow> 'm placer \<Rightarrow> 'm placer res" where
  "place_fitting now meta chunk assigned ins p =
     bindR (place_chunk meta chunk assigned p) (\<lambda>p1.
       let unseen = (case placerMeta (metas p1 meta) of None \<Rightarrow> False | Some pm \<Rightarrow> pos pm (primary p1) = 0);
           p2 = (if unseen then AddObject now meta p1 else p1)
       in Inr (p2\<lparr>pgroup := set_instance (pgroup p2) assigned
                             (IncreaseSize ins (ChunkSize (metas p2 meta)))\<rparr>))"

definition assign_slice :: "addr \<Rightarrow> int \<Rightarrow> 'm placer \<Rightarrow> (int \<times> 'm placer) res" where
  "assign_slice meta lambdaId p =
     bindR (GetIndex (slice (metas p meta)) (pgroup p) lambdaId) (\<lambda>(s, g, assigned).
       Inr (assigned, upd_meta meta (\<lambda>m. m\<lparr>slice := s\<rparr>) (p\<lparr>pgroup := g\<rparr>)))"

text \<open>Under the placer's lock; the flag says whether a post-process function is returned.\<close>

definition GetOrInsert_locked ::
    "int \<Rightarrow> addr \<Rightarrow> int \<Rightarrow> int \<Rightarrow> 'm placer \<Rightarrow> (bool \<times> 'm placer) res option" where
  "GetOrInsert_locked now meta chunk lambdaId p =
     (if Deleted (metas p meta) then Some (Inr (False, p))
      else case placerMeta (metas p meta) of
        None \<Rightarrow> Some (Inl NilDereference)
      | Some pm \<Rightarrow>
          if \<not> IsPlacementEmpty (swapMap pm) then
            Some (bindR (index (pl_elems (swapMap pm)) chunk) (\<lambda>dest.
                  bindR (place_chunk meta chunk dest p) (\<lambda>p'. Inr (False, p'))))
          else (case assign_slice meta lambdaId p of
             Inl e \<Rightarrow> Some (Inl e)
           | Inr (assigned, p1) \<Rightarrow>
               (case GInstance (pgroup p1) assigned of
                  Inl e \<Rightarrow> Some (Inl e)
                | Inr ins \<Rightarrow>
                    if Size ins + ChunkSize (metas p1 meta) < Capacity ins then
                      Some (bindR (place_fitting now meta chunk assigned ins p1) (\<lambda>p'. Inr (False, p')))
                    else map_option (\<lambda>r. bindR r (\<lambda>p'. Inr (True, p'))) (place_evicting now meta chunk p1))))"

definition GetOrInsert ::
    "('m, string, addr) hashmap \<Rightarrow> int \<Rightarrow> string \<Rightarrow> addr \<Rightarrow> 'm placer \<Rightarrow>
       (addr \<times> bool \<times> bool \<times> 'm placer) res option" where
  "GetOrInsert H now key newMeta p =
     (case GetOrInsert_enter H key newMeta p of
        Inl e \<Rightarrow> Some (Inl e)
      | Inr (r, p1) \<Rightarrow>
          if er_return r then Some (Inr (er_meta r, er_got r, False, p1))
          else map_option (\<lambda>x. bindR x (\<lambda>(post, p2). Inr (er_meta r, er_got r, post, p2)))
                 (GetOrInsert_locked now (er_meta r) (er_chunk r) (er_lambda r) p1))"

definition Placer_Get ::
    "('m, string, addr) hashmap \<Rightarrow> int \<Rightarrow> string \<Rightarrow> int \<Rightarrow> 'm placer \<Rightarrow> (addr option \<times> bool \<times> 'm placer) res" where
  "Placer_Get H now key chunk p =
     (case MetaStore_Get H key p of
        None \<Rightarrow> Inr (None, False, p)
      | Some a \<Rightarrow>
          (if Deleted (metas p a) then Inr (Some a, True, p)
           else (case placerMeta (metas p a) of
             None \<Rightarrow> Inr (None, False, p)
           | Some pm \<Rightarrow>
               bindR (index (confirmed pm) chunk) (\<lambda>c.
                 if \<not> c then Inr (None, False, p)
                 else Inr (Some a, True, TouchObject now a p)))))"

definition placer_postProcess :: "addr \<Rightarrow> 'm placer \<Rightarrow> 'm placer \<times> addr option" where
  "placer_postProcess meta p =
     (case placerMeta (metas p meta) of
        None \<Rightarrow> (p, None)
      | Some pm \<Rightarrow>
          (let (pm', ran) = postProcess pm
           in (upd_meta meta (\<lambda>m. m\<lparr>placerMeta := Some pm'\<rparr>) p,
               case ran of None \<Rightarrow> None | Some e \<Rightarrow> e)))"

section \<open>Dump\<close>

fun join :: "string \<Rightarrow> string list \<Rightarrow> string" where
  "join sep [] = []"
| "join sep [x] = x"
| "join sep (x # xs) = x @ sep @ join sep xs"

definition dump_elem :: "'m placer \<Rightarrow> addr option \<Rightarrow> string res" where
  "dump_elem p slot =
     (case slot of
        None \<Rightarrow> Inr ''nil''
      | Some a \<Rightarrow> (case placerMeta (metas p a) of
           None \<Rightarrow> Inl NilDereference
         | Some pm \<Rightarrow> Inr (Key (metas p a) @ ''-'' @ itoa (if visited pm then 1 else 0))))"

fun dump_elems :: "'m placer \<Rightarrow> addr option list \<Rightarrow> string list res" where
  "dump_elems p [] = Inr []"
| "dump_elems p (x # xs) =
     bindR (dump_elem p x) (\<lambda>s. bindR (dump_elems p xs) (\<lambda>ss. Inr (s # ss)))"

definition dump :: "'m placer \<Rightarrow> addr option list \<Rightarrow> string res" where
  "dump p xs =
     (if length xs < 1 then Inr '''' else bindR (dump_elems p (tl xs)) (\<lambda>ss. Inr (join '','' ss)))"

definition dumpPlacer :: "'m placer \<Rightarrow> bool list \<Rightarrow> string res" where
  "dumpPlacer p args =
     (if 0 < length args \<and> hd args then dump p (objects p (secondary p))
      else dump p (objects p (primary p)))"

end
