(* ===== verification/PlacerInv.thy ===== *)
theory PlacerInv
  imports Placer
begin

text \<open>
  The two object arrays of the Clock LRU (\<open>src/proxy/server/placer.go\<close>, \<open>NextAvailableObject\<close>).
  \<open>clock_inv\<close> says how the arrays, the cursor and the positions kept in the objects agree, between
  two iterations (\<open>rest_inv\<close>) and within one (\<open>iter_at\<close>, with everything before the cursor already
  copied).  Under it a call never panics, keeps the invariant, and changes nothing but reference
  bits and positions unless it reports an object to be evicted (\<open>next_post\<close>).
\<close>

lemmas upd_defs = upd_meta_def upd_pm_def upd_objects_def

abbreviation P_of :: "'m placer \<Rightarrow> addr option list" where
  "P_of p \<equiv> objects p (primary p)"

abbreviation S_of :: "'m placer \<Rightarrow> addr option list" where
  "S_of p \<equiv> objects p (secondary p)"

definition arrs :: "'m placer \<Rightarrow> addr option set" where
  "arrs p = set (P_of p) \<union> set (S_of p)"

definition pos_of :: "'m placer \<Rightarrow> addr \<Rightarrow> nat \<Rightarrow> nat" where
  "pos_of p a i = (case placerMeta (metas p a) of None \<Rightarrow> 0 | Some pm \<Rightarrow> pos pm i)"

definition live :: "'m placer \<Rightarrow> addr \<Rightarrow> bool" where
  "live p a \<longleftrightarrow> \<not> Deleted (metas p a)"

definition has_pm :: "'m placer \<Rightarrow> addr option list \<Rightarrow> bool" where
  "has_pm p xs \<longleftrightarrow> (\<forall>m. Some m \<in> set xs \<longrightarrow> placerMeta (metas p m) \<noteq> None)"

definition points_to :: "addr option list \<Rightarrow> nat \<Rightarrow> addr \<Rightarrow> bool" where
  "points_to xs i a \<longleftrightarrow> i < length xs \<and> xs ! i = Some a"

definition iter_at :: "nat \<Rightarrow> 'm placer \<Rightarrow> bool" where
  "iter_at k p \<longleftrightarrow>
     primary p \<noteq> secondary p \<and> 1 \<le> k \<and> k \<le> length (P_of p) \<and>
     P_of p ! 0 = None \<and> S_of p \<noteq> [] \<and> S_of p ! 0 = None \<and>
     has_pm p (P_of p) \<and> has_pm p (S_of p) \<and>
     (\<forall>m. Some m \<in> set (take k (P_of p)) \<longrightarrow> Some m \<in> set (S_of p)) \<and>
     (\<forall>a. live p a \<longrightarrow>
        (pos_of p a (primary p) \<noteq> 0 \<longrightarrow> points_to (P_of p) (pos_of p a (primary p)) a) \<and>
        (pos_of p a (secondary p) \<noteq> 0 \<longrightarrow>
           points_to (S_of p) (pos_of p a (secondary p)) a \<or> Some a \<in> set (drop k (P_of p))))"

definition rest_inv :: "'m placer \<Rightarrow> bool" where
  "rest_inv p \<longleftrightarrow>
     primary p \<noteq> secondary p \<and> P_of p \<noteq> [] \<and> P_of p ! 0 = None \<and>
     (S_of p = [] \<or> S_of p ! 0 = None) \<and> has_pm p (P_of p) \<and>
     (\<forall>a. live p a \<longrightarrow>
        (pos_of p a (primary p) \<noteq> 0 \<longrightarrow> points_to (P_of p) (pos_of p a (primary p)) a) \<and>
        (pos_of p a (secondary p) \<noteq> 0 \<longrightarrow> Some a \<in> set (P_of p)))"

definition clock_inv :: "'m placer \<Rightarrow> bool" where
  "clock_inv p \<longleftrightarrow>
     (if cursor p = 0 then rest_inv p
      else iter_at (cursor p) p \<and> cursor p \<le> cursorBound p \<and> cursorBound p \<le> length (P_of p))"

lemma to_secondary_fields [simp]:
  "primary (to_secondary m p) = primary p" "secondary (to_secondary m p) = secondary p"
  "cursor (to_secondary m p) = cursor p" "cursorBound (to_secondary m p) = cursorBound p"
  "pgroup (to_secondary m p) = pgroup p" "metaMap (to_secondary m p) = metaMap p"
  "nextMeta (to_secondary m p) = nextMeta p" "metaPool (to_secondary m p) = metaPool p"
  by (simp_all add: to_secondary_def upd_defs)

lemma objects_to_secondary [simp]:
  "objects (to_secondary m p) = (objects p)(secondary p := S_of p @ [Some m])"
  by (simp add: to_secondary_def upd_defs)

lemma metas_to_secondary:
  "metas (to_secondary m p) = (metas p)(m := (metas p m)\<lparr>placerMeta :=
     map_option (\<lambda>pm. pm\<lparr>pos := (pos pm)(secondary p := length (S_of p))\<rparr>) (placerMeta (metas p m))\<rparr>)"
  by (simp add: to_secondary_def upd_defs)

lemma live_to_secondary [simp]: "live (to_secondary m p) a \<longleftrightarrow> live p a"
  by (auto simp: live_def metas_to_secondary)

lemma pos_of_to_secondary:
  "pos_of (to_secondary m p) a i =
     (if a = m \<and> placerMeta (metas p m) \<noteq> None \<and> i = secondary p then length (S_of p) else pos_of p a i)"
  by (auto simp: pos_of_def metas_to_secondary split: option.splits)

lemma has_pm_to_secondary [simp]: "has_pm (to_secondary m p) xs \<longleftrightarrow> has_pm p xs"
  by (auto simp: has_pm_def metas_to_secondary)

lemma has_pm_append [simp]: "has_pm p (xs @ ys) \<longleftrightarrow> has_pm p xs \<and> has_pm p ys"
  by (auto simp: has_pm_def)

lemma has_pm_single: "has_pm p [Some m] \<longleftrightarrow> placerMeta (metas p m) \<noteq> None"
  by (simp add: has_pm_def)

lemma has_pm_Nil [simp]: "has_pm p []"
  by (simp add: has_pm_def)

lemma points_to_append: "points_to xs i a \<Longrightarrow> points_to (xs @ ys) i a"
  by (auto simp: points_to_def nth_append)

lemma points_to_last [simp]: "points_to (xs @ [Some a]) (length xs) a"
  by (simp add: points_to_def)

lemma iter_at_to_secondary:
  assumes "iter_at k p" and "k < length (P_of p)" and "P_of p ! k = Some m"
  shows "iter_at (Suc k) (to_secondary m p)"
proof -
  have ps: "primary p \<noteq> secondary p" and pm: "placerMeta (metas p m) \<noteq> None"
    using assms nth_mem [of k "P_of p"] by (auto simp: iter_at_def has_pm_def)
  then have hp: "has_pm p [Some m]" by (simp add: has_pm_single)
  have dk: "set (drop k (P_of p)) = insert (Some m) (set (drop (Suc k) (P_of p)))"
    using assms(2,3) by (metis Cons_nth_drop_Suc list.simps(15))
  have tk: "take (Suc k) (P_of p) = take k (P_of p) @ [Some m]"
    using assms(2,3) by (simp add: take_Suc_conv_app_nth)
  show ?thesis
    using assms(1,2) pm hp unfolding iter_at_def
    by (auto simp: ps tk dk pos_of_to_secondary points_to_append nth_append split: if_splits)
qed

lemma iter_at_skip:
  assumes "iter_at k p" and "k < length (P_of p)" and "P_of p ! k = None"
  shows "iter_at (Suc k) p"
proof -
  have dk: "Some a \<in> set (drop k (P_of p)) \<longleftrightarrow> Some a \<in> set (drop (Suc k) (P_of p))" for a
    using assms(2,3) by (metis Cons_nth_drop_Suc list.set_intros(2) option.distinct(1) set_ConsD)
  have tk: "take (Suc k) (P_of p) = take k (P_of p) @ [None]"
    using assms(2,3) by (simp add: take_Suc_conv_app_nth)
  show ?thesis using assms(1,2) unfolding iter_at_def by (auto simp: tk dk)
qed

text \<open>Changes of fields the invariant does not read.\<close>

definition pos_neutral :: "(PlacerMeta \<Rightarrow> PlacerMeta) \<Rightarrow> bool" where
  "pos_neutral f \<longleftrightarrow> (\<forall>pm. pos (f pm) = pos pm)"

lemma live_upd_pm [simp]: "live (upd_pm b f p) a \<longleftrightarrow> live p a"
  by (auto simp: live_def upd_defs)

lemma pos_of_upd_pm: "pos_neutral f \<Longrightarrow> pos_of (upd_pm b f p) a i = pos_of p a i"
  by (auto simp: pos_of_def upd_defs pos_neutral_def split: option.splits)

lemma upd_pm_fields [simp]:
  "objects (upd_pm a f p) = objects p" "primary (upd_pm a f p) = primary p"
  "secondary (upd_pm a f p) = secondary p" "cursor (upd_pm a f p) = cursor p"
  "cursorBound (upd_pm a f p) = cursorBound p" "pgroup (upd_pm a f p) = pgroup p"
  "metaMap (upd_pm a f p) = metaMap p" "nextMeta (upd_pm a f p) = nextMeta p"
  "metaPool (upd_pm a f p) = metaPool p"
  by (simp_all add: upd_defs)

lemma has_pm_upd_pm [simp]: "has_pm (upd_pm a f p) xs \<longleftrightarrow> has_pm p xs"
  by (auto simp: has_pm_def upd_defs)

lemma iter_at_upd_pm:
  assumes "pos_neutral f"
  shows "iter_at k (upd_pm a f p) \<longleftrightarrow> iter_at k p"
  using assms unfolding iter_at_def by (simp add: pos_of_upd_pm)

lemma advance_fields [simp]:
  "objects (advance p) = objects p" "primary (advance p) = primary p"
  "secondary (advance p) = secondary p" "cursor (advance p) = Suc (cursor p)"
  "cursorBound (advance p) = cursorBound p" "metas (advance p) = metas p"
  "pgroup (advance p) = pgroup p" "metaMap (advance p) = metaMap p"
  "nextMeta (advance p) = nextMeta p" "metaPool (advance p) = metaPool p"
  by (simp_all add: advance_def)

lemma iter_at_advance [simp]: "iter_at k (advance p) \<longleftrightarrow> iter_at k p"
  by (simp add: iter_at_def has_pm_def live_def pos_of_def)


section \<open>What an iteration leaves untouched\<close>

text \<open>\<open>core\<close> forgets the fields the clock itself moves: positions and reference bits.\<close>

definition core :: "Meta \<Rightarrow> Meta" where
  "core m = m\<lparr>placerMeta := map_option (\<lambda>pm. pm\<lparr>pos := (\<lambda>_. 0), visited := False, visitedAt := 0\<rparr>)
                              (placerMeta m)\<rparr>"

definition core_metas :: "'m placer \<Rightarrow> addr \<Rightarrow> Meta" where
  "core_metas p a = core (metas p a)"

definition evict_core :: "addr \<Rightarrow> addr \<Rightarrow> (addr \<Rightarrow> Meta) \<Rightarrow> addr \<Rightarrow> Meta" where
  "evict_core m meta M = M(m := (M m)\<lparr>Deleted := True\<rparr>,
     meta := (M meta)\<lparr>placerMeta := map_option (\<lambda>pm. pm\<lparr>
        swapMap := copyPlacement (swapMap pm) (Placement (M m)), evicts := Some m\<rparr>) (placerMeta (M meta))\<rparr>)"

definition vis :: "'m placer \<Rightarrow> addr \<Rightarrow> bool" where
  "vis p a = (case placerMeta (metas p a) of None \<Rightarrow> False | Some pm \<Rightarrow> visited pm)"

definition complete :: "Meta \<Rightarrow> bool" where
  "complete m = (case placerMeta m of None \<Rightarrow> False | Some pm \<Rightarrow> allConfirmed pm)"

definition outer :: "'m placer \<Rightarrow> LMeta Group \<times> 'm \<times> addr \<times> addr list" where
  "outer p = (pgroup p, metaMap p, nextMeta p, metaPool p)"

lemma outer_simps [simp]:
  "outer (to_secondary m p) = outer p" "outer (upd_pm a f p) = outer p"
  "outer (advance p) = outer p" "outer (p\<lparr>objects := ob\<rparr>) = outer p"
  "outer (p\<lparr>metas := ms\<rparr>) = outer p"
  by (simp_all add: outer_def)

lemma core_metas_advance [simp]: "core_metas (advance p) = core_metas p"
  by (simp add: core_metas_def fun_eq_iff)

lemma core_metas_to_secondary [simp]: "core_metas (to_secondary m p) = core_metas p"
  by (auto simp: core_metas_def core_def metas_to_secondary fun_eq_iff option.map_comp comp_def)

lemma core_metas_unvisit [simp]:
  "core_metas (upd_pm m (\<lambda>q. q\<lparr>visited := b\<rparr>) p) = core_metas p"
  by (auto simp: core_metas_def core_def upd_defs fun_eq_iff option.map_comp comp_def)

lemma complete_core [simp]: "complete (core m) = complete m"
  by (auto simp: complete_def core_def allConfirmed_def split: option.splits)

lemma Deleted_core [simp]: "Deleted (core m) = Deleted m"
  by (simp add: core_def)

lemma core_None [simp]: "placerMeta (core m) = None \<longleftrightarrow> placerMeta m = None"
  by (simp add: core_def)

lemma core_complete: "core_metas p' a = core_metas p a \<Longrightarrow> complete (metas p' a) = complete (metas p a)"
  by (metis complete_core core_metas_def)

lemma core_live: "core_metas p' a = core_metas p a \<Longrightarrow> live p' a = live p a"
  by (metis Deleted_core core_metas_def live_def)

lemma core_pm: "core_metas p' a = core_metas p a \<Longrightarrow>
    (placerMeta (metas p' a) = None) = (placerMeta (metas p a) = None)"
  by (metis core_None core_metas_def)

lemma vis_advance [simp]: "vis (advance p) a = vis p a"
  by (simp add: vis_def)

lemma vis_to_secondary [simp]: "vis (to_secondary m p) a = vis p a"
  by (simp add: vis_def metas_to_secondary split: option.splits)

lemma vis_unvisit [simp]:
  "vis (upd_pm m (\<lambda>q. q\<lparr>visited := False\<rparr>) p) a = (vis p a \<and> a \<noteq> m)"
  by (auto simp: vis_def upd_defs split: option.splits)

section \<open>Eviction\<close>

definition evict_result :: "int \<Rightarrow> addr \<Rightarrow> addr \<Rightarrow> 'm placer \<Rightarrow> 'm placer" where
  "evict_result now meta m p = p\<lparr>
     metas := (metas p)(m := (metas p m)\<lparr>Deleted := True\<rparr>,
       meta := (metas p meta)\<lparr>placerMeta := map_option (\<lambda>pm. pm\<lparr>
          swapMap := copyPlacement (swapMap pm) (Placement (metas p m)), evicts := Some m,
          pos := (pos pm)(primary p := cursor p), visited := True, visitedAt := now\<rparr>)
          (placerMeta (metas p meta))\<rparr>),
     objects := (objects p)(primary p := (P_of p)[pos_of p meta (primary p) := None, cursor p := Some meta])\<rparr>"

lemma evict_eq:
  assumes "m \<noteq> meta" and "placerMeta (metas p meta) = Some pm"
    and "pos_of p meta (primary p) < length (P_of p)" and "cursor p < length (P_of p)"
  shows "evict now meta m p = Inr (evict_result now meta m p)"
  using assms by (simp add: evict_def evict_result_def upd_defs Let_def pos_of_def fun_upd_twist)

lemma evict_result_fields [simp]:
  "primary (evict_result now meta m p) = primary p" "secondary (evict_result now meta m p) = secondary p"
  "cursor (evict_result now meta m p) = cursor p" "cursorBound (evict_result now meta m p) = cursorBound p"
  "outer (evict_result now meta m p) = outer p"
  "objects (evict_result now meta m p) = (objects p)(primary p :=
     (P_of p)[pos_of p meta (primary p) := None, cursor p := Some meta])"
  by (simp_all add: evict_result_def)

lemma core_metas_evict:
  assumes "m \<noteq> meta"
  shows "core_metas (evict_result now meta m p) = evict_core m meta (core_metas p)"
  using assms
  by (cases "placerMeta (metas p meta)")
     (auto simp: core_metas_def core_def evict_result_def evict_core_def fun_eq_iff
       intro!: Meta.equality PlacerMeta.equality)

lemma live_evict_result: "m \<noteq> meta \<Longrightarrow> live (evict_result now meta m p) a = (live p a \<and> a \<noteq> m)"
  by (auto simp: live_def evict_result_def)

lemma pos_of_evict_result:
  "m \<noteq> meta \<Longrightarrow> placerMeta (metas p meta) \<noteq> None \<Longrightarrow>
   pos_of (evict_result now meta m p) a i =
     (if a = meta \<and> i = primary p then cursor p else pos_of p a i)"
  by (auto simp: pos_of_def evict_result_def split: option.splits)

lemma has_pm_evict_result [simp]:
  "m \<noteq> meta \<Longrightarrow> has_pm (evict_result now meta m p) xs \<longleftrightarrow> has_pm p xs"
  by (auto simp: has_pm_def evict_result_def)

lemma points_to_update_other:
  "points_to xs i a \<Longrightarrow> q \<noteq> i \<Longrightarrow> points_to (xs[q := v]) i a"
  by (simp add: points_to_def)

lemma in_drop_update:
  assumes "Some a \<in> set (drop k xs)" and "xs ! q \<noteq> Some a"
  shows "Some a \<in> set (drop k (xs[q := v]))"
proof -
  obtain j where j: "j < length (drop k xs)" "drop k xs ! j = Some a"
    using assms(1) by (metis in_set_conv_nth)
  then have "drop k (xs[q := v]) ! j = Some a"
    using assms(2) by (cases "q = k + j") auto
  then show ?thesis using j(1) by (metis length_drop length_list_update nth_mem)
qed

lemma iter_at_evict:
  assumes it: "iter_at (cursor p) p" and k: "cursor p < length (P_of p)"
    and m: "P_of p ! cursor p = Some m" "m \<noteq> meta"
    and meta: "live p meta" "placerMeta (metas p meta) \<noteq> None"
  shows "pos_of p meta (primary p) < length (P_of p)"
    and "iter_at (Suc (cursor p)) (to_secondary meta (evict_result now meta m p))"
proof -
  let ?P = "P_of p" and ?q = "pos_of p meta (primary p)" and ?k = "cursor p"
  let ?P' = "?P[?q := None, ?k := Some meta]"
  have "?q = 0 \<or> points_to ?P ?q meta"
    using it meta by (auto simp: iter_at_def)
  then have q: "?P ! ?q = None \<or> ?P ! ?q = Some meta" and ql: "?q < length ?P"
    using it k by (auto simp: iter_at_def points_to_def)
  from ql show "?q < length ?P" .
  have ps: "primary p \<noteq> secondary p" and k1: "1 \<le> ?k" using it by (auto simp: iter_at_def)
  have inP: "Some x \<in> set ?P" if "Some x \<in> set ?P'" "x \<noteq> meta" for x
    using that by (auto dest!: set_update_subset_insert [THEN subsetD])
  have tk: "Some x \<in> set (take ?k ?P)" if h: "Some x \<in> set (take (Suc ?k) ?P')" "x \<noteq> meta" for x
  proof -
    obtain i where i: "i < Suc ?k" "?P' ! i = Some x"
      using h(1) k by (auto simp: in_set_conv_nth)
    then have "i < ?k" and "?P ! i = Some x"
      using h(2) k ql by (auto simp: nth_list_update split: if_splits)
    then show ?thesis using k by (metis in_set_conv_nth length_take min.absorb4 nth_take)
  qed
  have dr: "Some a \<in> set (drop (Suc ?k) (?P[?q := None]))" if "Some a \<in> set (drop ?k ?P)" "a \<noteq> m" "a \<noteq> meta" for a
  proof -
    have "Some a \<in> set (drop (Suc ?k) ?P)"
      using that(1,2) m k by (metis Cons_nth_drop_Suc option.inject set_ConsD)
    then show ?thesis using q that(3) by (intro in_drop_update) auto
  qed
  have pt: "points_to ?P' i a" if "points_to ?P i a" "a \<noteq> m" "a \<noteq> meta" for i a
  proof -
    have "i \<noteq> ?q" and "i \<noteq> ?k" using that m q by (auto simp: points_to_def)
    then show ?thesis using that(1) by (simp add: points_to_def)
  qed
  have p0: "?P' ! 0 = None" using it k1 ql by (cases "?q = 0") (auto simp: iter_at_def)
  have pk: "points_to ?P' ?k meta" using k by (simp add: points_to_def)
  have hp: "has_pm p ?P'" "has_pm p [Some meta]"
    using it meta(2) inP by (auto simp: has_pm_def iter_at_def)
  have pme: "placerMeta (metas (evict_result now meta m p) meta) \<noteq> None"
    using has_pm_evict_result [OF m(2), of now p "[Some meta]"] hp(2) by (simp add: has_pm_single)
  show "iter_at (Suc ?k) (to_secondary meta (evict_result now meta m p))"
    using it k k1 ps meta m(2) hp pme p0 pk unfolding iter_at_def
    by (auto simp: live_evict_result pos_of_to_secondary pos_of_evict_result
        nth_append intro: pt points_to_append dest: tk dr split: if_splits)
qed


section \<open>One pass of the clock\<close>

definition scan_post :: "addr \<Rightarrow> addr option list \<Rightarrow> 'm placer \<Rightarrow> bool \<Rightarrow> 'm placer \<Rightarrow> bool" where
  "scan_post meta xs p b p' \<longleftrightarrow>
     primary p' = primary p \<and> secondary p' = secondary p \<and> cursorBound p' = cursorBound p \<and>
     outer p' = outer p \<and> iter_at (cursor p') p' \<and> cursor p' \<le> cursorBound p' \<and>
     length (P_of p') = length (P_of p) \<and> arrs p' \<subseteq> {None, Some meta} \<union> arrs p \<and>
     (\<not> b \<longrightarrow> cursor p' = cursorBound p \<and> P_of p' = P_of p \<and> core_metas p' = core_metas p \<and>
        (\<forall>a. vis p' a \<longleftrightarrow> vis p a \<and> \<not> (Some a \<in> set xs \<and> a \<noteq> meta \<and> complete (metas p a))) \<and>
        (\<forall>a. Some a \<in> set xs \<and> a \<noteq> meta \<longrightarrow> vis p a) \<and>
        set (S_of p') \<subseteq> set (S_of p) \<union> set xs) \<and>
     (b \<longrightarrow> (\<exists>m. m \<noteq> meta \<and> Some m \<in> set xs \<and> (vis p m \<longrightarrow> complete (metas p m)) \<and>
        core_metas p' = evict_core m meta (core_metas p)))"

lemma scan_post_step:
  assumes "scan_post meta xs p1 b p'"
    and "primary p1 = primary p" "secondary p1 = secondary p" "cursorBound p1 = cursorBound p"
    and "outer p1 = outer p" "P_of p1 = P_of p" "core_metas p1 = core_metas p"
    and vis1: "\<And>a. vis p1 a \<longleftrightarrow> vis p a \<and> \<not> (x = Some a \<and> a \<noteq> meta \<and> complete (metas p a))"
    and vis2: "\<And>a. x = Some a \<Longrightarrow> a \<noteq> meta \<Longrightarrow> vis p a"
    and sub: "set (S_of p1) \<subseteq> insert x (set (S_of p))" and x: "x \<in> arrs p"
  shows "scan_post meta (x # xs) p b p'"
proof -
  have c: "complete (metas p1 a) = complete (metas p a)" for a
    using assms(7) by (intro core_complete) simp
  have "arrs p1 \<subseteq> arrs p" using sub x assms(6) by (auto simp: arrs_def)
  then have ar: "arrs p' \<subseteq> {None, Some meta} \<union> arrs p" using assms(1) by (auto simp: scan_post_def)
  show ?thesis
  proof (cases b)
    case True
    with assms(1) obtain m where m: "m \<noteq> meta" "Some m \<in> set xs"
        "vis p1 m \<longrightarrow> complete (metas p1 m)" "core_metas p' = evict_core m meta (core_metas p1)"
      unfolding scan_post_def by blast
    have "m \<noteq> meta \<and> Some m \<in> set (x # xs) \<and> (vis p m \<longrightarrow> complete (metas p m)) \<and>
        core_metas p' = evict_core m meta (core_metas p)"
      using m vis1 c assms(7) by auto
    then show ?thesis using assms(1-6) True ar unfolding scan_post_def by auto
  next
    case False
    then show ?thesis using assms(1-7) vis1 vis2 c sub ar unfolding scan_post_def by auto
  qed
qed

lemma vis_Some: "placerMeta (metas p a) = Some pm \<Longrightarrow> vis p a = visited pm"
  by (simp add: vis_def)

lemma complete_Some: "placerMeta m = Some pm \<Longrightarrow> complete m = allConfirmed pm"
  by (simp add: complete_def)

lemma drop_take_Cons:
  assumes "x # xs = drop k (take n ys)"
  shows "k < n \<and> k < length ys \<and> ys ! k = x \<and> xs = drop (Suc k) (take n ys)"
proof -
  have "k < length (take n ys)"
    using assms by (metis drop_eq_Nil list.distinct(1) not_le)
  then show ?thesis
    using assms by (metis Cons_nth_drop_Suc list.inject length_take min_less_iff_conj nth_take)
qed

definition scan_pre :: "addr \<Rightarrow> addr option list \<Rightarrow> 'm placer \<Rightarrow> bool" where
  "scan_pre meta xs p \<longleftrightarrow>
     iter_at (cursor p) p \<and> cursor p \<le> cursorBound p \<and> cursorBound p \<le> length (P_of p) \<and>
     xs = drop (cursor p) (take (cursorBound p) (P_of p)) \<and>
     live p meta \<and> placerMeta (metas p meta) \<noteq> None"

lemma scan_pre_Cons:
  assumes "scan_pre meta (x # xs) p"
  shows "cursor p < cursorBound p" "cursor p < length (P_of p)" "P_of p ! cursor p = x"
    "xs = drop (Suc (cursor p)) (take (cursorBound p) (P_of p))" "primary p \<noteq> secondary p"
    "x = Some m \<Longrightarrow> placerMeta (metas p m) \<noteq> None" "x \<in> arrs p"
  using assms drop_take_Cons [of x xs "cursor p" "cursorBound p" "P_of p"] nth_mem [of "cursor p" "P_of p"]
  by (auto simp: scan_pre_def iter_at_def has_pm_def arrs_def)

lemma scan_pre_skip: "scan_pre meta (None # xs) p \<Longrightarrow> scan_pre meta xs (advance p)"
  using scan_pre_Cons [of meta None xs p] iter_at_skip [of "cursor p" p]
  by (simp add: scan_pre_def live_def)

text \<open>
  The state the scan moves on with after slot \<open>Some m\<close>: \<open>q\<close> is either unchanged or has the
  reference bit of a complete object cleared.
\<close>

definition passed :: "addr \<Rightarrow> addr \<Rightarrow> 'm placer \<Rightarrow> 'm placer \<Rightarrow> bool" where
  "passed meta m p q \<longleftrightarrow>
     (q = p \<and> (m = meta \<or> vis p m \<and> \<not> complete (metas p m))) \<or>
     (q = upd_pm m (\<lambda>z. z\<lparr>visited := False\<rparr>) p \<and> vis p m \<and> complete (metas p m) \<and> m \<noteq> meta)"

lemma passed_fields:
  assumes "passed meta m p q"
  shows "primary q = primary p" "secondary q = secondary p" "cursor q = cursor p"
    "cursorBound q = cursorBound p" "objects q = objects p" "outer q = outer p"
    "core_metas q = core_metas p" "iter_at k q = iter_at k p"
  using assms by (auto simp: passed_def iter_at_upd_pm pos_neutral_def)

lemma scan_pre_forward:
  assumes "scan_pre meta (Some m # xs) p" and "passed meta m p q"
  shows "scan_pre meta xs (advance (to_secondary m q))"
proof -
  note f = passed_fields [OF assms(2)] and c = scan_pre_Cons [OF assms(1)]
  have "iter_at (Suc (cursor p)) (to_secondary m q)"
    using assms(1) c f by (intro iter_at_to_secondary) (auto simp: scan_pre_def)
  moreover have "live q meta" "placerMeta (metas q meta) \<noteq> None"
    using assms(1) core_live [of q meta p] core_pm [of q meta p] f(7) by (auto simp: scan_pre_def)
  ultimately show ?thesis
    using assms(1) c f by (auto simp: scan_pre_def live_def metas_to_secondary)
qed

lemma scan_post_forward:
  assumes "scan_pre meta (Some m # xs) p" and "passed meta m p q"
    and "scan_post meta xs (advance (to_secondary m q)) b p'"
  shows "scan_post meta (Some m # xs) p b p'"
  by (rule scan_post_step [OF assms(3)])
     (use passed_fields [OF assms(2)] assms(2) scan_pre_Cons(5,7) [OF assms(1)] in
        \<open>auto simp: passed_def\<close>)

lemma scan_found:
  assumes "scan_pre meta (Some m # xs) p" and "m \<noteq> meta" and "\<not> vis p m"
  shows "evict now meta m p = Inr (evict_result now meta m p)"
    and "scan_post meta (Some m # xs) p True (advance (to_secondary meta (evict_result now meta m p)))"
proof -
  note c = scan_pre_Cons [OF assms(1)]
  have it: "iter_at (cursor p) p" and meta: "live p meta" "placerMeta (metas p meta) \<noteq> None"
    using assms(1) by (auto simp: scan_pre_def)
  note ev = iter_at_evict(1) [OF it c(2,3) assms(2) meta] iter_at_evict(2) [OF it c(2,3) assms(2) meta, of now]
  show "evict now meta m p = Inr (evict_result now meta m p)"
    using evict_eq [OF assms(2)] meta ev(1) c(2) by blast
  show "scan_post meta (Some m # xs) p True (advance (to_secondary meta (evict_result now meta m p)))"
    using ev c assms(2,3) core_metas_evict [OF assms(2), of now p]
      set_update_subset_insert [of "(P_of p)[pos_of p meta (primary p) := None]" "cursor p" "Some meta"]
      set_update_subset_insert [of "P_of p" "pos_of p meta (primary p)" None]
    by (auto simp: scan_post_def arrs_def intro!: exI [of _ m])
qed

lemma scan_ok:
  "scan_pre meta xs p \<Longrightarrow> \<exists>b p'. scan now meta xs p = Inr (b, p') \<and> scan_post meta xs p b p'"
proof (induction xs arbitrary: p)
  case Nil
  then have "cursor p = cursorBound p" by (auto simp: scan_pre_def)
  with Nil have "scan_post meta [] p False p" by (auto simp: scan_post_def scan_pre_def)
  then show ?case by (intro exI [of _ False] exI [of _ p]) simp
next
  case (Cons x xs)
  show ?case
  proof (cases x)
    case None
    with Cons.prems have "scan_pre meta xs (advance p)" by (simp add: scan_pre_skip)
    then obtain b p' where r: "scan now meta xs (advance p) = Inr (b, p')" "scan_post meta xs (advance p) b p'"
      using Cons.IH by blast
    have "scan_post meta (None # xs) p b p'"
      by (rule scan_post_step [OF r(2)]) (use scan_pre_Cons(7) [OF Cons.prems] None in auto)
    then show ?thesis using None r(1) by auto
  next
    case (Some m)
    note pre = Cons.prems [unfolded Some]
    obtain pm where pm: "placerMeta (metas p m) = Some pm"
      using scan_pre_Cons(6) [OF pre] by blast
    have fwd: "\<exists>b p'. scan now meta xs (advance (to_secondary m q)) = Inr (b, p') \<and>
          scan_post meta (Some m # xs) p b p'" if "passed meta m p q" for q
      using Cons.IH [OF scan_pre_forward [OF pre that]] scan_post_forward [OF pre that] by blast
    show ?thesis
    proof (cases "m \<noteq> meta \<and> \<not> visited pm")
      case True
      then show ?thesis using scan_found [OF pre] Some pm vis_Some [OF pm]
        by (intro exI [of _ True]) simp
    next
      case False
      then show ?thesis
        using fwd [of p] fwd [of "upd_pm m (\<lambda>z. z\<lparr>visited := False\<rparr>) p"] Some pm
        by (auto simp: passed_def vis_Some complete_Some)
    qed
  qed
qed

section \<open>Compaction and the end of an iteration\<close>

lemma compact_ok:
  assumes "iter_at k p" and "xs = drop k (P_of p)"
  shows "\<exists>p'. compact xs p = Inr p' \<and> iter_at (length (P_of p)) p' \<and> primary p' = primary p \<and>
     secondary p' = secondary p \<and> P_of p' = P_of p \<and> outer p' = outer p \<and>
     core_metas p' = core_metas p \<and> vis p' = vis p \<and> set (S_of p') \<subseteq> set (S_of p) \<union> set xs"
  using assms
proof (induction xs arbitrary: p k)
  case Nil
  then have "k = length (P_of p)" by (simp add: iter_at_def)
  with Nil show ?case by simp
next
  case (Cons x xs)
  have k: "k < length (P_of p)" "P_of p ! k = x" "xs = drop (Suc k) (P_of p)"
    using Cons.prems(2) by (metis drop_eq_Nil list.distinct(1) not_le,
        metis Cons_nth_drop_Suc drop_eq_Nil list.distinct(1) list.inject not_le,
        metis Cons_nth_drop_Suc drop_eq_Nil list.distinct(1) list.inject not_le)
  have ps: "primary p \<noteq> secondary p" using Cons.prems(1) by (simp add: iter_at_def)
  show ?case
  proof (cases x)
    case None
    have "\<exists>p'. compact xs p = Inr p' \<and> iter_at (length (P_of p)) p' \<and> primary p' = primary p \<and>
     secondary p' = secondary p \<and> P_of p' = P_of p \<and> outer p' = outer p \<and>
     core_metas p' = core_metas p \<and> vis p' = vis p \<and> set (S_of p') \<subseteq> set (S_of p) \<union> set xs"
      using Cons.IH [OF iter_at_skip [OF Cons.prems(1) k(1)]] k None by simp
    then show ?thesis using None by auto
  next
    case (Some m)
    have "placerMeta (metas p m) \<noteq> None"
      using Cons.prems(1) k Some nth_mem [OF k(1)] by (auto simp: iter_at_def has_pm_def)
    then show ?thesis
      using Cons.IH [OF iter_at_to_secondary [OF Cons.prems(1) k(1)], of m] k Some ps
      by (auto simp: fun_eq_iff)
  qed
qed

lemma rest_inv_switch:
  assumes "iter_at (length (P_of p)) p"
  shows "rest_inv (switch_arrays p)"
    and "\<And>m. Some m \<in> set (P_of p) \<Longrightarrow> Some m \<in> set (P_of (switch_arrays p))"
proof -
  have 1: "Some m \<in> set (P_of p) \<Longrightarrow> Some m \<in> set (S_of p)" for m
    using assms by (auto simp: iter_at_def)
  then show "\<And>m. Some m \<in> set (P_of p) \<Longrightarrow> Some m \<in> set (P_of (switch_arrays p))"
    by (simp add: switch_arrays_def)
  show "rest_inv (switch_arrays p)"
    using assms 1 nth_mem
    by (fastforce simp: rest_inv_def iter_at_def switch_arrays_def has_pm_def live_def pos_of_def points_to_def)
qed


section \<open>\<open>NextAvailableObject\<close>\<close>

text \<open>The slots the clock still reads: those at or after the cursor, and those already copied.\<close>

definition remaining :: "'m placer \<Rightarrow> addr option set" where
  "remaining p =
     (if cursor p = 0 then set (P_of p) else set (drop (cursor p) (P_of p)) \<union> set (S_of p))"

lemma remaining_sub_arrs: "remaining p \<subseteq> arrs p"
  by (auto simp: remaining_def arrs_def dest: in_set_dropD)

definition next_post :: "addr \<Rightarrow> 'm placer \<Rightarrow> bool \<Rightarrow> 'm placer \<Rightarrow> bool" where
  "next_post meta p b p' \<longleftrightarrow>
     clock_inv p' \<and> outer p' = outer p \<and> arrs p' \<subseteq> {None, Some meta} \<union> arrs p \<and>
     (b \<longrightarrow> (\<exists>m. m \<noteq> meta \<and> Some m \<in> remaining p \<and> (vis p m \<longrightarrow> complete (metas p m)) \<and>
        core_metas p' = evict_core m meta (core_metas p))) \<and>
     (\<not> b \<longrightarrow> cursor p' = 0 \<and> core_metas p' = core_metas p \<and>
        (\<forall>m. Some m \<in> set (P_of p) \<longrightarrow> Some m \<in> set (P_of p')) \<and>
        set (P_of p') \<subseteq> insert None (remaining p) \<and>
        (\<forall>a. vis p' a \<longrightarrow> vis p a) \<and> (\<forall>a. vis p a \<and> \<not> vis p' a \<longrightarrow> complete (metas p a)) \<and>
        (cursor p = 0 \<longrightarrow> set (P_of p') \<subseteq> insert None (set (P_of p)) \<and>
           (\<forall>a. Some a \<in> set (P_of p) \<and> a \<noteq> meta \<longrightarrow>
              vis p a \<and> (complete (metas p a) \<longrightarrow> \<not> vis p' a))))"

lemma pos_of_cong: "metas p = metas q \<Longrightarrow> pos_of p a i = pos_of q a i"
  by (simp add: pos_of_def)

lemma start_iteration_ok:
  assumes "clock_inv p"
  shows "let q = start_iteration p in iter_at (cursor q) q \<and> cursor q \<le> cursorBound q \<and>
     cursorBound q \<le> length (P_of q) \<and> primary q = primary p \<and> secondary q = secondary p \<and>
     P_of q = P_of p \<and> metas q = metas p \<and> outer q = outer p \<and>
     set (drop (cursor q) (P_of p)) \<union> set (S_of q) \<subseteq> insert None (remaining p) \<and>
     set (S_of q) \<subseteq> insert None (set (S_of p)) \<and>
     (cursor p = 0 \<longrightarrow> cursor q = 1 \<and> cursorBound q = length (P_of p) \<and> S_of q = [None])"
proof (cases "cursor p = 0")
  case True
  then have r: "rest_inv p" using assms by (simp add: clock_inv_def)
  have d1: "Some a \<in> set (drop 1 (P_of p))" if "Some a \<in> set (P_of p)" for a
    using that r by (cases "P_of p") (auto simp: rest_inv_def)
  have S: "(if S_of p = [] then [None] else take 1 (S_of p)) = [None]"
    using r by (cases "S_of p") (auto simp: rest_inv_def)
  have "start_iteration p = p\<lparr>objects := (objects p)(secondary p := [None]),
      cursorBound := length (P_of p), cursor := 1\<rparr>"
    using True S by (simp add: start_iteration_def)
  moreover have "1 \<le> length (P_of p)" using r by (cases "P_of p") (auto simp: rest_inv_def)
  moreover have "take 1 (P_of p) = [None]" using r by (cases "P_of p") (auto simp: rest_inv_def)
  moreover have "pos_of (p\<lparr>objects := ob, cursorBound := k, cursor := c\<rparr>) a i = pos_of p a i" for ob k c a i
    by (rule pos_of_cong) simp
  ultimately show ?thesis
    using r d1 by (auto simp: iter_at_def rest_inv_def has_pm_def live_def outer_def True Let_def remaining_def dest: in_set_dropD)
next
  case False
  then show ?thesis using assms by (auto simp: clock_inv_def start_iteration_def Let_def remaining_def)
qed

lemma core_metas_eqI: "metas p = metas q \<Longrightarrow> core_metas p = core_metas q"
  by (simp add: core_metas_def fun_eq_iff)

lemma vis_eqI: "metas p = metas q \<Longrightarrow> vis p = vis q"
  by (simp add: vis_def fun_eq_iff)

lemma switch_arrays_fields [simp]:
  "metas (switch_arrays p) = metas p" "outer (switch_arrays p) = outer p"
  "cursor (switch_arrays p) = 0" "P_of (switch_arrays p) = S_of p"
  by (simp_all add: switch_arrays_def outer_def)

lemma NextAvailableObject_not_found:
  assumes "clock_inv p" and "scan_post meta xs (start_iteration p) False p1"
    and "xs = drop (cursor (start_iteration p)) (take (cursorBound (start_iteration p)) (P_of (start_iteration p)))"
  shows "\<exists>p2. (if cursor p1 < length (P_of p1) then compact (drop (cursor p1) (P_of p1)) p1 else Inr p1) = Inr p2 \<and>
     next_post meta p False (switch_arrays p2)"
proof -
  let ?q = "start_iteration p"
  note q = start_iteration_ok [OF assms(1), unfolded Let_def]
  note s = assms(2) [unfolded scan_post_def]
  have P1: "P_of p1 = P_of p" using s q by metis
  obtain p2 where p2: "compact (drop (cursor p1) (P_of p1)) p1 = Inr p2"
      and it: "iter_at (length (P_of p1)) p2" and f: "P_of p2 = P_of p1" "outer p2 = outer p1"
      "core_metas p2 = core_metas p1" "vis p2 = vis p1" "set (S_of p2) \<subseteq> set (S_of p1) \<union> set (drop (cursor p1) (P_of p1))"
    using compact_ok [OF _ refl, of "cursor p1" p1] s unfolding scan_post_def by metis
  have c: "(if cursor p1 < length (P_of p1) then compact (drop (cursor p1) (P_of p1)) p1 else Inr p1) = Inr p2"
    using p2 by auto
  note sw = rest_inv_switch [of p2, unfolded f(1), OF it]
  have core: "core_metas (switch_arrays p2) = core_metas p"
    using core_metas_eqI [of "switch_arrays p2" p2] core_metas_eqI [of ?q p] f s q by simp
  have v: "vis (switch_arrays p2) = vis p1" "vis ?q = vis p"
    using vis_eqI [of "switch_arrays p2" p2] vis_eqI [of ?q p] f q by simp_all
  have rest: "set (P_of (switch_arrays p2)) \<subseteq> insert None (set (P_of p)) \<and>
      (\<forall>a. Some a \<in> set (P_of p) \<and> a \<noteq> meta \<longrightarrow> vis p a \<and> (complete (metas p a) \<longrightarrow> \<not> vis (switch_arrays p2) a))"
    if "cursor p = 0"
  proof -
    have xs: "xs = drop 1 (P_of p)" and S: "S_of ?q = [None]" using q that assms(3) by auto
    have d1: "Some a \<in> set (drop 1 (P_of p))" if "Some a \<in> set (P_of p)" for a
      using that assms(1) \<open>cursor p = 0\<close> by (cases "P_of p") (auto simp: clock_inv_def rest_inv_def)
    have "set (S_of p1) \<subseteq> insert None (set (drop 1 (P_of p)))" using s xs S by auto
    then have "set (S_of p2) \<subseteq> insert None (set (drop 1 (P_of p))) \<union> set (drop (cursor p1) (P_of p))"
      using f(5) unfolding P1 by blast
    then have "set (S_of p2) \<subseteq> insert None (set (P_of p))"
      using set_drop_subset [of 1 "P_of p"] set_drop_subset [of "cursor p1" "P_of p"] by blast
    moreover have "vis p a \<and> (complete (metas p a) \<longrightarrow> \<not> vis p1 a)" if "Some a \<in> set (P_of p)" "a \<noteq> meta" for a
    proof -
      have "Some a \<in> set xs" using d1 that(1) xs by blast
      moreover have "metas ?q = metas p" using q by blast
      ultimately show ?thesis using s v(2) that(2) by auto
    qed
    ultimately show ?thesis using v f(4) by auto
  qed
  have "set (S_of p1) \<subseteq> set (S_of ?q) \<union> set xs" using s by blast
  moreover have "set xs \<subseteq> set (drop (cursor ?q) (P_of p))"
    using q assms(3) by (metis drop_take set_take_subset)
  moreover have "set (drop (cursor p1) (P_of p)) \<subseteq> set (drop (cursor ?q) (P_of p))"
    using s q by (intro set_drop_subset_set_drop) auto
  moreover have "set (drop (cursor ?q) (P_of p)) \<union> set (S_of ?q) \<subseteq> insert None (remaining p)" using q by blast
  ultimately have sub: "set (P_of (switch_arrays p2)) \<subseteq> insert None (remaining p)"
    using f(5) unfolding P1 switch_arrays_fields by blast
  have "S_of (switch_arrays p2) = P_of p" using f P1 by (simp add: switch_arrays_def)
  with sub have ar: "arrs (switch_arrays p2) \<subseteq> {None, Some meta} \<union> arrs p"
    using remaining_sub_arrs [of p] by (auto simp: arrs_def)
  have "next_post meta p False (switch_arrays p2)"
    using sw ar core rest sub s v f q P1 by (auto simp: next_post_def clock_inv_def)
  with c show ?thesis by blast
qed

lemma NextAvailableObject_ok:
  assumes "clock_inv p" and "live p meta" and "placerMeta (metas p meta) \<noteq> None"
  shows "\<exists>b p'. NextAvailableObject now meta p = Inr (b, p') \<and> next_post meta p b p'"
proof -
  let ?q = "start_iteration p"
  let ?xs = "drop (cursor ?q) (take (cursorBound ?q) (P_of ?q))"
  note q = start_iteration_ok [OF assms(1), unfolded Let_def]
  have "scan_pre meta ?xs ?q"
    using q assms(2,3) unfolding scan_pre_def live_def by metis
  then obtain b p1 where r: "scan now meta ?xs ?q = Inr (b, p1)" "scan_post meta ?xs ?q b p1"
    using scan_ok by blast
  have g: "cursor ?q \<le> cursorBound ?q \<and> cursorBound ?q \<le> length (P_of ?q)" using q by blast
  show ?thesis
  proof (cases b)
    case True
    have "NextAvailableObject now meta p = Inr (True, p1)"
      using g r True by (simp add: NextAvailableObject_def Let_def)
    moreover have "set ?xs \<subseteq> set (drop (cursor ?q) (P_of p))"
      using q by (metis drop_take set_take_subset)
    then have "set ?xs \<subseteq> insert None (remaining p)" using q by blast
    moreover have "arrs ?q \<subseteq> insert None (arrs p)" using q by (auto simp: arrs_def)
    moreover have "vis ?q = vis p" "core_metas ?q = core_metas p"
      using q vis_eqI core_metas_eqI by blast+
    ultimately have "next_post meta p True p1"
      using r(2) True q by (auto simp: next_post_def scan_post_def clock_inv_def iter_at_def [of 0])
    with \<open>NextAvailableObject now meta p = Inr (True, p1)\<close> show ?thesis by blast
  next
    case False
    then obtain p2 where "(if cursor p1 < length (P_of p1) then compact (drop (cursor p1) (P_of p1)) p1 else Inr p1) = Inr p2"
        "next_post meta p False (switch_arrays p2)"
      using NextAvailableObject_not_found [OF assms(1), of meta ?xs p1] r(2) by auto
    then show ?thesis using g r False
      by (intro exI [of _ False] exI [of _ "switch_arrays p2"]) (simp add: NextAvailableObject_def Let_def)
  qed
qed

end
