(* ===== verification/Eviction.thy ===== *)
theory Eviction
  imports PlacerInv
begin

text \<open>
  The loop \<open>for !p.NextAvailableObject(meta)\<close> of \<open>GetOrInsert\<close>: when it returns, with what, and
  when it does not.
\<close>

definition evictable :: "addr \<Rightarrow> 'm placer \<Rightarrow> addr \<Rightarrow> bool" where
  "evictable meta p m \<longleftrightarrow> m \<noteq> meta \<and> (vis p m \<longrightarrow> complete (metas p m))"

definition ready :: "addr \<Rightarrow> 'm placer \<Rightarrow> bool" where
  "ready meta p \<longleftrightarrow> clock_inv p \<and> live p meta \<and> placerMeta (metas p meta) \<noteq> None"

text \<open>The effect of the loop: exactly one evictable object the clock still reads is marked deleted.\<close>

definition evicted_one :: "addr \<Rightarrow> 'm placer \<Rightarrow> 'm placer \<Rightarrow> bool" where
  "evicted_one meta p p' \<longleftrightarrow>
     clock_inv p' \<and> outer p' = outer p \<and> arrs p' \<subseteq> {None, Some meta} \<union> arrs p \<and>
     (\<exists>m. Some m \<in> remaining p \<and> evictable meta p m \<and> core_metas p' = evict_core m meta (core_metas p))"

lemma ready_next:
  assumes "ready meta p"
  obtains b p' where "NextAvailableObject now meta p = Inr (b, p')" "next_post meta p b p'"
  using assms NextAvailableObject_ok unfolding ready_def by blast

lemma next_post_not_found:
  assumes "ready meta p" and "next_post meta p False p'"
  shows "ready meta p'" "cursor p' = 0" "core_metas p' = core_metas p"
    "evictable meta p' m \<Longrightarrow> evictable meta p m"
    "Some m \<in> set (P_of p) \<Longrightarrow> Some m \<in> set (P_of p')"
    "set (P_of p') \<subseteq> insert None (remaining p)"
    "outer p' = outer p" "arrs p' \<subseteq> {None, Some meta} \<union> arrs p"
proof -
  have core: "core_metas p' = core_metas p" using assms(2) by (simp add: next_post_def)
  then have c: "complete (metas p' a) = complete (metas p a)" for a
    by (intro core_complete) simp
  show "ready meta p'"
    using assms core_live [of p' meta p] core_pm [of p' meta p] core
    by (auto simp: ready_def next_post_def)
  show "evictable meta p' m \<Longrightarrow> evictable meta p m"
    using assms(2) c by (auto simp: evictable_def next_post_def)
qed (use assms in \<open>auto simp: next_post_def\<close>)

lemma evicted_one_found:
  "next_post meta p True p' \<Longrightarrow> evicted_one meta p p'"
  by (auto simp: next_post_def evicted_one_def evictable_def)

lemma evicted_one_before:
  assumes "ready meta p" "next_post meta p False q" "evicted_one meta q p'"
  shows "evicted_one meta p p'"
proof -
  note f = next_post_not_found [OF assms(1,2)]
  obtain m where m: "Some m \<in> remaining q" "evictable meta q m" "core_metas p' = evict_core m meta (core_metas q)"
    using assms(3) by (auto simp: evicted_one_def)
  then have "Some m \<in> remaining p" "evictable meta p m"
    using f(2,4,6) by (auto simp: remaining_def [of q])
  then show ?thesis
    using assms(3) m(3) f(3,7,8) by (auto simp: evicted_one_def)
qed

lemma evict_loop_found:
  "NextAvailableObject now meta p = Inr (True, p') \<Longrightarrow> evict_loop now meta p = Some (Inr p')"
  by (simp add: evict_loop.simps)

lemma evict_loop_again:
  "NextAvailableObject now meta p = Inr (False, p') \<Longrightarrow> evict_loop now meta p = evict_loop now meta p'"
  by (subst evict_loop.simps) simp

lemma next_post_rest:
  assumes "next_post meta p False p'" "cursor p = 0"
  shows "set (P_of p') \<subseteq> insert None (set (P_of p))"
    and "Some a \<in> set (P_of p) \<Longrightarrow> a \<noteq> meta \<Longrightarrow> vis p a \<and> (complete (metas p a) \<longrightarrow> \<not> vis p' a)"
  using assms unfolding next_post_def by blast+

text \<open>
  An unreferenced object in the primary array is found by the next complete iteration, a complete
  one by the second iteration at the latest.
\<close>

lemma evict_loop_unreferenced:
  assumes "ready meta p" "cursor p = 0" "Some m \<in> set (P_of p)" "m \<noteq> meta" "\<not> vis p m"
  shows "\<exists>p'. evict_loop now meta p = Some (Inr p') \<and> evicted_one meta p p'"
proof -
  obtain b p' where r: "NextAvailableObject now meta p = Inr (b, p')" "next_post meta p b p'"
    using ready_next [OF assms(1)] .
  show ?thesis
  proof (cases b)
    case True
    then show ?thesis
      using r evict_loop_found [of now meta p p'] evicted_one_found [of meta p p'] by auto
  next
    case False
    then have "next_post meta p False p'" using r(2) by simp
    then show ?thesis using next_post_rest(2) [of meta p p' m] assms by blast
  qed
qed

lemma evict_loop_at_rest:
  assumes "ready meta p" "cursor p = 0" "Some m \<in> set (P_of p)" "evictable meta p m"
  shows "\<exists>p'. evict_loop now meta p = Some (Inr p') \<and> evicted_one meta p p'"
proof -
  obtain b q where r: "NextAvailableObject now meta p = Inr (b, q)" "next_post meta p b q"
    using ready_next [OF assms(1)] .
  show ?thesis
  proof (cases b)
    case True
    then show ?thesis
      using r evict_loop_found [of now meta p q] evicted_one_found [of meta p q] by auto
  next
    case False
    then have n: "next_post meta p False q" using r(2) by simp
    note f = next_post_not_found [OF assms(1) n]
    have mm: "m \<noteq> meta" "\<not> vis q m"
      using next_post_rest(2) [OF n assms(2,3)] assms(4) by (auto simp: evictable_def)
    obtain p' where p': "evict_loop now meta q = Some (Inr p')" "evicted_one meta q p'"
      using evict_loop_unreferenced [OF f(1,2) f(5) [OF assms(3)] mm] by blast
    moreover have "evict_loop now meta p = evict_loop now meta q"
      using r(1) False by (intro evict_loop_again) simp
    ultimately show ?thesis
      using evicted_one_before [OF assms(1) n p'(2)] by auto
  qed
qed

theorem evict_loop_returns:
  assumes "ready meta p" "Some m \<in> set (P_of p)" "evictable meta p m"
  shows "\<exists>p'. evict_loop now meta p = Some (Inr p') \<and>
     evicted_one meta p p'"
proof -
  obtain b q where r: "NextAvailableObject now meta p = Inr (b, q)" "next_post meta p b q"
    using ready_next [OF assms(1)] .
  show ?thesis
  proof (cases b)
    case True
    then show ?thesis
      using r evict_loop_found [of now meta p q] evicted_one_found [of meta p q]
      by (auto simp: evicted_one_def arrs_def)
  next
    case False
    then have n: "next_post meta p False q" using r(2) by simp
    note f = next_post_not_found [OF assms(1) n]
    have c: "complete (metas q m) = complete (metas p m)" using f(3) by (intro core_complete) simp
    have "evictable meta q m"
      using assms(3) n c by (auto simp: evictable_def next_post_def)
    then obtain p' where p': "evict_loop now meta q = Some (Inr p')" "evicted_one meta q p'"
      using evict_loop_at_rest [OF f(1,2) f(5) [OF assms(2)]] by blast
    moreover have "evict_loop now meta p = evict_loop now meta q"
      using r(1) False by (intro evict_loop_again) simp
    ultimately show ?thesis
      using evicted_one_before [OF assms(1) n p'(2)] by auto
  qed
qed

text \<open>
  With no evictable object in the arrays, every call of \<open>NextAvailableObject\<close> reports false and
  leaves such a state behind: the loop does not return.
\<close>

definition hopeless :: "addr \<Rightarrow> 'm placer \<Rightarrow> bool" where
  "hopeless meta p \<longleftrightarrow> ready meta p \<and> cursor p = 0 \<and> (\<forall>m. Some m \<in> set (P_of p) \<longrightarrow> \<not> evictable meta p m)"

lemma hopeless_next:
  assumes "hopeless meta p"
  shows "\<exists>p'. NextAvailableObject now meta p = Inr (False, p') \<and> hopeless meta p'"
proof -
  have h: "ready meta p" "cursor p = 0" "\<And>m. Some m \<in> set (P_of p) \<Longrightarrow> \<not> evictable meta p m"
    using assms by (auto simp: hopeless_def)
  obtain b q where r: "NextAvailableObject now meta p = Inr (b, q)" "next_post meta p b q"
    using ready_next [OF h(1)] .
  have nb: "\<not> b"
    using r(2) evicted_one_found [of meta p q] h(2,3) by (auto simp: evicted_one_def remaining_def)
  then have n: "next_post meta p False q" using r(2) by simp
  have "\<not> evictable meta q m" if "Some m \<in> set (P_of q)" for m
    using that next_post_rest(1) [OF n h(2)] next_post_not_found(4) [OF h(1) n] h(3) by blast
  then show ?thesis
    using r(1) nb next_post_not_found(1,2) [OF h(1) n] by (auto simp: hopeless_def)
qed

lemma hopeless_no_result:
  assumes "evict_loop now meta p = Some r"
  shows "\<not> hopeless meta p"
proof (rule evict_loop.raw_induct [of "\<lambda>_ meta p _. \<not> hopeless meta p", OF _ assms])
  fix evl now meta p r
  assume IH: "\<And>now meta p r. evl now meta p = Some r \<Longrightarrow> \<not> hopeless meta p"
    and run: "(case NextAvailableObject now meta p of Inl e \<Rightarrow> Some (Inl e)
      | Inr r \<Rightarrow> if fst r then Some (Inr (snd r)) else evl now meta (snd r)) = Some r"
  show "\<not> hopeless meta p"
  proof
    assume "hopeless meta p"
    then obtain q where "NextAvailableObject now meta p = Inr (False, q)" "hopeless meta q"
      using hopeless_next by blast
    then show False using IH [of now meta q] run by auto
  qed
qed

theorem evict_loop_hangs: "hopeless meta p \<Longrightarrow> evict_loop now meta p = None"
  using hopeless_no_result by (cases "evict_loop now meta p") blast+

text \<open>The loop never panics: it returns after one eviction or runs forever.\<close>

theorem evict_loop_cases:
  assumes "ready meta p"
  shows "evict_loop now meta p = None \<or>
     (\<exists>p'. evict_loop now meta p = Some (Inr p') \<and> evicted_one meta p p')"
proof -
  have rest: "evict_loop now meta q = None \<or>
     (\<exists>p'. evict_loop now meta q = Some (Inr p') \<and> evicted_one meta q p')"
    if "ready meta q" "cursor q = 0" for q :: "'a placer"
    using that evict_loop_at_rest evict_loop_hangs by (metis hopeless_def)
  obtain b q where r: "NextAvailableObject now meta p = Inr (b, q)" "next_post meta p b q"
    using ready_next [OF assms(1)] .
  show ?thesis
  proof (cases b)
    case True
    then show ?thesis
      using r evict_loop_found [of now meta p q] evicted_one_found [of meta p q]
      by (auto simp: evicted_one_def arrs_def)
  next
    case False
    then have n: "next_post meta p False q" using r(2) by simp
    note f = next_post_not_found [OF assms(1) n]
    have "evict_loop now meta p = evict_loop now meta q"
      using r(1) False by (intro evict_loop_again) simp
    then show ?thesis
      using rest [OF f(1,2)] evicted_one_before [OF assms(1) n] by auto
  qed
qed

end
