(* ===== verification/PlacerSys.thy ===== *)
theory PlacerSys
  imports Eviction
begin

text \<open>
  The invariant of a whole placer: the arrays (\<open>clock_inv\<close>), the group's instances, the pool and the
  store of metadata objects, and every object in the store.  All SETs use the same number \<open>n\<close> of
  chunks.  Every operation of \<open>placer.go\<close> keeps it and never panics.
\<close>

section \<open>The invariant\<close>

definition in_group :: "int \<Rightarrow> int \<Rightarrow> bool" where
  "in_group gs k \<longleftrightarrow> 0 \<le> k \<and> k < gs"

definition insts_wf :: "'i Group \<Rightarrow> bool" where
  "insts_wf g \<longleftrightarrow> group_wf g \<and> None \<notin> set (All g)"

text \<open>The set \<open>E\<close> holds the chunks whose place is still the number the client asked for.\<close>

definition pl_ok :: "int \<Rightarrow> nat \<Rightarrow> nat set \<Rightarrow> Placement \<Rightarrow> bool" where
  "pl_ok gs n E pl \<longleftrightarrow>
     length (pl_elems pl) = n \<and> (\<forall>i<n. i \<notin> E \<longrightarrow> in_group gs (pl_elems pl ! i))"

definition pm_ok :: "int \<Rightarrow> nat \<Rightarrow> PlacerMeta \<Rightarrow> bool" where
  "pm_ok gs n pm \<longleftrightarrow>
     length (confirmed pm) = n \<and> pm_wf pm \<and> (swapMap pm = None \<or> pl_ok gs n {} (swapMap pm))"

definition obj_ok :: "int \<Rightarrow> nat \<Rightarrow> nat set \<Rightarrow> Meta \<Rightarrow> bool" where
  "obj_ok gs n E m \<longleftrightarrow>
     pl_ok gs n E (Placement m) \<and> (\<forall>pm. placerMeta m = Some pm \<longrightarrow> pm_ok gs n pm)"

definition stored :: "('m, string, addr) hashmap \<Rightarrow> 'm placer \<Rightarrow> addr \<Rightarrow> bool" where
  "stored H p a \<longleftrightarrow> (\<exists>k. hm_Get H (metaMap p) k = Some a)"

definition heap_inv :: "('m, string, addr) hashmap \<Rightarrow> nat \<Rightarrow> (addr \<Rightarrow> nat set) \<Rightarrow> 'm placer \<Rightarrow> bool" where
  "heap_inv H n E p \<longleftrightarrow>
     insts_wf (pgroup p) \<and> (\<forall>a. slice_wf (pgroup p) (slice (metas p a))) \<and>
     distinct (metaPool p) \<and> (\<forall>a \<in> set (metaPool p). a < nextMeta p \<and> \<not> stored H p a) \<and>
     (\<forall>a. stored H p a \<longrightarrow> a < nextMeta p \<and> obj_ok (g_size (pgroup p)) n (E a) (metas p a)) \<and>
     (\<forall>m. Some m \<in> arrs p \<longrightarrow> stored H p m)"

definition placer_inv :: "('m, string, addr) hashmap \<Rightarrow> nat \<Rightarrow> 'm placer \<Rightarrow> bool" where
  "placer_inv H n p \<longleftrightarrow> clock_inv p \<and> heap_inv H n (\<lambda>_. {}) p"

section \<open>Instances\<close>

lemma GInstance_ok:
  assumes "insts_wf g" "in_group (g_size g) k"
  shows "\<exists>i. GInstance g k = Inr i \<and> All g ! nat k = Some i"
proof -
  have k: "in_range k (All g)"
    using assms by (auto simp: insts_wf_def group_wf_def in_group_def in_range_def)
  then have "All g ! nat k \<in> set (All g)" by (simp add: in_range_def)
  then have "All g ! nat k \<noteq> None" using assms(1) unfolding insts_wf_def by metis
  then show ?thesis using k by (auto simp: GInstance_def)
qed

lemma g_size_set_instance [simp]: "g_size (set_instance g k i) = g_size g"
  by (simp add: set_instance_def)

lemma insts_wf_set_instance: "insts_wf g \<Longrightarrow> insts_wf (set_instance g k i)"
  using set_update_subset_insert [of "All g" "nat k" "Some i"]
  by (auto simp: insts_wf_def group_wf_def set_instance_def)

lemma slice_wf_size: "g_size g' = g_size g \<Longrightarrow> slice_wf g' s = slice_wf g s"
  by (simp add: slice_wf_def)

lemma swap_sizes_ok:
  assumes "insts_wf g" "\<forall>k \<in> set tbes. in_group (g_size g) k" "i + length tbes \<le> length cs"
  shows "\<exists>g'. swap_sizes cs new old i tbes g = Inr g' \<and> insts_wf g' \<and> g_size g' = g_size g"
  using assms
proof (induction tbes arbitrary: i g)
  case Nil
  then show ?case by simp
next
  case (Cons k ks)
  obtain ins where ins: "GInstance g k = Inr ins" using Cons.prems GInstance_ok [of g k] by auto
  let ?g = "set_instance g k (if \<not> cs ! i then IncreaseSize ins (new - old) else DecreaseSize ins old)"
  have "\<exists>g'. swap_sizes cs new old (Suc i) ks ?g = Inr g' \<and> insts_wf g' \<and> g_size g' = g_size ?g"
    using Cons.prems by (intro Cons.IH) (auto intro: insts_wf_set_instance)
  then show ?case using ins Cons.prems(3) by simp
qed

section \<open>Objects\<close>

lemma core_fields [simp]:
  "Placement (core m) = Placement m" "slice (core m) = slice m" "ChunkSize (core m) = ChunkSize m"
  "Key (core m) = Key m" "NumChunks (core m) = NumChunks m" "Reset (core m) = Reset m"
  by (simp_all add: core_def)

lemma obj_ok_core [simp]: "obj_ok gs n E (core m) = obj_ok gs n E m"
  by (cases "placerMeta m") (auto simp: obj_ok_def core_def pm_ok_def pm_wf_def)

lemma pl_ok_update:
  assumes "pl_ok gs n (insert (nat i) E) pl" "pl_update pl i v = Inr pl'" "in_group gs v"
  shows "pl_ok gs n E pl'"
  using assms pl_update_elems [OF assms(2)]
  by (auto simp: pl_ok_def nth_list_update in_range_def split: if_splits)

lemma pl_ok_weaken: "pl_ok gs n E pl \<Longrightarrow> E \<subseteq> F \<Longrightarrow> pl_ok gs n F pl"
  by (auto simp: pl_ok_def)

lemma pl_ok_in_range: "pl_ok gs n E pl \<Longrightarrow> in_range i (pl_elems pl) \<longleftrightarrow> 0 \<le> i \<and> nat i < n"
  by (simp add: pl_ok_def in_range_def)

lemma pl_ok_all: "pl_ok gs n {} pl \<Longrightarrow> k \<in> set (pl_elems pl) \<Longrightarrow> in_group gs k"
  by (auto simp: pl_ok_def in_set_conv_nth)

lemma confirm_pm_ok: "pm_ok gs n pm \<Longrightarrow> confirm pm c = Inr pm' \<Longrightarrow> pm_ok gs n pm'"
  using confirm_ok [of pm c pm'] by (cases pm; cases pm') (auto simp: pm_ok_def)

section \<open>The arrays under changes of the heap\<close>

lemma clock_inv_heap:
  assumes "clock_inv p"
    and "objects p' = objects p" "primary p' = primary p" "secondary p' = secondary p"
      "cursor p' = cursor p" "cursorBound p' = cursorBound p"
    and pos: "\<And>a i. pos_of p' a i = 0 \<or> pos_of p' a i = pos_of p a i \<and> (live p' a \<longrightarrow> live p a)"
    and pm: "\<And>m. Some m \<in> arrs p \<Longrightarrow>
              placerMeta (metas p m) \<noteq> None \<Longrightarrow> placerMeta (metas p' m) \<noteq> None"
  shows "clock_inv p'"
proof -
  have hp: "has_pm p (P_of p) \<Longrightarrow> has_pm p' (P_of p)" "has_pm p (S_of p) \<Longrightarrow> has_pm p' (S_of p)"
    using pm by (auto simp: has_pm_def arrs_def)
  have L: "live p a \<and> pos_of p' a i = pos_of p a i" if "live p' a" "pos_of p' a i \<noteq> 0" for a i
    using pos [of a i] that by auto
  have it: "iter_at (cursor p) p'" if "iter_at (cursor p) p"
  proof -
    have "\<forall>a. live p' a \<longrightarrow>
        (pos_of p' a (primary p) \<noteq> 0 \<longrightarrow> points_to (P_of p) (pos_of p' a (primary p)) a) \<and>
        (pos_of p' a (secondary p) \<noteq> 0 \<longrightarrow>
           points_to (S_of p) (pos_of p' a (secondary p)) a \<or> Some a \<in> set (drop (cursor p) (P_of p)))"
      using that L unfolding iter_at_def by metis
    then show ?thesis using that hp assms(2-6) by (simp add: iter_at_def)
  qed
  have re: "rest_inv p'" if "rest_inv p"
  proof -
    have "\<forall>a. live p' a \<longrightarrow>
        (pos_of p' a (primary p) \<noteq> 0 \<longrightarrow> points_to (P_of p) (pos_of p' a (primary p)) a) \<and>
        (pos_of p' a (secondary p) \<noteq> 0 \<longrightarrow> Some a \<in> set (P_of p))"
      using that L unfolding rest_inv_def by metis
    then show ?thesis using that hp assms(2-6) by (simp add: rest_inv_def)
  qed
  show ?thesis using assms(1-6) it re by (simp add: clock_inv_def split: if_splits)
qed

lemma clock_inv_AddObject:
  assumes "clock_inv p" "placerMeta (metas p a) \<noteq> None"
  shows "clock_inv (AddObject now a p)"
proof -
  let ?q = "AddObject now a p"
  obtain pm where pm: "placerMeta (metas p a) = Some pm" using assms(2) by blast
  have ob: "objects ?q = (objects p)(primary p := P_of p @ [Some a])"
    and f: "primary ?q = primary p" "secondary ?q = secondary p" "cursor ?q = cursor p" "cursorBound ?q = cursorBound p"
    by (simp_all add: AddObject_def upd_defs)
  have lv: "live ?q b = live p b" for b by (simp add: AddObject_def upd_defs live_def)
  have hp: "has_pm ?q xs = has_pm p xs" for xs by (auto simp: AddObject_def upd_defs has_pm_def)
  have po: "pos_of ?q b i = (if b = a \<and> i = primary p then length (P_of p) else pos_of p b i)" for b i
    using pm by (simp add: AddObject_def upd_defs pos_of_def)
  have h1: "has_pm p [Some a]" using assms(2) by (simp add: has_pm_single)
  show ?thesis
  proof (cases "cursor p = 0")
    case True
    then show ?thesis using assms(1) h1
      unfolding clock_inv_def rest_inv_def f ob lv hp po
      by (auto simp: points_to_append nth_append)
  next
    case False
    then show ?thesis using assms(1) h1
      unfolding clock_inv_def iter_at_def f ob lv hp po
      by (auto simp: points_to_append nth_append)
  qed
qed

section \<open>\<open>NewMeta\<close>: a prepared object\<close>

definition prepared :: "('m, string, addr) hashmap \<Rightarrow> nat \<Rightarrow> addr \<Rightarrow> int \<Rightarrow> int \<Rightarrow> 'm placer \<Rightarrow> bool" where
  "prepared H n a chunk lambdaId p \<longleftrightarrow>
     \<not> stored H p a \<and> a \<notin> set (metaPool p) \<and> a < nextMeta p \<and> \<not> Deleted (metas p a) \<and>
     placerMeta (metas p a) = None \<and> lastChunk (metas p a) = chunk \<and>
     pl_elems (Placement (metas p a)) = (replicate n 0)[nat chunk := lambdaId]"

lemma initPlacement_total:
  assumes "1 \<le> n" "n \<le> 100"
  shows "\<exists>pl. initPlacement p0 (int n) = Inr pl \<and> pl_elems pl = replicate n 0 \<and> pl \<noteq> None"
  using assms
  by (cases p0) (auto simp: initPlacement_def make_placement_def emptyPlacement_len_def)

lemma pool_Get_ok:
  assumes "placer_inv H n p" "pool_Get choice p = (a, p1)"
  shows "a < nextMeta p1" "a \<notin> set (metaPool p1)" "\<not> stored H p1 a" "set (metaPool p1) \<subseteq> set (metaPool p)"
    "distinct (metaPool p1)" "nextMeta p \<le> nextMeta p1"
    "metas p1 = metas p \<or> metas p1 = (metas p)(a := zeroMeta)"
    "objects p1 = objects p" "primary p1 = primary p" "secondary p1 = secondary p"
    "cursor p1 = cursor p" "cursorBound p1 = cursorBound p" "pgroup p1 = pgroup p" "metaMap p1 = metaMap p"
proof -
  have h: "distinct (metaPool p)" "\<forall>x \<in> set (metaPool p). x < nextMeta p \<and> \<not> stored H p x"
      "\<forall>x. stored H p x \<longrightarrow> x < nextMeta p"
    using assms(1) by (auto simp: placer_inv_def heap_inv_def)
  show "a < nextMeta p1" "\<not> stored H p1 a" "nextMeta p \<le> nextMeta p1"
      "metas p1 = metas p \<or> metas p1 = (metas p)(a := zeroMeta)"
      "objects p1 = objects p" "primary p1 = primary p" "secondary p1 = secondary p"
      "cursor p1 = cursor p" "cursorBound p1 = cursorBound p" "pgroup p1 = pgroup p" "metaMap p1 = metaMap p"
    using assms(2) h by (auto simp: pool_Get_def stored_def split: if_splits) (use less_irrefl in blast)
  show "set (metaPool p1) \<subseteq> set (metaPool p)"
    using assms(2) by (auto simp: pool_Get_def dest: in_set_takeD in_set_dropD split: if_splits)
  have d: "choice < length xs \<Longrightarrow> distinct xs \<Longrightarrow>
      xs ! choice \<notin> set (take choice xs @ drop (Suc choice) xs) \<and>
      distinct (take choice xs @ drop (Suc choice) xs)" for xs :: "nat list"
    by (subst (asm) (2) id_take_nth_drop [of choice xs]) (auto simp del: append_take_drop_id)
  show "a \<notin> set (metaPool p1)" "distinct (metaPool p1)"
    using assms(2) h d [of "metaPool p"] by (auto simp: pool_Get_def split: if_splits)
qed

lemma not_stored_not_in_arrays:
  "heap_inv H n E p \<Longrightarrow> \<not> stored H p a \<Longrightarrow> Some a \<notin> arrs p"
  by (auto simp: heap_inv_def)

lemma Placer_NewMeta_ok:
  assumes inv: "placer_inv H n p" and n: "n \<le> 100" and c: "0 \<le> chunk" "chunk < int n"
  shows "\<exists>a p1. Placer_NewMeta choice key ss (int n) chunk lam cs p = Inr (a, p1) \<and>
     placer_inv H n p1 \<and> prepared H n a chunk lam p1 \<and> metaMap p1 = metaMap p \<and> pgroup p1 = pgroup p"
proof -
  obtain a p0 where g: "pool_Get choice p = (a, p0)" by (cases "pool_Get choice p")
  note G = pool_Get_ok [OF inv g]
  obtain pl where pl: "initPlacement (Placement (metas p0 a)) (int n) = Inr pl" "pl_elems pl = replicate n 0"
    using initPlacement_total [of n] c n by force
  obtain pl' where pl': "pl_update pl chunk lam = Inr pl'" "pl_elems pl' = (replicate n 0)[nat chunk := lam]"
    using pl_update_ok [of chunk pl lam] pl c by (auto simp: in_range_def nat_less_iff)
  define m where "m = (InitMeta ((metas p0 a)\<lparr>Key := key, NumChunks := int n, Placement := pl, ChunkSize := cs,
      Deleted := False, slice := (if initialized (slice (metas p0 a)) then zeroSlice else slice (metas p0 a)),
      placerMeta := None\<rparr>) ss)\<lparr>Placement := pl', lastChunk := chunk\<rparr>"
  define p1 where "p1 = upd_meta a (\<lambda>_. m) p0"
  have run: "Placer_NewMeta choice key ss (int n) chunk lam cs p = Inr (a, p1)"
    using g pl pl' by (simp add: Placer_NewMeta_def NewMeta_def InitMeta_def m_def p1_def)
  have hi: "clock_inv p" "heap_inv H n (\<lambda>_. {}) p" using inv by (auto simp: placer_inv_def)
  have ms: "metas p1 = (metas p)(a := m)" using G(7) by (auto simp: p1_def upd_defs)
  have f: "objects p1 = objects p" "primary p1 = primary p" "secondary p1 = secondary p"
      "cursor p1 = cursor p" "cursorBound p1 = cursorBound p" "pgroup p1 = pgroup p" "metaMap p1 = metaMap p"
      "nextMeta p1 = nextMeta p0" "metaPool p1 = metaPool p0"
    using G by (simp_all add: p1_def upd_defs)
  have st: "stored H p1 x = stored H p x" "stored H p0 x = stored H p x" for x using f G(14) by (simp_all add: stored_def)
  have na: "Some a \<notin> arrs p"
    using not_stored_not_in_arrays [OF hi(2)] G(3) st by simp
  have mf: "placerMeta m = None" "\<not> Deleted m" "lastChunk m = chunk" "Placement m = pl'"
    by (simp_all add: m_def InitMeta_def)
  have sm: "slice_wf (pgroup p) (slice m)"
    using hi(2) G(7) by (auto simp: m_def InitMeta_def heap_inv_def slice_wf_def zeroSlice_def zeroMeta_def)
  have "clock_inv p1"
    by (rule clock_inv_heap [OF hi(1) f(1-5)]) (use na mf in \<open>auto simp: ms pos_of_def live_def\<close>)
  moreover have "heap_inv H n (\<lambda>_. {}) p1"
    using hi(2) G st na sm unfolding heap_inv_def f ms arrs_def by (auto 0 3)
  ultimately show ?thesis
    using run G st f mf pl' ms by (auto simp: placer_inv_def prepared_def)
qed

section \<open>\<open>GetOrInsert\<close> up to the placer's lock\<close>

definition in_flight :: "('m, string, addr) hashmap \<Rightarrow> nat \<Rightarrow> addr \<Rightarrow> int \<Rightarrow> 'm placer \<Rightarrow> bool" where
  "in_flight H n meta chunk p \<longleftrightarrow>
     ready meta p \<and> heap_inv H n ((\<lambda>_. {})(meta := {nat chunk})) p \<and> stored H p meta \<and>
     0 \<le> chunk \<and> chunk < int n"

definition entered :: "'m placer \<Rightarrow> addr \<Rightarrow> 'm placer" where
  "entered p a = (let q = revive a p in
     case placerMeta (metas q a) of
       Some pm \<Rightarrow> q
     | None \<Rightarrow> upd_meta a (\<lambda>m. m\<lparr>placerMeta := Some (newPlacerMeta (length (pl_elems (Placement m))))\<rparr>) q)"

lemma entered_fields [simp]:
  "objects (entered p a) = objects p" "primary (entered p a) = primary p" "secondary (entered p a) = secondary p"
  "cursor (entered p a) = cursor p" "cursorBound (entered p a) = cursorBound p" "pgroup (entered p a) = pgroup p"
  "metaMap (entered p a) = metaMap p" "nextMeta (entered p a) = nextMeta p" "metaPool (entered p a) = metaPool p"
  by (simp_all add: entered_def revive_def upd_defs Let_def split: option.splits)

lemma metas_entered:
  "metas (entered p a) = (metas p)(a := (metas p a)\<lparr>Deleted := False, placerMeta :=
     (if Deleted (metas p a) \<or> placerMeta (metas p a) = None
      then Some (newPlacerMeta (length (pl_elems (Placement (metas p a))))) else placerMeta (metas p a))\<rparr>)"
  by (auto simp: entered_def revive_def upd_defs Let_def fun_eq_iff split: option.splits)

lemma ready_entered:
  assumes "clock_inv p"
  shows "ready a (entered p a)"
proof -
  have "clock_inv (entered p a)"
    by (rule clock_inv_heap [OF assms])
       (auto simp: metas_entered pos_of_def live_def newPlacerMeta_def)
  then show ?thesis by (simp add: ready_def metas_entered live_def)
qed

lemma obj_ok_newPlacerMeta:
  "pl_ok gs n E (Placement m) \<Longrightarrow>
   obj_ok gs n E (m\<lparr>Deleted := b, placerMeta := Some (newPlacerMeta (length (pl_elems (Placement m))))\<rparr>)"
  by (simp add: obj_ok_def pm_ok_def pl_ok_def newPlacerMeta_def pm_wf_def)

lemma heap_inv_entered:
  assumes "heap_inv H n E p"
  shows "heap_inv H n E (entered p a)"
proof -
  have st: "stored H (entered p a) x = stored H p x" for x by (simp add: stored_def)
  have o: "obj_ok gs n X (metas (entered p a) x)" if "obj_ok gs n X (metas p x)" for gs X x
    using that obj_ok_newPlacerMeta [of gs n X "metas p a" False]
    by (auto simp: metas_entered obj_ok_def)
  show ?thesis using assms o unfolding heap_inv_def st arrs_def by (auto simp: metas_entered)
qed

lemma heap_inv_weaken: "heap_inv H n E p \<Longrightarrow> (\<And>a. E a \<subseteq> F a) \<Longrightarrow> heap_inv H n F p"
  unfolding heap_inv_def obj_ok_def using pl_ok_weaken by metis

lemma placer_inv_upd_Reset:
  assumes "clock_inv p" "heap_inv H n E p"
  shows "clock_inv (upd_meta a (\<lambda>m. m\<lparr>Reset := b\<rparr>) p)" "heap_inv H n E (upd_meta a (\<lambda>m. m\<lparr>Reset := b\<rparr>) p)"
proof -
  show "clock_inv (upd_meta a (\<lambda>m. m\<lparr>Reset := b\<rparr>) p)"
    by (rule clock_inv_heap [OF assms(1)]) (auto simp: upd_defs pos_of_def live_def)
  show "heap_inv H n E (upd_meta a (\<lambda>m. m\<lparr>Reset := b\<rparr>) p)"
    using assms(2) by (auto simp: heap_inv_def upd_defs stored_def obj_ok_def arrs_def)
qed

lemma insert_prepared:
  assumes H: "hashmap_ok H" and inv: "placer_inv H n p" and pr: "prepared H n a chunk lam p"
    and c: "0 \<le> chunk" "chunk < int n"
    and ins: "MetaStore_GetOrInsert H key a p = (meta, got, p1)"
  defines "q \<equiv> (if got then close_meta a p1 else p1)"
  shows "clock_inv q" "heap_inv H n ((\<lambda>_. {})(meta := {nat chunk})) q" "stored H q meta"
    "metas q = metas p" "pgroup q = pgroup p" "hm_Get H (metaMap q) key = Some meta"
    "got \<longleftrightarrow> hm_Get H (metaMap p) key \<noteq> None"
    "hm_Get H (metaMap q) = (hm_Get H (metaMap p))(key \<mapsto> meta)"
    "\<not> got \<Longrightarrow> meta = a" "got \<Longrightarrow> heap_inv H n (\<lambda>_. {}) q"
proof -
  have hi: "clock_inv p" "heap_inv H n (\<lambda>_. {}) p" using inv by (auto simp: placer_inv_def)
  have gs: "0 < g_size (pgroup p)" using hi(2) by (simp add: heap_inv_def insts_wf_def group_wf_def)
  have oa: "obj_ok (g_size (pgroup p)) n {nat chunk} (metas p a)"
    using pr gs by (auto simp: prepared_def obj_ok_def pl_ok_def in_group_def nth_list_update)
  have main: "clock_inv q \<and> heap_inv H n ((\<lambda>_. {})(meta := {nat chunk})) q \<and> stored H q meta \<and>
     metas q = metas p \<and> pgroup q = pgroup p \<and> hm_Get H (metaMap q) key = Some meta \<and>
     (got \<longleftrightarrow> hm_Get H (metaMap p) key \<noteq> None) \<and> (\<not> got \<longrightarrow> meta = a) \<and> (got \<longrightarrow> heap_inv H n (\<lambda>_. {}) q) \<and>
     hm_Get H (metaMap q) = (hm_Get H (metaMap p))(key \<mapsto> meta)"
    using H
  proof (cases rule: hm_GetOrInsert_cases [where m = "metaMap p" and k = key and v = a])
    case (found w m')
    then have r: "meta = w" "got" "p1 = p\<lparr>metaMap := m'\<rparr>" using ins by (auto simp: MetaStore_GetOrInsert_def)
    have st: "stored H q x = stored H p x" for x using found r by (simp add: q_def close_meta_def stored_def)
    have "clock_inv q"
      by (rule clock_inv_heap [OF hi(1)]) (use r in \<open>auto simp: q_def close_meta_def pos_of_def live_def\<close>)
    moreover have "heap_inv H n (\<lambda>_. {}) q"
      using hi(2) pr r unfolding heap_inv_def st arrs_def by (auto simp: q_def close_meta_def prepared_def)
    ultimately show ?thesis
      using found r st heap_inv_weaken [of H n "\<lambda>_. {}" q]
      by (auto simp: q_def close_meta_def stored_def fun_upd_idem)
  next
    case (fresh m')
    then have r: "meta = a" "\<not> got" "q = p\<lparr>metaMap := m'\<rparr>" using ins by (auto simp: MetaStore_GetOrInsert_def q_def)
    have st: "stored H q x \<longleftrightarrow> x = a \<or> stored H p x" for x
      using fresh r by (auto simp: stored_def) (metis option.distinct(1))
    have "clock_inv q"
      by (rule clock_inv_heap [OF hi(1)]) (use r in \<open>auto simp: pos_of_def live_def\<close>)
    moreover have "heap_inv H n ((\<lambda>_. {})(a := {nat chunk})) q"
      using hi(2) pr oa unfolding heap_inv_def st arrs_def by (auto simp: r(3) prepared_def)
    ultimately show ?thesis using fresh r st by auto
  qed
  then show "clock_inv q" "heap_inv H n ((\<lambda>_. {})(meta := {nat chunk})) q" "stored H q meta"
    "metas q = metas p" "pgroup q = pgroup p" "hm_Get H (metaMap q) key = Some meta"
    "got \<longleftrightarrow> hm_Get H (metaMap p) key \<noteq> None"
    "hm_Get H (metaMap q) = (hm_Get H (metaMap p))(key \<mapsto> meta)"
    "\<not> got \<Longrightarrow> meta = a" "got \<Longrightarrow> heap_inv H n (\<lambda>_. {}) q"
    by blast+
qed

text \<open>
  The state after the first lock is \<open>entered\<close>, with the object flagged \<open>Reset\<close> when its chunk was
  confirmed before; \<open>q\<close> is the state after the store's \<open>GetOrInsert\<close>.
\<close>

lemma GetOrInsert_enter_eq:
  assumes "in_range (lastChunk (metas p a)) (pl_elems (Placement (metas p a)))"
    and "MetaStore_GetOrInsert H key a p = (meta, got, p1)"
    and "q = (if got then close_meta a p1 else p1)"
    and "placerMeta (metas (entered q meta) meta) = Some pm"
    and "in_range (lastChunk (metas p a)) (confirmed pm)"
  shows "GetOrInsert_enter H key a p =
    (let chunk = lastChunk (metas p a); lam = pl_elems (Placement (metas p a)) ! nat chunk; c = confirmed pm ! nat chunk;
         r = \<lparr>er_meta = meta, er_got = got, er_chunk = chunk, er_lambda = lam, er_return = c\<rparr>
     in Inr (r, if c then upd_meta meta (\<lambda>m. m\<lparr>Reset := True\<rparr>) (entered q meta) else entered q meta))"
proof -
  have "placerMeta (metas (revive meta q) meta) = None \<Longrightarrow>
      pm = newPlacerMeta (length (pl_elems (Placement (metas (revive meta q) meta))))"
    using assms(4) by (auto simp: entered_def Let_def upd_defs)
  then show ?thesis
    using assms
    by (cases "placerMeta (metas (revive meta q) meta)")
       (auto simp: GetOrInsert_enter_def entered_def Let_def newPlacerMeta_def)
qed

text \<open>\<open>enters\<close> is what \<open>GetOrInsert\<close> has done when it asks for the placer's lock.\<close>

definition enters :: "'m placer \<Rightarrow> enter_result \<Rightarrow> 'm placer \<Rightarrow> bool" where
  "enters p r p' \<longleftrightarrow> (\<exists>q pm. metas q = metas p \<and> pgroup q = pgroup p \<and> objects q = objects p \<and>
     primary q = primary p \<and> secondary q = secondary p \<and> cursor q = cursor p \<and>
     placerMeta (metas (entered q (er_meta r)) (er_meta r)) = Some pm \<and>
     er_return r = confirmed pm ! nat (er_chunk r) \<and>
     p' = (if er_return r then upd_meta (er_meta r) (\<lambda>m. m\<lparr>Reset := True\<rparr>) (entered q (er_meta r))
           else entered q (er_meta r)))"

lemma MetaStore_GetOrInsert_fields:
  assumes "MetaStore_GetOrInsert H key a p = (meta, got, p1)"
  shows "objects p1 = objects p" "primary p1 = primary p" "secondary p1 = secondary p" "cursor p1 = cursor p"
  using assms by (auto simp: MetaStore_GetOrInsert_def split: prod.splits)

lemma GetOrInsert_enter_ok:
  assumes H: "hashmap_ok H" and inv: "placer_inv H n p" and pr: "prepared H n a chunk lam p"
    and c: "0 \<le> chunk" "chunk < int n"
  shows "\<exists>r p'. GetOrInsert_enter H key a p = Inr (r, p') \<and> er_chunk r = chunk \<and> er_lambda r = lam \<and>
     hm_Get H (metaMap p') = (hm_Get H (metaMap p))(key \<mapsto> er_meta r) \<and>
     er_got r = (hm_Get H (metaMap p) key \<noteq> None) \<and> (\<not> er_got r \<longrightarrow> er_meta r = a) \<and> enters p r p' \<and>
     (if er_return r then placer_inv H n p' else in_flight H n (er_meta r) chunk p')"
proof -
  obtain meta got p1 where ins: "MetaStore_GetOrInsert H key a p = (meta, got, p1)"
    by (cases "MetaStore_GetOrInsert H key a p") auto
  define q where "q = (if got then close_meta a p1 else p1)"
  note I = insert_prepared [OF H inv pr c ins, folded q_def]
  let ?e = "entered q meta"
  have hm: "metaMap ?e = metaMap q" by simp
  have rd: "ready meta ?e" using ready_entered [OF I(1)] .
  have hi: "heap_inv H n ((\<lambda>_. {})(meta := {nat chunk})) ?e" using heap_inv_entered [OF I(2)] .
  have st: "stored H ?e meta" using I(3) by (simp add: stored_def)
  obtain pm where pm: "placerMeta (metas ?e meta) = Some pm" using rd by (auto simp: ready_def)
  have "length (confirmed pm) = n"
    using hi st pm by (auto simp: heap_inv_def obj_ok_def pm_ok_def)
  then have rg: "in_range chunk (confirmed pm)" using c by (simp add: in_range_def nat_less_iff)
  have pf: "lastChunk (metas p a) = chunk" "pl_elems (Placement (metas p a)) = (replicate n 0)[nat chunk := lam]"
    using pr by (auto simp: prepared_def)
  have rp: "in_range (lastChunk (metas p a)) (pl_elems (Placement (metas p a)))"
    using pf c by (simp add: in_range_def nat_less_iff)
  note E = GetOrInsert_enter_eq [OF rp ins q_def pm, unfolded pf(1), OF rg, unfolded Let_def pf(2)]
  have lam: "(replicate n 0)[nat chunk := lam] ! nat chunk = lam" using c by (simp add: nat_less_iff)
  have fl: "in_flight H n meta chunk ?e" using rd hi st c by (simp add: in_flight_def)
  have qf: "objects q = objects p" "primary q = primary p" "secondary q = secondary p" "cursor q = cursor p"
    using MetaStore_GetOrInsert_fields [OF ins] by (simp_all add: q_def close_meta_def)
  have en: "enters p r p'"
    if "er_meta r = meta" "er_chunk r = chunk" "er_return r = confirmed pm ! nat chunk"
      "p' = (if er_return r then upd_meta meta (\<lambda>m. m\<lparr>Reset := True\<rparr>) ?e else ?e)" for r p'
    unfolding enters_def using that I(4,5) qf pm by (intro exI [of _ q] exI [of _ pm]) simp
  show ?thesis
  proof (cases "confirmed pm ! nat chunk")
    case True
    have got: "got"
    proof (rule ccontr)
      assume "\<not> got"
      then have "meta = a" using I(9) by blast
      then have "pm = newPlacerMeta n" using pm pr I(4) by (auto simp: metas_entered prepared_def)
      then show False using True c by (simp add: newPlacerMeta_def nat_less_iff)
    qed
    then have "heap_inv H n (\<lambda>_. {}) ?e" using heap_inv_entered [OF I(10)] by blast
    then have "placer_inv H n (upd_meta meta (\<lambda>m. m\<lparr>Reset := True\<rparr>) ?e)"
      using rd placer_inv_upd_Reset [of ?e H n] by (simp add: placer_inv_def ready_def)
    then show ?thesis using E lam True I(7,8,9) hm en by (auto simp: upd_defs)
  next
    case False
    then show ?thesis using E lam fl I(7,8,9) hm en by auto
  qed
qed

section \<open>\<open>GetOrInsert\<close> under the placer's lock\<close>

lemma in_flight_pm:
  assumes "in_flight H n meta chunk p"
  obtains pm where "placerMeta (metas p meta) = Some pm" "pm_ok (g_size (pgroup p)) n pm"
    "in_range chunk (confirmed pm)" "pl_ok (g_size (pgroup p)) n {nat chunk} (Placement (metas p meta))"
proof -
  obtain pm where pm: "placerMeta (metas p meta) = Some pm"
    using assms by (auto simp: in_flight_def ready_def)
  moreover have "obj_ok (g_size (pgroup p)) n {nat chunk} (metas p meta)"
    using assms by (auto simp: in_flight_def heap_inv_def)
  ultimately show ?thesis
    using that [OF pm] assms by (auto simp: obj_ok_def pm_ok_def in_range_def in_flight_def nat_less_iff)
qed

lemma in_flight_group:
  assumes "in_flight H n meta chunk p" "insts_wf g" "g_size g = g_size (pgroup p)"
  shows "in_flight H n meta chunk (p\<lparr>pgroup := g\<rparr>)"
proof -
  have "clock_inv (p\<lparr>pgroup := g\<rparr>)"
    by (rule clock_inv_heap [of p]) (use assms(1) in \<open>auto simp: pos_of_def live_def in_flight_def ready_def\<close>)
  then show ?thesis
    using assms slice_wf_size [of g "pgroup p"]
    by (auto simp: in_flight_def ready_def live_def heap_inv_def stored_def arrs_def)
qed

lemma place_chunk_ok:
  assumes fl: "in_flight H n meta chunk p" and d: "in_group (g_size (pgroup p)) dest"
  shows "\<exists>m'. place_chunk meta chunk dest p = Inr (upd_meta meta (\<lambda>_. m') p) \<and>
     placer_inv H n (upd_meta meta (\<lambda>_. m') p) \<and> placerMeta m' \<noteq> None \<and>
     ChunkSize m' = ChunkSize (metas p meta)"
proof -
  obtain pm where pm: "placerMeta (metas p meta) = Some pm" "pm_ok (g_size (pgroup p)) n pm"
      "in_range chunk (confirmed pm)" "pl_ok (g_size (pgroup p)) n {nat chunk} (Placement (metas p meta))"
    using in_flight_pm [OF fl] .
  have c: "0 \<le> chunk" "chunk < int n" using fl by (auto simp: in_flight_def)
  obtain pl where pl: "pl_update (Placement (metas p meta)) chunk dest = Inr pl"
    using pl_update_ok pl_ok_in_range [OF pm(4)] c by (metis nat_less_iff)
  obtain pm' where pm': "confirm pm chunk = Inr pm'" using confirm_total [OF pm(3)] by blast
  let ?m = "(metas p meta)\<lparr>Placement := pl, placerMeta := Some pm'\<rparr>"
  let ?p = "upd_meta meta (\<lambda>_. ?m) p"
  have run: "place_chunk meta chunk dest p = Inr ?p"
    using pl pm(1) pm' by (simp add: place_chunk_def upd_meta_def)
  have cf: "pos pm' = pos pm" using confirm_ok [OF pm'] by (cases pm; cases pm') simp
  have cl: "clock_inv p" and hi: "heap_inv H n ((\<lambda>_. {})(meta := {nat chunk})) p"
    using fl by (auto simp: in_flight_def ready_def)
  have "clock_inv ?p"
    by (rule clock_inv_heap [OF cl]) (auto simp: upd_defs pos_of_def live_def cf pm(1))
  moreover have "obj_ok (g_size (pgroup p)) n {} ?m"
    using pl_ok_update [OF pm(4) pl d] confirm_pm_ok [OF pm(2) pm'] by (simp add: obj_ok_def)
  then have "heap_inv H n (\<lambda>_. {}) ?p"
    using hi by (auto simp: heap_inv_def upd_defs stored_def arrs_def split: if_splits)
  ultimately show ?thesis using run by (intro exI [of _ ?m]) (simp add: placer_inv_def)
qed

lemma assign_slice_ok:
  assumes fl: "in_flight H n meta chunk p" and lam: "0 \<le> lam" "lam < 2 ^ 62"
  shows "\<exists>k p1. assign_slice meta lam p = Inr (k, p1) \<and> in_flight H n meta chunk p1 \<and>
     in_group (g_size (pgroup p1)) k \<and> metaMap p1 = metaMap p"
proof -
  have w: "insts_wf (pgroup p)" "slice_wf (pgroup p) (slice (metas p meta))"
    using fl by (auto simp: in_flight_def heap_inv_def)
  then have gw: "group_wf (pgroup p)" by (simp add: insts_wf_def)
  obtain s g k where r: "GetIndex (slice (metas p meta)) (pgroup p) lam = Inr (s, g, k)"
    using GetIndex_total [OF gw] by blast
  note o = GetIndex_once [OF gw w(2) r] and k = GetIndex_in_range [OF gw w(2) r lam]
  let ?q = "upd_meta meta (\<lambda>m. m\<lparr>slice := s\<rparr>) (p\<lparr>pgroup := g\<rparr>)"
  have wg: "insts_wf g" "g_size g = g_size (pgroup p)" using w(1) o by (auto simp: insts_wf_def)
  have cl: "clock_inv p" using fl by (simp add: in_flight_def ready_def)
  have "clock_inv ?q"
    by (rule clock_inv_heap [OF cl]) (auto simp: upd_defs pos_of_def live_def)
  moreover have "slice_wf g (slice (metas p a))" for a
    using fl slice_wf_size [OF wg(2)] by (simp add: in_flight_def heap_inv_def)
  ultimately have "in_flight H n meta chunk ?q"
    using fl wg o
    by (auto simp: in_flight_def ready_def live_def heap_inv_def upd_defs stored_def arrs_def obj_ok_def)
  then show ?thesis
    using r k wg by (intro exI [of _ k] exI [of _ ?q]) (simp add: assign_slice_def in_group_def upd_defs)
qed

lemma evict_core_pm:
  assumes "core_metas p' = evict_core v meta (core_metas p)" "v \<noteq> meta"
    and "placerMeta (metas p meta) = Some pm" "swapMap pm = None"
  obtains pm' where "placerMeta (metas p' meta) = Some pm'" "evicts pm' = Some v"
    "swapMap pm' = copyPlacement None (Placement (metas p v))" "confirmed pm' = confirmed pm"
    "numConfirmed pm' = numConfirmed pm"
proof -
  have "core (metas p' meta) = evict_core v meta (core_metas p) meta"
    using assms(1) by (metis core_metas_def)
  then obtain pm' where pm1: "placerMeta (metas p' meta) = Some pm'" and
      e: "pm'\<lparr>pos := \<lambda>_. 0, visited := False, visitedAt := 0\<rparr> =
          pm\<lparr>pos := \<lambda>_. 0, visited := False, visitedAt := 0,
             swapMap := copyPlacement None (Placement (metas p v)), evicts := Some v\<rparr>"
    using assms(2-4)
    by (cases "placerMeta (metas p' meta)")
       (auto simp: evict_core_def core_metas_def core_def dest!: arg_cong [where f = placerMeta])
  have "evicts pm' = Some v" "swapMap pm' = copyPlacement None (Placement (metas p v))"
      "confirmed pm' = confirmed pm" "numConfirmed pm' = numConfirmed pm"
    using e by (cases pm; cases pm'; simp)+
  then show ?thesis using that pm1 by blast
qed

lemma in_flight_evicted:
  assumes fl: "in_flight H n meta chunk p" and ev: "evicted_one meta p p'"
    and sw: "\<And>pm. placerMeta (metas p meta) = Some pm \<Longrightarrow> swapMap pm = None"
  shows "in_flight H n meta chunk p'"
    and "\<exists>pm v. placerMeta (metas p' meta) = Some pm \<and> evicts pm = Some v \<and>
           pl_ok (g_size (pgroup p')) n {} (swapMap pm)"
    and "metaMap p' = metaMap p"
proof -
  obtain v where v: "Some v \<in> arrs p" "v \<noteq> meta"
      and core: "core_metas p' = evict_core v meta (core_metas p)"
    and cl: "clock_inv p'" and ou: "outer p' = outer p" and ar: "arrs p' \<subseteq> {None, Some meta} \<union> arrs p"
    using ev remaining_sub_arrs [of p] by (auto simp: evicted_one_def evictable_def)
  have f: "pgroup p' = pgroup p" "metaMap p' = metaMap p" "nextMeta p' = nextMeta p" "metaPool p' = metaPool p"
    using ou by (auto simp: outer_def)
  show "metaMap p' = metaMap p" using f by simp
  have st: "stored H p' a = stored H p a" for a by (simp add: stored_def f)
  have hi: "heap_inv H n ((\<lambda>_. {})(meta := {nat chunk})) p" and sm: "stored H p meta"
    using fl by (auto simp: in_flight_def)
  obtain pm where pm: "placerMeta (metas p meta) = Some pm" "pm_ok (g_size (pgroup p)) n pm"
    using in_flight_pm [OF fl] .
  have c: "core (metas p' a) = evict_core v meta (core_metas p) a" for a
    using core by (metis core_metas_def)
  have vok: "pl_ok (g_size (pgroup p)) n {} (Placement (metas p v))"
    using hi v by (auto simp: heap_inv_def obj_ok_def)
  obtain pm' where pm': "placerMeta (metas p' meta) = Some pm'" "evicts pm' = Some v"
      "swapMap pm' = copyPlacement None (Placement (metas p v))" "confirmed pm' = confirmed pm"
      "numConfirmed pm' = numConfirmed pm"
    using evict_core_pm [OF core v(2) pm(1) sw [OF pm(1)]] .
  have sok: "pl_ok (g_size (pgroup p)) n {} (swapMap pm')"
    using vok pm'(3) by (simp add: pl_ok_def copyPlacement_None)
  then show "\<exists>pm v. placerMeta (metas p' meta) = Some pm \<and> evicts pm = Some v \<and>
      pl_ok (g_size (pgroup p')) n {} (swapMap pm)"
    using pm' f by auto
  have sl: "slice (metas p' a) = slice (metas p a)" for a
    using arg_cong [OF c [of a], of slice] by (auto simp: evict_core_def core_metas_def)
  have pl: "Placement (metas p' a) = Placement (metas p a)" for a
    using arg_cong [OF c [of a], of Placement] by (auto simp: evict_core_def core_metas_def)
  have de: "Deleted (metas p' meta) = Deleted (metas p meta)"
    using arg_cong [OF c [of meta], of Deleted] v(2) by (simp add: evict_core_def core_metas_def)
  have ok: "obj_ok (g_size (pgroup p)) n X (metas p' a)" if "obj_ok (g_size (pgroup p)) n X (metas p a)" for a X
  proof (cases "a = meta")
    case True
    then show ?thesis using that pm pm' sok pl by (auto simp: obj_ok_def pm_ok_def pm_wf_def)
  next
    case False
    then have "core (metas p' a) = (core (metas p a))\<lparr>Deleted := (a = v \<or> Deleted (metas p a))\<rparr>"
      using c [of a] by (auto simp: evict_core_def core_metas_def)
    then have "obj_ok (g_size (pgroup p)) n X (core (metas p' a))"
      using that obj_ok_core [of "g_size (pgroup p)" n X "metas p a"] by (simp add: obj_ok_def)
    then show ?thesis by simp
  qed
  have "heap_inv H n ((\<lambda>_. {})(meta := {nat chunk})) p'"
    using hi ok sl ar sm unfolding heap_inv_def f st by auto
  then show "in_flight H n meta chunk p'"
    using fl cl de pm'(1) st by (auto simp: in_flight_def ready_def live_def)
qed

lemma upd_pm_upd_meta: "upd_pm a f (upd_meta a (\<lambda>_. m) p) =
    upd_meta a (\<lambda>_. m\<lparr>placerMeta := map_option f (placerMeta m)\<rparr>) p"
  by (simp add: upd_defs)

lemma placer_inv_upd_pm:
  assumes "placer_inv H n p" "pos_neutral f" "\<And>pm. pm_ok (g_size (pgroup p)) n pm \<Longrightarrow> pm_ok (g_size (pgroup p)) n (f pm)"
  shows "placer_inv H n (upd_pm a f p)"
proof -
  have cl: "clock_inv p" and hi: "heap_inv H n (\<lambda>_. {}) p" using assms(1) by (auto simp: placer_inv_def)
  have "clock_inv (upd_pm a f p)"
    by (rule clock_inv_heap [OF cl]) (use assms(2) in \<open>auto simp: pos_of_upd_pm\<close>, auto simp: upd_defs)
  moreover have "heap_inv H n (\<lambda>_. {}) (upd_pm a f p)"
    using hi assms(3) by (auto simp: heap_inv_def upd_defs stored_def arrs_def obj_ok_def)
  ultimately show ?thesis by (simp add: placer_inv_def)
qed

lemma placer_inv_group:
  assumes "placer_inv H n p" "insts_wf g" "g_size g = g_size (pgroup p)"
  shows "placer_inv H n (p\<lparr>pgroup := g\<rparr>)"
proof -
  have cl: "clock_inv p" and hi: "heap_inv H n (\<lambda>_. {}) p" using assms(1) by (auto simp: placer_inv_def)
  have "clock_inv (p\<lparr>pgroup := g\<rparr>)"
    by (rule clock_inv_heap [OF cl]) (auto simp: pos_of_def live_def)
  then show ?thesis
    using hi assms(2,3) slice_wf_size [of g "pgroup p"]
    by (auto simp: placer_inv_def heap_inv_def stored_def arrs_def)
qed

lemma placer_inv_AddObject:
  assumes "placer_inv H n p" "placerMeta (metas p a) \<noteq> None" "stored H p a"
  shows "placer_inv H n (AddObject now a p)"
proof -
  have cl: "clock_inv p" and hi: "heap_inv H n (\<lambda>_. {}) p" using assms(1) by (auto simp: placer_inv_def)
  let ?q = "AddObject now a p"
  have ms: "metas ?q = (metas p)(a := (metas p a)\<lparr>placerMeta := map_option
      (\<lambda>pm. pm\<lparr>pos := (pos pm)(primary p := length (P_of p)), visited := True, visitedAt := now\<rparr>) (placerMeta (metas p a))\<rparr>)"
    and f: "pgroup ?q = pgroup p" "metaPool ?q = metaPool p" "nextMeta ?q = nextMeta p" "metaMap ?q = metaMap p"
    by (simp_all add: AddObject_def upd_defs)
  have st: "stored H ?q x = stored H p x" for x by (simp add: stored_def f)
  have ar: "arrs ?q \<subseteq> insert (Some a) (arrs p)"
    by (auto simp: arrs_def AddObject_def upd_defs split: if_splits)
  have ok: "obj_ok gs n X (metas ?q x) = obj_ok gs n X (metas p x)" for gs X x
    by (cases "placerMeta (metas p x)") (auto simp: ms obj_ok_def pm_ok_def pm_wf_def)
  have "slice (metas ?q x) = slice (metas p x)" for x by (simp add: ms)
  then have "heap_inv H n (\<lambda>_. {}) ?q"
    using hi ar assms(3) unfolding heap_inv_def st ok f by auto
  then show ?thesis using clock_inv_AddObject [OF cl assms(2)] by (simp add: placer_inv_def)
qed

lemma place_fitting_ok:
  assumes fl: "in_flight H n meta chunk p" and k: "in_group (g_size (pgroup p)) assigned"
  shows "\<exists>p'. place_fitting now meta chunk assigned ins p = Inr p' \<and> placer_inv H n p' \<and> metaMap p' = metaMap p"
proof -
  obtain m' where m': "place_chunk meta chunk assigned p = Inr (upd_meta meta (\<lambda>_. m') p)"
      "placer_inv H n (upd_meta meta (\<lambda>_. m') p)" "placerMeta m' \<noteq> None"
    using place_chunk_ok [OF fl k] by blast
  let ?p1 = "upd_meta meta (\<lambda>_. m') p"
  have st: "stored H ?p1 meta" using fl by (simp add: in_flight_def stored_def upd_defs)
  have pm: "placerMeta (metas ?p1 meta) \<noteq> None" using m'(3) by (simp add: upd_defs)
  define p2 where "p2 = (if (case placerMeta (metas ?p1 meta) of None \<Rightarrow> False | Some pm \<Rightarrow> pos pm (primary ?p1) = 0)
      then AddObject now meta ?p1 else ?p1)"
  have i2: "placer_inv H n p2"
    using m'(2) placer_inv_AddObject [OF m'(2) pm st] by (simp add: p2_def)
  have f: "pgroup p2 = pgroup p" "metaMap p2 = metaMap p" by (simp_all add: p2_def AddObject_def upd_defs)
  have "insts_wf (pgroup p2)" using i2 by (simp add: placer_inv_def heap_inv_def)
  then have "placer_inv H n (p2\<lparr>pgroup := set_instance (pgroup p2) assigned i\<rparr>)" for i
    by (intro placer_inv_group [OF i2]) (simp_all add: insts_wf_set_instance)
  then show ?thesis using m'(1) f by (simp add: place_fitting_def Let_def p2_def)
qed

lemma place_evicting_ok:
  assumes fl: "in_flight H n meta chunk p"
    and sw: "\<And>pm. placerMeta (metas p meta) = Some pm \<Longrightarrow> swapMap pm = None"
  shows "place_evicting now meta chunk p = None \<or>
     (\<exists>p'. place_evicting now meta chunk p = Some (Inr p') \<and> placer_inv H n p' \<and> metaMap p' = metaMap p)"
proof (cases "evict_loop now meta p")
  case None
  then show ?thesis by (simp add: place_evicting_def)
next
  case (Some r)
  have "ready meta p" using fl by (simp add: in_flight_def)
  then obtain p1 where r: "r = Inr p1" and ev: "evicted_one meta p p1"
    using evict_loop_cases [of meta p now] Some by auto
  note F = in_flight_evicted [OF fl ev sw]
  obtain pm v where pm: "placerMeta (metas p1 meta) = Some pm" "evicts pm = Some v"
      and sok: "pl_ok (g_size (pgroup p1)) n {} (swapMap pm)"
    using F(2) by blast
  have len: "length (confirmed pm) = n"
    using in_flight_pm [OF F(1)] pm(1) by (metis option.inject pm_ok_def)
  have c: "0 \<le> chunk" "chunk < int n" and iw: "insts_wf (pgroup p1)"
    using F(1) by (auto simp: in_flight_def heap_inv_def)
  obtain g where g: "swap_sizes (confirmed pm) (ChunkSize (metas p1 meta)) (ChunkSize (metas p1 v)) 0
        (pl_elems (swapMap pm)) (pgroup p1) = Inr g" "insts_wf g" "g_size g = g_size (pgroup p1)"
    using swap_sizes_ok [OF iw, of "pl_elems (swapMap pm)" 0 "confirmed pm"
        "ChunkSize (metas p1 meta)" "ChunkSize (metas p1 v)"] pl_ok_all [OF sok] sok len
    by (auto simp: pl_ok_def)
  let ?d = "pl_elems (swapMap pm) ! nat chunk"
  have d: "index (pl_elems (swapMap pm)) chunk = Inr ?d" "in_group (g_size (pgroup (p1\<lparr>pgroup := g\<rparr>))) ?d"
    using c sok g(3) pl_ok_in_range [OF sok, of chunk] by (auto simp: pl_ok_def nat_less_iff)
  obtain m' where m': "place_chunk meta chunk ?d (p1\<lparr>pgroup := g\<rparr>) = Inr (upd_meta meta (\<lambda>_. m') (p1\<lparr>pgroup := g\<rparr>))"
      "placer_inv H n (upd_meta meta (\<lambda>_. m') (p1\<lparr>pgroup := g\<rparr>))"
    using place_chunk_ok [OF in_flight_group [OF F(1) g(2,3)] d(2)] by blast
  have "placer_inv H n (upd_pm meta (\<lambda>q. q\<lparr>once := Some False\<rparr>) (upd_meta meta (\<lambda>_. m') (p1\<lparr>pgroup := g\<rparr>)))"
    by (rule placer_inv_upd_pm [OF m'(2)]) (auto simp: pos_neutral_def pm_ok_def pm_wf_def)
  then show ?thesis
    using Some r pm g(1) d(1) m'(1) F(3) by (simp add: place_evicting_def upd_defs)
qed

lemma GetOrInsert_locked_ok:
  assumes fl: "in_flight H n meta chunk p" and lam: "0 \<le> lam" "lam < 2 ^ 62"
  shows "GetOrInsert_locked now meta chunk lam p = None \<or>
     (\<exists>b p'. GetOrInsert_locked now meta chunk lam p = Some (Inr (b, p')) \<and> placer_inv H n p' \<and>
        metaMap p' = metaMap p)"
proof -
  obtain pm where pm: "placerMeta (metas p meta) = Some pm" "pm_ok (g_size (pgroup p)) n pm"
    using in_flight_pm [OF fl] .
  have lv: "\<not> Deleted (metas p meta)" and c: "0 \<le> chunk" "chunk < int n"
    using fl by (auto simp: in_flight_def ready_def live_def)
  show ?thesis
  proof (cases "swapMap pm = None")
    case False
    then have sok: "pl_ok (g_size (pgroup p)) n {} (swapMap pm)" using pm(2) by (auto simp: pm_ok_def)
    let ?d = "pl_elems (swapMap pm) ! nat chunk"
    have d: "index (pl_elems (swapMap pm)) chunk = Inr ?d" "in_group (g_size (pgroup p)) ?d"
      using c sok pl_ok_in_range [OF sok, of chunk] by (auto simp: pl_ok_def nat_less_iff)
    have "\<not> IsPlacementEmpty (swapMap pm)" using False sok c by (auto simp: IsPlacementEmpty_def pl_ok_def)
    then show ?thesis
      using place_chunk_ok [OF fl d(2)] d(1) lv pm(1)
      by (auto simp: GetOrInsert_locked_def upd_defs)
  next
    case True
    obtain k p1 where a: "assign_slice meta lam p = Inr (k, p1)" "in_flight H n meta chunk p1"
        "in_group (g_size (pgroup p1)) k" "metaMap p1 = metaMap p"
      using assign_slice_ok [OF fl lam] by blast
    have sw1: "swapMap q = None" if "placerMeta (metas p1 meta) = Some q" for q
      using a(1) that pm(1) True by (auto simp: assign_slice_def go_simps upd_defs)
    have "insts_wf (pgroup p1)" using a(2) by (auto simp: in_flight_def heap_inv_def)
    then obtain ins where ins: "GInstance (pgroup p1) k = Inr ins" using GInstance_ok a(3) by blast
    have em: "IsPlacementEmpty (swapMap pm)" using True by (simp add: IsPlacementEmpty_def)
    show ?thesis
    proof (cases "Size ins + ChunkSize (metas p1 meta) < Capacity ins")
      case True
      then show ?thesis
        using place_fitting_ok [OF a(2,3), of now ins] a(1,4) em lv pm(1) ins
        by (auto simp: GetOrInsert_locked_def)
    next
      case False
      then show ?thesis
        using place_evicting_ok [OF a(2) sw1, of now] a(1,4) em lv pm(1) ins
        by (auto simp: GetOrInsert_locked_def)
    qed
  qed
qed

lemma GetOrInsert_ok:
  assumes "hashmap_ok H" and "placer_inv H n p" and "prepared H n a chunk lam p"
    and "0 \<le> chunk" "chunk < int n" "0 \<le> lam" "lam < 2 ^ 62"
  shows "GetOrInsert H now key a p = None \<or>
     (\<exists>meta got post p'. GetOrInsert H now key a p = Some (Inr (meta, got, post, p')) \<and> placer_inv H n p' \<and>
        hm_Get H (metaMap p') = (hm_Get H (metaMap p))(key \<mapsto> meta) \<and>
        got = (hm_Get H (metaMap p) key \<noteq> None))"
proof -
  obtain r p1 where r: "GetOrInsert_enter H key a p = Inr (r, p1)" "er_chunk r = chunk" "er_lambda r = lam"
      "hm_Get H (metaMap p1) = (hm_Get H (metaMap p))(key \<mapsto> er_meta r)"
      "er_got r = (hm_Get H (metaMap p) key \<noteq> None)"
      "if er_return r then placer_inv H n p1 else in_flight H n (er_meta r) chunk p1"
    using GetOrInsert_enter_ok [OF assms(1-5), of key] by blast
  show ?thesis
  proof (cases "er_return r")
    case True
    then show ?thesis using r by (auto simp: GetOrInsert_def)
  next
    case False
    then have "in_flight H n (er_meta r) chunk p1" using r(6) by simp
    then show ?thesis
      using GetOrInsert_locked_ok [OF _ assms(6,7), of H n "er_meta r" chunk p1 now] r False
      by (auto simp: GetOrInsert_def)
  qed
qed

section \<open>\<open>Get\<close> and the post-process function\<close>

lemma Placer_Get_ok:
  assumes "placer_inv H n p" "0 \<le> chunk" "chunk < int n"
  shows "\<exists>r ok p'. Placer_Get H now key chunk p = Inr (r, ok, p') \<and> placer_inv H n p' \<and> metaMap p' = metaMap p"
proof (cases "hm_Get H (metaMap p) key")
  case None
  then show ?thesis using assms by (auto simp: Placer_Get_def MetaStore_Get_def)
next
  case (Some a)
  have t: "placer_inv H n (TouchObject now a p)"
    unfolding TouchObject_def
    by (rule placer_inv_upd_pm [OF assms(1)]) (auto simp: pos_neutral_def pm_ok_def pm_wf_def)
  have "in_range chunk (confirmed pm)" if "placerMeta (metas p a) = Some pm" for pm
    using assms Some that
    by (auto simp: placer_inv_def heap_inv_def stored_def obj_ok_def pm_ok_def in_range_def nat_less_iff)
  then show ?thesis
    using Some assms(1) t
    by (auto simp: Placer_Get_def MetaStore_Get_def TouchObject_def split: option.splits)
qed

lemma placerMeta_same: "placerMeta m = x \<Longrightarrow> m\<lparr>placerMeta := x\<rparr> = m"
  by (cases m) simp

lemma placer_postProcess_upd: "fst (placer_postProcess a p) = upd_pm a (\<lambda>pm. fst (postProcess pm)) p"
  by (cases "placerMeta (metas p a)")
     (auto simp: placer_postProcess_def upd_defs Let_def placerMeta_same split: prod.splits)

lemma placer_postProcess_ok:
  assumes "placer_inv H n p"
  shows "placer_inv H n (fst (placer_postProcess a p))" "metaMap (fst (placer_postProcess a p)) = metaMap p"
proof -
  note e = placer_postProcess_upd [of a p]
  show "placer_inv H n (fst (placer_postProcess a p))"
    unfolding e
    by (rule placer_inv_upd_pm [OF assms])
       (auto simp: postProcess_def doPostProcess_def pos_neutral_def pm_ok_def pm_wf_def split: option.splits bool.splits)
  show "metaMap (fst (placer_postProcess a p)) = metaMap p" unfolding e by simp
qed

section \<open>Reachable placers\<close>

lemma placer_inv_NewPlacer:
  assumes "hashmap_ok H" "insts_wf g"
  shows "placer_inv H n (NewPlacer H g)"
  using assms
  by (simp add: placer_inv_def clock_inv_def rest_inv_def heap_inv_def NewPlacer_def has_pm_def pos_of_def
      stored_def hm_Get_New slice_wf_def zeroMeta_def zeroSlice_def arrs_def)

text \<open>
  The requests a placer serves, one at a time: a SET of a chunk (\<open>NewMeta\<close>, then \<open>GetOrInsert\<close>), a
  GET, and the post-process function of an eviction.  \<open>None\<close> is a SET that never returns.
\<close>

datatype placer_op =
    OpSet int nat string int int int int64
  | OpGet int string int
  | OpPost addr

fun run_op :: "('m, string, addr) hashmap \<Rightarrow> nat \<Rightarrow> placer_op \<Rightarrow> 'm placer \<Rightarrow> 'm placer res option" where
  "run_op H n (OpSet now choice key ss chunk lam cs) p =
     (case Placer_NewMeta choice key ss (int n) chunk lam cs p of
        Inl e \<Rightarrow> Some (Inl e)
      | Inr (a, p1) \<Rightarrow> map_option (\<lambda>r. bindR r (\<lambda>(_, _, _, p2). Inr p2)) (GetOrInsert H now key a p1))"
| "run_op H n (OpGet now key chunk) p = Some (bindR (Placer_Get H now key chunk p) (\<lambda>(_, _, p'). Inr p'))"
| "run_op H n (OpPost a) p = Some (Inr (fst (placer_postProcess a p)))"

fun op_ok :: "nat \<Rightarrow> placer_op \<Rightarrow> bool" where
  "op_ok n (OpSet now choice key ss chunk lam cs) \<longleftrightarrow> 0 \<le> chunk \<and> chunk < int n \<and> 0 \<le> lam \<and> lam < 2 ^ 62"
| "op_ok n (OpGet now key chunk) \<longleftrightarrow> 0 \<le> chunk \<and> chunk < int n"
| "op_ok n (OpPost a) \<longleftrightarrow> True"

fun run_ops :: "('m, string, addr) hashmap \<Rightarrow> nat \<Rightarrow> placer_op list \<Rightarrow> 'm placer \<Rightarrow> 'm placer res option" where
  "run_ops H n [] p = Some (Inr p)"
| "run_ops H n (x # xs) p =
     (case run_op H n x p of
        None \<Rightarrow> None
      | Some (Inl e) \<Rightarrow> Some (Inl e)
      | Some (Inr p') \<Rightarrow> run_ops H n xs p')"

lemma run_op_ok:
  assumes H: "hashmap_ok H" and n: "n \<le> 100" and inv: "placer_inv H n p" and ok: "op_ok n x"
  shows "run_op H n x p = None \<or> (\<exists>p'. run_op H n x p = Some (Inr p') \<and> placer_inv H n p')"
proof (cases x)
  case (OpSet now choice key ss chunk lam cs)
  obtain a p1 where a: "Placer_NewMeta choice key ss (int n) chunk lam cs p = Inr (a, p1)"
      "placer_inv H n p1" "prepared H n a chunk lam p1"
    using Placer_NewMeta_ok [OF inv n] ok OpSet by (metis op_ok.simps(1))
  then show ?thesis
    using GetOrInsert_ok [OF H a(2,3), of now key] ok OpSet by auto
next
  case (OpGet now key chunk)
  then show ?thesis using Placer_Get_ok [OF inv, of chunk now key] ok by auto
next
  case (OpPost a)
  then show ?thesis using placer_postProcess_ok [OF inv] by simp
qed

theorem run_ops_no_panic:
  assumes "hashmap_ok H" "n \<le> 100" "placer_inv H n p" "list_all (op_ok n) xs"
  shows "run_ops H n xs p = None \<or> (\<exists>p'. run_ops H n xs p = Some (Inr p') \<and> placer_inv H n p')"
  using assms(3,4)
proof (induction xs arbitrary: p)
  case Nil
  then show ?case by simp
next
  case (Cons x xs)
  then show ?case using run_op_ok [OF assms(1,2), of p x] by fastforce
qed

end
