(* ===== verification/PlacerTidy.thy ===== *)
theory PlacerTidy
  imports PlacerSys
begin

text \<open>
  When every object is in the rotation of the clock at most once.  \<open>tidy\<close> says that the slots still
  to be read hold live, pairwise different objects that know their positions and are either
  referenced or complete.  \<open>NextAvailableObject\<close> keeps it when the object that asks for space is not
  in the rotation itself; the other operations always keep it.
\<close>

section \<open>The rotation\<close>

definition somes :: "'a option list \<Rightarrow> 'a option list" where
  "somes xs = filter (\<lambda>x. x \<noteq> None) xs"

lemma somes_simps [simp]:
  "somes [] = []" "somes (None # xs) = somes xs" "somes (Some a # xs) = Some a # somes xs"
  "somes (xs @ ys) = somes xs @ somes ys"
  by (simp_all add: somes_def)

lemma Some_in_somes [simp]: "Some a \<in> set (somes xs) \<longleftrightarrow> Some a \<in> set xs"
  by (simp add: somes_def)

lemma points_to_in_drop: "points_to xs i a \<Longrightarrow> k \<le> i \<Longrightarrow> Some a \<in> set (drop k xs)"
  by (auto simp: points_to_def in_set_conv_nth intro!: exI [of _ "i - k"])

definition rot :: "'m placer \<Rightarrow> addr option list" where
  "rot p = (if cursor p = 0 then P_of p else drop (cursor p) (P_of p) @ S_of p)"

lemma set_rot: "set (rot p) = remaining p"
  by (simp add: rot_def remaining_def)

definition member_ok :: "'m placer \<Rightarrow> addr \<Rightarrow> bool" where
  "member_ok p a \<longleftrightarrow> live p a \<and> pos_of p a (primary p) \<noteq> 0 \<and> (vis p a \<or> complete (metas p a))"

definition tidy :: "'m placer \<Rightarrow> bool" where
  "tidy p \<longleftrightarrow>
     distinct (somes (rot p)) \<and> (\<forall>a. Some a \<in> set (rot p) \<longrightarrow> member_ok p a) \<and>
     (cursor p \<noteq> 0 \<longrightarrow> (\<forall>a. Some a \<in> set (S_of p) \<longrightarrow> pos_of p a (secondary p) \<noteq> 0))"

section \<open>One iteration\<close>

definition tidy_at :: "nat \<Rightarrow> 'm placer \<Rightarrow> bool" where
  "tidy_at k p \<longleftrightarrow>
     distinct (somes (drop k (P_of p) @ S_of p)) \<and>
     (\<forall>a. Some a \<in> set (drop k (P_of p) @ S_of p) \<longrightarrow> member_ok p a) \<and>
     (\<forall>a. Some a \<in> set (S_of p) \<longrightarrow> pos_of p a (secondary p) \<noteq> 0)"

lemma tidy_iff_at: "cursor p \<noteq> 0 \<Longrightarrow> tidy p \<longleftrightarrow> tidy_at (cursor p) p"
  by (simp add: tidy_def tidy_at_def rot_def)

lemma member_ok_to_secondary:
  "primary p \<noteq> secondary p \<Longrightarrow> member_ok (to_secondary m p) a = member_ok p a"
  using core_complete [of "to_secondary m p" a p]
  by (auto simp: member_ok_def pos_of_to_secondary)

lemma tidy_at_skip:
  assumes "tidy_at k p" "k < length (P_of p)" "P_of p ! k = None"
  shows "tidy_at (Suc k) p"
proof -
  have "drop k (P_of p) = None # drop (Suc k) (P_of p)" using assms(2,3) by (metis Cons_nth_drop_Suc)
  then show ?thesis using assms(1) by (simp add: tidy_at_def)
qed

lemma tidy_at_to_secondary:
  assumes "tidy_at k p" "iter_at k p" "k < length (P_of p)" "P_of p ! k = Some m"
  shows "tidy_at (Suc k) (to_secondary m p)"
proof -
  have d: "drop k (P_of p) = Some m # drop (Suc k) (P_of p)" using assms(3,4) by (metis Cons_nth_drop_Suc)
  have ps: "primary p \<noteq> secondary p" and S: "S_of p \<noteq> []" using assms(2) by (auto simp: iter_at_def)
  have pm: "placerMeta (metas p m) \<noteq> None"
    using assms(2-4) nth_mem [of k "P_of p"] by (auto simp: iter_at_def has_pm_def)
  show ?thesis
    using assms(1) S pm unfolding tidy_at_def
    by (auto simp: ps d member_ok_to_secondary pos_of_to_secondary)
qed

lemma member_ok_unvisit:
  assumes "complete (metas p m)"
  shows "member_ok (upd_pm m (\<lambda>q. q\<lparr>visited := False\<rparr>) p) a = member_ok p a"
  using assms core_complete [of "upd_pm m (\<lambda>q. q\<lparr>visited := False\<rparr>) p" a p]
  by (auto simp: member_ok_def pos_of_upd_pm pos_neutral_def)

lemma tidy_at_unvisit:
  "tidy_at k p \<Longrightarrow> complete (metas p m) \<Longrightarrow> tidy_at k (upd_pm m (\<lambda>q. q\<lparr>visited := False\<rparr>) p)"
  unfolding tidy_at_def by (simp add: member_ok_unvisit pos_of_upd_pm pos_neutral_def)

lemma tidy_at_advance [simp]: "tidy_at k (advance p) = tidy_at k p"
  by (simp add: tidy_at_def member_ok_def live_def pos_of_def)

lemma tidy_at_passed:
  assumes "scan_pre meta (Some m # xs) p" "passed meta m p q" "tidy_at (cursor p) p"
  shows "tidy_at (Suc (cursor p)) (advance (to_secondary m q))"
proof -
  note f = passed_fields [OF assms(2)] and c = scan_pre_Cons [OF assms(1)]
  have "tidy_at (cursor p) q"
    using assms(2,3) tidy_at_unvisit by (auto simp: passed_def)
  moreover have "iter_at (cursor p) q" using assms(1) f by (auto simp: scan_pre_def)
  ultimately show ?thesis using c f by (auto intro!: tidy_at_to_secondary)
qed

lemma tidy_at_evict:
  assumes td: "tidy_at (cursor p) p" and it: "iter_at (cursor p) p" and k: "cursor p < length (P_of p)"
    and m: "P_of p ! cursor p = Some m" "m \<noteq> meta"
    and meta: "live p meta" "placerMeta (metas p meta) \<noteq> None"
    and out: "Some meta \<notin> set (drop (cursor p) (P_of p)) \<union> set (S_of p)"
  shows "tidy_at (Suc (cursor p)) (to_secondary meta (evict_result now meta m p))"
proof -
  let ?k = "cursor p" and ?q = "pos_of p meta (primary p)" and ?e = "evict_result now meta m p"
  have ps: "primary p \<noteq> secondary p" and S: "S_of p \<noteq> []" and k0: "?k \<noteq> 0" using it by (auto simp: iter_at_def)
  have d: "drop ?k (P_of p) = Some m # drop (Suc ?k) (P_of p)" using k m(1) by (metis Cons_nth_drop_Suc)
  have "?q = 0 \<or> points_to (P_of p) ?q meta" using it meta(1) by (auto simp: iter_at_def)
  then have "?q < ?k"
    using out k0 points_to_in_drop [of "P_of p" ?q meta ?k] by (cases "?k \<le> ?q") auto
  then have dr: "drop (Suc ?k) ((P_of p)[?q := None, ?k := Some meta]) = drop (Suc ?k) (P_of p)" by simp
  have nm: "a \<noteq> m" if "Some a \<in> set (drop (Suc ?k) (P_of p)) \<union> set (S_of p)" for a
    using td that by (auto simp: tidy_at_def d)
  have vs: "vis ?e a = (a = meta \<or> vis p a)" for a
    using m(2) meta(2) by (auto simp: vis_def evict_result_def split: option.splits)
  have cp: "complete (metas ?e a) = complete (metas p a)" for a
    using m(2) by (cases "placerMeta (metas p a)") (auto simp: complete_def evict_result_def allConfirmed_def)
  have mo: "member_ok ?e a" if "member_ok p a" "a \<noteq> m" for a
    using that k0 m(2) meta(2) by (auto simp: member_ok_def live_evict_result pos_of_evict_result vs cp)
  have mm: "member_ok ?e meta"
    using k0 m(2) meta by (auto simp: member_ok_def live_evict_result pos_of_evict_result vs)
  have pme: "placerMeta (metas ?e meta) \<noteq> None" using meta(2) m(2) by (simp add: evict_result_def)
  show ?thesis
    using td out S nm mo mm pme ps m(2) meta(2) unfolding tidy_at_def
    by (auto simp: d dr member_ok_to_secondary pos_of_to_secondary pos_of_evict_result)
qed

definition outside :: "addr \<Rightarrow> nat \<Rightarrow> 'm placer \<Rightarrow> bool" where
  "outside meta k p \<longleftrightarrow> Some meta \<notin> set (drop k (P_of p)) \<union> set (S_of p)"

lemma outside_step:
  assumes "outside meta k p" "k < length (P_of p)" "P_of q = P_of p" "set (S_of q) \<subseteq> insert (P_of p ! k) (set (S_of p))"
  shows "outside meta (Suc k) q"
proof -
  have "drop k (P_of p) = P_of p ! k # drop (Suc k) (P_of p)" using assms(2) by (metis Cons_nth_drop_Suc)
  then show ?thesis using assms by (auto simp: outside_def)
qed

lemma scan_tidy:
  assumes "scan_pre meta xs p" "tidy_at (cursor p) p" "outside meta (cursor p) p"
    and "scan now meta xs p = Inr (b, p')"
  shows "tidy_at (cursor p') p' \<and> (\<not> b \<longrightarrow> outside meta (cursor p') p')"
  using assms
proof (induction xs arbitrary: p)
  case Nil
  then show ?case by simp
next
  case (Cons x xs)
  note c = scan_pre_Cons [OF Cons.prems(1)]
  show ?case
  proof (cases x)
    case None
    then have "tidy_at (cursor (advance p)) (advance p)" "outside meta (cursor (advance p)) (advance p)"
      using Cons.prems(2,3) c tidy_at_skip [of "cursor p" p] outside_step [of meta "cursor p" p "advance p"] by auto
    then show ?thesis
      using Cons.IH [OF scan_pre_skip] Cons.prems(1,4) None by simp
  next
    case (Some m)
    note pre = Cons.prems(1) [unfolded Some]
    obtain pm where pm: "placerMeta (metas p m) = Some pm" using c(6) Some by blast
    have nm: "m \<noteq> meta"
      using Cons.prems(3) c(2,3) Some by (auto simp: outside_def) (metis Cons_nth_drop_Suc list.set_intros(1))
    have fwd: "tidy_at (cursor p') p' \<and> (\<not> b \<longrightarrow> outside meta (cursor p') p')"
      if ps: "passed meta m p q" and run: "scan now meta xs (advance (to_secondary m q)) = Inr (b, p')" for q
    proof (rule Cons.IH [OF scan_pre_forward [OF pre ps] _ _ run])
      note f = passed_fields [OF ps]
      show "tidy_at (cursor (advance (to_secondary m q))) (advance (to_secondary m q))"
        using tidy_at_passed [OF pre ps Cons.prems(2)] f by simp
      show "outside meta (cursor (advance (to_secondary m q))) (advance (to_secondary m q))"
        using outside_step [OF Cons.prems(3) c(2), of "advance (to_secondary m q)"] f c(3,5) Some by simp
    qed
    show ?thesis
    proof (cases "visited pm")
      case True
      then show ?thesis
        using fwd [of p] fwd [of "upd_pm m (\<lambda>z. z\<lparr>visited := False\<rparr>) p"] Some pm nm Cons.prems(4)
        by (auto simp: passed_def vis_Some complete_Some split: if_splits)
    next
      case False
      then have ev: "evict now meta m p = Inr (evict_result now meta m p)"
        using scan_found(1) [OF pre nm] pm by (simp add: vis_Some)
      have "tidy_at (Suc (cursor p)) (to_secondary meta (evict_result now meta m p))"
        using Cons.prems(1-3) c Some nm
        by (intro tidy_at_evict) (auto simp: scan_pre_def outside_def)
      then show ?thesis using ev Some pm nm False Cons.prems(4) by auto
    qed
  qed
qed

lemma compact_tidy:
  assumes "iter_at k p" "xs = drop k (P_of p)" "tidy_at k p" "compact xs p = Inr p'"
  shows "tidy_at (length (P_of p)) p'"
  using assms
proof (induction xs arbitrary: p k)
  case Nil
  then have "k = length (P_of p)" by (simp add: iter_at_def)
  with Nil show ?case by simp
next
  case (Cons x xs)
  have k: "k < length (P_of p)" "P_of p ! k = x" "xs = drop (Suc k) (P_of p)"
    using Cons.prems(2) by (metis drop_eq_Nil list.distinct(1) not_le,
        metis Cons_nth_drop_Suc drop_eq_Nil list.distinct(1) list.inject not_le,
        metis Cons_nth_drop_Suc drop_eq_Nil list.distinct(1) list.inject not_le)
  have ps: "primary p \<noteq> secondary p" using Cons.prems(1) by (simp add: iter_at_def)
  show ?case
  proof (cases x)
    case None
    then show ?thesis
      using Cons.IH [OF iter_at_skip [OF Cons.prems(1) k(1)] _ tidy_at_skip [OF Cons.prems(3) k(1)]] k Cons.prems(4)
      by simp
  next
    case (Some m)
    then obtain pm where "placerMeta (metas p m) = Some pm"
      using Cons.prems(4) by (auto split: option.splits)
    then show ?thesis
      using Cons.IH [OF iter_at_to_secondary [OF Cons.prems(1) k(1)] _ tidy_at_to_secondary [OF Cons.prems(3,1) k(1)]]
        k Some ps Cons.prems(4) by simp
  qed
qed

lemma tidy_switch:
  assumes "tidy_at (length (P_of p)) p"
  shows "tidy (switch_arrays p)"
  using assms
  by (auto simp: tidy_def tidy_at_def rot_def member_ok_def live_def pos_of_def vis_def switch_arrays_def)

lemma tidy_start:
  assumes "clock_inv p" "tidy p"
  shows "tidy_at (cursor (start_iteration p)) (start_iteration p)"
proof (cases "cursor p = 0")
  case True
  let ?q = "start_iteration p"
  note q = start_iteration_ok [OF assms(1), unfolded Let_def]
  have P: "P_of p = None # drop 1 (P_of p)"
    using assms(1) True by (cases "P_of p") (auto simp: clock_inv_def rest_inv_def)
  have f: "P_of ?q = P_of p" "S_of ?q = [None]" "cursor ?q = 1" "metas ?q = metas p" "primary ?q = primary p"
    using q True by auto
  have mo: "member_ok ?q a = member_ok p a" for a
    using f(4,5) by (simp add: member_ok_def live_def pos_of_def vis_def)
  have "distinct (somes (None # drop 1 (P_of p)))" "\<forall>a. Some a \<in> set (None # drop 1 (P_of p)) \<longrightarrow> member_ok p a"
    using assms(2) P True by (simp_all add: tidy_def rot_def)
  moreover have "objects ?q (primary p) = P_of p" using f(1,5) by simp
  ultimately show ?thesis unfolding tidy_at_def f mo by simp
next
  case False
  then show ?thesis using assms(2) by (simp add: start_iteration_def tidy_iff_at)
qed

lemma NextAvailableObject_tidy:
  assumes rd: "ready meta p" and td: "tidy p" and out: "Some meta \<notin> remaining p"
    and run: "NextAvailableObject now meta p = Inr (b, p')"
  shows "tidy p' \<and> (\<not> b \<longrightarrow> Some meta \<notin> remaining p')"
proof -
  let ?q = "start_iteration p"
  let ?xs = "drop (cursor ?q) (take (cursorBound ?q) (P_of ?q))"
  have cl: "clock_inv p" and mt: "live p meta" "placerMeta (metas p meta) \<noteq> None"
    using rd by (auto simp: ready_def)
  note q = start_iteration_ok [OF cl, unfolded Let_def]
  have pre: "scan_pre meta ?xs ?q" using q mt unfolding scan_pre_def live_def by metis
  obtain b1 p1 where r: "scan now meta ?xs ?q = Inr (b1, p1)" "scan_post meta ?xs ?q b1 p1"
    using scan_ok [OF pre] by blast
  have o: "outside meta (cursor ?q) ?q"
    using q out unfolding outside_def by (metis insertE option.distinct(1) subsetD)
  note t = scan_tidy [OF pre tidy_start [OF cl td] o r(1)]
  have g: "cursor ?q \<le> cursorBound ?q \<and> cursorBound ?q \<le> length (P_of ?q)" using q by blast
  have it: "iter_at (cursor p1) p1" using r(2) by (simp add: scan_post_def)
  show ?thesis
  proof (cases b1)
    case True
    then have "b" "p' = p1" using run r(1) g by (auto simp: NextAvailableObject_def Let_def)
    then show ?thesis using t it by (simp add: tidy_iff_at iter_at_def)
  next
    case False
    then obtain p2 where p2: "compact (drop (cursor p1) (P_of p1)) p1 = Inr p2" "b = False" "p' = switch_arrays p2"
      using run r(1) g by (auto simp: NextAvailableObject_def Let_def go_simps split: if_splits)
    have td2: "tidy p'"
      using compact_tidy [OF it refl _ p2(1)] t p2(3) compact_ok [OF it refl] p2(1) tidy_switch [of p2] by auto
    have "outside meta (cursor p1) p1" using t False by simp
    moreover have "set (P_of p') \<subseteq> set (S_of p1) \<union> set (drop (cursor p1) (P_of p1))" "cursor p' = 0"
      using compact_ok [OF it refl] p2 by auto
    ultimately show ?thesis using td2 by (auto simp: outside_def remaining_def)
  qed
qed

lemma evict_loop_tidy:
  assumes "evict_loop now meta p = Some (Inr p')" "ready meta p" "tidy p" "Some meta \<notin> remaining p"
  shows "tidy p'"
proof -
  have "\<forall>p''. r = Inr p'' \<and> ready meta q \<and> tidy q \<and> Some meta \<notin> remaining q \<longrightarrow> tidy p''"
    if "evict_loop now meta q = Some r" for q r
  proof (rule evict_loop.raw_induct [of "\<lambda>now meta q r. \<forall>p''. r = Inr p'' \<and> ready meta q \<and> tidy q \<and>
        Some meta \<notin> remaining q \<longrightarrow> tidy p''", OF _ that])
    fix evl now meta q r
    assume IH: "\<And>now meta q r. evl now meta q = Some r \<Longrightarrow>
          \<forall>p''. r = Inr p'' \<and> ready meta q \<and> tidy q \<and> Some meta \<notin> remaining q \<longrightarrow> tidy p''"
      and run: "(case NextAvailableObject now meta q of Inl e \<Rightarrow> Some (Inl e)
        | Inr r \<Rightarrow> if fst r then Some (Inr (snd r)) else evl now meta (snd r)) = Some r"
    show "\<forall>p''. r = Inr p'' \<and> ready meta q \<and> tidy q \<and> Some meta \<notin> remaining q \<longrightarrow> tidy p''"
    proof (intro allI impI)
      fix p'' assume h: "r = Inr p'' \<and> ready meta q \<and> tidy q \<and> Some meta \<notin> remaining q"
      then obtain b q1 where n: "NextAvailableObject now meta q = Inr (b, q1)" "next_post meta q b q1"
        using ready_next by blast
      then have t: "tidy q1 \<and> (\<not> b \<longrightarrow> Some meta \<notin> remaining q1)"
        using NextAvailableObject_tidy h by blast
      show "tidy p''"
      proof (cases b)
        case True
        then show ?thesis using run n(1) t h by simp
      next
        case False
        then have "ready meta q1" using next_post_not_found(1) [of meta q q1] h n(2) by simp
        then show ?thesis using IH [of now meta q1 r] run n(1) t h False by simp
      qed
    qed
  qed
  then show ?thesis using assms by blast
qed

section \<open>The other operations\<close>

lemma rot_cong: "objects q = objects p \<Longrightarrow> primary q = primary p \<Longrightarrow> secondary q = secondary p \<Longrightarrow>
    cursor q = cursor p \<Longrightarrow> rot q = rot p"
  by (simp add: rot_def)

text \<open>A change of the heap that keeps what \<open>tidy\<close> reads of the objects in the rotation.\<close>

lemma tidy_heap:
  assumes "tidy p" "objects q = objects p" "primary q = primary p" "secondary q = secondary p" "cursor q = cursor p"
    and keep: "\<And>a i. Some a \<in> remaining p \<Longrightarrow> member_ok p a \<Longrightarrow>
      pos_of q a i = pos_of p a i \<and> live q a \<and> (vis p a \<longrightarrow> vis q a) \<and> (complete (metas p a) \<longrightarrow> complete (metas q a))"
  shows "tidy q"
proof -
  have r: "rot q = rot p" using assms(2-5) by (rule rot_cong)
  have mem: "member_ok p a" if "Some a \<in> remaining p" for a
    using assms(1) that by (simp add: tidy_def set_rot)
  have "\<forall>a. Some a \<in> set (rot p) \<longrightarrow> member_ok q a"
    using mem keep assms(3) unfolding set_rot by (auto simp: member_ok_def)
  moreover have "pos_of q a (secondary p) \<noteq> 0" if "cursor p \<noteq> 0" "Some a \<in> set (S_of p)" for a
  proof -
    have "Some a \<in> remaining p" using that by (simp add: remaining_def)
    then show ?thesis using that assms(1) mem keep by (auto simp: tidy_def)
  qed
  ultimately show ?thesis using assms(1-5) by (simp add: tidy_def r)
qed

lemma tidy_TouchObject: "tidy p \<Longrightarrow> tidy (TouchObject now a p)"
  by (rule tidy_heap, assumption)
     (auto simp: TouchObject_def pos_of_upd_pm pos_neutral_def member_ok_def,
      auto simp: upd_defs vis_def complete_def allConfirmed_def split: option.splits)

lemma tidy_AddObject:
  assumes td: "tidy p" and cl: "clock_inv p" and a: "live p a" "placerMeta (metas p a) \<noteq> None" "pos_of p a (primary p) = 0"
  shows "tidy (AddObject now a p)"
proof -
  let ?q = "AddObject now a p"
  have out: "Some a \<notin> remaining p" using td a(3) by (auto simp: tidy_def set_rot member_ok_def)
  have f: "objects ?q = (objects p)(primary p := P_of p @ [Some a])" "primary ?q = primary p"
      "secondary ?q = secondary p" "cursor ?q = cursor p"
    by (simp_all add: AddObject_def upd_defs)
  have ps: "primary p \<noteq> secondary p" "P_of p \<noteq> []" "cursor p \<le> length (P_of p)"
    using cl by (auto simp: clock_inv_def rest_inv_def iter_at_def split: if_splits)
  have m: "member_ok ?q b = member_ok p b" "pos_of ?q b (secondary p) = pos_of p b (secondary p)" if "b \<noteq> a" for b
    using that by (auto simp: AddObject_def upd_defs member_ok_def live_def pos_of_def vis_def)
  have ma: "member_ok ?q a"
    using a ps(2) by (auto simp: AddObject_def upd_defs member_ok_def live_def pos_of_def vis_def split: option.splits)
  have mem: "member_ok ?q b" if "Some b \<in> insert (Some a) (remaining p)" for b
    using that td ma m(1) by (cases "b = a") (auto simp: tidy_def set_rot)
  have sec: "pos_of ?q b (secondary p) \<noteq> 0" if "cursor p \<noteq> 0" "Some b \<in> set (S_of p)" for b
    using that td out m(2) [of b] by (cases "b = a") (auto simp: tidy_def remaining_def)
  have rt: "set (rot ?q) = insert (Some a) (remaining p)" "distinct (somes (rot ?q))"
    using ps td out by (cases "cursor p = 0"; auto simp: tidy_def rot_def remaining_def f)+
  show ?thesis using rt mem sec ps by (simp add: tidy_def f)
qed

lemma tidy_entered:
  assumes "tidy p"
  shows "tidy (entered p a)"
proof (rule tidy_heap [OF assms])
  fix b i
  assume "member_ok p b"
  then have "\<not> Deleted (metas p b) \<and> placerMeta (metas p b) \<noteq> None"
    by (auto simp: member_ok_def live_def pos_of_def split: option.splits)
  then have "metas (entered p a) b = metas p b" by (auto simp: metas_entered)
  then show "pos_of (entered p a) b i = pos_of p b i \<and> live (entered p a) b \<and> (vis p b \<longrightarrow> vis (entered p a) b) \<and>
      (complete (metas p b) \<longrightarrow> complete (metas (entered p a) b))"
    using \<open>member_ok p b\<close> by (simp add: pos_of_def live_def vis_def member_ok_def)
qed simp_all

lemma tidy_place_chunk:
  assumes "tidy p" "place_chunk meta chunk dest p = Inr q" "placerMeta (metas p meta) = Some pm" "pm_wf pm"
  shows "tidy q"
proof -
  obtain pl pm' where pl: "q = upd_meta meta (\<lambda>m. m\<lparr>Placement := pl, placerMeta := Some pm'\<rparr>) p"
      and cf: "confirm pm chunk = Inr pm'"
    using assms(2,3) by (auto simp: place_chunk_def go_simps)
  have "allConfirmed pm \<longrightarrow> allConfirmed pm'"
  proof
    assume "allConfirmed pm"
    moreover have r: "in_range chunk (confirmed pm)" using confirm_ok [OF cf] by blast
    ultimately have "confirmed pm ! nat chunk"
      using allConfirmed_iff [OF assms(4)] nth_mem [of "nat chunk" "confirmed pm"] unfolding in_range_def by blast
    then have "pm' = pm" using cf r by (simp add: confirm_def)
    then show "allConfirmed pm'" using \<open>allConfirmed pm\<close> by simp
  qed
  moreover have "pos pm' = pos pm" "visited pm' = visited pm"
    using confirm_ok [OF cf] by (cases pm; cases pm'; simp)+
  ultimately show ?thesis
    by (intro tidy_heap [OF assms(1)])
       (auto simp: pl upd_defs pos_of_def live_def vis_def complete_def member_ok_def assms(3))
qed

end
