(* ===== verification/PlacerSize.thy ===== *)
theory PlacerSize
  imports PlacerTidy
begin

text \<open>
  Size accounting.  \<open>owed m j\<close> is what object \<open>m\<close> occupies or has reserved on instance \<open>j\<close>: a
  confirmed chunk counts where it is placed, a chunk not yet set counts where the eviction reserved
  its place.  \<open>accounted\<close> says that the size counter of every instance is a constant plus the sum of
  what the stored objects owe there, in the 64-bit arithmetic of the counters.
\<close>

section \<open>What an object owes\<close>

definition chunk_at :: "Meta \<Rightarrow> PlacerMeta \<Rightarrow> nat \<Rightarrow> int option" where
  "chunk_at m pm i =
     (if confirmed pm ! i then Some (pl_elems (Placement m) ! i)
      else if swapMap pm = None then None else Some (pl_elems (swapMap pm) ! i))"

definition owed :: "Meta \<Rightarrow> int \<Rightarrow> int64" where
  "owed m j =
     (if Deleted m then 0
      else case placerMeta m of
        None \<Rightarrow> 0
      | Some pm \<Rightarrow> \<Sum>i<length (confirmed pm). if chunk_at m pm i = Some j then ChunkSize m else 0)"

definition inst_size :: "LMeta Group \<Rightarrow> int \<Rightarrow> uint64" where
  "inst_size g j = (case All g ! nat j of None \<Rightarrow> 0 | Some i \<Rightarrow> Size i)"

definition owed_total :: "('m, string, addr) hashmap \<Rightarrow> 'm placer \<Rightarrow> int \<Rightarrow> int64" where
  "owed_total H p j = (\<Sum>a\<in>{a. stored H p a}. owed (metas p a) j)"

definition accounted :: "('m, string, addr) hashmap \<Rightarrow> (int \<Rightarrow> int64) \<Rightarrow> 'm placer \<Rightarrow> bool" where
  "accounted H b p \<longleftrightarrow>
     (\<forall>j. in_group (g_size (pgroup p)) j \<longrightarrow> inst_size (pgroup p) j = b j + owed_total H p j)"

lemma owed_eqI:
  "ChunkSize m' = ChunkSize m \<Longrightarrow> Placement m' = Placement m \<Longrightarrow> Deleted m' = Deleted m \<Longrightarrow>
   map_option (\<lambda>pm. (confirmed pm, swapMap pm)) (placerMeta m') = map_option (\<lambda>pm. (confirmed pm, swapMap pm)) (placerMeta m) \<Longrightarrow>
   owed m' j = owed m j"
  by (cases "placerMeta m"; cases "placerMeta m'") (auto simp: owed_def chunk_at_def cong: if_cong)

lemma owed_core [simp]: "owed (core m) j = owed m j"
  by (rule owed_eqI) (auto simp: core_def option.map_comp comp_def)

lemma owed_entered: "owed (metas (entered p a) b) j = owed (metas p b) j"
  by (cases "b = a \<and> (Deleted (metas p a) \<or> placerMeta (metas p a) = None)")
     (auto simp: metas_entered owed_def newPlacerMeta_def chunk_at_def cong: if_cong)

lemma finite_stored: "heap_inv H n E p \<Longrightarrow> finite {a. stored H p a}"
  by (rule finite_subset [of _ "{..<nextMeta p}"]) (auto simp: heap_inv_def)

lemma sum_change_one:
  fixes f g :: "'a \<Rightarrow> 'b::ab_group_add"
  assumes "finite A" "x \<in> A" "\<And>y. y \<in> A \<Longrightarrow> y \<noteq> x \<Longrightarrow> g y = f y"
  shows "sum g A = sum f A - f x + g x"
proof -
  have "sum g (A - {x}) = sum f (A - {x})" by (rule sum.cong) (use assms(3) in auto)
  then show ?thesis using sum.remove [OF assms(1,2), of f] sum.remove [OF assms(1,2), of g] by simp
qed

section \<open>Instances\<close>

lemma inst_size_set_instance:
  assumes "insts_wf g" "in_group (g_size g) k" "in_group (g_size g) j"
  shows "inst_size (set_instance g k i) j = (if j = k then Size i else inst_size g j)"
  using assms by (auto simp: inst_size_def set_instance_def in_group_def insts_wf_def group_wf_def nth_list_update)

lemma inst_size_GInstance: "GInstance g k = Inr i \<Longrightarrow> inst_size g k = Size i"
  by (auto simp: GInstance_def inst_size_def go_simps split: option.splits)

lemma inst_size_swap_sizes:
  assumes "insts_wf g" "\<forall>k \<in> set tbes. in_group (g_size g) k" "in_group (g_size g) j"
    and "swap_sizes cs new old i tbes g = Inr g'"
  shows "inst_size g' j = inst_size g j +
     (\<Sum>t<length tbes. if tbes ! t = j then (if cs ! (i + t) then - old else new - old) else 0)"
  using assms
proof (induction tbes arbitrary: i g)
  case Nil
  then show ?case by simp
next
  case (Cons k ks)
  then obtain ins where ins: "GInstance g k = Inr ins" and ir: "in_range (int i) cs"
    by (auto simp: go_simps)
  let ?g = "set_instance g k (if \<not> cs ! i then IncreaseSize ins (new - old) else DecreaseSize ins old)"
  have run: "swap_sizes cs new old (Suc i) ks ?g = Inr g'" using Cons.prems(4) ins ir by simp
  have "inst_size g' j = inst_size ?g j +
     (\<Sum>t<length ks. if ks ! t = j then (if cs ! (Suc i + t) then - old else new - old) else 0)"
    using Cons.prems by (intro Cons.IH [OF _ _ _ run]) (auto intro: insts_wf_set_instance)
  moreover have "inst_size ?g j = inst_size g j + (if k = j then (if cs ! i then - old else new - old) else 0)"
    using Cons.prems(1-3) inst_size_GInstance [OF ins] by (simp add: inst_size_set_instance)
  ultimately show ?case
    by (simp add: sum.lessThan_Suc_shift algebra_simps cong: if_cong del: sum.lessThan_Suc)
qed

section \<open>Placing a chunk\<close>

definition unconfirmed :: "addr \<Rightarrow> int \<Rightarrow> 'm placer \<Rightarrow> bool" where
  "unconfirmed meta chunk p \<longleftrightarrow> (\<forall>pm. placerMeta (metas p meta) = Some pm \<longrightarrow> \<not> confirmed pm ! nat chunk)"

definition if_at :: "int \<Rightarrow> int option \<Rightarrow> int64 \<Rightarrow> int64" where
  "if_at j x c = (if x = Some j then c else 0)"

lemma owed_place_chunk:
  assumes run: "place_chunk meta chunk dest p = Inr q" and pm: "placerMeta (metas p meta) = Some pm"
    and lv: "live p meta" and nc: "\<not> confirmed pm ! nat chunk"
    and len: "length (pl_elems (Placement (metas p meta))) = length (confirmed pm)"
  shows "owed (metas q meta) j = owed (metas p meta) j
     - if_at j (chunk_at (metas p meta) pm (nat chunk)) (ChunkSize (metas p meta))
     + if_at j (Some dest) (ChunkSize (metas p meta))"
proof -
  obtain pl pm' where pl: "pl_update (Placement (metas p meta)) chunk dest = Inr pl"
      and cf: "confirm pm chunk = Inr pm'"
      and q: "q = upd_meta meta (\<lambda>m. m\<lparr>Placement := pl, placerMeta := Some pm'\<rparr>) p"
    using run pm by (auto simp: place_chunk_def go_simps)
  let ?c = "nat chunk" and ?n = "length (confirmed pm)" and ?m = "metas p meta" and ?m' = "metas q meta"
  note e = pl_update_elems [OF pl] and f = confirm_ok [OF cf]
  have c: "?c < ?n" using f by (simp add: in_range_def)
  have sw: "swapMap pm' = swapMap pm" using f by (cases pm; cases pm') simp
  have m': "placerMeta ?m' = Some pm'" "Placement ?m' = pl" "ChunkSize ?m' = ChunkSize ?m" "\<not> Deleted ?m'"
    using lv by (simp_all add: q upd_defs live_def)
  let ?f = "\<lambda>i. if chunk_at ?m pm i = Some j then ChunkSize ?m else 0"
  let ?g = "\<lambda>i. if chunk_at ?m' pm' i = Some j then ChunkSize ?m' else 0"
  have "sum ?g {..<?n} = sum ?f {..<?n} - ?f ?c + ?g ?c"
    using c e f sw m' by (intro sum_change_one) (auto simp: chunk_at_def)
  moreover have "chunk_at ?m' pm' ?c = Some dest"
    using c e f m'(2) len by (simp add: chunk_at_def)
  moreover have "owed ?m j = sum ?f {..<?n}" using pm lv by (simp add: owed_def live_def)
  moreover have "owed ?m' j = sum ?g {..<?n}" using m' f by (simp add: owed_def)
  ultimately show ?thesis using m'(3) by (simp add: if_at_def)
qed

section \<open>An eviction\<close>

text \<open>The amounts \<open>swap_sizes\<close> moves are what the two objects owe after and before the eviction.\<close>

lemma owed_victim:
  assumes "live p v" "complete (metas p v)" "placerMeta (metas p v) = Some pm" "pm_ok gs n pm"
  shows "owed (metas p v) j =
     (\<Sum>i<n. if pl_elems (Placement (metas p v)) ! i = j then ChunkSize (metas p v) else 0)"
proof -
  have "confirmed pm ! i" if "i < n" for i
    using assms(2-4) that allConfirmed_iff [of pm] nth_mem [of i "confirmed pm"]
    unfolding pm_ok_def complete_def by auto
  then show ?thesis
    using assms by (auto simp: owed_def live_def chunk_at_def pm_ok_def intro!: sum.cong)
qed

lemma owed_evict_core:
  assumes core: "core_metas p' = evict_core v meta (core_metas p)" and ne: "v \<noteq> meta"
    and pm: "placerMeta (metas p meta) = Some pm" "length (confirmed pm) = n" "swapMap pm = None" and lv: "live p meta"
  shows "owed (metas p' v) j = 0"
    and "b \<noteq> v \<Longrightarrow> b \<noteq> meta \<Longrightarrow> owed (metas p' b) j = owed (metas p b) j"
    and "owed (metas p' meta) j = owed (metas p meta) j +
       (\<Sum>i<n. if pl_elems (Placement (metas p v)) ! i = j then (if confirmed pm ! i then 0 else ChunkSize (metas p meta)) else 0)"
proof -
  have c: "core (metas p' a) = evict_core v meta (core_metas p) a" for a
    using core by (metis core_metas_def)
  have "Deleted (core (metas p' v))" using c [of v] ne by (simp add: evict_core_def)
  then show "owed (metas p' v) j = 0" by (simp add: owed_def)
  show "owed (metas p' b) j = owed (metas p b) j" if "b \<noteq> v" "b \<noteq> meta"
    using c [of b] that owed_core [of "metas p' b" j] by (simp add: evict_core_def core_metas_def)
  define x where "x = core (metas p' meta)"
  have x: "x = (core (metas p meta))\<lparr>placerMeta := map_option (\<lambda>q. q\<lparr>swapMap := copyPlacement (swapMap q)
      (Placement (metas p v)), evicts := Some v\<rparr>) (placerMeta (core (metas p meta)))\<rparr>"
    using c [of meta] ne by (simp add: evict_core_def core_metas_def x_def)
  have "owed x j = (\<Sum>i<n. if chunk_at x (the (placerMeta x)) i = Some j then ChunkSize (metas p meta) else 0)"
    using pm lv by (simp add: x owed_def core_def live_def cong: if_cong)
  also have "\<dots> = (\<Sum>i<n. (if chunk_at (metas p meta) pm i = Some j then ChunkSize (metas p meta) else 0) +
      (if pl_elems (Placement (metas p v)) ! i = j then (if confirmed pm ! i then 0 else ChunkSize (metas p meta)) else 0))"
    using pm by (intro sum.cong) (auto simp: x chunk_at_def core_def copyPlacement_None, simp add: copyPlacement_def Let_def)
  also have "\<dots> = owed (metas p meta) j + (\<Sum>i<n. if pl_elems (Placement (metas p v)) ! i = j
      then (if confirmed pm ! i then 0 else ChunkSize (metas p meta)) else 0)"
    using pm lv by (simp add: sum.distrib owed_def live_def)
  finally show "owed (metas p' meta) j = owed (metas p meta) j +
       (\<Sum>i<n. if pl_elems (Placement (metas p v)) ! i = j then (if confirmed pm ! i then 0 else ChunkSize (metas p meta)) else 0)"
    by (simp add: x_def)
qed

section \<open>The accounting invariant\<close>

lemma owed_total_one:
  assumes "finite {a. stored H p a}" "stored H p x" "\<And>a. stored H q a = stored H p a"
    and "\<And>a. a \<noteq> x \<Longrightarrow> owed (metas q a) j = owed (metas p a) j"
  shows "owed_total H q j = owed_total H p j - owed (metas p x) j + owed (metas q x) j"
  unfolding owed_total_def assms(3) using assms by (intro sum_change_one) auto

lemma owed_total_same:
  "(\<And>a. stored H q a = stored H p a) \<Longrightarrow> (\<And>a. owed (metas q a) j = owed (metas p a) j) \<Longrightarrow>
   owed_total H q j = owed_total H p j"
  by (simp add: owed_total_def)

lemma owed_total_two:
  assumes "finite {a. stored H p a}" "stored H p x" "stored H p y" "x \<noteq> y" "\<And>a. stored H q a = stored H p a"
    and "\<And>a. a \<noteq> x \<Longrightarrow> a \<noteq> y \<Longrightarrow> owed (metas q a) j = owed (metas p a) j"
  shows "owed_total H q j = owed_total H p j - owed (metas p x) j + owed (metas q x) j
     - owed (metas p y) j + owed (metas q y) j"
proof -
  let ?h = "\<lambda>a. if a = x then owed (metas q x) j else owed (metas p a) j"
  let ?A = "{a. stored H p a}"
  have "sum ?h ?A = (\<Sum>a\<in>?A. owed (metas p a) j) - owed (metas p x) j + ?h x"
    using assms by (intro sum_change_one) auto
  moreover have "(\<Sum>a\<in>?A. owed (metas q a) j) = sum ?h ?A - ?h y + owed (metas q y) j"
    using assms by (intro sum_change_one) auto
  ultimately show ?thesis using assms(4,5) by (simp add: owed_total_def)
qed

lemma owed_total_place_chunk:
  assumes fl: "in_flight H n meta chunk p" and un: "unconfirmed meta chunk p"
    and run: "place_chunk meta chunk dest p = Inr q" and pm: "placerMeta (metas p meta) = Some pm"
  shows "owed_total H q j = owed_total H p j
     - if_at j (chunk_at (metas p meta) pm (nat chunk)) (ChunkSize (metas p meta))
     + if_at j (Some dest) (ChunkSize (metas p meta))"
    and "inst_size (pgroup q) = inst_size (pgroup p)"
proof -
  have q: "metas q a = metas p a" if "a \<noteq> meta" for a
    using run that by (auto simp: place_chunk_def go_simps upd_defs split: option.splits)
  have g: "metaMap q = metaMap p" "pgroup q = pgroup p"
    using run by (auto simp: place_chunk_def go_simps upd_defs split: option.splits)
  show "inst_size (pgroup q) = inst_size (pgroup p)" using g by simp
  have hi: "heap_inv H n ((\<lambda>_. {})(meta := {nat chunk})) p" "stored H p meta" "live p meta"
    using fl by (auto simp: in_flight_def ready_def)
  obtain pm0 where p0: "placerMeta (metas p meta) = Some pm0" "pm_ok (g_size (pgroup p)) n pm0"
      "pl_ok (g_size (pgroup p)) n {nat chunk} (Placement (metas p meta))"
    using in_flight_pm [OF fl] .
  have "owed_total H q j = owed_total H p j - owed (metas p meta) j + owed (metas q meta) j"
    using q g hi(2) by (intro owed_total_one finite_stored [OF hi(1)]) (auto simp: stored_def)
  moreover have "owed (metas q meta) j = owed (metas p meta) j
     - if_at j (chunk_at (metas p meta) pm (nat chunk)) (ChunkSize (metas p meta))
     + if_at j (Some dest) (ChunkSize (metas p meta))"
    using owed_place_chunk [OF run pm hi(3)] un pm p0 by (simp add: unconfirmed_def pm_ok_def pl_ok_def)
  ultimately show "owed_total H q j = owed_total H p j
     - if_at j (chunk_at (metas p meta) pm (nat chunk)) (ChunkSize (metas p meta))
     + if_at j (Some dest) (ChunkSize (metas p meta))" by simp
qed

lemma accounted_swap:
  assumes fl: "in_flight H n meta chunk p" and td: "tidy p" and ac: "accounted H b p"
    and pm: "placerMeta (metas p meta) = Some pm" "swapMap pm = None"
    and ev: "evicted_one meta p p1" and pm1: "placerMeta (metas p1 meta) = Some pm1" "evicts pm1 = Some v"
    and g: "swap_sizes (confirmed pm1) (ChunkSize (metas p1 meta)) (ChunkSize (metas p1 v)) 0
              (pl_elems (swapMap pm1)) (pgroup p1) = Inr g"
  shows "accounted H b (p1\<lparr>pgroup := g\<rparr>)"
proof -
  obtain v' where v': "Some v' \<in> remaining p" "evictable meta p v'" and core': "core_metas p1 = evict_core v' meta (core_metas p)"
      and ou: "outer p1 = outer p" using ev by (auto simp: evicted_one_def)
  have ne': "v' \<noteq> meta" using v' by (simp add: evictable_def)
  obtain pm' where pm': "placerMeta (metas p1 meta) = Some pm'" "evicts pm' = Some v'"
      "swapMap pm' = copyPlacement None (Placement (metas p v'))" "confirmed pm' = confirmed pm"
    using evict_core_pm [OF core' ne' pm] .
  then have e: "v' = v" "pm' = pm1" using pm1 by auto
  note v = v' [unfolded e] and ne = ne' [unfolded e] and core = core' [unfolded e]
    and sw1 = pm'(3) [unfolded e] and cf1 = pm'(4) [unfolded e]
  have hi: "heap_inv H n ((\<lambda>_. {})(meta := {nat chunk})) p" "stored H p meta" "live p meta" "insts_wf (pgroup p)"
    using fl by (auto simp: in_flight_def ready_def heap_inv_def)
  have "member_ok p v" using td v(1) by (auto simp: tidy_def set_rot)
  then have vl: "live p v" "complete (metas p v)" using v(2) by (auto simp: member_ok_def evictable_def)
  have vs: "stored H p v" using hi(1) v remaining_sub_arrs [of p] by (auto simp: heap_inv_def)
  obtain pv where pv: "placerMeta (metas p v) = Some pv" using vl(2) by (auto simp: complete_def split: option.splits)
  have vok: "pm_ok (g_size (pgroup p)) n pv" "pl_ok (g_size (pgroup p)) n {} (Placement (metas p v))"
    using hi(1) vs ne pv by (auto simp: heap_inv_def obj_ok_def)
  have len: "length (confirmed pm) = n" using in_flight_pm [OF fl] pm(1) by (metis option.inject pm_ok_def)
  have f: "pgroup p1 = pgroup p" "metaMap p1 = metaMap p" using ou by (auto simp: outer_def)
  have st: "stored H (p1\<lparr>pgroup := g\<rparr>) a = stored H p a" for a by (simp add: stored_def f)
  have cs: "ChunkSize (metas p1 a) = ChunkSize (metas p a)" for a
    using arg_cong [OF core, of "\<lambda>M. ChunkSize (M a)"] ne by (auto simp: evict_core_def core_metas_def split: if_splits)
  let ?P = "pl_elems (Placement (metas p v))" and ?new = "ChunkSize (metas p meta)" and ?old = "ChunkSize (metas p v)"
  have P: "pl_elems (swapMap pm1) = ?P" "length ?P = n" using sw1 vok(2) by (simp_all add: copyPlacement_None pl_ok_def)
  have g0: "insts_wf g" "g_size g = g_size (pgroup p)"
    using swap_sizes_ok [OF hi(4), of ?P 0 "confirmed pm" ?new ?old] pl_ok_all [OF vok(2)] g P len by (auto simp: f cs cf1)
  have "inst_size g j = b j + owed_total H (p1\<lparr>pgroup := g\<rparr>) j" if j: "in_group (g_size g) j" for j
  proof -
    have "inst_size g j = inst_size (pgroup p) j + (\<Sum>t<n. if ?P ! t = j then (if confirmed pm ! t then - ?old else ?new - ?old) else 0)"
      using inst_size_swap_sizes [OF hi(4), of ?P j "confirmed pm" ?new ?old 0 g] pl_ok_all [OF vok(2)] g P j g0
      by (simp add: f cs cf1 cong: if_cong)
    also have "(\<Sum>t<n. if ?P ! t = j then (if confirmed pm ! t then - ?old else ?new - ?old) else 0) =
        (\<Sum>t<n. (if ?P ! t = j then (if confirmed pm ! t then 0 else ?new) else 0) - (if ?P ! t = j then ?old else 0))"
      by (intro sum.cong) auto
    also have "\<dots> = (\<Sum>t<n. if ?P ! t = j then (if confirmed pm ! t then 0 else ?new) else 0) - owed (metas p v) j"
      using owed_victim [OF vl pv vok(1)] by (simp add: sum_subtractf)
    finally have i: "inst_size g j = inst_size (pgroup p) j + ((\<Sum>t<n. if ?P ! t = j then (if confirmed pm ! t then 0 else ?new) else 0)
        - owed (metas p v) j)" .
    note o = owed_evict_core [OF core ne pm(1) len pm(2) hi(3)]
    have "owed_total H (p1\<lparr>pgroup := g\<rparr>) j = owed_total H p j - owed (metas p v) j + owed (metas p1 v) j
        - owed (metas p meta) j + owed (metas p1 meta) j"
      using owed_total_two [OF finite_stored [OF hi(1)] vs hi(2) ne, of "p1\<lparr>pgroup := g\<rparr>" j] st o(2) by simp
    then have "owed_total H (p1\<lparr>pgroup := g\<rparr>) j = owed_total H p j +
        ((\<Sum>t<n. if ?P ! t = j then (if confirmed pm ! t then 0 else ?new) else 0) - owed (metas p v) j)"
      unfolding o(1,3) by (simp add: algebra_simps)
    then show ?thesis using i ac j g0 by (simp add: accounted_def)
  qed
  then show ?thesis by (simp add: accounted_def)
qed

lemma accounted_evicting:
  assumes fl: "in_flight H n meta chunk p" and un: "unconfirmed meta chunk p" and td: "tidy p"
    and ac: "accounted H b p" and sw: "\<And>pm. placerMeta (metas p meta) = Some pm \<Longrightarrow> swapMap pm = None"
    and run: "place_evicting now meta chunk p = Some (Inr p')"
  shows "accounted H b p'"
proof -
  obtain p1 where l: "evict_loop now meta p = Some (Inr p1)" and ev: "evicted_one meta p p1"
    using run evict_loop_cases [of meta p now] fl by (auto simp: place_evicting_def in_flight_def)
  note F = in_flight_evicted [OF fl ev sw]
  obtain pm where pm: "placerMeta (metas p meta) = Some pm" using in_flight_pm [OF fl] .
  obtain pm1 v g p2 where r: "placerMeta (metas p1 meta) = Some pm1" "evicts pm1 = Some v"
      "swap_sizes (confirmed pm1) (ChunkSize (metas p1 meta)) (ChunkSize (metas p1 v)) 0
              (pl_elems (swapMap pm1)) (pgroup p1) = Inr g"
      "in_range chunk (pl_elems (swapMap pm1))"
      "place_chunk meta chunk (pl_elems (swapMap pm1) ! nat chunk) (p1\<lparr>pgroup := g\<rparr>) = Inr p2"
      "p' = upd_pm meta (\<lambda>q. q\<lparr>once := Some False\<rparr>) p2"
    using run l by (auto simp: place_evicting_def go_simps split: option.splits)
  have ac1: "accounted H b (p1\<lparr>pgroup := g\<rparr>)"
    using accounted_swap [OF fl td ac pm sw [OF pm] ev r(1-3)] .
  have iw: "insts_wf (pgroup p1)" "pl_ok (g_size (pgroup p1)) n {} (swapMap pm1)" "length (confirmed pm1) = n"
    using F(1,2) r(1) in_flight_pm [OF F(1)] by (auto simp: in_flight_def heap_inv_def) (metis option.inject pm_ok_def)
  have g0: "insts_wf g" "g_size g = g_size (pgroup p1)"
    using swap_sizes_ok [OF iw(1), of "pl_elems (swapMap pm1)" 0 "confirmed pm1"
        "ChunkSize (metas p1 meta)" "ChunkSize (metas p1 v)"] pl_ok_all [OF iw(2)] r(3) iw(2,3) by (auto simp: pl_ok_def)
  note fl1 = in_flight_group [OF F(1) g0]
  obtain v' where "core_metas p1 = evict_core v' meta (core_metas p)" "v' \<noteq> meta"
    using ev by (auto simp: evicted_one_def evictable_def)
  then have cf: "confirmed pm1 = confirmed pm" "swapMap pm1 \<noteq> None"
    using evict_core_pm [of p1 v' meta p pm] pm sw [OF pm] r(1)
    by (auto simp: copyPlacement_def Let_def)
  have un1: "unconfirmed meta chunk (p1\<lparr>pgroup := g\<rparr>)" using un pm r(1) cf(1) by (simp add: unconfirmed_def)
  have "owed_total H p2 j = owed_total H (p1\<lparr>pgroup := g\<rparr>) j" for j
    using owed_total_place_chunk(1) [OF fl1 un1 r(5), of pm1 j] r(1) un1 cf(2)
    by (auto simp: chunk_at_def unconfirmed_def)
  moreover have "owed_total H p' j = owed_total H p2 j" for j
    unfolding r(6)
  proof (rule owed_total_same)
    show "owed (metas (upd_pm meta (\<lambda>q. q\<lparr>once := Some False\<rparr>) p2) a) j = owed (metas p2 a) j" for a
      by (rule owed_eqI) (auto simp: upd_defs option.map_comp comp_def)
  qed (simp add: stored_def)
  moreover have "pgroup p' = pgroup (p1\<lparr>pgroup := g\<rparr>)"
    using r(5,6) by (auto simp: place_chunk_def go_simps upd_defs split: option.splits)
  ultimately show ?thesis using ac1 by (simp add: accounted_def)
qed

lemma accounted_fitting:
  assumes fl: "in_flight H n meta chunk p" and un: "unconfirmed meta chunk p" and ac: "accounted H b p"
    and pm: "placerMeta (metas p meta) = Some pm" "swapMap pm = None"
    and k: "in_group (g_size (pgroup p)) k" and ins: "GInstance (pgroup p) k = Inr ins"
    and run: "place_fitting now meta chunk k ins p = Inr p'"
  shows "accounted H b p'"
proof -
  obtain p1 where p1: "place_chunk meta chunk k p = Inr p1" using run by (auto simp: place_fitting_def go_simps)
  define p2 where "p2 = (if (case placerMeta (metas p1 meta) of None \<Rightarrow> False | Some pm \<Rightarrow> pos pm (primary p1) = 0)
      then AddObject now meta p1 else p1)"
  have p': "p' = p2\<lparr>pgroup := set_instance (pgroup p2) k (IncreaseSize ins (ChunkSize (metas p2 meta)))\<rparr>"
    using run p1 by (simp add: place_fitting_def p2_def Let_def)
  have o: "owed (metas p2 a) j = owed (metas p1 a) j" for a j
    by (rule owed_eqI) (auto simp: p2_def AddObject_def upd_defs option.map_comp comp_def)
  have f: "pgroup p2 = pgroup p" "metaMap p2 = metaMap p1" "ChunkSize (metas p2 meta) = ChunkSize (metas p meta)"
    using p1 by (auto simp: p2_def AddObject_def upd_defs place_chunk_def go_simps split: option.splits)
  have iw: "insts_wf (pgroup p)" using fl by (simp add: in_flight_def heap_inv_def)
  have "owed_total H p' j = owed_total H p1 j" for j
    using o f by (intro owed_total_same) (auto simp: p' stored_def)
  moreover have "owed_total H p1 j = owed_total H p j + (if j = k then ChunkSize (metas p meta) else 0)" for j
    using owed_total_place_chunk(1) [OF fl un p1 pm(1)] un pm by (simp add: chunk_at_def unconfirmed_def if_at_def)
  moreover have "inst_size (pgroup p') j = inst_size (pgroup p) j + (if j = k then ChunkSize (metas p meta) else 0)"
    if "in_group (g_size (pgroup p)) j" for j
    using inst_size_set_instance [OF iw k that] inst_size_GInstance [OF ins] by (simp add: p' f)
  moreover have "g_size (pgroup p') = g_size (pgroup p)" by (simp add: p' f)
  ultimately show ?thesis using ac by (simp add: accounted_def)
qed

lemma assign_slice_accounted:
  assumes "assign_slice meta lam p = Inr (k, p1)" "in_flight H n meta chunk p"
  shows "accounted H b p1 = accounted H b p" "unconfirmed meta chunk p1 = unconfirmed meta chunk p"
    "tidy p \<Longrightarrow> tidy p1" "remaining p1 = remaining p"
    "map_option swapMap (placerMeta (metas p1 meta)) = map_option swapMap (placerMeta (metas p meta))"
proof -
  have w: "insts_wf (pgroup p)" "slice_wf (pgroup p) (slice (metas p meta))"
    using assms(2) by (auto simp: in_flight_def heap_inv_def)
  obtain s g where r: "GetIndex (slice (metas p meta)) (pgroup p) lam = Inr (s, g, k)"
      and p1: "p1 = upd_meta meta (\<lambda>m. m\<lparr>slice := s\<rparr>) (p\<lparr>pgroup := g\<rparr>)"
    using assms(1) by (auto simp: assign_slice_def go_simps)
  have o: "g_size g = g_size (pgroup p)" "All g = All (pgroup p)"
    using GetIndex_once [OF _ w(2) r] w(1) by (auto simp: insts_wf_def)
  have "owed_total H p1 j = owed_total H p j" for j
    by (rule owed_total_same) (auto simp: p1 upd_defs stored_def intro!: owed_eqI)
  then show "accounted H b p1 = accounted H b p" by (simp add: accounted_def p1 upd_defs o inst_size_def)
  show "unconfirmed meta chunk p1 = unconfirmed meta chunk p" by (simp add: unconfirmed_def p1 upd_defs)
  show "tidy p \<Longrightarrow> tidy p1"
    by (rule tidy_heap) (auto simp: p1 upd_defs pos_of_def live_def vis_def complete_def member_ok_def)
  show "remaining p1 = remaining p" by (simp add: remaining_def p1 upd_defs)
  show "map_option swapMap (placerMeta (metas p1 meta)) = map_option swapMap (placerMeta (metas p meta))"
    by (simp add: p1 upd_defs)
qed

lemma GetOrInsert_locked_accounted:
  assumes fl: "in_flight H n meta chunk p" and un: "unconfirmed meta chunk p" and td: "tidy p" and ac: "accounted H b p"
    and lam: "0 \<le> lam" "lam < 2 ^ 62" and run: "GetOrInsert_locked now meta chunk lam p = Some (Inr (post, p'))"
  shows "accounted H b p'"
proof -
  obtain pm where pm: "placerMeta (metas p meta) = Some pm" "pm_ok (g_size (pgroup p)) n pm"
    using in_flight_pm [OF fl] .
  have lv: "\<not> Deleted (metas p meta)" and c: "0 \<le> chunk" "chunk < int n"
    using fl by (auto simp: in_flight_def ready_def live_def)
  show ?thesis
  proof (cases "IsPlacementEmpty (swapMap pm)")
    case False
    then have r: "place_chunk meta chunk (pl_elems (swapMap pm) ! nat chunk) p = Inr p'" "swapMap pm \<noteq> None"
      using run lv pm(1) by (auto simp: GetOrInsert_locked_def go_simps IsPlacementEmpty_def)
    have "owed_total H p' j = owed_total H p j" for j
      using owed_total_place_chunk(1) [OF fl un r(1) pm(1)] un pm(1) r(2) by (auto simp: chunk_at_def unconfirmed_def)
    moreover have "pgroup p' = pgroup p"
      using r(1) by (auto simp: place_chunk_def go_simps upd_defs split: option.splits)
    ultimately show ?thesis using ac by (simp add: accounted_def)
  next
    case True
    then have sw: "swapMap pm = None" using pm(2) c by (auto simp: pm_ok_def pl_ok_def IsPlacementEmpty_def)
    obtain k p1 where a: "assign_slice meta lam p = Inr (k, p1)" "in_flight H n meta chunk p1"
        "in_group (g_size (pgroup p1)) k"
      using assign_slice_ok [OF fl lam] by blast
    note A = assign_slice_accounted [OF a(1) fl]
    have sw1: "swapMap q = None" if "placerMeta (metas p1 meta) = Some q" for q using A(5) that pm(1) sw by simp
    obtain pm1 where pm1: "placerMeta (metas p1 meta) = Some pm1" using in_flight_pm [OF a(2)] .
    have "insts_wf (pgroup p1)" using a(2) by (auto simp: in_flight_def heap_inv_def)
    then obtain ins where ins: "GInstance (pgroup p1) k = Inr ins" using GInstance_ok a(3) by blast
    show ?thesis
    proof (cases "Size ins + ChunkSize (metas p1 meta) < Capacity ins")
      case fits: True
      then have "place_fitting now meta chunk k ins p1 = Inr p'"
        using run True lv pm(1) a(1) ins by (auto simp: GetOrInsert_locked_def go_simps)
      then show ?thesis using accounted_fitting [OF a(2) _ _ pm1 sw1 [OF pm1] a(3) ins] A(1,2) un ac by blast
    next
      case nofit: False
      then have "place_evicting now meta chunk p1 = Some (Inr p')"
        using run True lv pm(1) a(1) ins by (auto simp: GetOrInsert_locked_def go_simps)
      then show ?thesis using accounted_evicting [OF a(2) _ A(3) [OF td] _ sw1] A(1,2) un ac by blast
    qed
  qed
qed

section \<open>Whole requests\<close>

lemma tidy_group: "tidy p \<Longrightarrow> tidy (p\<lparr>pgroup := g\<rparr>)"
  by (rule tidy_heap) (auto simp: pos_of_def live_def vis_def member_ok_def)

lemma tidy_fitting:
  assumes fl: "in_flight H n meta chunk p" and td: "tidy p" and k: "in_group (g_size (pgroup p)) k"
    and run: "place_fitting now meta chunk k ins p = Inr p'"
  shows "tidy p'"
proof -
  obtain pm where pm: "placerMeta (metas p meta) = Some pm" "pm_ok (g_size (pgroup p)) n pm"
    using in_flight_pm [OF fl] .
  obtain m' where m': "place_chunk meta chunk k p = Inr (upd_meta meta (\<lambda>_. m') p)"
      "placer_inv H n (upd_meta meta (\<lambda>_. m') p)" "placerMeta m' \<noteq> None"
    using place_chunk_ok [OF fl k] by blast
  let ?p1 = "upd_meta meta (\<lambda>_. m') p"
  have t1: "tidy ?p1" using tidy_place_chunk [OF td m'(1) pm(1)] pm(2) by (simp add: pm_ok_def)
  have "live p meta" using fl by (simp add: in_flight_def ready_def)
  then have l1: "live ?p1 meta"
    using m'(1) pm(1) by (auto simp: live_def place_chunk_def go_simps upd_defs dest!: arg_cong [where f = "\<lambda>q. Deleted (metas q meta)"])
  have "tidy (AddObject now meta ?p1)" if "case placerMeta (metas ?p1 meta) of None \<Rightarrow> False | Some pm \<Rightarrow> pos pm (primary ?p1) = 0"
    using m'(2,3) l1 that
    by (intro tidy_AddObject [OF t1]) (auto simp: placer_inv_def pos_of_def upd_defs split: option.splits)
  then show ?thesis
    using run m'(1) t1 by (auto simp: place_fitting_def Let_def intro!: tidy_group split: if_splits)
qed

lemma tidy_evicting:
  assumes fl: "in_flight H n meta chunk p" and td: "tidy p"
    and pm: "placerMeta (metas p meta) = Some pm" "swapMap pm = None"
    and out: "Some meta \<notin> remaining p"
    and run: "place_evicting now meta chunk p = Some (Inr p')"
  shows "tidy p'"
proof -
  obtain p1 where l: "evict_loop now meta p = Some (Inr p1)" and ev: "evicted_one meta p p1"
    using run evict_loop_cases [of meta p now] fl by (auto simp: place_evicting_def in_flight_def)
  have t1: "tidy p1" using evict_loop_tidy [OF l _ td out] fl by (simp add: in_flight_def)
  have fl1: "in_flight H n meta chunk p1" using in_flight_evicted(1) [OF fl ev] pm by auto
  obtain pm1 where pm1: "placerMeta (metas p1 meta) = Some pm1" "pm_ok (g_size (pgroup p1)) n pm1"
    using in_flight_pm [OF fl1] .
  obtain d g p2 where r: "place_chunk meta chunk d (p1\<lparr>pgroup := g\<rparr>) = Inr p2"
      "p' = upd_pm meta (\<lambda>q. q\<lparr>once := Some False\<rparr>) p2"
    using run l by (auto simp: place_evicting_def go_simps split: option.splits)
  have "tidy p2" using tidy_place_chunk [OF tidy_group [OF t1] r(1)] pm1 by (simp add: pm_ok_def)
  then show ?thesis
    unfolding r(2)
    by (rule tidy_heap) (auto simp: pos_of_upd_pm pos_neutral_def member_ok_def,
        auto simp: upd_defs vis_def complete_def allConfirmed_def split: option.splits)
qed

lemma GetOrInsert_locked_tidy:
  assumes fl: "in_flight H n meta chunk p" and td: "tidy p" and lam: "0 \<le> lam" "lam < 2 ^ 62"
    and run: "GetOrInsert_locked now meta chunk lam p = Some (Inr (post, p'))"
    and guard: "post \<longrightarrow> Some meta \<notin> remaining p"
  shows "tidy p'"
proof -
  obtain pm where pm: "placerMeta (metas p meta) = Some pm" "pm_ok (g_size (pgroup p)) n pm"
    using in_flight_pm [OF fl] .
  have lv: "\<not> Deleted (metas p meta)" using fl by (auto simp: in_flight_def ready_def live_def)
  show ?thesis
  proof (cases "IsPlacementEmpty (swapMap pm)")
    case False
    then have "place_chunk meta chunk (pl_elems (swapMap pm) ! nat chunk) p = Inr p'"
      using run lv pm(1) by (auto simp: GetOrInsert_locked_def go_simps)
    then show ?thesis using tidy_place_chunk [OF td _ pm(1)] pm(2) by (simp add: pm_ok_def)
  next
    case True
    obtain k p1 where a: "assign_slice meta lam p = Inr (k, p1)" "in_flight H n meta chunk p1"
        "in_group (g_size (pgroup p1)) k"
      using assign_slice_ok [OF fl lam] by blast
    note A = assign_slice_accounted [OF a(1) fl]
    have td1: "tidy p1" using A(3) td .
    obtain pm1 where pm1: "placerMeta (metas p1 meta) = Some pm1" "pm_ok (g_size (pgroup p1)) n pm1"
      using in_flight_pm [OF a(2)] .
    have "insts_wf (pgroup p1)" using a(2) by (auto simp: in_flight_def heap_inv_def)
    then obtain ins where ins: "GInstance (pgroup p1) k = Inr ins" using GInstance_ok a(3) by blast
    show ?thesis
    proof (cases "Size ins + ChunkSize (metas p1 meta) < Capacity ins")
      case fits: True
      then have "place_fitting now meta chunk k ins p1 = Inr p'"
        using run True lv pm(1) a(1) ins by (auto simp: GetOrInsert_locked_def go_simps)
      then show ?thesis using tidy_fitting [OF a(2) td1 a(3)] by blast
    next
      case nofit: False
      then have "place_evicting now meta chunk p1 = Some (Inr p')" "post"
        using run True lv pm(1) a(1) ins by (auto simp: GetOrInsert_locked_def go_simps)
      moreover have "swapMap pm1 = None" using A(5) pm pm1 True fl
        by (auto simp: IsPlacementEmpty_def pm_ok_def pl_ok_def in_flight_def)
      ultimately show ?thesis using tidy_evicting [OF a(2) td1 pm1(1)] guard A(4) by auto
    qed
  qed
qed

definition books :: "('m, string, addr) hashmap \<Rightarrow> nat \<Rightarrow> (int \<Rightarrow> int64) \<Rightarrow> 'm placer \<Rightarrow> bool" where
  "books H n b p \<longleftrightarrow> placer_inv H n p \<and> tidy p \<and> accounted H b p"

lemma accounted_cong:
  "pgroup q = pgroup p \<Longrightarrow> (\<And>j. owed_total H q j = owed_total H p j) \<Longrightarrow> accounted H b q = accounted H b p"
  by (simp add: accounted_def)

lemma books_NewMeta:
  assumes bk: "books H n b p" and n: "n \<le> 100" and c: "0 \<le> chunk" "chunk < int n"
    and run: "Placer_NewMeta choice key ss (int n) chunk lam cs p = Inr (a, p1)"
  shows "books H n b p1" "prepared H n a chunk lam p1"
proof -
  have inv: "placer_inv H n p" and td: "tidy p" and ac: "accounted H b p" using bk by (auto simp: books_def)
  have N: "placer_inv H n p1" "prepared H n a chunk lam p1" "metaMap p1 = metaMap p" "pgroup p1 = pgroup p"
    using Placer_NewMeta_ok [OF inv n c, of choice key ss lam cs] run by auto
  then show "prepared H n a chunk lam p1" by simp
  obtain p0 where g: "pool_Get choice p = (a, p0)" and u: "\<exists>m. p1 = upd_meta a (\<lambda>_. m) p0"
    using run by (auto simp: Placer_NewMeta_def go_simps split: prod.splits)
  note G = pool_Get_ok [OF inv g]
  have ms: "metas p1 x = metas p x" if "x \<noteq> a" for x using u G(7) that by (auto simp: upd_defs)
  have ns: "\<not> stored H p a" using N(2,3) by (simp add: prepared_def stored_def)
  have na: "Some a \<notin> remaining p"
    using not_stored_not_in_arrays [of H n "\<lambda>_. {}" p a] ns inv remaining_sub_arrs [of p]
    by (auto simp: placer_inv_def)
  have "owed_total H p1 j = owed_total H p j" for j
    unfolding owed_total_def
  proof (rule sum.cong)
    fix x assume "x \<in> {a. stored H p a}"
    then show "owed (metas p1 x) j = owed (metas p x) j" using ms [of x] ns by (cases "x = a") auto
  qed (auto simp: stored_def N(3))
  then have "accounted H b p1" using ac N(4) accounted_cong [of p1 p] by blast
  moreover have "tidy p1"
  proof (rule tidy_heap [OF td])
    fix x i assume "Some x \<in> remaining p" "member_ok p x"
    then have "metas p1 x = metas p x" using na ms by metis
    then show "pos_of p1 x i = pos_of p x i \<and> live p1 x \<and> (vis p x \<longrightarrow> vis p1 x) \<and>
        (complete (metas p x) \<longrightarrow> complete (metas p1 x))"
      using \<open>member_ok p x\<close> by (simp add: pos_of_def live_def vis_def member_ok_def)
  qed (use u G in \<open>auto simp: upd_defs\<close>)
  ultimately show "books H n b p1" using N(1) by (simp add: books_def)
qed

lemma stored_ran: "stored H p a \<longleftrightarrow> a \<in> ran (hm_Get H (metaMap p))"
  by (auto simp: stored_def ran_def)

lemma enters_books:
  assumes bk: "books H n b p" and pr: "prepared H n a chunk lam p" and en: "enters p r p'"
    and mm: "hm_Get H (metaMap p') = (hm_Get H (metaMap p))(key \<mapsto> er_meta r)"
    and got: "er_got r = (hm_Get H (metaMap p) key \<noteq> None)" "\<not> er_got r \<longrightarrow> er_meta r = a"
      "er_got r \<longrightarrow> hm_Get H (metaMap p) key = Some (er_meta r)"
  shows "tidy p'" "accounted H b p'" "remaining p' = remaining p"
proof -
  have td: "tidy p" and ac: "accounted H b p" using bk by (auto simp: books_def)
  let ?x = "er_meta r"
  obtain q pm where q: "metas q = metas p" "pgroup q = pgroup p" "objects q = objects p" "primary q = primary p"
      "secondary q = secondary p" "cursor q = cursor p"
      and p': "p' = (if er_return r then upd_meta ?x (\<lambda>m. m\<lparr>Reset := True\<rparr>) (entered q ?x) else entered q ?x)"
    using en by (auto simp: enters_def)
  have tq: "tidy q"
    by (rule tidy_heap [OF td]) (use q in \<open>auto simp: pos_of_def live_def vis_def member_ok_def\<close>)
  have "tidy (upd_meta ?x (\<lambda>m. m\<lparr>Reset := True\<rparr>) (entered q ?x))"
    by (rule tidy_heap [OF tidy_entered [OF tq, of ?x]])
       (auto simp: upd_defs pos_of_def live_def vis_def member_ok_def complete_def)
  then show "tidy p'" using tidy_entered [OF tq, of ?x] p' by simp
  show "remaining p' = remaining p" using q by (simp add: p' remaining_def upd_defs)
  have ow: "owed (metas p' y) j = owed (metas p y) j" for y j
  proof -
    have "owed (metas p' y) j = owed (metas (entered q ?x) y) j" by (rule owed_eqI) (auto simp: p' upd_defs)
    then show ?thesis using owed_entered [of q ?x y j] q(1) by simp
  qed
  have hi: "heap_inv H n (\<lambda>_. {}) p" using bk by (simp add: books_def placer_inv_def)
  have st: "{y. stored H p' y} = (if er_got r then {y. stored H p y} else insert a {y. stored H p y})"
  proof (cases "er_got r")
    case True
    then have "hm_Get H (metaMap p) key = Some (er_meta r)" using got(3) by blast
    then have "hm_Get H (metaMap p') = hm_Get H (metaMap p)" unfolding mm by (rule fun_upd_idem)
    then show ?thesis using True by (auto simp: stored_def)
  next
    case False
    then have "?x = a" "hm_Get H (metaMap p) key = None" using got by auto
    then have "stored H p' y \<longleftrightarrow> y = a \<or> stored H p y" for y
      using mm ran_map_upd [of "hm_Get H (metaMap p)" key a] stored_ran [of H p'] stored_ran [of H p] by simp
    then show ?thesis using False by auto
  qed
  have "owed_total H p' j = owed_total H p j" for j
  proof (cases "er_got r")
    case True
    then show ?thesis using st by (simp add: owed_total_def ow)
  next
    case False
    have "\<not> stored H p a" "owed (metas p a) j = 0" using pr by (simp_all add: prepared_def owed_def)
    then show ?thesis using st False finite_stored [OF hi] by (simp add: owed_total_def ow)
  qed
  moreover have "pgroup p' = pgroup p" using q by (simp add: p' upd_defs)
  ultimately show "accounted H b p'" using ac by (simp add: accounted_def)
qed

lemma GetOrInsert_enter_meta:
  assumes "hashmap_ok H" "GetOrInsert_enter H key a p = Inr (r, p')" "er_got r"
  shows "hm_Get H (metaMap p) key = Some (er_meta r)"
proof -
  have "(er_meta r, er_got r) = (let (m, x, y) = hm_GetOrInsert H (metaMap p) key a in (x, y))"
    using assms(2)
    by (auto simp: GetOrInsert_enter_def MetaStore_GetOrInsert_def Let_def go_simps split: prod.splits option.splits if_splits)
  then show ?thesis
    using assms(3) hm_GetOrInsert_spec [OF assms(1), of "metaMap p" key a]
    by (auto split: option.splits)
qed

lemma GetOrInsert_books:
  assumes H: "hashmap_ok H" and bk: "books H n b p" and pr: "prepared H n a chunk lam p"
    and c: "0 \<le> chunk" "chunk < int n" and lam: "0 \<le> lam" "lam < 2 ^ 62"
    and run: "GetOrInsert H now key a p = Some (Inr (meta, got, post, p'))"
  shows "placer_inv H n p' \<and> accounted H b p' \<and> ((post \<longrightarrow> Some meta \<notin> remaining p) \<longrightarrow> tidy p')"
proof -
  have inv: "placer_inv H n p" using bk by (simp add: books_def)
  obtain r p1 where r: "GetOrInsert_enter H key a p = Inr (r, p1)" "er_chunk r = chunk" "er_lambda r = lam"
      "hm_Get H (metaMap p1) = (hm_Get H (metaMap p))(key \<mapsto> er_meta r)"
      "er_got r = (hm_Get H (metaMap p) key \<noteq> None)" "\<not> er_got r \<longrightarrow> er_meta r = a" "enters p r p1"
      "if er_return r then placer_inv H n p1 else in_flight H n (er_meta r) chunk p1"
    using GetOrInsert_enter_ok [OF H inv pr c, of key] by blast
  note E = enters_books [OF bk pr r(7,4,5,6)] and gm = GetOrInsert_enter_meta [OF H r(1)]
  have inv': "placer_inv H n p'" using GetOrInsert_ok [OF H inv pr c lam, of now key] run by auto
  show ?thesis
  proof (cases "er_return r")
    case True
    then show ?thesis using run r(1) inv' E gm by (auto simp: GetOrInsert_def)
  next
    case False
    then have l: "GetOrInsert_locked now (er_meta r) chunk lam p1 = Some (Inr (post, p'))" "meta = er_meta r"
      using run r(1-3) by (auto simp: GetOrInsert_def go_simps)
    have fl: "in_flight H n (er_meta r) chunk p1" using r(8) False by simp
    have un: "unconfirmed (er_meta r) chunk p1"
      using r(2,7) False by (auto simp: enters_def unconfirmed_def)
    show ?thesis
      using GetOrInsert_locked_accounted [OF fl un _ _ lam l(1), of b] GetOrInsert_locked_tidy [OF fl _ lam l(1)]
        E gm inv' l(2) by blast
  qed
qed

section \<open>Runs\<close>

text \<open>
  \<open>evicts_itself\<close>: the SET evicts for an object that is already in the rotation (one of its chunks
  was placed without an eviction before).  This is the one case in which the rotation can get a
  second entry of the object.
\<close>

fun evicts_itself :: "('m, string, addr) hashmap \<Rightarrow> nat \<Rightarrow> placer_op \<Rightarrow> 'm placer \<Rightarrow> bool" where
  "evicts_itself H n (OpSet now choice key ss chunk lam cs) p =
     (case Placer_NewMeta choice key ss (int n) chunk lam cs p of
        Inl e \<Rightarrow> False
      | Inr (a, p1) \<Rightarrow>
          (case GetOrInsert H now key a p1 of
             Some (Inr (meta, _, post, _)) \<Rightarrow> post \<and> Some meta \<in> remaining p1
           | _ \<Rightarrow> False))"
| "evicts_itself H n _ p = False"

fun no_self_eviction :: "('m, string, addr) hashmap \<Rightarrow> nat \<Rightarrow> placer_op list \<Rightarrow> 'm placer \<Rightarrow> bool" where
  "no_self_eviction H n [] p = True"
| "no_self_eviction H n (x # xs) p =
     (\<not> evicts_itself H n x p \<and>
      (case run_op H n x p of Some (Inr p') \<Rightarrow> no_self_eviction H n xs p' | _ \<Rightarrow> True))"

lemma books_upd_pm:
  assumes bk: "books H n b p" and pn: "pos_neutral f"
    and f: "\<And>pm. confirmed (f pm) = confirmed pm \<and> numConfirmed (f pm) = numConfirmed pm \<and> swapMap (f pm) = swapMap pm \<and>
         (visited pm \<longrightarrow> visited (f pm))"
  shows "books H n b (upd_pm a f p)"
proof -
  have inv: "placer_inv H n p" and td: "tidy p" and ac: "accounted H b p" using bk by (auto simp: books_def)
  have "placer_inv H n (upd_pm a f p)"
    by (rule placer_inv_upd_pm [OF inv pn]) (simp add: pm_ok_def pm_wf_def f)
  moreover have "tidy (upd_pm a f p)"
    by (rule tidy_heap [OF td]) (auto simp: pos_of_upd_pm [OF pn] member_ok_def,
        auto simp: upd_defs vis_def complete_def allConfirmed_def f split: option.splits)
  moreover have "owed_total H (upd_pm a f p) j = owed_total H p j" for j
  proof (rule owed_total_same)
    show "owed (metas (upd_pm a f p) x) j = owed (metas p x) j" for x
      by (rule owed_eqI) (auto simp: upd_defs option.map_comp comp_def f)
  qed (simp add: stored_def)
  ultimately show ?thesis using ac accounted_cong [of "upd_pm a f p" p] by (simp add: books_def)
qed

lemma run_op_books:
  assumes H: "hashmap_ok H" and n: "n \<le> 100" and bk: "books H n b p" and ok: "op_ok n x"
    and ns: "\<not> evicts_itself H n x p" and run: "run_op H n x p = Some (Inr p')"
  shows "books H n b p'"
proof (cases x)
  case (OpSet now choice key ss chunk lam cs)
  then obtain a p1 meta got post where r: "Placer_NewMeta choice key ss (int n) chunk lam cs p = Inr (a, p1)"
      "GetOrInsert H now key a p1 = Some (Inr (meta, got, post, p'))"
    using run by (auto simp: go_simps split: sum.splits)
  have c: "0 \<le> chunk" "chunk < int n" "0 \<le> lam" "lam < 2 ^ 62" using ok OpSet by auto
  note N = books_NewMeta [OF bk n c(1,2) r(1)]
  have "post \<longrightarrow> Some meta \<notin> remaining p1" using ns OpSet r by simp
  then show ?thesis using GetOrInsert_books [OF H N c r(2)] by (simp add: books_def)
next
  case (OpGet now key chunk)
  have "books H n b (TouchObject now a p)" for a
    unfolding TouchObject_def by (rule books_upd_pm [OF bk]) (auto simp: pos_neutral_def)
  then show ?thesis
    using run OpGet bk by (auto simp: Placer_Get_def go_simps split: option.splits if_splits)
next
  case (OpPost a)
  have "books H n b (upd_pm a (\<lambda>pm. fst (postProcess pm)) p)"
    by (rule books_upd_pm [OF bk])
       (auto simp: pos_neutral_def postProcess_def doPostProcess_def split: option.splits bool.splits)
  moreover have "fst (placer_postProcess a p) = upd_pm a (\<lambda>pm. fst (postProcess pm)) p"
    by (cases "placerMeta (metas p a)")
       (auto simp: placer_postProcess_def upd_defs Let_def placerMeta_same split: prod.splits)
  ultimately show ?thesis using run OpPost by simp
qed

lemma run_ops_books:
  assumes H: "hashmap_ok H" and n: "n \<le> 100"
    and "books H n b p" "list_all (op_ok n) xs" "no_self_eviction H n xs p" "run_ops H n xs p = Some (Inr p')"
  shows "books H n b p'"
  using assms(3-6)
proof (induction xs arbitrary: p)
  case Nil
  then show ?case by simp
next
  case (Cons x xs)
  then obtain q where q: "run_op H n x p = Some (Inr q)" "run_ops H n xs q = Some (Inr p')"
    by (auto split: option.splits sum.splits)
  have "books H n b q" using run_op_books [OF H n Cons.prems(1) _ _ q(1)] Cons.prems(2,3) by simp
  then show ?case using Cons.IH [of q] Cons.prems(2,3) q by simp
qed

lemma books_NewPlacer:
  assumes "hashmap_ok H" "insts_wf g"
  shows "books H n (inst_size g) (NewPlacer H g)"
proof -
  have "{a. stored H (NewPlacer H g) a} = {}"
    using assms(1) by (simp add: stored_def NewPlacer_def hm_Get_New)
  then have "accounted H (inst_size g) (NewPlacer H g)"
    by (simp add: accounted_def owed_total_def) (simp add: NewPlacer_def)
  moreover have "tidy (NewPlacer H g)"
    by (simp add: tidy_def rot_def NewPlacer_def)
  ultimately show ?thesis using placer_inv_NewPlacer [OF assms] by (simp add: books_def)
qed

end
