(* ===== verification/PlacerLive.thy ===== *)
theory PlacerLive
  imports PlacerSize
begin

text \<open>
  When a SET returns and what it leaves behind: it returns when some other object can be evicted, it
  never returns when the chunk fits nowhere and nothing can be evicted, and once it has returned the
  chunk is found by GET.
\<close>

section \<open>Returning\<close>

lemma enters_same:
  assumes "enters p r p'"
  shows "P_of p' = P_of p" "S_of p' = S_of p" "cursor p' = cursor p" "primary p' = primary p"
    "All (pgroup p') = All (pgroup p)" "pgroup p' = pgroup p"
    "a \<noteq> er_meta r \<Longrightarrow> metas p' a = metas p a"
    "ChunkSize (metas p' (er_meta r)) = ChunkSize (metas p (er_meta r))"
  using assms by (auto simp: enters_def upd_defs metas_entered)

lemma evictable_same: "metas p' m = metas p m \<Longrightarrow> evictable meta p' m = evictable meta p m"
  by (simp add: evictable_def vis_def)

lemma assign_slice_same:
  assumes "assign_slice meta lam p = Inr (k, p1)"
  shows "P_of p1 = P_of p" "cursor p1 = cursor p" "a \<noteq> meta \<Longrightarrow> metas p1 a = metas p a"
    "ChunkSize (metas p1 meta) = ChunkSize (metas p meta)"
  using assms by (auto simp: assign_slice_def go_simps upd_defs)

lemma GetOrInsert_locked_returns:
  assumes fl: "in_flight H n meta chunk p" and lam: "0 \<le> lam" "lam < 2 ^ 62"
    and m: "Some m \<in> set (P_of p)" "evictable meta p m"
  shows "GetOrInsert_locked now meta chunk lam p \<noteq> None"
proof -
  obtain k p1 where a: "assign_slice meta lam p = Inr (k, p1)" "in_flight H n meta chunk p1"
    using assign_slice_ok [OF fl lam] by blast
  note A = assign_slice_same [OF a(1)]
  have "m \<noteq> meta" using m(2) by (simp add: evictable_def)
  then have "evictable meta p1 m" using m(2) A(3) evictable_same by metis
  moreover have "ready meta p1" using a(2) by (simp add: in_flight_def)
  ultimately have "evict_loop now meta p1 \<noteq> None"
    using evict_loop_returns [of meta p1 m now] m(1) A(1) by auto
  then show ?thesis
    using a(1) by (auto simp: GetOrInsert_locked_def place_evicting_def split: option.splits sum.splits)
qed

lemma GetOrInsert_returns:
  assumes H: "hashmap_ok H" and inv: "placer_inv H n p" and pr: "prepared H n a chunk lam p"
    and c: "0 \<le> chunk" "chunk < int n" and lam: "0 \<le> lam" "lam < 2 ^ 62"
    and m: "Some m \<in> set (P_of p)" "hm_Get H (metaMap p) key \<noteq> Some m" "vis p m \<longrightarrow> complete (metas p m)"
  shows "\<exists>meta got post p'. GetOrInsert H now key a p = Some (Inr (meta, got, post, p')) \<and> placer_inv H n p'"
proof -
  obtain r p1 where r: "GetOrInsert_enter H key a p = Inr (r, p1)" "er_chunk r = chunk" "er_lambda r = lam"
      "\<not> er_got r \<longrightarrow> er_meta r = a" "enters p r p1"
      "if er_return r then placer_inv H n p1 else in_flight H n (er_meta r) chunk p1"
    using GetOrInsert_enter_ok [OF H inv pr c, of key] by blast
  have "stored H p m" using inv m(1) by (auto simp: placer_inv_def heap_inv_def arrs_def)
  then have "m \<noteq> a" using pr by (auto simp: prepared_def)
  then have ne: "m \<noteq> er_meta r" using GetOrInsert_enter_meta [OF H r(1)] r(4) m(2) by auto
  have "GetOrInsert H now key a p \<noteq> None"
  proof (cases "er_return r")
    case True
    then show ?thesis using r(1) by (simp add: GetOrInsert_def)
  next
    case False
    have "evictable (er_meta r) p1 m"
      using m(3) ne evictable_same [OF enters_same(7) [OF r(5) ne], of "er_meta r"] by (simp add: evictable_def)
    then show ?thesis
      using GetOrInsert_locked_returns [OF _ lam, of H n "er_meta r" chunk p1 m now] r False m(1) enters_same(1) [OF r(5)]
      by (simp add: GetOrInsert_def)
  qed
  then show ?thesis using GetOrInsert_ok [OF H inv pr c lam, of now key] by (elim disjE) auto
qed

section \<open>Not returning\<close>

lemma GetOrInsert_hangs:
  assumes H: "hashmap_ok H" and inv: "placer_inv H n p" and pr: "prepared H n a chunk lam p"
    and c: "0 \<le> chunk" "chunk < int n" and lam: "0 \<le> lam" "lam < 2 ^ 62"
    and new: "hm_Get H (metaMap p) key = None" and rest: "cursor p = 0"
    and full: "\<And>ins. Some ins \<in> set (All (pgroup p)) \<Longrightarrow> \<not> Size ins + ChunkSize (metas p a) < Capacity ins"
    and stuck: "\<And>m. Some m \<in> set (P_of p) \<Longrightarrow> vis p m \<and> \<not> complete (metas p m)"
  shows "GetOrInsert H now key a p = None"
proof -
  obtain r p1 where r: "GetOrInsert_enter H key a p = Inr (r, p1)" "er_chunk r = chunk" "er_lambda r = lam"
      "er_got r = (hm_Get H (metaMap p) key \<noteq> None)" "\<not> er_got r \<longrightarrow> er_meta r = a" "enters p r p1"
      "if er_return r then placer_inv H n p1 else in_flight H n (er_meta r) chunk p1"
    using GetOrInsert_enter_ok [OF H inv pr c, of key] by blast
  have ra: "er_meta r = a" using r(4,5) new by simp
  note e = enters_same [OF r(6), unfolded ra]
  obtain pm where pm: "placerMeta (metas p1 a) = Some pm" "pm = newPlacerMeta n" "er_return r = confirmed pm ! nat chunk"
    using r(2,6) pr ra by (auto simp: enters_def upd_defs metas_entered prepared_def)
  have nr: "\<not> er_return r" using pm c by (simp add: newPlacerMeta_def nat_less_iff)
  then have fl: "in_flight H n a chunk p1" using r(7) ra by simp
  obtain k p2 where a2: "assign_slice a lam p1 = Inr (k, p2)" "in_flight H n a chunk p2" "in_group (g_size (pgroup p2)) k"
    using assign_slice_ok [OF fl lam] by blast
  note A = assign_slice_same [OF a2(1)] and A' = assign_slice_accounted [OF a2(1) fl]
  have al: "All (pgroup p2) = All (pgroup p)"
  proof -
    have "group_wf (pgroup p1)" "slice_wf (pgroup p1) (slice (metas p1 a))"
      using fl by (auto simp: in_flight_def heap_inv_def insts_wf_def)
    then show ?thesis
      using a2(1) GetIndex_once e(6) by (fastforce simp: assign_slice_def go_simps upd_defs)
  qed
  have iw: "insts_wf (pgroup p2)" using a2(2) by (auto simp: in_flight_def heap_inv_def)
  obtain ins where ins: "GInstance (pgroup p2) k = Inr ins" "All (pgroup p2) ! nat k = Some ins"
    using GInstance_ok [OF iw a2(3)] by blast
  have "nat k < length (All (pgroup p2))"
    using iw a2(3) by (auto simp: insts_wf_def group_wf_def in_group_def)
  then have "Some ins \<in> set (All (pgroup p))" using ins(2) al by (metis nth_mem)
  then have nofit: "\<not> Size ins + ChunkSize (metas p2 a) < Capacity ins" using full A(4) e(8) by simp
  have "hopeless a p2"
  proof -
    have "\<not> evictable a p2 m" if "Some m \<in> set (P_of p2)" for m
    proof (cases "m = a")
      case False
      then have "metas p2 m = metas p m" using A(3) e(7) by metis
      then show ?thesis using stuck [of m] that A(1) e(1) by (simp add: evictable_def vis_def)
    qed (simp add: evictable_def)
    then show ?thesis using a2(2) rest A(2) e(3) by (simp add: hopeless_def in_flight_def)
  qed
  then have "place_evicting now a chunk p2 = None" by (simp add: place_evicting_def evict_loop_hangs)
  moreover have "\<not> Deleted (metas p1 a)" using fl by (simp add: in_flight_def ready_def live_def)
  ultimately have "GetOrInsert_locked now a chunk lam p1 = None"
    using pm(1,2) a2(1) ins(1) nofit by (simp add: GetOrInsert_locked_def newPlacerMeta_def IsPlacementEmpty_def)
  then show ?thesis using r(1-3) ra nr by (simp add: GetOrInsert_def)
qed

section \<open>A chunk that was set is found\<close>

definition chunk_ready :: "addr \<Rightarrow> int \<Rightarrow> 'm placer \<Rightarrow> bool" where
  "chunk_ready meta chunk p \<longleftrightarrow>
     live p meta \<and> (\<exists>pm. placerMeta (metas p meta) = Some pm \<and> in_range chunk (confirmed pm) \<and> confirmed pm ! nat chunk)"

lemma place_chunk_ready:
  assumes "place_chunk meta chunk dest p = Inr q" "live p meta"
  shows "chunk_ready meta chunk q"
proof -
  obtain pm pl pm' where r: "placerMeta (metas p meta) = Some pm" "confirm pm chunk = Inr pm'"
      "q = upd_meta meta (\<lambda>m. m\<lparr>Placement := pl, placerMeta := Some pm'\<rparr>) p"
    using assms(1) by (auto simp: place_chunk_def go_simps split: option.splits)
  note f = confirm_ok [OF r(2)]
  then show ?thesis using assms(2) r(3) by (auto simp: chunk_ready_def live_def upd_defs in_range_def)
qed

lemma chunk_ready_core:
  "chunk_ready meta chunk p \<Longrightarrow> core_metas q meta = core_metas p meta \<Longrightarrow> chunk_ready meta chunk q"
  by (cases "placerMeta (metas q meta)"; cases "placerMeta (metas p meta)")
     (auto simp: chunk_ready_def core_metas_def core_def live_def
       dest!: arg_cong [where f = "\<lambda>m. (Deleted m, map_option confirmed (placerMeta m))"])

lemma GetOrInsert_locked_ready:
  assumes fl: "in_flight H n meta chunk p" and lam: "0 \<le> lam" "lam < 2 ^ 62"
    and run: "GetOrInsert_locked now meta chunk lam p = Some (Inr (post, p'))"
  shows "chunk_ready meta chunk p'"
proof -
  have lv: "live p meta" using fl by (simp add: in_flight_def ready_def)
  obtain pm where pm: "placerMeta (metas p meta) = Some pm" "pm_ok (g_size (pgroup p)) n pm"
    using in_flight_pm [OF fl] .
  show ?thesis
  proof (cases "IsPlacementEmpty (swapMap pm)")
    case False
    then have "place_chunk meta chunk (pl_elems (swapMap pm) ! nat chunk) p = Inr p'"
      using run lv pm(1) by (auto simp: GetOrInsert_locked_def go_simps live_def)
    then show ?thesis using place_chunk_ready lv by blast
  next
    case True
    then have sw: "swapMap pm = None" using pm(2) fl by (auto simp: pm_ok_def pl_ok_def IsPlacementEmpty_def in_flight_def)
    obtain k p1 where a: "assign_slice meta lam p = Inr (k, p1)" "in_flight H n meta chunk p1"
      using assign_slice_ok [OF fl lam] by blast
    have l1: "live p1 meta" using a(2) by (simp add: in_flight_def ready_def)
    consider (fit) ins where "place_fitting now meta chunk k ins p1 = Inr p'"
      | (ev) "place_evicting now meta chunk p1 = Some (Inr p')"
      using run lv pm(1) True a(1)
      by (auto simp: GetOrInsert_locked_def go_simps live_def split: sum.splits if_splits)
    then show ?thesis
    proof cases
      case fit
      then obtain p2 where p2: "place_chunk meta chunk k p1 = Inr p2" by (auto simp: place_fitting_def go_simps)
      have "core_metas p' meta = core_metas p2 meta"
        using fit p2
        by (auto simp: place_fitting_def Let_def AddObject_def upd_defs core_metas_def core_def option.map_comp comp_def split: if_splits)
      then show ?thesis using chunk_ready_core place_chunk_ready [OF p2 l1] by blast
    next
      case ev
      then obtain q where l: "evict_loop now meta p1 = Some (Inr q)" and e: "evicted_one meta p1 q"
        using evict_loop_cases [of meta p1 now] a(2) by (auto simp: place_evicting_def in_flight_def)
      have sw1: "swapMap x = None" if "placerMeta (metas p1 meta) = Some x" for x
        using assign_slice_accounted(5) [OF a(1) fl] that pm(1) sw by simp
      have lq: "live q meta" using in_flight_evicted(1) [OF a(2) e sw1] by (simp add: in_flight_def ready_def)
      obtain d g p2 where r: "place_chunk meta chunk d (q\<lparr>pgroup := g\<rparr>) = Inr p2"
          "p' = upd_pm meta (\<lambda>z. z\<lparr>once := Some False\<rparr>) p2"
        using ev l by (auto simp: place_evicting_def go_simps split: option.splits)
      have "chunk_ready meta chunk p2" using place_chunk_ready [OF r(1)] lq by (simp add: live_def)
      then show ?thesis by (auto simp: r(2) chunk_ready_def live_def upd_defs)
    qed
  qed
qed

lemma GetOrInsert_ready:
  assumes H: "hashmap_ok H" and inv: "placer_inv H n p" and pr: "prepared H n a chunk lam p"
    and c: "0 \<le> chunk" "chunk < int n" and lam: "0 \<le> lam" "lam < 2 ^ 62"
    and run: "GetOrInsert H now key a p = Some (Inr (meta, got, post, p'))"
  shows "chunk_ready meta chunk p'" "hm_Get H (metaMap p') key = Some meta"
    "in_group (g_size (pgroup p')) (pl_elems (Placement (metas p' meta)) ! nat chunk)"
proof -
  obtain r p1 where r: "GetOrInsert_enter H key a p = Inr (r, p1)" "er_chunk r = chunk" "er_lambda r = lam"
      "enters p r p1" "if er_return r then placer_inv H n p1 else in_flight H n (er_meta r) chunk p1"
    using GetOrInsert_enter_ok [OF H inv pr c, of key] by blast
  have ok: "placer_inv H n p'" "hm_Get H (metaMap p') = (hm_Get H (metaMap p))(key \<mapsto> meta)"
    using GetOrInsert_ok [OF H inv pr c lam, of now key] run by auto
  show "hm_Get H (metaMap p') key = Some meta" using ok(2) by simp
  then have "stored H p' meta" by (auto simp: stored_def)
  then have ob: "obj_ok (g_size (pgroup p')) n {} (metas p' meta)" using ok(1) by (auto simp: placer_inv_def heap_inv_def)
  then show "in_group (g_size (pgroup p')) (pl_elems (Placement (metas p' meta)) ! nat chunk)"
    using c by (simp add: obj_ok_def pl_ok_def nat_less_iff)
  show "chunk_ready meta chunk p'"
  proof (cases "er_return r")
    case True
    then have e: "p' = p1" "meta = er_meta r" using run r(1) by (auto simp: GetOrInsert_def)
    obtain pm where "placerMeta (metas p1 meta) = Some pm" "confirmed pm ! nat chunk" "live p1 meta"
      using r(2,4) True e(2) by (auto simp: enters_def upd_defs metas_entered live_def)
    moreover have "in_range chunk (confirmed pm)"
      using ob calculation(1) e(1) c by (simp add: obj_ok_def pm_ok_def in_range_def nat_less_iff)
    ultimately show ?thesis using e by (auto simp: chunk_ready_def)
  next
    case False
    then have "GetOrInsert_locked now meta chunk lam p1 = Some (Inr (post, p'))" "meta = er_meta r"
      using run r(1-3) by (auto simp: GetOrInsert_def go_simps)
    then show ?thesis using GetOrInsert_locked_ready [OF _ lam] r(5) False by simp
  qed
qed

lemma Placer_Get_ready:
  assumes "hm_Get H (metaMap p) key = Some meta" "chunk_ready meta chunk p"
  shows "Placer_Get H now key chunk p = Inr (Some meta, True, TouchObject now meta p)"
  using assms by (auto simp: Placer_Get_def MetaStore_Get_def chunk_ready_def live_def)

section \<open>Whole SET requests\<close>

lemma Placer_NewMeta_same:
  assumes inv: "placer_inv H n p" and n: "n \<le> 100" and c: "0 \<le> chunk" "chunk < int n"
  obtains a p1 where "Placer_NewMeta choice key ss (int n) chunk lam cs p = Inr (a, p1)"
    "placer_inv H n p1" "prepared H n a chunk lam p1" "metaMap p1 = metaMap p" "pgroup p1 = pgroup p"
    "P_of p1 = P_of p" "cursor p1 = cursor p" "ChunkSize (metas p1 a) = cs"
    "\<And>m. stored H p m \<Longrightarrow> metas p1 m = metas p m"
proof -
  obtain a p1 where N: "Placer_NewMeta choice key ss (int n) chunk lam cs p = Inr (a, p1)"
      "placer_inv H n p1" "prepared H n a chunk lam p1" "metaMap p1 = metaMap p" "pgroup p1 = pgroup p"
    using Placer_NewMeta_ok [OF inv n c] by metis
  obtain p0 mt where g: "pool_Get choice p = (a, p0)" and u: "p1 = upd_meta a (\<lambda>_. mt) p0" "ChunkSize mt = cs"
    using N(1) by (auto simp: Placer_NewMeta_def NewMeta_def InitMeta_def go_simps split: prod.splits)
  note G = pool_Get_ok [OF inv g]
  have "metas p1 m = metas p m" if "stored H p m" for m
    using that N(3,4) G(7) u by (auto simp: upd_defs prepared_def stored_def)
  then show ?thesis using that N G u by (auto simp: upd_defs)
qed

lemma run_set_returns:
  assumes H: "hashmap_ok H" and n: "n \<le> 100" and inv: "placer_inv H n p"
    and ok: "op_ok n (OpSet now choice key ss chunk lam cs)"
    and m: "Some m \<in> set (P_of p)" "hm_Get H (metaMap p) key \<noteq> Some m" "vis p m \<longrightarrow> complete (metas p m)"
  shows "\<exists>p'. run_op H n (OpSet now choice key ss chunk lam cs) p = Some (Inr p') \<and> placer_inv H n p'"
proof -
  have c: "0 \<le> chunk" "chunk < int n" "0 \<le> lam" "lam < 2 ^ 62" using ok by auto
  obtain a p1 where N: "Placer_NewMeta choice key ss (int n) chunk lam cs p = Inr (a, p1)"
      "placer_inv H n p1" "prepared H n a chunk lam p1" "metaMap p1 = metaMap p" "P_of p1 = P_of p"
      "\<And>m. stored H p m \<Longrightarrow> metas p1 m = metas p m"
    using Placer_NewMeta_same [OF inv n c(1,2)] by metis
  have "stored H p m" using inv m(1) by (auto simp: placer_inv_def heap_inv_def arrs_def)
  then have "vis p1 m \<longrightarrow> complete (metas p1 m)" using m(3) N(6) by (simp add: vis_def)
  then obtain meta got post p' where "GetOrInsert H now key a p1 = Some (Inr (meta, got, post, p'))" "placer_inv H n p'"
    using GetOrInsert_returns [OF H N(2,3) c, of m key now] m(1,2) N(4,5) by auto
  then show ?thesis using N(1) by auto
qed

lemma run_set_hangs:
  assumes H: "hashmap_ok H" and n: "n \<le> 100" and inv: "placer_inv H n p"
    and ok: "op_ok n (OpSet now choice key ss chunk lam cs)"
    and new: "hm_Get H (metaMap p) key = None" and rest: "cursor p = 0"
    and full: "\<And>ins. Some ins \<in> set (All (pgroup p)) \<Longrightarrow> \<not> Size ins + cs < Capacity ins"
    and stuck: "\<And>m. Some m \<in> set (P_of p) \<Longrightarrow> vis p m \<and> \<not> complete (metas p m)"
  shows "run_op H n (OpSet now choice key ss chunk lam cs) p = None"
proof -
  have c: "0 \<le> chunk" "chunk < int n" "0 \<le> lam" "lam < 2 ^ 62" using ok by auto
  obtain a p1 where N: "Placer_NewMeta choice key ss (int n) chunk lam cs p = Inr (a, p1)"
      "placer_inv H n p1" "prepared H n a chunk lam p1" "metaMap p1 = metaMap p" "pgroup p1 = pgroup p"
      "P_of p1 = P_of p" "cursor p1 = cursor p" "ChunkSize (metas p1 a) = cs"
      "\<And>m. stored H p m \<Longrightarrow> metas p1 m = metas p m"
    using Placer_NewMeta_same [OF inv n c(1,2)] by metis
  have "vis p1 m \<and> \<not> complete (metas p1 m)" if "Some m \<in> set (P_of p)" for m
  proof -
    have "stored H p m" using inv that by (auto simp: placer_inv_def heap_inv_def arrs_def)
    then show ?thesis using stuck [OF that] N(9) by (simp add: vis_def)
  qed
  then have "GetOrInsert H now key a p1 = None"
    using GetOrInsert_hangs [OF H N(2,3) c, of key now] new rest full N(4-8) by simp
  then show ?thesis using N(1) by simp
qed

lemma run_set_then_get:
  assumes H: "hashmap_ok H" and n: "n \<le> 100" and inv: "placer_inv H n p"
    and ok: "op_ok n (OpSet now choice key ss chunk lam cs)"
    and run: "run_op H n (OpSet now choice key ss chunk lam cs) p = Some (Inr p')"
  shows "\<exists>meta. Placer_Get H now' key chunk p' = Inr (Some meta, True, TouchObject now' meta p') \<and>
     in_group (g_size (pgroup p')) (pl_elems (Placement (metas p' meta)) ! nat chunk)"
proof -
  have c: "0 \<le> chunk" "chunk < int n" "0 \<le> lam" "lam < 2 ^ 62" using ok by auto
  obtain a p1 where N: "Placer_NewMeta choice key ss (int n) chunk lam cs p = Inr (a, p1)"
      "placer_inv H n p1" "prepared H n a chunk lam p1"
    using Placer_NewMeta_same [OF inv n c(1,2)] by metis
  obtain meta got post where g: "GetOrInsert H now key a p1 = Some (Inr (meta, got, post, p'))"
    using run N(1) by (auto simp: go_simps)
  note R = GetOrInsert_ready [OF H N(2,3) c g]
  show ?thesis using Placer_Get_ready [OF R(2,1)] R(3) by blast
qed

end
