(* ===== verification/ChunkRoutes.thy ===== *)
theory ChunkRoutes
  imports PlacerLive
begin

text \<open>
  Where the requests for a chunk go: \<open>route\<close> is the instance to which a GET of a chunk is sent.  Every operation of
  the placer leaves the routes of other chunks as they are or removes them (an eviction).
\<close>

section \<open>The route of a chunk in its metadata\<close>

definition routed :: "Meta \<Rightarrow> int \<Rightarrow> int option" where
  "routed m c =
     (case placerMeta m of
        None \<Rightarrow> None
      | Some pm \<Rightarrow>
          if \<not> Deleted m \<and> in_range c (confirmed pm) \<and> confirmed pm ! nat c then Some (pl_elems (Placement m) ! nat c) else None)"

definition route :: "('m, string, addr) hashmap \<Rightarrow> 'm placer \<Rightarrow> string \<Rightarrow> int \<Rightarrow> int option" where
  "route H p key c = Option.bind (hm_Get H (metaMap p) key) (\<lambda>a. routed (metas p a) c)"

definition named_ok :: "('m, string, addr) hashmap \<Rightarrow> 'm placer \<Rightarrow> bool" where
  "named_ok H p \<longleftrightarrow> (\<forall>key a. hm_Get H (metaMap p) key = Some a \<longrightarrow> Key (metas p a) = key)"

text \<open>What an operation on the chunk \<open>X\<close> may do to the metadata of all objects.\<close>

definition narrows :: "(addr \<times> int) set \<Rightarrow> 'm placer \<Rightarrow> 'm placer \<Rightarrow> bool" where
  "narrows X p p' \<longleftrightarrow>
     (\<forall>a. Key (metas p' a) = Key (metas p a)) \<and>
     (\<forall>a c. (a, c) \<notin> X \<longrightarrow> routed (metas p' a) c = routed (metas p a) c \<or> routed (metas p' a) c = None)"

lemma narrows_trans:
  assumes "narrows X p q" and "narrows X q r"
  shows "narrows X p r"
  unfolding narrows_def
proof (intro conjI allI impI)
  show "Key (metas r a) = Key (metas p a)" for a using assms by (simp add: narrows_def)
  fix a c assume "(a, c) \<notin> X"
  then have "routed (metas q a) c = routed (metas p a) c \<or> routed (metas q a) c = None"
      "routed (metas r a) c = routed (metas q a) c \<or> routed (metas r a) c = None"
    using assms by (auto simp: narrows_def)
  then show "routed (metas r a) c = routed (metas p a) c \<or> routed (metas r a) c = None" by auto
qed

lemma routed_core [simp]: "routed (core m) c = routed m c"
  by (simp add: routed_def core_def split: option.splits)

lemma Key_core [simp]: "Key (core m) = Key m"
  by (simp add: core_def)

lemma narrows_core:
  assumes "core_metas p' = core_metas p"
  shows "narrows X p p'"
proof -
  have "core (metas p' a) = core (metas p a)" for a using assms by (simp add: core_metas_def fun_eq_iff)
  then show ?thesis unfolding narrows_def by (metis routed_core Key_core)
qed

lemma narrows_heap: "metas p' = metas p \<Longrightarrow> narrows X p p'"
  by (rule narrows_core) (simp add: core_metas_def fun_eq_iff)

lemma narrows_upd_meta:
  assumes "Key (f (metas p a)) = Key (metas p a)"
    and "\<And>c. (a, c) \<notin> X \<Longrightarrow> routed (f (metas p a)) c = routed (metas p a) c \<or> routed (f (metas p a)) c = None"
  shows "narrows X p (upd_meta a f p)"
  using assms by (auto simp: narrows_def upd_meta_def)

lemma narrows_upd_pm:
  assumes "\<And>pm. confirmed (f pm) = confirmed pm"
  shows "narrows X p (upd_pm a f p)"
  unfolding upd_pm_def by (rule narrows_upd_meta) (auto simp: routed_def assms split: option.splits)

lemma narrows_evict_core:
  assumes "core_metas p' = evict_core v meta (core_metas p)"
  shows "narrows X p p'"
proof -
  have c: "core (metas p' a) = evict_core v meta (core_metas p) a" for a using assms by (simp add: core_metas_def fun_eq_iff)
  have k: "Key (evict_core v meta (core_metas p) a) = Key (metas p a)" for a
    by (simp add: evict_core_def core_metas_def)
  have r: "routed (evict_core v meta (core_metas p) a) b = routed (metas p a) b \<or> routed (evict_core v meta (core_metas p) a) b = None" for a b
    by (auto simp: evict_core_def core_metas_def routed_def core_def split: option.splits)
  show ?thesis unfolding narrows_def using c k r by (metis routed_core Key_core)
qed

lemma narrows_entered: "narrows X p (entered p a)"
  by (auto simp: narrows_def metas_entered routed_def newPlacerMeta_def in_range_def split: option.splits)

section \<open>The operations of the placer\<close>

lemma narrows_place_chunk:
  assumes "place_chunk meta chunk dest p = Inr q"
  shows "narrows {(meta, chunk)} p q"
proof -
  obtain pm pl pm' where r: "placerMeta (metas p meta) = Some pm" "confirm pm chunk = Inr pm'"
      "pl_update (Placement (metas p meta)) chunk dest = Inr pl"
      "q = upd_meta meta (\<lambda>m. m\<lparr>Placement := pl, placerMeta := Some pm'\<rparr>) p"
    using assms by (auto simp: place_chunk_def go_simps split: option.splits)
  have c: "in_range chunk (confirmed pm)" "confirmed pm' = (confirmed pm)[nat chunk := True]" "pl_elems pl = (pl_elems (Placement (metas p meta)))[nat chunk := dest]"
    using confirm_ok [OF r(2)] pl_update_elems [OF r(3)] by auto
  show ?thesis
    unfolding r(4)
    by (rule narrows_upd_meta) (use r(1) c in \<open>auto simp: routed_def in_range_def nth_list_update\<close>)
qed

lemma routed_place_chunk:
  assumes "place_chunk meta chunk dest p = Inr q" "live p meta"
  shows "routed (metas q meta) chunk \<noteq> None"
  using place_chunk_ready [OF assms] by (auto simp: chunk_ready_def routed_def live_def)

lemma narrows_AddObject: "narrows X p (AddObject now a p)"
  by (rule narrows_trans [OF narrows_upd_pm narrows_heap]) (auto simp: AddObject_def upd_objects_def)

lemma narrows_place_fitting:
  assumes "place_fitting now meta chunk k ins p = Inr q"
  shows "narrows {(meta, chunk)} p q"
proof -
  obtain p1 where p1: "place_chunk meta chunk k p = Inr p1" using assms by (auto simp: place_fitting_def go_simps)
  have "\<exists>p2. (p2 = p1 \<or> p2 = AddObject now meta p1) \<and> metas q = metas p2"
    using assms p1 by (auto simp: place_fitting_def Let_def split: if_splits)
  then obtain p2 where p2: "p2 = p1 \<or> p2 = AddObject now meta p1" "metas q = metas p2" by blast
  have "narrows {(meta, chunk)} p1 p2" using p2(1) narrows_AddObject narrows_heap [of p1 p1] by blast
  then show ?thesis using narrows_place_chunk [OF p1] narrows_heap [OF p2(2)] narrows_trans by blast
qed

lemma narrows_place_evicting:
  assumes rd: "ready meta p" and run: "place_evicting now meta chunk p = Some (Inr q)"
  shows "narrows {(meta, chunk)} p q"
proof -
  obtain p1 where l: "evict_loop now meta p = Some (Inr p1)" and e: "evicted_one meta p p1"
    using evict_loop_cases [OF rd, of now] run by (auto simp: place_evicting_def)
  then have n1: "narrows {(meta, chunk)} p p1" using narrows_evict_core by (auto simp: evicted_one_def)
  obtain d g p2 where r: "place_chunk meta chunk d (p1\<lparr>pgroup := g\<rparr>) = Inr p2" "q = upd_pm meta (\<lambda>z. z\<lparr>once := Some False\<rparr>) p2"
    using run l by (auto simp: place_evicting_def go_simps split: option.splits)
  have n2: "narrows {(meta, chunk)} p1 (p1\<lparr>pgroup := g\<rparr>)" by (rule narrows_heap) simp
  have n3: "narrows {(meta, chunk)} p2 q" unfolding r(2) by (rule narrows_upd_pm) simp
  show ?thesis using n1 n2 narrows_place_chunk [OF r(1)] n3 narrows_trans by blast
qed

lemma narrows_assign_slice:
  assumes "assign_slice meta lam p = Inr (k, q)"
  shows "narrows X p q"
proof -
  obtain s g where q: "q = upd_meta meta (\<lambda>m. m\<lparr>slice := s\<rparr>) (p\<lparr>pgroup := g\<rparr>)"
    using assms by (auto simp: assign_slice_def go_simps)
  show ?thesis unfolding q by (rule narrows_trans [OF narrows_heap narrows_upd_meta]) (auto simp: routed_def split: option.splits)
qed

lemma narrows_locked:
  assumes fl: "in_flight H n meta chunk p" and lam: "0 \<le> lam" "lam < 2 ^ 62"
    and run: "GetOrInsert_locked now meta chunk lam p = Some (Inr (post, q))"
  shows "narrows {(meta, chunk)} p q"
proof -
  have lv: "live p meta" using fl by (simp add: in_flight_def ready_def)
  obtain pm where pm: "placerMeta (metas p meta) = Some pm" using in_flight_pm [OF fl] by metis
  show ?thesis
  proof (cases "IsPlacementEmpty (swapMap pm)")
    case False
    then have "place_chunk meta chunk (pl_elems (swapMap pm) ! nat chunk) p = Inr q"
      using run lv pm by (auto simp: GetOrInsert_locked_def go_simps live_def)
    then show ?thesis by (rule narrows_place_chunk)
  next
    case True
    obtain k p1 where a: "assign_slice meta lam p = Inr (k, p1)" "in_flight H n meta chunk p1"
      using assign_slice_ok [OF fl lam] by blast
    consider (fit) ins where "place_fitting now meta chunk k ins p1 = Inr q"
      | (ev) "place_evicting now meta chunk p1 = Some (Inr q)"
      using run lv pm True a(1)
      by (auto simp: GetOrInsert_locked_def go_simps live_def split: sum.splits if_splits)
    then have "narrows {(meta, chunk)} p1 q"
      using narrows_place_fitting narrows_place_evicting a(2) by cases (auto simp: in_flight_def)
    then show ?thesis using narrows_assign_slice [OF a(1)] narrows_trans by blast
  qed
qed

lemma narrows_enters:
  assumes "enters p r q"
  shows "narrows X p q"
proof -
  obtain p0 where p0: "metas p0 = metas p"
      "q = (if er_return r then upd_meta (er_meta r) (\<lambda>m. m\<lparr>Reset := True\<rparr>) (entered p0 (er_meta r)) else entered p0 (er_meta r))"
    using assms by (auto simp: enters_def)
  have "narrows X p (entered p0 (er_meta r))"
    using narrows_trans [OF narrows_heap [OF p0(1)] narrows_entered] by blast
  moreover have "narrows X (entered p0 (er_meta r)) (upd_meta (er_meta r) (\<lambda>m. m\<lparr>Reset := True\<rparr>) (entered p0 (er_meta r)))"
    by (rule narrows_upd_meta) (auto simp: routed_def split: option.splits)
  ultimately show ?thesis using narrows_trans p0(2) by auto
qed

lemma GetOrInsert_narrows:
  assumes H: "hashmap_ok H" and inv: "placer_inv H n p" and pr: "prepared H n a chunk lam p"
    and c: "0 \<le> chunk" "chunk < int n" and lam: "0 \<le> lam" "lam < 2 ^ 62"
    and run: "GetOrInsert H now key a p = Some (Inr (meta, got, post, q))"
  shows "narrows {(meta, chunk)} p q" "hm_Get H (metaMap q) = (hm_Get H (metaMap p))(key \<mapsto> meta)"
    "hm_Get H (metaMap p) key = Some meta \<or> hm_Get H (metaMap p) key = None \<and> meta = a"
proof -
  obtain r p1 where r: "GetOrInsert_enter H key a p = Inr (r, p1)" "er_chunk r = chunk" "er_lambda r = lam"
      "er_got r = (hm_Get H (metaMap p) key \<noteq> None)" "\<not> er_got r \<longrightarrow> er_meta r = a" "enters p r p1"
      "if er_return r then placer_inv H n p1 else in_flight H n (er_meta r) chunk p1"
    using GetOrInsert_enter_ok [OF H inv pr c, of key] by blast
  have m: "meta = er_meta r" using run r(1) by (auto simp: GetOrInsert_def go_simps split: if_splits)
  show "hm_Get H (metaMap q) = (hm_Get H (metaMap p))(key \<mapsto> meta)"
    using GetOrInsert_ok [OF H inv pr c lam, of now key] run by auto
  show "hm_Get H (metaMap p) key = Some meta \<or> hm_Get H (metaMap p) key = None \<and> meta = a"
    using GetOrInsert_enter_meta [OF H r(1)] r(4,5) m by auto
  show "narrows {(meta, chunk)} p q"
  proof (cases "er_return r")
    case True
    then show ?thesis using narrows_enters [OF r(6)] run r(1) by (simp add: GetOrInsert_def)
  next
    case False
    then have "GetOrInsert_locked now meta chunk lam p1 = Some (Inr (post, q))"
      using run r(1-3) m by (auto simp: GetOrInsert_def go_simps)
    then show ?thesis using narrows_locked [OF _ lam] r(7) False m narrows_enters [OF r(6)] narrows_trans by (metis (no_types, lifting))
  qed
qed

section \<open>Routes\<close>

lemma route_ready:
  "hm_Get H (metaMap p) key = Some m \<Longrightarrow> chunk_ready m c p \<Longrightarrow> route H p key c = Some (pl_elems (Placement (metas p m)) ! nat c)"
  by (auto simp: route_def routed_def chunk_ready_def live_def)

lemma route_SomeD:
  assumes "route H p key c = Some k"
  obtains m where "hm_Get H (metaMap p) key = Some m" "chunk_ready m c p" "k = pl_elems (Placement (metas p m)) ! nat c"
  using assms by (auto simp: route_def routed_def chunk_ready_def live_def bind_eq_Some_conv split: option.splits if_splits)

lemma route_deleted: "hm_Get H (metaMap p) key = Some v \<Longrightarrow> Deleted (metas p v) \<Longrightarrow> route H p key c = None"
  by (simp add: route_def routed_def split: option.splits)

lemma route_in_group:
  assumes "placer_inv H n p" and "route H p key c = Some k"
  shows "in_group (g_size (pgroup p)) k"
proof -
  obtain m where m: "hm_Get H (metaMap p) key = Some m" "chunk_ready m c p" "k = pl_elems (Placement (metas p m)) ! nat c"
    using route_SomeD [OF assms(2)] by blast
  have "obj_ok (g_size (pgroup p)) n {} (metas p m)" using assms(1) m(1) by (auto simp: placer_inv_def heap_inv_def stored_def)
  then show ?thesis using m(2,3) by (auto simp: obj_ok_def pl_ok_def pm_ok_def chunk_ready_def in_range_def)
qed

lemma route_upd_pm:
  assumes "\<And>pm. confirmed (f pm) = confirmed pm"
  shows "route H (upd_pm a f p) = route H p" "named_ok H (upd_pm a f p) = named_ok H p"
proof -
  have "routed (metas (upd_pm a f p) b) c = routed (metas p b) c" "Key (metas (upd_pm a f p) b) = Key (metas p b)" for b c
    by (auto simp: upd_defs routed_def assms split: option.splits)
  then show "route H (upd_pm a f p) = route H p" "named_ok H (upd_pm a f p) = named_ok H p"
    by (simp_all add: fun_eq_iff route_def named_ok_def)
qed

lemma route_TouchObject [simp]: "route H (TouchObject now a p) = route H p" "named_ok H (TouchObject now a p) = named_ok H p"
  unfolding TouchObject_def by (simp_all add: route_upd_pm)

lemma route_postProcess:
  "route H (fst (placer_postProcess a p)) = route H p" "named_ok H (fst (placer_postProcess a p)) = named_ok H p"
proof -
  have "confirmed (fst (postProcess pm)) = confirmed pm" for pm
    by (auto simp: postProcess_def doPostProcess_def split: option.splits bool.splits)
  then show "route H (fst (placer_postProcess a p)) = route H p" "named_ok H (fst (placer_postProcess a p)) = named_ok H p"
    unfolding placer_postProcess_upd by (simp_all add: route_upd_pm)
qed

lemma Placer_NewMeta_Key:
  "Placer_NewMeta choice key ss n chunk lam cs p = Inr (a, p1) \<Longrightarrow> Key (metas p1 a) = key"
  by (auto simp: Placer_NewMeta_def NewMeta_def InitMeta_def go_simps upd_defs split: prod.splits)

text \<open>A SET places its chunk, and leaves the routes of all other chunks as they are or removes them.\<close>

definition set_routed :: "('m, string, addr) hashmap \<Rightarrow> string \<Rightarrow> int \<Rightarrow> 'm placer \<Rightarrow> 'm placer \<Rightarrow> bool" where
  "set_routed H key chunk p q \<longleftrightarrow>
     named_ok H q \<and> (\<forall>x y. (x, y) \<noteq> (key, chunk) \<longrightarrow> route H q x y = route H p x y \<or> route H q x y = None)"

lemma set_routes:
  assumes H: "hashmap_ok H" and n: "n \<le> 100" and inv: "placer_inv H n p" and keys: "named_ok H p"
    and c: "0 \<le> chunk" "chunk < int n" and lam: "0 \<le> lam" "lam < 2 ^ 62"
    and new: "Placer_NewMeta choice key ss (int n) chunk lam cs p = Inr (a, p1)"
    and run: "GetOrInsert H now key a p1 = Some (Inr (meta, got, post, q))"
  shows "set_routed H key chunk p q"
proof -
  have N: "placer_inv H n p1" "prepared H n a chunk lam p1" "metaMap p1 = metaMap p" "\<And>m. stored H p m \<Longrightarrow> metas p1 m = metas p m"
    using Placer_NewMeta_same [OF inv n c, of choice key ss lam cs] new by (metis Inr_inject prod.inject)+
  note G = GetOrInsert_narrows [OF H N(1,2) c lam run] and R = GetOrInsert_ready [OF H N(1,2) c lam run]
  have same: "metas p1 m = metas p m" if "hm_Get H (metaMap p) x = Some m" for x m using N(4) that by (auto simp: stored_def)
  have k1: "Key (metas p1 m) = x" if "hm_Get H (metaMap q) x = Some m" for x m
  proof (cases "hm_Get H (metaMap p) x = Some m")
    case True
    then show ?thesis using same keys by (simp add: named_ok_def)
  next
    case False
    then show ?thesis using that G(2,3) N(3) Placer_NewMeta_Key [OF new] by (auto split: if_splits)
  qed
  then have k: "named_ok H q" using G(1) by (simp add: named_ok_def narrows_def)
  have "route H q x y = route H p x y \<or> route H q x y = None" if ne: "(x, y) \<noteq> (key, chunk)" for x y
  proof (cases "hm_Get H (metaMap q) x")
    case None
    then show ?thesis by (simp add: route_def)
  next
    case (Some m)
    have "(m, y) \<noteq> (meta, chunk)" using k1 [OF Some] k1 [OF R(2)] ne by auto
    then have r: "routed (metas q m) y = routed (metas p1 m) y \<or> routed (metas q m) y = None" using G(1) by (simp add: narrows_def)
    show ?thesis
    proof (cases "hm_Get H (metaMap p) x = Some m")
      case True
      then show ?thesis using r Some same by (simp add: route_def)
    next
      case False
      then have "m = a" using Some G(2,3) N(3) by (auto split: if_splits)
      then have "routed (metas p1 m) y = None" using N(2) by (simp add: prepared_def routed_def)
      then show ?thesis using r Some by (auto simp: route_def)
    qed
  qed
  then show ?thesis using k by (simp add: set_routed_def)
qed

end
