(* ===== verification/ProxyServer.thy ===== *)
theory ProxyServer
  imports ChunkRoutes LambdaConnection
begin

text \<open>
  \<open>src/proxy/server/proxy.go\<close>: the handlers of the client's commands.  A proxy is its placer, the store of
  requests, connections and instances, and the scheduler's state for \<open>New\<close> and \<open>Release\<close>.  The
  instance at index \<open>k\<close> of the group is the instance number \<open>k\<close> of the store, the size and the
  capacity of which are in the placer's group.  A command is its arguments; what a handler writes to
  the client is its result.  A send to \<open>chanReq\<close> puts the request at the end of the instance's queue, where
  it stays (buffered or blocked) until \<open>HandleRequests\<close> takes it.  The outcome \<open>None\<close> is a SET that
  never returns from the placer.
\<close>

record ('m, 'q, 'r) proxy =
  px_placer :: "'m placer"
  px_store :: "('q, 'r) lstore"
  px_nextReq :: nat
  px_nextCounter :: nat

section \<open>Configuration\<close>

definition LambdaMaxDeployments :: nat where "LambdaMaxDeployments = 400"
definition NumLambdaClusters :: nat where "NumLambdaClusters = 400"
definition InstanceCapacity :: uint64 where "InstanceCapacity = 1536 * 1000000"
definition LambdaPrefix :: string where "LambdaPrefix = ''Your Lambda Function Prefix''"
definition InstanceOverhead :: int64 where "InstanceOverhead = 100 * 1000000"

section \<open>Sending to an instance\<close>

definition send_command :: "int \<Rightarrow> command \<Rightarrow> ('m, 'q, 'r) proxy \<Rightarrow> ('m, 'q, 'r) proxy res" where
  "send_command dest cmd px =
     bindR (GInstance (pgroup (px_placer px)) dest) (\<lambda>_.
       Inr (px\<lparr>px_store := upd_inst (nat dest) (\<lambda>ins. ins\<lparr>in_chanReq := in_chanReq ins @ [cmd]\<rparr>) (px_store px)\<rparr>))"

definition send_request :: "int \<Rightarrow> Request \<Rightarrow> ('m, 'q, 'r) proxy \<Rightarrow> ('m, 'q, 'r) proxy res" where
  "send_request dest q px =
     send_command dest (CmdRequest (px_nextReq px))
       (px\<lparr>px_store := (px_store px)\<lparr>reqs := (reqs (px_store px))(px_nextReq px := q)\<rparr>,
           px_nextReq := Suc (px_nextReq px)\<rparr>)"

definition mk_request ::
    "int \<Rightarrow> string \<Rightarrow> string \<Rightarrow> string \<Rightarrow> string \<Rightarrow> rstream option \<Rightarrow> nat option \<Rightarrow> bool \<Rightarrow> Request" where
  "mk_request connId reqId chunkId cmd key body ch coll =
     \<lparr>rq_Id = \<lparr>ConnId = connId, ReqId = reqId, ChunkId = chunkId\<rparr>, rq_Cmd = cmd, rq_Key = key, rq_Body = None,
      rq_BodyStream = body, rq_ChanResponse = ch, rq_EnableCollector = coll, rq_w = False, rq_responded = False,
      rq_streamingStarted = False\<rparr>"

definition collect_start :: "string \<Rightarrow> string \<Rightarrow> string \<Rightarrow> ('m, 'q, 'r) proxy \<Rightarrow> ('m, 'q, 'r) proxy" where
  "collect_start cmd reqId chunkId px = px\<lparr>px_store := log_Collect LogStart cmd reqId chunkId (px_store px)\<rparr>"

section \<open>Handlers\<close>

fun drop_chunks :: "string \<Rightarrow> Meta \<Rightarrow> nat \<Rightarrow> int list \<Rightarrow> ('m, 'q, 'r) proxy \<Rightarrow> ('m, 'q, 'r) proxy res" where
  "drop_chunks reqId m i [] px = Inr px"
| "drop_chunks reqId m i (lambdaId # rest) px =
     bindR (send_request lambdaId
              (mk_request 0 reqId (itoa (int i)) ''del'' (ChunkKey m (int i)) None None False) px)
       (drop_chunks reqId m (Suc i) rest)"

definition dropEvicted :: "string \<Rightarrow> addr \<Rightarrow> ('m, 'q, 'r) proxy \<Rightarrow> ('m, 'q, 'r) proxy res" where
  "dropEvicted reqId meta px =
     (let m = metas (px_placer px) meta in drop_chunks reqId m 0 (pl_elems (Placement m)) px)"

record client_cmd =
  cc_connId :: int
  cc_responses :: nat
  cc_Name :: string
  cc_key :: string
  cc_chunk :: int
  cc_lambda :: int
  cc_randBase :: int
  cc_reqId :: string
  cc_data :: int
  cc_parity :: int
  cc_body :: "error + rstream"

text \<open>
  The arguments of the commands: a missing one is empty, and \<open>argInt\<close> is the conversion of the package \<open>redeo\<close>, whose
  error is dropped.  \<open>ch\<close> is the channel of the responses of the client.
\<close>

definition arg_at :: "string list \<Rightarrow> nat \<Rightarrow> string" where
  "arg_at args i = (if i < length args then args ! i else [])"

definition set_command :: "(string \<Rightarrow> int) \<Rightarrow> int \<Rightarrow> nat \<Rightarrow> string \<Rightarrow> string list \<Rightarrow> error + rstream \<Rightarrow> client_cmd" where
  "set_command argInt connId ch name args body =
     \<lparr>cc_connId = connId, cc_responses = ch, cc_Name = name, cc_key = arg_at args 0, cc_chunk = argInt (arg_at args 1),
      cc_lambda = argInt (arg_at args 2), cc_randBase = argInt (arg_at args 3), cc_reqId = arg_at args 4,
      cc_data = argInt (arg_at args 5), cc_parity = argInt (arg_at args 6), cc_body = body\<rparr>"

definition get_command :: "(string \<Rightarrow> int) \<Rightarrow> int \<Rightarrow> nat \<Rightarrow> string \<Rightarrow> string list \<Rightarrow> client_cmd" where
  "get_command argInt connId ch name args =
     \<lparr>cc_connId = connId, cc_responses = ch, cc_Name = name, cc_key = arg_at args 0, cc_chunk = argInt (arg_at args 1),
      cc_lambda = 0, cc_randBase = 0, cc_reqId = arg_at args 2, cc_data = argInt (arg_at args 3), cc_parity = argInt (arg_at args 4),
      cc_body = Inl ErrNotFound\<rparr>"

definition not_set_msg :: "string \<Rightarrow> string \<Rightarrow> string" where
  "not_set_msg chunkId key =
     ''KEY '' @ chunkId @ ''@'' @ key @ '' not set to lambda store, may got evicted before all chunks are set.''"

definition not_found_msg :: "string \<Rightarrow> string \<Rightarrow> string" where
  "not_found_msg chunkId key = ''KEY '' @ chunkId @ ''@'' @ key @ '' not found in lambda store, please set first.''"

text \<open>The last part of both handlers: the request to the instance of the chunk.\<close>

definition forward_chunk ::
    "client_cmd \<Rightarrow> rstream option \<Rightarrow> addr \<Rightarrow> ('m, 'q, 'r) proxy \<Rightarrow> ('m, 'q, 'r) proxy res" where
  "forward_chunk c body meta px =
     (let m = metas (px_placer px) meta
      in bindR (index (pl_elems (Placement m)) (cc_chunk c)) (\<lambda>dest.
           send_request dest
             (mk_request (cc_connId c) (cc_reqId c) (itoa (cc_chunk c)) (ToLower (cc_Name c)) (ChunkKey m (cc_chunk c)) body
                (Some (cc_responses c)) True) px))"

definition HandleSet ::
    "('m, string, addr) hashmap \<Rightarrow> int \<Rightarrow> nat \<Rightarrow> string \<Rightarrow> client_cmd \<Rightarrow> ('m, 'q, 'r) proxy \<Rightarrow>
     (wcall list \<times> ('m, 'q, 'r) proxy) res option" where
  "HandleSet H now choice uuid c px0 =
     (case cc_body c of
        Inl _ \<Rightarrow> Some (Inr ([], px0))
      | Inr body \<Rightarrow>
          let chunkId = itoa (cc_chunk c);
              px = collect_start ''set'' (cc_reqId c) chunkId px0
          in case Placer_NewMeta choice (cc_key c) (cc_randBase c) (wrap_int (cc_data c + cc_parity c)) (cc_chunk c)
                    (cc_lambda c) (word_of_int (st_Len body)) (px_placer px) of
               Inl e \<Rightarrow> Some (Inl e)
             | Inr (newMeta, p1) \<Rightarrow>
                 (case GetOrInsert H now (cc_key c) newMeta p1 of
                    None \<Rightarrow> None
                  | Some (Inl e) \<Rightarrow> Some (Inl e)
                  | Some (Inr (meta, got, post, p2)) \<Rightarrow>
                      if Deleted (metas p2 meta)
                      then Some (Inr ([AppendError (not_set_msg chunkId (cc_key c)), Flush], px\<lparr>px_placer := p2\<rparr>))
                      else
                        let (p3, ev) = (if post then placer_postProcess meta p2 else (p2, None));
                            px1 = px\<lparr>px_placer := p3\<rparr>
                        in Some (bindR (case ev of None \<Rightarrow> Inr px1 | Some e \<Rightarrow> dropEvicted uuid e px1) (\<lambda>px2.
                             bindR (forward_chunk c (Some body) meta px2) (\<lambda>px3. Inr ([], px3))))))"

definition HandleGet ::
    "('m, string, addr) hashmap \<Rightarrow> ('q, string, nat) hashmap \<Rightarrow> int \<Rightarrow> client_cmd \<Rightarrow> ('m, 'q, 'r) proxy \<Rightarrow>
     (wcall list \<times> ('m, 'q, 'r) proxy) res" where
  "HandleGet H Q now c px0 =
     (let chunkId = itoa (cc_chunk c);
          px = collect_start ''get'' (cc_reqId c) chunkId px0;
          st = px_store px;
          (m', _, _) = hm_GetOrInsert Q (ReqMap st) (cc_reqId c) (px_nextCounter px);
          cr = \<lparr>cr_Cmd = ''get'', cr_DataShards = cc_data c, cr_ParityShards = cc_parity c, cr_Counter = 0\<rparr>;
          px1 = px\<lparr>px_store := st\<lparr>ReqMap := m', counters := (counters st)(px_nextCounter px := cr)\<rparr>,
                   px_nextCounter := Suc (px_nextCounter px)\<rparr>
      in bindR (Placer_Get H now (cc_key c) (cc_chunk c) (px_placer px1)) (\<lambda>(r, ok, p').
           let px2 = px1\<lparr>px_placer := p'\<rparr>;
               notfound = Inr ([AppendError (not_found_msg chunkId (cc_key c)), Flush], px2)
           in if \<not> ok then notfound
              else (case r of
                      None \<Rightarrow> Inl NilDereference
                    | Some meta \<Rightarrow>
                        if Deleted (metas p' meta) then notfound
                        else bindR (forward_chunk c None meta px2) (\<lambda>px3. Inr ([], px3)))))"

definition HandleCallback ::
    "(nat \<Rightarrow> error option) \<Rightarrow> answer \<Rightarrow> nat \<Rightarrow> ('m, 'q, 'r) proxy \<Rightarrow> wcall list \<times> ('m, 'q, 'r) proxy" where
  "HandleCallback oc a r px =
     (case a of
        Answer rsp \<Rightarrow>
          let (ws, rsp1) = PrepareFor rsp; (ws', e, rsp2) = Flush_rsp oc rsp1
          in if e \<noteq> None then (ws @ ws', px)
             else if rq_EnableCollector (reqs (px_store px) r)
             then (ws @ ws', px\<lparr>px_store := log_Collect LogServer2Client (rs_Cmd rsp) (ReqId (rs_Id rsp)) (ChunkId (rs_Id rsp)) (px_store px)\<rparr>)
             else (ws @ ws', px)
      | Failure e \<Rightarrow> ([AppendError (error_msg e), Flush], px))"

text \<open>\<open>CollectData\<close> up to the wait for the answers.\<close>

fun collect_from :: "nat \<Rightarrow> nat \<Rightarrow> ('m, 'q, 'r) proxy \<Rightarrow> ('m, 'q, 'r) proxy res" where
  "collect_from i 0 px = Inr px"
| "collect_from i (Suc k) px =
     bindR (send_command (int i)
              (CmdControl \<lparr>ct_Cmd = ''data'', ct_Addr = [], ct_Deployment = [], ct_Id = 0, ct_Request = None, ct_w = False\<rparr>)
              (px\<lparr>px_store := (px_store px)\<lparr>DataCollected := DataCollected (px_store px) + 1\<rparr>\<rparr>))
       (collect_from (Suc i) k)"

definition CollectData :: "('m, 'q, 'r) proxy \<Rightarrow> ('m, 'q, 'r) proxy res" where
  "CollectData px = collect_from 0 (length (All (pgroup (px_placer px)))) px"

section \<open>Start and release\<close>

definition registered_meta :: LMeta where
  "registered_meta = IncreaseSize (zeroLMeta\<lparr>Capacity := InstanceCapacity\<rparr>) InstanceOverhead"

fun register ::
    "('a, uint64, ref) hashmap \<Rightarrow> nat \<Rightarrow> nat \<Rightarrow> 'a sched \<times> LMeta Group \<Rightarrow> ('a sched \<times> LMeta Group) res option" where
  "register A i 0 sg = Some (Inr sg)"
| "register A i (Suc k) (s, g) =
     (case GetForGroup A (int i) s of
        None \<Rightarrow> None
      | Some (Inl e) \<Rightarrow> Some (Inl e)
      | Some (Inr (_, s')) \<Rightarrow> register A (Suc i) k (s', set_instance g (int i) registered_meta))"

definition New_proxy ::
    "('a, uint64, ref) hashmap \<Rightarrow> nat \<Rightarrow> 'a sched \<Rightarrow> ('a sched \<times> LMeta Group) res option" where
  "New_proxy A num s = register A 0 num (s\<lparr>s_group := NewGroup (int num)\<rparr>, NewGroup (int num))"

text \<open>
  Every instance is warmed up by a goroutine; the one that completes the count closes \<open>ready\<close>.  The state is the
  counter \<open>initialized\<close> and whether \<open>ready\<close> is closed; \<open>n\<close> is the length of the group.
\<close>

definition warmed_up :: "nat \<Rightarrow> 32 word \<times> bool \<Rightarrow> 32 word \<times> bool" where
  "warmed_up n = (\<lambda>(initialized, ready).
     let initialized = initialized + 1 in (initialized, if initialized = word_of_nat n then True else ready))"

lemma ready_after_all:
  assumes "0 < n" and "n < 2 ^ 32" and "k \<le> n"
  shows "(warmed_up n ^^ k) (0, False) = (word_of_nat k, k = n)"
  using assms(3)
proof (induction k)
  case (Suc k)
  then have "(warmed_up n ^^ k) (0, False) = (word_of_nat k, False)" by simp
  moreover have "(word_of_nat (Suc k) :: 32 word) = word_of_nat n \<longleftrightarrow> Suc k = n"
    using assms(2) Suc.prems by (simp only: of_nat_inverse word_of_nat_eq_iff) (auto simp: take_bit_nat_eq_self)
  ultimately show ?case by (simp add: warmed_up_def Let_def add.commute)
qed (use assms in simp)
definition newScheduler :: "('a, uint64, ref) hashmap \<Rightarrow> 'a sched" where
  "newScheduler A = NewScheduler A LambdaPrefix (int NumLambdaClusters) LambdaMaxDeployments"

text \<open>The accept loop: each connection a Lambda opens gets a fresh object; the loop ends with the first error.\<close>

fun Serve_proxy :: "(error + 'r) list \<Rightarrow> nat \<Rightarrow> ('q, 'r) lstore \<Rightarrow> ('q, 'r) lstore" where
  "Serve_proxy [] c s = s"
| "Serve_proxy (Inl e # accs) c s = s"
| "Serve_proxy (Inr r # accs) c s = Serve_proxy accs (Suc c) (s\<lparr>conns := (conns s)(c := NewConnection r)\<rparr>)"

fun release_nodes :: "('a, uint64, ref) hashmap \<Rightarrow> nat \<Rightarrow> ref option list \<Rightarrow> 'a sched \<Rightarrow> 'a sched res option" where
  "release_nodes A i [] s = Some (Inr s)"
| "release_nodes A i (None # rest) s = Some (Inl NilDereference)"
| "release_nodes A i (Some g # rest) s =
     (case Recycle A (gi_deployment (ginsts s g)) s of
        None \<Rightarrow> None
      | Some s' \<Rightarrow> release_nodes A (Suc i) rest (s'\<lparr>s_group := (s_group s')\<lparr>All := (All (s_group s'))[i := None]\<rparr>\<rparr>))"

definition Release :: "('a, uint64, ref) hashmap \<Rightarrow> 'a sched \<Rightarrow> 'a sched res option" where
  "Release A s =
     (case release_nodes A 0 (All (s_group s)) s of
        None \<Rightarrow> None
      | Some (Inl e) \<Rightarrow> Some (Inl e)
      | Some (Inr s') \<Rightarrow> map_option Inr (Clear A s'))"

section \<open>The evicted object\<close>

definition victim :: "('m, string, addr) hashmap \<Rightarrow> addr \<Rightarrow> 'm placer \<Rightarrow> addr \<Rightarrow> bool" where
  "victim H meta p v \<longleftrightarrow>
     (\<exists>pm. placerMeta (metas p meta) = Some pm \<and> once pm = Some False \<and> evicts pm = Some v) \<and> stored H p v \<and> v \<noteq> meta \<and> Deleted (metas p v)"

lemma confirm_evicts: "confirm pm c = Inr pm' \<Longrightarrow> evicts pm' = evicts pm"
  by (auto simp: confirm_def go_simps split: if_splits)

lemma evict_core_Deleted:
  assumes "core_metas q = evict_core v meta M" and "v \<noteq> meta"
  shows "Deleted (metas q v)"
proof -
  have "Deleted (core_metas q v)" using assms by (simp add: evict_core_def)
  then show ?thesis by (simp add: core_metas_def)
qed

text \<open>The deleted objects: an operation on the placer deletes nothing but its victim.\<close>

definition dels :: "'m placer \<Rightarrow> addr set" where
  "dels p = {a. Deleted (metas p a)}"

lemma dels_heap: "metas q = metas p \<Longrightarrow> dels q = dels p"
  by (simp add: dels_def)

lemma dels_upd_meta: "(Deleted (f (metas p a)) \<Longrightarrow> Deleted (metas p a)) \<Longrightarrow> dels (upd_meta a f p) \<subseteq> dels p"
  by (auto simp: dels_def upd_meta_def)

lemma dels_same: "(Deleted (f (metas p a)) = Deleted (metas p a)) \<Longrightarrow> dels (upd_meta a f p) = dels p"
  by (auto simp: dels_def upd_meta_def)

lemma dels_simps [simp]: "dels (upd_pm a f p) = dels p" "dels (p\<lparr>pgroup := g\<rparr>) = dels p" "dels (upd_objects i h p) = dels p"
  by (auto simp: dels_def upd_defs)

lemma dels_place_chunk: "place_chunk meta chunk d p = Inr q \<Longrightarrow> dels q = dels p"
  by (auto simp: place_chunk_def go_simps dels_same split: option.splits)

lemma dels_place_fitting: "place_fitting now meta chunk k ins p = Inr q \<Longrightarrow> dels q = dels p"
  by (auto simp: place_fitting_def go_simps AddObject_def Let_def dels_place_chunk split: if_splits)

lemma dels_assign_slice: "assign_slice meta lam p = Inr (k, q) \<Longrightarrow> dels q = dels p"
  by (auto simp: assign_slice_def go_simps dels_same)

lemma dels_evict_core:
  assumes "core_metas q = evict_core v meta (core_metas p)"
  shows "dels q \<subseteq> insert v (dels p)"
proof
  fix a assume "a \<in> dels q"
  then have "Deleted (core_metas q a)" by (simp add: dels_def core_metas_def)
  then show "a \<in> insert v (dels p)"
    by (auto simp: assms evict_core_def core_metas_def dels_def split: if_splits)
qed

lemma dels_enters: "enters p r q \<Longrightarrow> dels q \<subseteq> dels p"
  by (auto simp: enters_def dels_def metas_entered upd_defs split: if_splits)

lemma dels_NewMeta: "Placer_NewMeta choice key ss n chunk lam sz p = Inr (a, q) \<Longrightarrow> dels q \<subseteq> dels p"
  by (auto simp: Placer_NewMeta_def pool_Get_def NewMeta_def InitMeta_def go_simps dels_def upd_defs zeroMeta_def Let_def
      split: if_splits)

lemma place_evicting_victim:
  assumes fl: "in_flight H n meta chunk p"
    and sw: "\<And>pm. placerMeta (metas p meta) = Some pm \<Longrightarrow> swapMap pm = None"
    and run: "place_evicting now meta chunk p = Some (Inr p')"
  shows "\<exists>v. victim H meta p' v \<and> dels p' \<subseteq> insert v (dels p)"
proof -
  have rd: "ready meta p" using fl by (simp add: in_flight_def)
  obtain r where el: "evict_loop now meta p = Some r" using run by (auto simp: place_evicting_def split: option.splits)
  obtain p1 where r: "r = Inr p1" and ev: "evicted_one meta p p1"
    using evict_loop_cases [OF rd, of now] el by auto
  obtain v where v: "Some v \<in> arrs p" "v \<noteq> meta" and core: "core_metas p1 = evict_core v meta (core_metas p)"
    using ev remaining_sub_arrs [of p] by (auto simp: evicted_one_def evictable_def)
  have mm: "metaMap p1 = metaMap p" using ev by (simp add: evicted_one_def outer_def)
  obtain pm where pm: "placerMeta (metas p meta) = Some pm" using in_flight_pm [OF fl] by metis
  obtain pm1 where pm1: "placerMeta (metas p1 meta) = Some pm1" "evicts pm1 = Some v"
    using evict_core_pm [OF core v(2) pm sw [OF pm]] by metis
  have dl: "Deleted (metas p1 v)" by (rule evict_core_Deleted [OF core v(2)])
  have st: "stored H p v" using fl v(1) by (auto simp: in_flight_def heap_inv_def)
  obtain g dest p2 where p2: "place_chunk meta chunk dest (p1\<lparr>pgroup := g\<rparr>) = Inr p2"
    and p': "p' = upd_pm meta (\<lambda>q. q\<lparr>once := Some False\<rparr>) p2"
    using run el r pm1 by (auto simp: place_evicting_def go_simps)
  obtain pl pm2 where pm2: "confirm pm1 chunk = Inr pm2"
      "p2 = upd_meta meta (\<lambda>m. m\<lparr>Placement := pl, placerMeta := Some pm2\<rparr>) (p1\<lparr>pgroup := g\<rparr>)"
    using p2 pm1(1) by (auto simp: place_chunk_def go_simps)
  have "victim H meta p' v"
    using pm2 p' confirm_evicts [OF pm2(1)] pm1(2) st v(2) mm dl by (auto simp: victim_def upd_defs stored_def)
  moreover have "dels p' = dels p1" using dels_place_chunk [OF p2] p' by simp
  ultimately show ?thesis using dels_evict_core [OF core] by blast
qed

lemma GetOrInsert_locked_victim:
  assumes fl: "in_flight H n meta chunk p" and lam: "0 \<le> lam" "lam < 2 ^ 62"
    and run: "GetOrInsert_locked now meta chunk lam p = Some (Inr (True, p'))"
  shows "\<exists>v. victim H meta p' v \<and> dels p' \<subseteq> insert v (dels p)"
proof -
  obtain pm where pm: "placerMeta (metas p meta) = Some pm" "pm_ok (g_size (pgroup p)) n pm"
    using in_flight_pm [OF fl] .
  have em: "IsPlacementEmpty (swapMap pm)"
    using run pm(1) by (auto simp: GetOrInsert_locked_def go_simps split: if_splits)
  have "swapMap pm = None"
    using em pm(2) fl by (auto simp: IsPlacementEmpty_def pm_ok_def pl_ok_def in_flight_def)
  obtain k p1 where a: "assign_slice meta lam p = Inr (k, p1)" "in_flight H n meta chunk p1"
    using assign_slice_ok [OF fl lam] by blast
  have sw1: "swapMap q = None" if "placerMeta (metas p1 meta) = Some q" for q
    using a(1) that pm(1) \<open>swapMap pm = None\<close> by (auto simp: assign_slice_def go_simps upd_defs)
  have "place_evicting now meta chunk p1 = Some (Inr p')"
    using run pm(1) em a(1) by (auto simp: GetOrInsert_locked_def go_simps split: if_splits sum.splits)
  then show ?thesis using place_evicting_victim [OF a(2) sw1] dels_assign_slice [OF a(1)] by blast
qed

lemma GetOrInsert_locked_keeps:
  assumes fl: "in_flight H n meta chunk p" and run: "GetOrInsert_locked now meta chunk lam p = Some (Inr (False, p'))"
  shows "dels p' = dels p"
proof -
  obtain pm where pm: "placerMeta (metas p meta) = Some pm" using in_flight_pm [OF fl] by metis
  consider "p' = p" | d where "place_chunk meta chunk d p = Inr p'"
    | k p1 ins where "assign_slice meta lam p = Inr (k, p1)" "place_fitting now meta chunk k ins p1 = Inr p'"
    using run pm by (auto simp: GetOrInsert_locked_def go_simps split: if_splits sum.splits)
  then show ?thesis using dels_place_chunk dels_place_fitting dels_assign_slice by cases blast+
qed

lemma GetOrInsert_victim:
  assumes "hashmap_ok H" and "placer_inv H n p" and "prepared H n a chunk lam p"
    and "0 \<le> chunk" "chunk < int n" "0 \<le> lam" "lam < 2 ^ 62"
    and run: "GetOrInsert H now key a p = Some (Inr (meta, got, post, p'))"
  shows "if post then \<exists>v. victim H meta p' v \<and> dels p' \<subseteq> insert v (dels p) else dels p' \<subseteq> dels p"
proof -
  obtain r p1 where r: "GetOrInsert_enter H key a p = Inr (r, p1)" "er_chunk r = chunk" "er_lambda r = lam" "enters p r p1"
      "if er_return r then placer_inv H n p1 else in_flight H n (er_meta r) chunk p1"
    using GetOrInsert_enter_ok [OF assms(1-5), of key] by blast
  show ?thesis
  proof (cases "er_return r")
    case True
    then show ?thesis using run r(1) dels_enters [OF r(4)] by (auto simp: GetOrInsert_def)
  next
    case False
    then have l: "GetOrInsert_locked now meta chunk lam p1 = Some (Inr (post, p'))" "er_meta r = meta"
      using run r(1-3) by (auto simp: GetOrInsert_def go_simps)
    have fl: "in_flight H n meta chunk p1" using r(5) False l(2) by simp
    show ?thesis
      using GetOrInsert_locked_victim [OF fl assms(6,7)] GetOrInsert_locked_keeps [OF fl] l(1) dels_enters [OF r(4)]
      by (cases post) (simp, meson order_trans insert_mono, simp)
  qed
qed

lemma placer_postProcess_victim:
  assumes "victim H meta p v"
  shows "snd (placer_postProcess meta p) = Some v"
    "metas (fst (placer_postProcess meta p)) v = metas p v"
    "Placement (metas (fst (placer_postProcess meta p)) meta) = Placement (metas p meta)"
    "Key (metas (fst (placer_postProcess meta p)) meta) = Key (metas p meta)"
    "pgroup (fst (placer_postProcess meta p)) = pgroup p"
    "chunk_ready meta chunk p \<Longrightarrow> chunk_ready meta chunk (fst (placer_postProcess meta p))"
  using assms
  by (auto simp: victim_def placer_postProcess_def postProcess_def doPostProcess_def upd_defs chunk_ready_def live_def Let_def)

lemma dels_postProcess: "dels (fst (placer_postProcess meta p)) = dels p"
  by (auto simp: placer_postProcess_def dels_same Let_def split: option.splits prod.splits)

section \<open>Sending\<close>

definition queue :: "nat \<Rightarrow> ('m, 'q, 'r) proxy \<Rightarrow> command list" where
  "queue k px = in_chanReq (instances (px_store px) k)"

text \<open>The effect of sending requests: fresh request objects, at the end of the queues.\<close>

definition enq1 :: "int \<times> Request \<Rightarrow> ('m, 'q, 'r) proxy \<Rightarrow> ('m, 'q, 'r) proxy" where
  "enq1 d px =
     px\<lparr>px_store := upd_inst (nat (fst d)) (\<lambda>ins. ins\<lparr>in_chanReq := in_chanReq ins @ [CmdRequest (px_nextReq px)]\<rparr>)
          ((px_store px)\<lparr>reqs := (reqs (px_store px))(px_nextReq px := snd d)\<rparr>),
        px_nextReq := Suc (px_nextReq px)\<rparr>"

definition enq :: "(int \<times> Request) list \<Rightarrow> ('m, 'q, 'r) proxy \<Rightarrow> ('m, 'q, 'r) proxy" where
  "enq ds px = fold enq1 ds px"

lemma enq_simps [simp]: "enq [] px = px" "enq (d # ds) px = enq ds (enq1 d px)" "enq (xs @ ys) px = enq ys (enq xs px)"
  by (simp_all add: enq_def)

lemma enq1_simps [simp]:
  "px_placer (enq1 d px) = px_placer px" "px_nextReq (enq1 d px) = Suc (px_nextReq px)"
  "reqs (px_store (enq1 d px)) = (reqs (px_store px))(px_nextReq px := snd d)"
  "queue k (enq1 d px) = queue k px @ (if nat (fst d) = k then [CmdRequest (px_nextReq px)] else [])"
  "px_nextCounter (enq1 d px) = px_nextCounter px" "ReqMap (px_store (enq1 d px)) = ReqMap (px_store px)"
  by (simp_all add: enq1_def queue_def)

lemma enq_placer [simp]: "px_placer (enq ds px) = px_placer px" "px_nextReq (enq ds px) = px_nextReq px + length ds"
  by (induction ds arbitrary: px) simp_all

lemma enq_old: "j < px_nextReq px \<Longrightarrow> reqs (px_store (enq ds px)) j = reqs (px_store px) j"
  by (induction ds arbitrary: px) simp_all

lemma enq_new: "j < length ds \<Longrightarrow> reqs (px_store (enq ds px)) (px_nextReq px + j) = snd (ds ! j)"
proof (induction ds arbitrary: px j)
  case (Cons d ds)
  show ?case
  proof (cases j)
    case 0
    then show ?thesis using enq_old [of "px_nextReq px" "enq1 d px" ds] by simp
  next
    case (Suc i)
    then show ?thesis using Cons.IH [of i "enq1 d px"] Cons.prems by simp
  qed
qed simp

lemma filter_upt_Suc:
  "filter P [0..<Suc n] = (if P 0 then [0] else []) @ map Suc (filter (\<lambda>j. P (Suc j)) [0..<n])"
  by (simp add: upt_conv_Cons map_Suc_upt [symmetric] filter_map comp_def del: upt_Suc)

lemma enq_queue:
  "queue k (enq ds px) = queue k px @
     map (\<lambda>j. CmdRequest (px_nextReq px + j)) (filter (\<lambda>j. nat (fst (ds ! j)) = k) [0..<length ds])"
  by (induction ds arbitrary: px) (simp_all add: filter_upt_Suc comp_def del: upt_Suc)

lemma send_request_ok:
  assumes "insts_wf (pgroup (px_placer px))" and "in_group (g_size (pgroup (px_placer px))) dest"
  shows "send_request dest q px = Inr (enq [(dest, q)] px)"
  using GInstance_ok [OF assms] by (auto simp: send_request_def send_command_def enq1_def)

definition del_request :: "string \<Rightarrow> Meta \<Rightarrow> nat \<Rightarrow> Request" where
  "del_request uuid m i = mk_request 0 uuid (itoa (int i)) ''del'' (ChunkKey m (int i)) None None False"

definition drop_list :: "string \<Rightarrow> Meta \<Rightarrow> (int \<times> Request) list" where
  "drop_list uuid m = map (\<lambda>(j, d). (d, del_request uuid m j)) (enumerate 0 (pl_elems (Placement m)))"

lemma drop_chunks_ok:
  assumes "insts_wf (pgroup (px_placer px))" and "\<forall>d \<in> set ds. in_group (g_size (pgroup (px_placer px))) d"
  shows "drop_chunks uuid m i ds px = Inr (enq (map (\<lambda>(j, d). (d, del_request uuid m j)) (enumerate i ds)) px)"
  using assms
  by (induction ds arbitrary: i px) (simp_all add: send_request_ok del_request_def)

lemma dropEvicted_ok:
  assumes inv: "placer_inv H n (px_placer px)" and v: "stored H (px_placer px) v"
  shows "dropEvicted uuid v px = Inr (enq (drop_list uuid (metas (px_placer px) v)) px)"
proof -
  have "pl_ok (g_size (pgroup (px_placer px))) n {} (Placement (metas (px_placer px) v))" "insts_wf (pgroup (px_placer px))"
    using inv v by (auto simp: placer_inv_def heap_inv_def obj_ok_def)
  then show ?thesis
    using drop_chunks_ok [of px] pl_ok_all by (simp add: dropEvicted_def drop_list_def Let_def)
qed

section \<open>SET and GET of a chunk\<close>

definition chunk_request :: "client_cmd \<Rightarrow> rstream option \<Rightarrow> Meta \<Rightarrow> Request" where
  "chunk_request c body m =
     mk_request (cc_connId c) (cc_reqId c) (itoa (cc_chunk c)) (ToLower (cc_Name c)) (ChunkKey m (cc_chunk c)) body
       (Some (cc_responses c)) True"

definition chunk_dest :: "client_cmd \<Rightarrow> Meta \<Rightarrow> int" where
  "chunk_dest c m = pl_elems (Placement m) ! nat (cc_chunk c)"

lemma forward_chunk_ok:
  assumes inv: "placer_inv H n (px_placer px)" and st: "stored H (px_placer px) meta"
    and c: "0 \<le> cc_chunk c" "cc_chunk c < int n"
  shows "forward_chunk c body meta px =
     Inr (enq [(chunk_dest c (metas (px_placer px) meta), chunk_request c body (metas (px_placer px) meta))] px)"
    "in_group (g_size (pgroup (px_placer px))) (chunk_dest c (metas (px_placer px) meta))"
proof -
  have ok: "pl_ok (g_size (pgroup (px_placer px))) n {} (Placement (metas (px_placer px) meta))" "insts_wf (pgroup (px_placer px))"
    using inv st by (auto simp: placer_inv_def heap_inv_def obj_ok_def)
  show g: "in_group (g_size (pgroup (px_placer px))) (chunk_dest c (metas (px_placer px) meta))"
    using ok(1) c by (simp add: pl_ok_def chunk_dest_def nat_less_iff)
  show "forward_chunk c body meta px =
     Inr (enq [(chunk_dest c (metas (px_placer px) meta), chunk_request c body (metas (px_placer px) meta))] px)"
    using send_request_ok [OF ok(2) g] pl_ok_in_range [OF ok(1), of "cc_chunk c"] c
    by (simp add: forward_chunk_def chunk_dest_def chunk_request_def Let_def)
qed

definition set_cmd_ok :: "nat \<Rightarrow> client_cmd \<Rightarrow> bool" where
  "set_cmd_ok n c \<longleftrightarrow> cc_data c + cc_parity c = int n \<and> 0 \<le> cc_chunk c \<and> cc_chunk c < int n \<and> 0 \<le> cc_lambda c \<and> cc_lambda c < 2 ^ 62"

lemma HandleSet_routes:
  assumes H: "hashmap_ok H" and n: "n \<le> 100" and inv: "placer_inv H n (px_placer px)" and ok: "set_cmd_ok n c"
    and body: "cc_body c = Inr body"
  shows "HandleSet H now choice uuid c px = None \<or>
     (\<exists>px' meta ev. HandleSet H now choice uuid c px = Some (Inr ([], px')) \<and> placer_inv H n (px_placer px') \<and>
        (named_ok H (px_placer px) \<longrightarrow> set_routed H (cc_key c) (cc_chunk c) (px_placer px) (px_placer px')) \<and>
        (\<forall>v. ev = Some v \<longrightarrow> stored H (px_placer px') v \<and> Deleted (metas (px_placer px') v)) \<and>
        (\<forall>v. Deleted (metas (px_placer px') v) \<and> \<not> Deleted (metas (px_placer px) v) \<longrightarrow> ev = Some v) \<and>
        hm_Get H (metaMap (px_placer px')) (cc_key c) = Some meta \<and> chunk_ready meta (cc_chunk c) (px_placer px') \<and>
        in_group (g_size (pgroup (px_placer px'))) (chunk_dest c (metas (px_placer px') meta)) \<and>
        px' = enq ((case ev of None \<Rightarrow> [] | Some v \<Rightarrow> drop_list uuid (metas (px_placer px') v)) @
                   [(chunk_dest c (metas (px_placer px') meta), chunk_request c (Some body) (metas (px_placer px') meta))])
               ((collect_start ''set'' (cc_reqId c) (itoa (cc_chunk c)) px)\<lparr>px_placer := px_placer px'\<rparr>))"
proof -
  let ?px = "collect_start ''set'' (cc_reqId c) (itoa (cc_chunk c)) px"
  have pl: "px_placer ?px = px_placer px" by (simp add: collect_start_def)
  have c: "0 \<le> cc_chunk c" "cc_chunk c < int n" "0 \<le> cc_lambda c" "cc_lambda c < 2 ^ 62" "cc_data c + cc_parity c = int n"
    using ok by (auto simp: set_cmd_ok_def)
  have w: "wrap_int (cc_data c + cc_parity c) = int n" using c(5) n by (simp add: wrap_int_id)
  obtain a p1 where N: "Placer_NewMeta choice (cc_key c) (cc_randBase c) (int n) (cc_chunk c) (cc_lambda c)
        (word_of_int (st_Len body)) (px_placer px) = Inr (a, p1)"
      "placer_inv H n p1" "prepared H n a (cc_chunk c) (cc_lambda c) p1"
    using Placer_NewMeta_same [OF inv n c(1,2)] by metis
  show ?thesis
  proof (cases "GetOrInsert H now (cc_key c) a p1")
    case None
    then show ?thesis using N(1) w by (simp add: HandleSet_def body pl)
  next
    case (Some x)
    then obtain meta got post p2 where g: "GetOrInsert H now (cc_key c) a p1 = Some (Inr (meta, got, post, p2))"
        and i2: "placer_inv H n p2"
      using GetOrInsert_ok [OF H N(2,3) c(1-4), of now "cc_key c"] by auto
    note R = GetOrInsert_ready [OF H N(2,3) c(1-4) g]
    note V = GetOrInsert_victim [OF H N(2,3) c(1-4) g]
    have d1: "dels p1 \<subseteq> dels (px_placer px)" using dels_NewMeta [OF N(1)] .
    have sr: "named_ok H (px_placer px) \<longrightarrow> set_routed H (cc_key c) (cc_chunk c) (px_placer px) p2"
      using set_routes [OF H n inv _ c(1-4) N(1) g] by blast
    have live: "\<not> Deleted (metas p2 meta)" using R(1) by (auto simp: chunk_ready_def live_def)
    have st: "stored H p2 meta" using R(2) by (auto simp: stored_def)
    show ?thesis
    proof (cases post)
      case False
      let ?q = "?px\<lparr>px_placer := p2\<rparr>"
      have iq: "placer_inv H n (px_placer ?q)" "stored H (px_placer ?q) meta" using i2 st by simp_all
      note F = forward_chunk_ok(1) [OF iq c(1,2), of "Some body", simplified] forward_chunk_ok(2) [OF iq c(1,2), simplified]
      have "HandleSet H now choice uuid c px = Some (Inr ([], enq [(chunk_dest c (metas p2 meta), chunk_request c (Some body) (metas p2 meta))] ?q))"
        using N(1) w g live False F(1) by (simp add: HandleSet_def body pl)
      moreover have "\<not> (Deleted (metas p2 v) \<and> \<not> Deleted (metas (px_placer px) v))" for v
        using V False d1 by (auto simp: dels_def)
      ultimately show ?thesis using i2 R(1,2) F(2) sr by (auto intro!: exI [of _ "None :: addr option"])
    next
      case True
      obtain v where v: "victim H meta p2 v" and d2: "dels p2 \<subseteq> insert v (dels p1)" using V True by auto
      obtain p3 where post: "placer_postProcess meta p2 = (p3, Some v)"
        using placer_postProcess_victim(1) [OF v] by (metis prod.collapse)
      let ?q = "?px\<lparr>px_placer := p3\<rparr>"
      note P = placer_postProcess_ok [OF i2, of meta, unfolded post fst_conv] placer_postProcess_victim [OF v, unfolded post fst_conv snd_conv]
      have st3: "stored H p3 v" "stored H p3 meta" using v st P(2) by (auto simp: victim_def stored_def)
      have D: "dropEvicted uuid v ?q = Inr (enq (drop_list uuid (metas p3 v)) ?q)"
        using dropEvicted_ok [of H n ?q v uuid] P(1) st3 by simp
      let ?q2 = "enq (drop_list uuid (metas p3 v)) ?q"
      have iq: "placer_inv H n (px_placer ?q2)" "stored H (px_placer ?q2) meta" using P(1) st3(2) by simp_all
      note F = forward_chunk_ok(1) [OF iq c(1,2), of "Some body", simplified] forward_chunk_ok(2) [OF iq c(1,2), simplified]
      have "HandleSet H now choice uuid c px =
          Some (Inr ([], enq (drop_list uuid (metas p3 v) @ [(chunk_dest c (metas p3 meta), chunk_request c (Some body) (metas p3 meta))]) ?q))"
        using N(1) w g live True D F(1) post by (simp add: HandleSet_def body pl)
      moreover have "named_ok H (px_placer px) \<longrightarrow> set_routed H (cc_key c) (cc_chunk c) (px_placer px) p3"
        using sr route_postProcess [of H meta p2, unfolded post fst_conv] by (simp add: set_routed_def)
      moreover have "Deleted (metas p3 v)" using v P(4) by (simp add: victim_def)
      moreover have "dels p3 \<subseteq> insert v (dels (px_placer px))" using dels_postProcess [of meta p2] post d1 d2 by auto
      then have "\<forall>w. Deleted (metas p3 w) \<and> \<not> Deleted (metas (px_placer px) w) \<longrightarrow> Some v = Some w" by (auto simp: dels_def)
      ultimately show ?thesis using P R(1,2) F(2) st3(1) by (auto intro!: exI [of _ "Some v"])
    qed
  qed
qed

text \<open>Operations that only count or log.\<close>

definition same_queues :: "('m, 'q, 'r) proxy \<Rightarrow> ('m, 'q, 'r) proxy \<Rightarrow> bool" where
  "same_queues px px' \<longleftrightarrow>
     reqs (px_store px') = reqs (px_store px) \<and> conns (px_store px') = conns (px_store px) \<and>
     instances (px_store px') = instances (px_store px) \<and> px_nextReq px' = px_nextReq px"

lemma same_queues_queue: "same_queues px px' \<Longrightarrow> queue k px' = queue k px"
  by (simp add: same_queues_def queue_def)

lemma same_queues_collect_start: "same_queues px ((collect_start h q c px)\<lparr>px_placer := p\<rparr>)"
  by (simp add: same_queues_def collect_start_def)

lemma HandleGet_routes:
  assumes inv: "placer_inv H n (px_placer px)" and meta: "hm_Get H (metaMap (px_placer px)) (cc_key c) = Some meta"
    and r: "chunk_ready meta (cc_chunk c) (px_placer px)" and c: "0 \<le> cc_chunk c" "cc_chunk c < int n"
  shows "\<exists>px0. HandleGet H Q now c px =
       Inr ([], enq [(chunk_dest c (metas (px_placer px) meta), chunk_request c None (metas (px_placer px) meta))] px0) \<and>
     same_queues px px0 \<and> px_placer px0 = TouchObject now meta (px_placer px)"
proof -
  let ?p = "TouchObject now meta (px_placer px)"
  have g: "Placer_Get H now (cc_key c) (cc_chunk c) (px_placer px) = Inr (Some meta, True, ?p)"
    using Placer_Get_ready [OF meta r] .
  then have i: "placer_inv H n ?p" using Placer_Get_ok [OF inv c, of now "cc_key c"] by auto
  have m: "Placement (metas ?p meta) = Placement (metas (px_placer px) meta)" "Key (metas ?p meta) = Key (metas (px_placer px) meta)"
      "Deleted (metas ?p meta) = Deleted (metas (px_placer px) meta)" "metaMap ?p = metaMap (px_placer px)"
    by (simp_all add: TouchObject_def upd_defs)
  have st: "stored H ?p meta" using meta m(4) by (auto simp: stored_def)
  have "\<not> Deleted (metas ?p meta)" using r m(3) by (auto simp: chunk_ready_def live_def)
  moreover have "chunk_dest c (metas ?p meta) = chunk_dest c (metas (px_placer px) meta)"
      "chunk_request c None (metas ?p meta) = chunk_request c None (metas (px_placer px) meta)"
    using m by (simp_all add: chunk_dest_def chunk_request_def ChunkKey_def)
  moreover have "forward_chunk c None meta q = Inr (enq [(chunk_dest c (metas ?p meta), chunk_request c None (metas ?p meta))] q)"
    if "px_placer q = ?p" for q :: "('a, 'b, 'c) proxy"
    using forward_chunk_ok(1) [of H n q meta c None] i st c that by simp
  ultimately show ?thesis
    using g by (simp add: HandleGet_def collect_start_def Let_def split_beta) (rule exI, rule conjI [OF refl], simp add: same_queues_def)
qed

lemma HandleGet_misses:
  assumes inv: "placer_inv H n (px_placer px)" and r: "route H (px_placer px) (cc_key c) (cc_chunk c) = None"
    and c: "0 \<le> cc_chunk c" "cc_chunk c < int n"
  shows "\<exists>px0. HandleGet H Q now c px = Inr ([AppendError (not_found_msg (itoa (cc_chunk c)) (cc_key c)), Flush], px0) \<and>
     same_queues px px0 \<and> px_placer px0 = px_placer px"
proof -
  let ?p = "px_placer px"
  have "\<exists>m ok. Placer_Get H now (cc_key c) (cc_chunk c) ?p = Inr (m, ok, ?p) \<and> (ok \<longrightarrow> (\<exists>a. m = Some a \<and> Deleted (metas ?p a)))"
  proof (cases "hm_Get H (metaMap ?p) (cc_key c)")
    case (Some a)
    have "in_range (cc_chunk c) (confirmed pm)" if "placerMeta (metas ?p a) = Some pm" for pm
      using inv Some that c by (auto simp: placer_inv_def heap_inv_def stored_def obj_ok_def pm_ok_def in_range_def nat_less_iff)
    then show ?thesis
      using r Some by (auto simp: Placer_Get_def MetaStore_Get_def route_def routed_def split: option.splits if_splits)
  qed (auto simp: Placer_Get_def MetaStore_Get_def)
  then obtain m ok where g: "Placer_Get H now (cc_key c) (cc_chunk c) ?p = Inr (m, ok, ?p)" "ok \<longrightarrow> (\<exists>a. m = Some a \<and> Deleted (metas ?p a))"
    by blast
  then show ?thesis by (cases ok) (auto simp: HandleGet_def collect_start_def Let_def split_beta same_queues_def)
qed

section \<open>A new proxy\<close>

lemma register_ok:
  assumes A: "hashmap_ok A" and "sched_inv A D s" and "s_pool s = ds @ rest" and "length ds = k"
    and "i + k \<le> length (All g)" and "length (All (s_group s)) = length (All g)"
  shows "\<exists>s' g'. register A i k (s, g) = Some (Inr (s', g')) \<and> sched_inv A D s' \<and> s_pool s' = rest \<and>
     g' = g\<lparr>All := map (\<lambda>j. if i \<le> j \<and> j < i + k then Some registered_meta else All g ! j) [0..<length (All g)]\<rparr>"
  using assms(2-)
proof (induction k arbitrary: i s g ds)
  case 0
  have "(\<lambda>j. if i \<le> j \<and> j < i + 0 then Some registered_meta else All g ! j) = (\<lambda>j. All g ! j)"
    by (rule ext) auto
  then show ?case using 0 by (simp add: map_nth del: add_0_right)
next
  case (Suc k)
  obtain d ds' where ds: "ds = d # ds'" "length ds' = k" using Suc.prems(3) by (cases ds) auto
  have idx: "in_range (int i) (All (s_group s))" using Suc.prems(4,5) by simp
  obtain x s1 where s1: "GetForGroup A (int i) s = Some (Inr (DIns x, s1))" "sched_inv A D s1" "s_pool s1 = ds' @ rest"
      "All (s_group s1) = (All (s_group s))[nat (int i) := Some (Suc (nextRef s))]"
    using GetForGroup_inv [OF A Suc.prems(1) _ idx, of d "ds' @ rest"] Suc.prems(2) ds(1) by auto
  let ?g = "set_instance g (int i) registered_meta"
  obtain s' g' where r: "register A (Suc i) k (s1, ?g) = Some (Inr (s', g'))" "sched_inv A D s'" "s_pool s' = rest"
      "g' = ?g\<lparr>All := map (\<lambda>j. if Suc i \<le> j \<and> j < Suc i + k then Some registered_meta else All ?g ! j) [0..<length (All ?g)]\<rparr>"
    using Suc.IH [OF s1(2,3) ds(2), of "Suc i" ?g] Suc.prems(4,5) s1(4) by (auto simp: set_instance_def)
  have "(if Suc i \<le> j \<and> j < Suc i + k then Some registered_meta else All ?g ! j) =
      (if i \<le> j \<and> j < i + Suc k then Some registered_meta else All g ! j)" if "j < length (All g)" for j
    using that by (auto simp: set_instance_def nth_list_update)
  then have "g' = g\<lparr>All := map (\<lambda>j. if i \<le> j \<and> j < i + Suc k then Some registered_meta else All g ! j) [0..<length (All g)]\<rparr>"
    unfolding r(4) by (auto simp: set_instance_def intro!: map_cong)
  then show ?case using s1(1) r(1-3) by auto
qed

lemma New_proxy_ok:
  assumes A: "hashmap_ok A" and n: "n < 2 ^ 62" "0 < k" "k \<le> n"
  shows "\<exists>s g. New_proxy A k (NewScheduler A prefix c n) = Some (Inr (s, g)) \<and> sched_inv A {..<n} s \<and>
     s_pool s = [k..<n] \<and> insts_wf g \<and> g_size g = int k \<and> All g = replicate k (Some registered_meta)"
proof -
  let ?s = "(NewScheduler A prefix c n)\<lparr>s_group := NewGroup (int k)\<rparr>"
  have i: "sched_inv A {..<n} ?s"
    using NewScheduler_inv(1) [OF A, of n prefix c] n
    by (simp add: sched_inv_def held_def dep_ref_def cong: LambdaDeployment.case_cong)
  have p: "s_pool ?s = [0..<k] @ [k..<n]"
    using NewScheduler_inv(2) [OF A, of n prefix c] n upt_add_eq_append [of 0 k "n - k"] by simp
  have l: "length (All (NewGroup (int k) :: ref Group)) = k" "length (All (NewGroup (int k) :: LMeta Group)) = k"
    by (simp_all add: NewGroup_def)
  obtain s g where r: "register A 0 k (?s, NewGroup (int k)) = Some (Inr (s, g))" "sched_inv A {..<n} s" "s_pool s = [k..<n]"
      "g = (NewGroup (int k))\<lparr>All := map (\<lambda>j. if 0 \<le> j \<and> j < 0 + k then Some registered_meta else All (NewGroup (int k)) ! j) [0..<k]\<rparr>"
    using register_ok [OF A i p, of k 0 "NewGroup (int k)"] l by auto
  have a: "All g = replicate k (Some registered_meta)"
    unfolding r(4) by (auto simp: list_eq_iff_nth_eq)
  then show ?thesis
    using r n by (auto simp: New_proxy_def insts_wf_def group_wf_def NewGroup_def)
qed

end
