(* ===== verification/ObjectPath.thy ===== *)
theory ObjectPath
  imports EndToEnd EcClient ProxyServer
begin

text \<open>
  The path of an object: its chunks are stored by the Lambdas and come back, in whatever order the Lambdas
  answer, through the connections of the proxy (\<open>GetReplies\<close>), the callback that writes the answers to the
  client's connections (\<open>HandleCallback\<close>) and the client's reading and decoding (\<open>EcClient\<close>).  Also: the handlers
  of a Lambda return and keep its state well formed whatever bytes arrive.
\<close>

section \<open>Any frames\<close>

lemma same_frame_ok:
  "source_ok la \<Longrightarrow> repo_wf (la_store la') \<Longrightarrow> same_frame la la' \<Longrightarrow> source_ok la' \<and> active la' = active la"
  using same_frame_session [of la la'] by (auto simp: source_ok_def same_frame_def)

lemma get_handler_wf:
  assumes "source_ok la"
  shows "\<exists>la' ws. get_handler (repo_if f) mem (\<lambda>_. None) clk c la = Inr (la', ws) \<and> source_ok la' \<and> active la' = active la"
proof -
  obtain la' ws where "get_handler (repo_if f) mem (\<lambda>_. None) clk c la = Inr (la', ws)" "repo_wf (la_store la')" "same_frame la la'"
    using repo_store.get_handler_ok [of la "\<lambda>_. None" f mem clk c] assms by (auto simp: source_ok_def)
  then show ?thesis using same_frame_ok [OF assms] by blast
qed

lemma del_handler_wf:
  assumes "source_ok la"
  shows "\<exists>la' ws. del_handler (repo_if f) mem (\<lambda>_. None) clk c la = Inr (la', ws) \<and> source_ok la' \<and> active la' = active la"
proof -
  obtain la' ws where "del_handler (repo_if f) mem (\<lambda>_. None) clk c la = Inr (la', ws)" "repo_wf (la_store la')" "same_frame la la'"
    using repo_store.del_handler_ok [of la "\<lambda>_. None" f mem clk c] assms by (auto simp: source_ok_def)
  then show ?thesis using same_frame_ok [OF assms] by blast
qed

lemma set_handler_wf:
  assumes "source_ok la" and "\<And>st. cs_Next c = Inr st \<Longrightarrow> \<exists>v. st = NewInlineReader v"
  shows "\<exists>la' ws. set_handler (repo_if f) mem (\<lambda>_. None) clk c la = Inr (la', ws) \<and> source_ok la' \<and> active la' = active la"
proof (cases "cs_Next c")
  case (Inl err)
  obtain la1 ss1 ext where b: "begin_request mem la = Inr (la1, ss1, ext)" "la_store la1 = la_store la"
      "\<And>now s. same_frame la (end_request mem now ext (la1\<lparr>la_store := s\<rparr>))"
    using assms(1) begin_request_ok [of la _ mem] by (auto simp: source_ok_def)
  have "same_frame la (end_request mem (clk 3) ext la1)" using b(3) [of "clk 3" "la_store la1"] by simp
  then have "source_ok (end_request mem (clk 3) ext la1) \<and> active (end_request mem (clk 3) ext la1) = active la"
    using assms(1) b(2) by (intro same_frame_ok) (auto simp: source_ok_def)
  then show ?thesis using b(1) Inl by (simp add: set_handler_def Let_def)
next
  case (Inr st)
  then obtain v where "cs_Next c = Inr (NewInlineReader v)" using assms(2) by blast
  then obtain la' ws where "set_handler (repo_if f) mem (\<lambda>_. None) clk c la = Inr (la', ws)" "repo_wf (la_store la')" "same_frame la la'"
    using repo_store.set_handler_ok [of la "\<lambda>_. None" c v f mem clk] assms(1) by (auto simp: source_ok_def)
  then show ?thesis using same_frame_ok [OF assms(1)] by blast
qed

lemma serve_frames_wf:
  assumes "source_ok la"
  shows "\<exists>la' ws. serve_frames f mem clk fs la = Inr (la', ws) \<and> source_ok la' \<and> active la' = active la"
proof -
  have set: "\<exists>la' ws. set_handler (repo_if f) mem (\<lambda>_. None) clk
       \<lparr>cs_NextArg = bulk_arg args,
        cs_Next = (case drop 4 args of FBulk b # _ \<Rightarrow> Inr (NewInlineReader b) | _ \<Rightarrow> Inl ErrUnexpectedEOF)\<rparr> la = Inr (la', ws) \<and>
     source_ok la' \<and> active la' = active la" for args
    by (rule set_handler_wf [OF assms]) (auto split: list.splits frame.splits)
  show ?thesis
  proof (cases "\<exists>n name args. fs = FArray n # FBulk name # args")
    case True
    then obtain n name args where fs: "fs = FArray n # FBulk name # args" by blast
    show ?thesis
      using get_handler_wf [OF assms] del_handler_wf [OF assms] set assms by (simp add: serve_frames_def fs)
  next
    case False
    then have "serve_frames f mem clk fs la = Inr (la, [])"
      by (auto simp: serve_frames_def split: list.splits frame.splits)
    then show ?thesis using assms by simp
  qed
qed

lemma ping_handler_wf:
  assumes "source_ok la"
  shows "source_ok (fst (ping_handler mem now werr la)) \<and> active (fst (ping_handler mem now werr la)) = active la"
  using assms
  by (auto simp: ping_handler_def source_ok_def active_def issuePong_def pong_def ResetWithExtension_def Reset_timeout_def
      resetLocked_def Let_def split: prod.splits if_splits)

lemma mhello_handler_wf:
  assumes "source_ok la" and "range_ok f"
  shows "case mhello_handler (repo_if f) t la of
     None \<Rightarrow> True | Some (Inl p) \<Rightarrow> False | Some (Inr (la', ws)) \<Rightarrow> source_ok la' \<and> active la' = active la"
proof -
  obtain ss where ss: "la_session la = Some ss" "repo_wf (la_store la)" using assms(1) by (auto simp: source_ok_def)
  show ?thesis
  proof (cases "ss_Migrator ss")
    case None
    then show ?thesis using ss assms(1) by (simp add: mhello_handler_def)
  next
    case m: (Some m)
    show ?thesis
    proof (cases "recv_ready m")
      case None
      then show ?thesis using ss m by (simp add: mhello_handler_def)
    next
      case (Some r)
      show ?thesis
      proof (cases "fst r")
        case None
        then have "ready_to_send la"
          using Some ss m by (auto simp: ready_to_send_def status_def recv_ready_def split: option.splits if_splits)
        then obtain la' ws where "mhello_handler (repo_if f) t la = Some (Inr (la', ws))" "repo_wf (la_store la')"
            "la_session la' = la_session la"
          using mhello_ok [OF ss(2) assms(2), of t] by blast
        then show ?thesis using ss by (simp add: source_ok_def active_def)
      next
        case e: (Some x)
        then show ?thesis
          using Some ss m assms(1) by (cases r) (auto simp: mhello_handler_def source_ok_def active_def)
      qed
    qed
  qed
qed

lemma lambda_serve_wf:
  assumes "source_ok la" and "range_ok f" and "command_name fs \<noteq> Some ''data''" and "command_name fs \<noteq> Some ''migrate''"
  shows "case lambda_serve dial invoke f mem clk fs la of
     None \<Rightarrow> command_name fs = Some ''mhello''
   | Some (Inl p) \<Rightarrow> False
   | Some (Inr (la', ws)) \<Rightarrow> source_ok la' \<and> active la' = active la"
  using ping_handler_wf [OF assms(1), of mem "clk 0" "\<lambda>_. None"] mhello_handler_wf [OF assms(1,2), of "clk 0"]
    serve_frames_wf [OF assms(1), of f mem clk fs] assms(3,4)
  by (auto simp: lambda_serve_def split: prod.splits option.splits sum.splits)

fun serve_each :: "error + conn \<Rightarrow> error + int \<Rightarrow> (repo \<Rightarrow> Chunk list) \<Rightarrow> int \<Rightarrow> ((nat \<Rightarrow> int) \<times> frame list) list \<Rightarrow> repo lambda
    \<Rightarrow> (repo lambda \<times> wcall list list) res option" where
  "serve_each dial invoke f mem [] la = Some (Inr (la, []))"
| "serve_each dial invoke f mem ((clk, fs) # msgs) la =
     (case lambda_serve dial invoke f mem clk fs la of
        None \<Rightarrow> None
      | Some (Inl p) \<Rightarrow> Some (Inl p)
      | Some (Inr (la, ws)) \<Rightarrow>
          map_option (\<lambda>r. bindR r (\<lambda>(la, wss). Inr (la, ws # wss))) (serve_each dial invoke f mem msgs la))"

lemma serve_each_wf:
  assumes "source_ok la" and "range_ok f" and "\<forall>m \<in> set msgs. command_name (snd m) \<notin> {Some ''data'', Some ''migrate''}"
  shows "case serve_each dial invoke f mem msgs la of
     None \<Rightarrow> \<exists>m \<in> set msgs. command_name (snd m) = Some ''mhello''
   | Some (Inl p) \<Rightarrow> False
   | Some (Inr (la', wss)) \<Rightarrow> source_ok la' \<and> active la' = active la \<and> length wss = length msgs"
  using assms(1,3)
proof (induction msgs arbitrary: la)
  case (Cons m msgs)
  obtain clk fs where m: "m = (clk, fs)" by (cases m)
  have n: "command_name fs \<noteq> Some ''data''" "command_name fs \<noteq> Some ''migrate''" using Cons.prems(2) m by auto
  note c = lambda_serve_wf [OF Cons.prems(1) assms(2) n, of dial invoke mem clk]
  show ?case
  proof (cases "lambda_serve dial invoke f mem clk fs la")
    case None
    then show ?thesis using c m by simp
  next
    case (Some r)
    then obtain la1 ws where r: "lambda_serve dial invoke f mem clk fs la = Some (Inr (la1, ws))" "source_ok la1" "active la1 = active la"
      using c by (auto split: sum.splits)
    then show ?thesis
      using Cons.IH [of la1] Cons.prems(2) m by (auto split: option.splits sum.splits)
  qed
qed simp

section \<open>What the client is sent\<close>

definition callback_frames :: "('m, 'q, 'r) proxy \<Rightarrow> nat \<Rightarrow> (nat \<times> answer) list \<Rightarrow> frame list" where
  "callback_frames px ch as = concat (map (\<lambda>(c, a). if c = ch then frames (fst (HandleCallback (\<lambda>_. None) a 0 px)) else []) as)"

lemma HandleCallback_reply:
  "frames (fst (HandleCallback (\<lambda>_. None) (Answer (get_reply full cid reqId (itoa (int i)) b)) r px)) =
     chunk_answer reqId i (if full then Some b else None)"
  by (simp add: HandleCallback_def PrepareFor_def Flush_rsp_def get_reply_def mk_response_def chunk_answer_def NewInlineReader_def)

lemma callback_frames_none: "(\<And>a. a \<in> set as \<Longrightarrow> fst a \<noteq> ch) \<Longrightarrow> callback_frames px ch as = []"
  by (fastforce simp: callback_frames_def)

lemma callback_frames_items:
  assumes "distinct (map gi_chan xs)" and "j < length xs" and "gi_chunk (xs ! j) = itoa (int i)"
  shows "callback_frames px (gi_chan (xs ! j)) (map (item_answer d reqId) (enumerate n xs)) =
     chunk_answer reqId i (if n + j < d then Some (gi_body (xs ! j)) else None)"
  using assms
proof (induction xs arbitrary: j n)
  case (Cons x xs)
  note cb = HandleCallback_reply
  show ?case
  proof (cases j)
    case 0
    have "callback_frames px (gi_chan x) (map (item_answer d reqId) (enumerate (Suc n) xs)) = []"
      using Cons.prems(1) by (intro callback_frames_none) (force simp: item_answer_def in_set_enumerate_eq)
    then show ?thesis using 0 Cons.prems(3) by (simp add: callback_frames_def item_answer_def cb)
  next
    case (Suc k)
    then have "gi_chan x \<noteq> gi_chan (xs ! k)" using Cons.prems(1,2) by (metis distinct.simps(2) length_Cons length_map list.map(2) nth_map nth_mem Suc_less_eq)
    then show ?thesis
      using Suc Cons.IH [of k "Suc n"] Cons.prems by (simp add: callback_frames_def item_answer_def)
  qed
qed simp

section \<open>The chunks that come first\<close>

text \<open>What the client gets when the Lambdas answer in the order \<open>is\<close>: the first \<open>d\<close> chunks.\<close>

definition first_chunks :: "nat \<Rightarrow> nat list \<Rightarrow> bytes list \<Rightarrow> shard list" where
  "first_chunks d is bodies = map (\<lambda>i. if i \<in> set (take d is) then Some (bodies ! i) else None) [0..<length bodies]"

lemma erased_first_chunks:
  assumes "distinct is" and "set is = {..<length bodies}" and "length bodies = d + p"
  shows "erased p (map Some bodies) (first_chunks d is bodies)"
proof -
  let ?n = "length bodies" and ?T = "set (take d is)"
  have l: "length is = ?n" using assms(1,2) distinct_card [of "is"] by simp
  have "length (filter (\<lambda>x. x = None) (first_chunks d is bodies)) = card {i. i < ?n \<and> i \<notin> ?T}"
    by (auto simp: first_chunks_def length_filter_conv_card intro!: arg_cong [where f = card])
  also have "{i. i < ?n \<and> i \<notin> ?T} = {..<?n} - ?T" by auto
  also have "card ({..<?n} - ?T) = ?n - card ?T"
    using assms(2) set_take_subset [of d "is"] by (subst card_Diff_subset) auto
  also have "\<dots> = p" using assms(1,3) l distinct_card [OF distinct_take [OF assms(1), of d]] by simp
  finally show ?thesis by (simp add: erased_def first_chunks_def list_all2_conv_all_nth)
qed

lemma take_position:
  assumes "distinct is" and "j < length is"
  shows "is ! j \<in> set (take d is) \<longleftrightarrow> j < d"
  using assms by (auto simp: in_set_conv_nth nth_eq_iff_index_eq)

section \<open>Storing and reading an object\<close>

text \<open>The SET and GET requests of chunk \<open>i\<close>; a request that waits on a connection; an open connection of the client.\<close>

definition chunk_requests :: "string \<Rightarrow> nat \<Rightarrow> bytes \<Rightarrow> Request \<Rightarrow> Request \<Rightarrow> bool" where
  "chunk_requests reqId i b q g \<longleftrightarrow>
     rq_Cmd q = ''set'' \<and> rq_Body q = None \<and> rq_BodyStream q = Some (NewInlineReader b) \<and> ChunkId (rq_Id q) = itoa (int i) \<and>
     rq_Cmd g = ''get'' \<and> rq_BodyStream g = None \<and> rq_Key g = rq_Key q \<and> ReqId (rq_Id g) = reqId \<and> ChunkId (rq_Id g) = itoa (int i)"

definition awaits :: "nat \<Rightarrow> nat \<Rightarrow> nat \<Rightarrow> Request \<Rightarrow> ('m, 'r) lstore \<Rightarrow> bool" where
  "awaits c r ch g s \<longleftrightarrow> reqs s r = g \<and> pending r ch s \<and> cn_chanWait (conns s c) = [r]"

definition get_entry :: "('m, string, nat) hashmap \<Rightarrow> string \<Rightarrow> nat \<Rightarrow> nat \<Rightarrow> ('m, 'r) lstore \<Rightarrow> bool" where
  "get_entry H reqId d p s \<longleftrightarrow>
     (\<exists>k. hm_Get H (ReqMap s) reqId = Some k \<and> cr_Counter (counters s k) = 0 \<and>
        cr_DataShards (counters s k) = int d \<and> cr_ParityShards (counters s k) = int p)"

definition open_conn :: "'r knet \<Rightarrow> 'r EcClient \<Rightarrow> string \<Rightarrow> nat \<Rightarrow> bool" where
  "open_conn N c host i \<longleftrightarrow> i < length (kl_Conns c host) \<and> kl_Conns c host ! i \<noteq> None \<and> kt_oc N host i 1 = None"

definition conn_reader :: "'r EcClient \<Rightarrow> string \<Rightarrow> nat \<Rightarrow> 'r" where
  "conn_reader c host i = kn_r (the (kl_Conns c host ! i))"

lemma lambdas_answer:
  assumes "\<forall>i < n. source_ok (la i)" and "\<forall>i < n. chunk_requests reqId i (bodies ! i) (q i) (g i)"
  shows "\<exists>la1 ws1 la2 ws2. \<forall>i < n. serve_frames f mem clk (request_frames (q i)) (la i) = Inr (la1 i, ws1 i) \<and>
     serve_frames f mem clk' (request_frames (g i)) (la1 i) = Inr (la2 i, ws2 i) \<and>
     frames (ws2 i) = map FBulk [''get'', itoa (ConnId (rq_Id (g i))), reqId, itoa (int i), bodies ! i]"
proof -
  have "\<exists>la1 ws1 la2 ws2. serve_frames f mem clk (request_frames (q i)) (la i) = Inr (la1, ws1) \<and>
     serve_frames f mem clk' (request_frames (g i)) la1 = Inr (la2, ws2) \<and>
     frames ws2 = map FBulk [''get'', itoa (ConnId (rq_Id (g i))), reqId, itoa (int i), bodies ! i]" if "i < n" for i
    using lambda_set_get [of "la i" "q i" "bodies ! i" "g i" f mem clk clk'] assms that by (auto simp: chunk_requests_def)
  note one = this
  let ?a = "\<lambda>i. projr (serve_frames f mem clk (request_frames (q i)) (la i))"
  let ?b = "\<lambda>i. projr (serve_frames f mem clk' (request_frames (g i)) (fst (?a i)))"
  show ?thesis
    by (rule exI [of _ "\<lambda>i. fst (?a i)"], rule exI [of _ "\<lambda>i. snd (?a i)"], rule exI [of _ "\<lambda>i. fst (?b i)"],
        rule exI [of _ "\<lambda>i. snd (?b i)"]) (use one in fastforce)
qed

definition chunk_item :: "(nat \<Rightarrow> nat) \<Rightarrow> (nat \<Rightarrow> nat) \<Rightarrow> (nat \<Rightarrow> nat) \<Rightarrow> (nat \<Rightarrow> Request) \<Rightarrow> bytes list \<Rightarrow> nat \<Rightarrow> get_item" where
  "chunk_item cn r ch g bodies i =
     \<lparr>gi_conn = cn i, gi_req = r i, gi_chan = ch i, gi_connId = itoa (ConnId (rq_Id (g i))), gi_chunk = itoa (int i), gi_body = bodies ! i\<rparr>"

lemma proxy_answers:
  assumes R: "reader_ok R fr" and H: "hashmap_ok H" and "length bodies = d + p" and "d + p < 2 ^ 31"
    and order: "distinct is" "set is = {..<d + p}"
    and inj: "inj_on cn {..<d + p}" "inj_on r {..<d + p}" "inj_on ch {..<d + p}"
    and "get_entry H reqId d p s"
    and req: "\<forall>i < d + p. chunk_requests reqId i (bodies ! i) (q i) (g i)" and wait: "\<forall>i < d + p. awaits (cn i) (r i) (ch i) (g i) s"
    and fr: "\<forall>i < d + p. fr (cn_r (conns s (cn i))) = map FBulk [''get'', itoa (ConnId (rq_Id (g i))), reqId, itoa (int i), bodies ! i]"
  shows "\<exists>s' new. get_replies V H R (map cn is) s = Inr s' \<and> answered s' = answered s @ new \<and>
     (\<forall>i < d + p. callback_frames px (ch i) new = chunk_answer reqId i (first_chunks d is bodies ! i))"
proof -
  let ?xs = "map (chunk_item cn r ch g bodies) is"
  obtain k where k: "hm_Get H (ReqMap s) reqId = Some k" "cr_Counter (counters s k) = word_of_nat 0"
      "cr_DataShards (counters s k) = int d" "cr_ParityShards (counters s k) = int p"
    using assms(10) by (auto simp: get_entry_def)
  have l: "length is = d + p" using order distinct_card [of "is"] by simp
  have m: "map gi_conn ?xs = map cn is" "map gi_req ?xs = map r is" "map gi_chan ?xs = map ch is"
    by (simp_all add: chunk_item_def)
  have dis: "distinct (map gi_conn ?xs)" "distinct (map gi_req ?xs)" "distinct (map gi_chan ?xs)"
    unfolding m using order inj by (simp_all add: distinct_map)
  have rdy: "item_ready fr reqId x s" if x: "x \<in> set ?xs" for x
  proof -
    obtain i where i: "i < d + p" "x = chunk_item cn r ch g bodies i" using x order(2) by auto
    have "chunk_requests reqId i (bodies ! i) (q i) (g i)" "awaits (cn i) (r i) (ch i) (g i) s" using i(1) req wait by auto
    then show ?thesis
      using fr i by (simp add: item_ready_def chunk_item_def awaits_def chunk_requests_def IsResponse_def mk_response_def)
  qed
  have "0 + length ?xs \<le> d + p" using l by simp
  then obtain s' where s': "get_replies V H R (map gi_conn ?xs) s = Inr s'"
      "answered s' = answered s @ map (item_answer d reqId) (enumerate 0 ?xs)"
    using get_replies_ok [OF R H k _ assms(4) dis(1,2), of V] rdy by blast
  have "callback_frames px (ch i) (map (item_answer d reqId) (enumerate 0 ?xs)) = chunk_answer reqId i (first_chunks d is bodies ! i)"
    if "i < d + p" for i
  proof -
    obtain j where j: "j < length is" "is ! j = i" using \<open>i < d + p\<close> order(2) by (metis in_set_conv_nth lessThan_iff)
    have x: "?xs ! j = chunk_item cn r ch g bodies i" using j by simp
    have "callback_frames px (gi_chan (?xs ! j)) (map (item_answer d reqId) (enumerate 0 ?xs)) =
        chunk_answer reqId i (if 0 + j < d then Some (gi_body (?xs ! j)) else None)"
      using j(1) x by (intro callback_frames_items [OF dis(3)]) (simp_all add: chunk_item_def)
    then show ?thesis
      using take_position [OF order(1) j(1), of d] j that assms(3) x by (simp add: chunk_item_def first_chunks_def)
  qed
  then show ?thesis using s' unfolding m by blast
qed

lemma client_decodes:
  assumes "erasure_code C p" and "encode C obj = Inr (Inr (map Some bodies))" and "length bodies = d + p"
    and "distinct is" and "set is = {..<d + p}" and "reader_ok (kt_reader N) frc"
    and "kl_EC c = C" and "kl_Shards c = d + p" and "\<forall>i < d + p. open_conn N c (kt_Locate N key) i"
    and "\<forall>i < d + p. frc (kt_peer N (kt_Locate N key) i (frames (get_calls key i reqId c)) (conn_reader c (kt_Locate N key) i)) =
           chunk_answer reqId i (first_chunks d is bodies ! i)"
    and "kl_Ring c \<noteq> None"
  shows "\<exists>c'. EcGet N mx reqId reqId' 0 key (int (length obj)) c = Inr ((Some (Inr (obj, None)), True), c')"
proof (rule erasure_code.EcGet_decodes [OF assms(1,6,7,2)])
  show "erased p (map Some bodies) (first_chunks d is bodies)" using assms(3-5) by (intro erased_first_chunks) auto
  show "\<forall>i < length (map Some bodies). will_answer N frc (kt_Locate N key) key reqId (first_chunks d is bodies) c i"
    using assms(3,9,10) by (fastforce simp: will_answer_def open_conn_def conn_reader_def)
qed (use assms(3,8,11) in simp_all)

end
