(* ===== verification/CacheQueues.thy ===== *)
theory CacheQueues
  imports ObjectPath
begin

text \<open>
  What the Lambdas will hold once the requests in the queues of their instances are served.  The proxy appends requests to
  the queue of an instance; the effect of a request on the chunks of the Lambda behind it is \<open>apply_req\<close>, and \<open>view\<close> is
  the contents of the Lambda after all queued requests.  \<open>expected\<close> is what a queued GET will find.
\<close>

type_synonym chunks = "string \<Rightarrow> (string \<times> bytes) option"

definition stream_bytes :: "Request \<Rightarrow> bytes" where
  "stream_bytes q = (case rq_BodyStream q of Some st \<Rightarrow> (case st_ReadAll st of Inr b \<Rightarrow> b | Inl _ \<Rightarrow> []) | None \<Rightarrow> [])"

definition apply_req :: "Request \<Rightarrow> chunks \<Rightarrow> chunks" where
  "apply_req q m =
     (if rq_Cmd q = ''set'' then m(rq_Key q \<mapsto> (ChunkId (rq_Id q), stream_bytes q))
      else if rq_Cmd q = ''del'' then m(rq_Key q := None) else m)"

fun expected :: "(nat \<Rightarrow> Request) \<Rightarrow> nat \<Rightarrow> nat list \<Rightarrow> chunks \<Rightarrow> (string \<times> bytes) option" where
  "expected rq r [] m = None"
| "expected rq r (x # xs) m =
     (if x = r then if rq_Cmd (rq x) = ''get'' then m (rq_Key (rq x)) else None
      else expected rq r xs (apply_req (rq x) m))"

definition effect :: "(nat \<Rightarrow> Request) \<Rightarrow> nat list \<Rightarrow> chunks \<Rightarrow> chunks" where
  "effect rq rs m = fold (\<lambda>r. apply_req (rq r)) rs m"

lemma effect_simps [simp]: "effect rq [] m = m" "effect rq (r # rs) m = effect rq rs (apply_req (rq r) m)"
  "effect rq (rs @ ss) m = effect rq ss (effect rq rs m)"
  by (simp_all add: effect_def)

lemma effect_cong: "(\<And>r. r \<in> set rs \<Longrightarrow> rq' r = rq r) \<Longrightarrow> effect rq' rs m = effect rq rs m"
  by (induction rs arbitrary: m) auto

lemma expected_cong: "(\<And>r. r \<in> set rs \<Longrightarrow> rq' r = rq r) \<Longrightarrow> expected rq' x rs m = expected rq x rs m"
  by (induction rs arbitrary: m) auto

lemma expected_append:
  "expected rq r (xs @ ys) m = (if r \<in> set xs then expected rq r xs m else expected rq r ys (effect rq xs m))"
  by (induction xs arbitrary: m) auto

section \<open>Requests in the queues\<close>

definition request_ok :: "Request \<Rightarrow> bool" where
  "request_ok q \<longleftrightarrow> \<not> rq_responded q \<and> rq_Body q = None \<and>
     (rq_Cmd q = ''set'' \<and> (\<exists>b. rq_BodyStream q = Some (NewInlineReader b)) \<and> rq_ChanResponse q \<noteq> None \<or>
      rq_Cmd q = ''get'' \<and> rq_BodyStream q = None \<and> rq_ChanResponse q \<noteq> None \<or>
      rq_Cmd q = ''del'' \<and> rq_BodyStream q = None \<and> rq_ChanResponse q = None)"

text \<open>The numbers of the requests in the queue of instance \<open>k\<close>.\<close>

fun req_no :: "command \<Rightarrow> nat option" where
  "req_no (CmdRequest r) = Some r" | "req_no (CmdControl _) = None"

definition waiting :: "nat \<Rightarrow> ('m, 'q, 'r) proxy \<Rightarrow> nat list" where
  "waiting k px = List.map_filter req_no (queue k px)"

definition queues_ok :: "('m, 'q, 'r) proxy \<Rightarrow> bool" where
  "queues_ok px \<longleftrightarrow>
     (\<forall>k. list_all (\<lambda>cmd. req_no cmd \<noteq> None) (queue k px) \<and> distinct (waiting k px)) \<and>
     (\<forall>k l. k \<noteq> l \<longrightarrow> set (waiting k px) \<inter> set (waiting l px) = {}) \<and>
     (\<forall>k. \<forall>r \<in> set (waiting k px). r < px_nextReq px \<and> request_ok (reqs (px_store px) r))"

definition view :: "(nat \<Rightarrow> repo lambda) \<Rightarrow> ('m, 'q, 'r) proxy \<Rightarrow> nat \<Rightarrow> chunks" where
  "view la px k = effect (reqs (px_store px)) (waiting k px) (repo_view (la_store (la k)))"

definition expects :: "(nat \<Rightarrow> repo lambda) \<Rightarrow> ('m, 'q, 'r) proxy \<Rightarrow> nat \<Rightarrow> nat \<Rightarrow> (string \<times> bytes) option" where
  "expects la px k r = expected (reqs (px_store px)) r (waiting k px) (repo_view (la_store (la k)))"

lemma same_queues_waiting:
  assumes "same_queues px px'"
  shows "waiting k px' = waiting k px" "queues_ok px' = queues_ok px" "view la px' k = view la px k" "expects la px' k r = expects la px k r"
  using assms same_queues_queue [OF assms]
  by (simp_all add: waiting_def queues_ok_def view_def expects_def) (simp_all add: same_queues_def)

section \<open>Appending requests\<close>

lemma waiting_enq1: "waiting k (enq1 d px) = waiting k px @ (if nat (fst d) = k then [px_nextReq px] else [])"
  by (simp add: waiting_def map_filter_def)

lemma queues_ok_old: "queues_ok px \<Longrightarrow> r \<in> set (waiting k px) \<Longrightarrow> r < px_nextReq px"
  by (auto simp: queues_ok_def)

lemma queues_ok_enq1:
  assumes "queues_ok px" and "request_ok (snd d)"
  shows "queues_ok (enq1 d px)"
proof -
  have old: "r < px_nextReq px" if "r \<in> set (waiting k px)" for k r using queues_ok_old [OF assms(1) that] .
  show ?thesis
    unfolding queues_ok_def
  proof (intro conjI allI ballI impI)
    fix k l
    show "list_all (\<lambda>cmd. req_no cmd \<noteq> None) (queue k (enq1 d px))" using assms(1) by (simp add: queues_ok_def)
    show "distinct (waiting k (enq1 d px))" using assms(1) old [of "px_nextReq px" k] by (auto simp: queues_ok_def waiting_enq1)
    show "set (waiting k (enq1 d px)) \<inter> set (waiting l (enq1 d px)) = {}" if "k \<noteq> l"
      using assms(1) that old by (fastforce simp: queues_ok_def waiting_enq1)
    fix r assume r: "r \<in> set (waiting k (enq1 d px))"
    then have "r = px_nextReq px \<or> r \<in> set (waiting k px)" by (auto simp: waiting_enq1 split: if_splits)
    then show "r < px_nextReq (enq1 d px)" "request_ok (reqs (px_store (enq1 d px)) r)"
      using assms old by (fastforce simp: queues_ok_def)+
  qed
qed

lemma view_enq1:
  assumes "queues_ok px"
  shows "view la (enq1 d px) k = (if nat (fst d) = k then apply_req (snd d) (view la px k) else view la px k)"
proof -
  have "effect (reqs (px_store (enq1 d px))) (waiting k px) m = effect (reqs (px_store px)) (waiting k px) m" for m
    using queues_ok_old [OF assms] by (intro effect_cong) auto
  then show ?thesis by (simp add: view_def waiting_enq1 del: enq1_simps) simp
qed

lemma expects_enq1:
  assumes "queues_ok px"
  shows "r \<in> set (waiting k px) \<Longrightarrow> expects la (enq1 d px) k r = expects la px k r"
    "expects la (enq1 d px) (nat (fst d)) (px_nextReq px) =
       (if rq_Cmd (snd d) = ''get'' then view la px (nat (fst d)) (rq_Key (snd d)) else None)"
proof -
  let ?rq = "reqs (px_store (enq1 d px))"
  have e: "expected ?rq r (waiting k px) m = expected (reqs (px_store px)) r (waiting k px) m"
     "effect ?rq (waiting k px) m = effect (reqs (px_store px)) (waiting k px) m" for r k m
    using queues_ok_old [OF assms] by (intro expected_cong effect_cong; auto)+
  show "expects la (enq1 d px) k r = expects la px k r" if "r \<in> set (waiting k px)"
    using that by (simp add: expects_def waiting_enq1 expected_append e del: enq1_simps)
  show "expects la (enq1 d px) (nat (fst d)) (px_nextReq px) =
       (if rq_Cmd (snd d) = ''get'' then view la px (nat (fst d)) (rq_Key (snd d)) else None)"
    using queues_ok_old [OF assms, of "px_nextReq px" "nat (fst d)"]
    by (auto simp: expects_def waiting_enq1 expected_append e view_def simp del: enq1_simps) (simp_all)
qed

text \<open>Requests that delete keys in \<open>K\<close>.\<close>

definition only_dels :: "string set \<Rightarrow> (nat \<Rightarrow> repo lambda) \<Rightarrow> ('m, 'q, 'r) proxy \<Rightarrow> ('m, 'q, 'r) proxy \<Rightarrow> bool" where
  "only_dels K la px px' \<longleftrightarrow> queues_ok px' \<and>
     (\<forall>k x. x \<notin> K \<longrightarrow> view la px' k x = view la px k x) \<and>
     (\<forall>k. \<forall>r \<in> set (waiting k px). r \<in> set (waiting k px') \<and> expects la px' k r = expects la px k r) \<and>
     (\<forall>r < px_nextReq px. reqs (px_store px') r = reqs (px_store px) r) \<and> px_nextReq px \<le> px_nextReq px' \<and>
     (\<forall>k. \<forall>r \<in> set (waiting k px'). r \<notin> set (waiting k px) \<longrightarrow> px_nextReq px \<le> r \<and> rq_Cmd (reqs (px_store px') r) = ''del'')"

lemma only_dels_enq1:
  assumes q: "queues_ok px" and d: "request_ok (snd d)" "rq_Cmd (snd d) = ''del''" "rq_Key (snd d) \<in> K"
  shows "only_dels K la px (enq1 d px)"
  unfolding only_dels_def
proof (intro conjI allI ballI impI)
  show "queues_ok (enq1 d px)" using queues_ok_enq1 [OF q d(1)] .
  show "view la (enq1 d px) k x = view la px k x" if "x \<notin> K" for k x
    using view_enq1 [OF q, of la d k] d that by (auto simp: apply_req_def)
  fix k r
  show "r \<in> set (waiting k (enq1 d px))" "expects la (enq1 d px) k r = expects la px k r" if "r \<in> set (waiting k px)"
    using that expects_enq1(1) [OF q that] by (simp_all add: waiting_enq1)
  assume r: "r \<in> set (waiting k (enq1 d px))" "r \<notin> set (waiting k px)"
  then have "r = px_nextReq px" by (auto simp: waiting_enq1 split: if_splits)
  then show "px_nextReq px \<le> r" "rq_Cmd (reqs (px_store (enq1 d px)) r) = ''del''" using d(2) by simp_all
qed simp_all

lemma enq_dels:
  assumes "queues_ok px" and "\<forall>d \<in> set ds. request_ok (snd d) \<and> rq_Cmd (snd d) = ''del'' \<and> rq_Key (snd d) \<in> K"
  shows "only_dels K la px (enq ds px)"
  using assms
proof (induction ds arbitrary: px)
  case Nil
  then show ?case by (simp add: only_dels_def)
next
  case (Cons d ds)
  have 1: "only_dels K la px (enq1 d px)" using only_dels_enq1 [OF Cons.prems(1)] Cons.prems(2) by simp
  then have 2: "only_dels K la (enq1 d px) (enq ds (enq1 d px))"
    using Cons.IH [of "enq1 d px"] Cons.prems(2) by (simp add: only_dels_def)
  have "px_nextReq px \<le> r \<and> rq_Cmd (reqs (px_store (enq ds (enq1 d px))) r) = ''del''"
    if r: "r \<in> set (waiting k (enq ds (enq1 d px)))" "r \<notin> set (waiting k px)" for k r
  proof (cases "r \<in> set (waiting k (enq1 d px))")
    case True
    then have "px_nextReq px \<le> r" "rq_Cmd (reqs (px_store (enq1 d px)) r) = ''del''" "r < px_nextReq (enq1 d px)"
      using 1 r(2) queues_ok_old [of "enq1 d px"] by (auto simp: only_dels_def simp del: enq1_simps)
    then show ?thesis using 2 by (simp add: only_dels_def del: enq1_simps)
  next
    case False
    then show ?thesis using 2 r(1) by (fastforce simp: only_dels_def)
  qed
  then show ?case using 1 2 by (simp add: only_dels_def)
qed

end
