(* ===== verification/CacheSystem.thy ===== *)
theory CacheSystem
  imports CacheQueues
begin

text \<open>
  The cache as a whole: the handlers of the client's commands (\<open>HandleSet\<close>, \<open>HandleGet\<close>), the goroutines of the instances
  (\<open>HandleRequests\<close>) and the Lambdas behind their connections run in any order.  The specification is a map from chunks to
  bytes that may forget entries; a GET is bound to what the map holds when its handler runs.
\<close>

section \<open>Specification\<close>

type_synonym chunk_name = "string \<times> int"

datatype event =
    EvSet chunk_name bytes
  | EvGet chunk_name nat
  | EvMiss chunk_name
  | EvServed nat "(nat \<times> answer) list"

text \<open>The contents of the cache, and what is to be delivered for the GET requests that are not yet answered.\<close>

type_synonym cache_spec = "(chunk_name \<Rightarrow> bytes option) \<times> (nat \<Rightarrow> bytes option)"

definition carries :: "bytes option \<Rightarrow> answer \<Rightarrow> bool" where
  "carries b a =
     (case a of
        Answer rsp \<Rightarrow> (case rs_BodyStream rsp of None \<Rightarrow> True | Some st \<Rightarrow> (\<exists>v. b = Some v \<and> st_ReadAll st = Inr v))
      | Failure _ \<Rightarrow> b = None)"

inductive spec_step :: "cache_spec \<Rightarrow> event \<Rightarrow> cache_spec \<Rightarrow> bool" where
  SpecSet: "M' x = Some b \<Longrightarrow> (\<And>y. y \<noteq> x \<Longrightarrow> M' y = M y \<or> M' y = None) \<Longrightarrow> spec_step (M, G) (EvSet x b) (M', G)"
| SpecGet: "M x = Some b \<Longrightarrow> spec_step (M, G) (EvGet x r) (M, G(r \<mapsto> b))"
| SpecMiss: "M x = None \<Longrightarrow> spec_step (M, G) (EvMiss x) (M, G)"
| SpecServed: "(\<And>ch a. (ch, a) \<in> set as \<Longrightarrow> carries (G r) a) \<Longrightarrow> length as \<le> 1 \<Longrightarrow> spec_step (M, G) (EvServed r as) (M, G(r := None))"

inductive_cases spec_servedE: "spec_step s (EvServed r as) s'"

section \<open>The system\<close>

record ('m, 'q, 'r) system =
  sy_proxy :: "('m, 'q, 'r) proxy"
  sy_lambda :: "nat \<Rightarrow> repo lambda"

text \<open>
  One request of instance \<open>k\<close>: it is taken from the queue and written to the connection, the Lambda answers, and the
  connection's goroutine handles the answer.  \<open>feed fs r\<close> is the reader when the frames \<open>fs\<close> have arrived.
\<close>

definition serve_round ::
    "lambda_env \<Rightarrow> ('q, string, nat) hashmap \<Rightarrow> 'r resp_reader \<Rightarrow> (frame list \<Rightarrow> 'r \<Rightarrow> 'r) \<Rightarrow> (repo \<Rightarrow> Chunk list) \<Rightarrow> int \<Rightarrow> (nat \<Rightarrow> int)
      \<Rightarrow> nat \<Rightarrow> ('m, 'q, 'r) system \<Rightarrow> ('m, 'q, 'r) system res option" where
  "serve_round E Q R feed f mem clk k sys =
     (let px = sy_proxy sys; st = px_store px
      in case in_cn (instances st k) of
           None \<Rightarrow> None
         | Some c \<Rightarrow>
             (case HandleRequests k (\<lambda>_. (Some c, \<lambda>_. None)) id HrReq st of
                None \<Rightarrow> None
              | Some (Inl e) \<Rightarrow> Some (Inl e)
              | Some (Inr (_, st1)) \<Rightarrow>
                  let fs = frames (drop (length (cn_w (conns st c))) (cn_w (conns st1 c)))
                  in (case serve_frames f mem clk fs (sy_lambda sys k) of
                        Inl e \<Rightarrow> Some (Inl e)
                      | Inr (la, ws) \<Rightarrow>
                          (case serve_once E Q R False c (upd_conn c (\<lambda>cn. cn\<lparr>cn_r := feed (frames ws) (cn_r cn)\<rparr>) st1) of
                             Inl e \<Rightarrow> Some (Inl e)
                           | Inr (_, st2) \<Rightarrow>
                               Some (Inr (sys\<lparr>sy_proxy := px\<lparr>px_store := st2\<rparr>, sy_lambda := (sy_lambda sys)(k := la)\<rparr>))))))"

inductive sys_step ::
    "('m, string, addr) hashmap \<Rightarrow> ('q, string, nat) hashmap \<Rightarrow> lambda_env \<Rightarrow> 'r resp_reader \<Rightarrow> (frame list \<Rightarrow> 'r \<Rightarrow> 'r) \<Rightarrow>
     (repo \<Rightarrow> Chunk list) \<Rightarrow> int \<Rightarrow> nat \<Rightarrow> ('m, 'q, 'r) system \<Rightarrow> event \<Rightarrow> ('m, 'q, 'r) system \<Rightarrow> bool"
  for H Q E R feed f mem n where
  SysSet: "HandleSet H now choice uuid c (sy_proxy sys) = Some (Inr (ws, px)) \<Longrightarrow>
     set_cmd_ok n c \<Longrightarrow> ToLower (cc_Name c) = ''set'' \<Longrightarrow> cc_body c = Inr (NewInlineReader b) \<Longrightarrow>
     sys_step H Q E R feed f mem n sys (EvSet (cc_key c, cc_chunk c) b) (sys\<lparr>sy_proxy := px\<rparr>)"
| SysGet: "HandleGet H Q now c (sy_proxy sys) = Inr (ws, px) \<Longrightarrow>
     0 \<le> cc_chunk c \<Longrightarrow> cc_chunk c < int n \<Longrightarrow> ToLower (cc_Name c) = ''get'' \<Longrightarrow>
     sys_step H Q E R feed f mem n sys
       (if ws = [] then EvGet (cc_key c, cc_chunk c) (px_nextReq (sy_proxy sys)) else EvMiss (cc_key c, cc_chunk c)) (sys\<lparr>sy_proxy := px\<rparr>)"
| SysServe: "serve_round E Q R feed f mem clk k sys = Some (Inr sys') \<Longrightarrow> in_chanReq (instances (px_store (sy_proxy sys)) k) = CmdRequest r # cmds \<Longrightarrow>
     answered (px_store (sy_proxy sys')) = answered (px_store (sy_proxy sys)) @ as \<Longrightarrow>
     sys_step H Q E R feed f mem n sys (EvServed r as) sys'"

section \<open>Simulation\<close>

definition chunk_key :: "string \<Rightarrow> int \<Rightarrow> string" where
  "chunk_key key c = itoa c @ ''@'' @ key"

lemma chunk_key_inj [simp]: "chunk_key x y = chunk_key x' y' \<longleftrightarrow> x = x' \<and> y = y'"
  using append_sep_inj [of "itoa y" "CHR ''@''" x "itoa y'" x'] by (auto simp: chunk_key_def)

lemma ChunkKey_chunk_key: "ChunkKey m c = chunk_key (Key m) c"
  by (simp add: ChunkKey_def chunk_key_def)

definition wired :: "('r \<Rightarrow> frame list) \<Rightarrow> ('m, 'q, 'r) system \<Rightarrow> bool" where
  "wired fr sys \<longleftrightarrow>
     (\<forall>k c. in_cn (instances (px_store (sy_proxy sys)) k) = Some c \<longrightarrow>
        cn_instance (conns (px_store (sy_proxy sys)) c) = Some k \<and> fr (cn_r (conns (px_store (sy_proxy sys)) c)) = [] \<and>
        source_ok (sy_lambda sys k))"

definition placed_ok :: "('m, string, addr) hashmap \<Rightarrow> ('m, 'q, 'r) system \<Rightarrow> bool" where
  "placed_ok H sys \<longleftrightarrow>
     (\<forall>key c k. route H (px_placer (sy_proxy sys)) key c = Some k \<longrightarrow>
        (\<exists>b. view (sy_lambda sys) (sy_proxy sys) (nat k) (chunk_key key c) = Some (itoa c, b)))"

definition sys_inv :: "('m, string, addr) hashmap \<Rightarrow> ('r \<Rightarrow> frame list) \<Rightarrow> nat \<Rightarrow> ('m, 'q, 'r) system \<Rightarrow> bool" where
  "sys_inv H fr n sys \<longleftrightarrow>
     placer_inv H n (px_placer (sy_proxy sys)) \<and> named_ok H (px_placer (sy_proxy sys)) \<and> queues_ok (sy_proxy sys) \<and>
     wired fr sys \<and> placed_ok H sys"

definition cache :: "('m, string, addr) hashmap \<Rightarrow> ('m, 'q, 'r) system \<Rightarrow> chunk_name \<Rightarrow> bytes option" where
  "cache H sys = (\<lambda>(key, c). Option.bind (route H (px_placer (sy_proxy sys)) key c)
     (\<lambda>k. map_option snd (view (sy_lambda sys) (sy_proxy sys) (nat k) (chunk_key key c))))"

definition get_bound :: "(nat \<Rightarrow> repo lambda) \<Rightarrow> ('m, 'q, 'r) proxy \<Rightarrow> nat \<Rightarrow> nat \<Rightarrow> bytes option \<Rightarrow> bool" where
  "get_bound la px k r g \<longleftrightarrow>
     (rq_Cmd (reqs (px_store px) r) = ''get'' \<longrightarrow>
        (\<exists>b. expects la px k r = Some (ChunkId (rq_Id (reqs (px_store px) r)), b) \<and> g = Some b)) \<and>
     (rq_Cmd (reqs (px_store px) r) \<noteq> ''get'' \<longrightarrow> g = None)"

definition gets_ok :: "(nat \<Rightarrow> repo lambda) \<Rightarrow> ('m, 'q, 'r) proxy \<Rightarrow> (nat \<Rightarrow> bytes option) \<Rightarrow> bool" where
  "gets_ok la px G \<longleftrightarrow>
     (\<forall>k. \<forall>r \<in> set (waiting k px). get_bound la px k r (G r)) \<and> (\<forall>r \<ge> px_nextReq px. G r = None)"

definition sim :: "('m, string, addr) hashmap \<Rightarrow> ('r \<Rightarrow> frame list) \<Rightarrow> nat \<Rightarrow> ('m, 'q, 'r) system \<Rightarrow> cache_spec \<Rightarrow> bool" where
  "sim H fr n sys = (\<lambda>(M, G). sys_inv H fr n sys \<and> M = cache H sys \<and> gets_ok (sy_lambda sys) (sy_proxy sys) G)"

section \<open>The handlers\<close>

lemma wired_enq1: "wired fr (sys\<lparr>sy_proxy := enq1 d px\<rparr>) = wired fr (sys\<lparr>sy_proxy := px\<rparr>)"
  by (auto simp: wired_def enq1_def)

lemma wired_enq: "wired fr (sys\<lparr>sy_proxy := enq ds px\<rparr>) = wired fr (sys\<lparr>sy_proxy := px\<rparr>)"
  by (induction ds arbitrary: px) (simp_all add: wired_enq1)

lemma wired_same: "same_queues (sy_proxy sys) px \<Longrightarrow> wired fr (sys\<lparr>sy_proxy := px\<rparr>) = wired fr sys"
  by (simp add: wired_def same_queues_def)

lemma gets_ok_dels:
  assumes "gets_ok la px G" and "queues_ok px" and "only_dels K la px px'"
  shows "gets_ok la px' G"
proof -
  have "get_bound la px' k r (G r)" if r: "r \<in> set (waiting k px')" for k r
  proof (cases "r \<in> set (waiting k px)")
    case True
    then have "r < px_nextReq px" using queues_ok_old assms(2) by blast
    then have "reqs (px_store px') r = reqs (px_store px) r" "expects la px' k r = expects la px k r"
      using assms(3) True by (auto simp: only_dels_def)
    then show ?thesis using assms(1) True by (simp add: gets_ok_def get_bound_def)
  next
    case False
    then have "px_nextReq px \<le> r" "rq_Cmd (reqs (px_store px') r) = ''del''" using assms(3) r by (auto simp: only_dels_def)
    then show ?thesis using assms(1) by (simp add: gets_ok_def get_bound_def)
  qed
  moreover have "G r = None" if "px_nextReq px' \<le> r" for r
    using assms(1,3) that by (auto simp: gets_ok_def only_dels_def)
  ultimately show ?thesis by (simp add: gets_ok_def)
qed

lemma gets_ok_enq1:
  assumes "gets_ok la px G" and q: "queues_ok px"
    and new: "rq_Cmd (snd d) = ''get'' \<Longrightarrow> \<exists>b. view la px (nat (fst d)) (rq_Key (snd d)) = Some (ChunkId (rq_Id (snd d)), b) \<and> g = Some b"
      "rq_Cmd (snd d) \<noteq> ''get'' \<Longrightarrow> g = None"
  shows "gets_ok la (enq1 d px) (G(px_nextReq px := g))"
proof -
  have "get_bound la (enq1 d px) k r ((G(px_nextReq px := g)) r)" if r: "r \<in> set (waiting k (enq1 d px))" for k r
  proof (cases "r \<in> set (waiting k px)")
    case True
    then have "r \<noteq> px_nextReq px" using queues_ok_old [OF q] by blast
    then show ?thesis using assms(1) True expects_enq1(1) [OF q True] by (simp add: gets_ok_def get_bound_def)
  next
    case False
    then have "r = px_nextReq px" "k = nat (fst d)" using r by (auto simp: waiting_enq1 split: if_splits)
    then show ?thesis using expects_enq1(2) [OF q, of la d] new by (simp add: get_bound_def)
  qed
  then show ?thesis using assms(1) by (simp add: gets_ok_def)
qed

lemma gets_ok_same: "same_queues px px' \<Longrightarrow> gets_ok la px' G = gets_ok la px G"
  using same_queues_waiting [of px px'] by (simp add: gets_ok_def get_bound_def) (simp add: same_queues_def)

lemma set_routedD:
  "set_routed H key c p q \<Longrightarrow> (x, y) \<noteq> (key, c) \<Longrightarrow> route H q x y = route H p x y \<or> route H q x y = None"
  by (simp add: set_routed_def)

lemma evicted_unrouted:
  assumes "named_ok H p" and "stored H p v" and "Deleted (metas p v)"
  shows "route H p (Key (metas p v)) y = None"
  using assms route_deleted by (fastforce simp: stored_def named_ok_def)

lemma drop_list_dels:
  "\<forall>d \<in> set (drop_list uuid m). request_ok (snd d) \<and> rq_Cmd (snd d) = ''del'' \<and> rq_Key (snd d) \<in> range (chunk_key (Key m))"
  by (auto simp: drop_list_def del_request_def mk_request_def request_ok_def ChunkKey_chunk_key)

lemma chunk_request_set:
  assumes "ToLower (cc_Name c) = ''set''" and "q = chunk_request c (Some (NewInlineReader b)) m"
  shows "request_ok q" "rq_Cmd q = ''set''" "rq_Key q = chunk_key (Key m) (cc_chunk c)" "ChunkId (rq_Id q) = itoa (cc_chunk c)"
    "stream_bytes q = b"
  using assms by (simp_all add: chunk_request_def mk_request_def request_ok_def stream_bytes_def NewInlineReader_def ChunkKey_chunk_key)

lemma chunk_request_get:
  assumes "ToLower (cc_Name c) = ''get''" and "q = chunk_request c None m"
  shows "request_ok q" "rq_Cmd q = ''get''" "rq_Key q = chunk_key (Key m) (cc_chunk c)" "ChunkId (rq_Id q) = itoa (cc_chunk c)"
  using assms by (simp_all add: chunk_request_def mk_request_def request_ok_def ChunkKey_chunk_key)

text \<open>The contents of the cache after a SET, from the routes and the queues it leaves.\<close>

lemma cache_after_set:
  assumes "placed_ok H sys" and "route H (px_placer px) key c = Some d"
    and "view (sy_lambda sys) px (nat d) (chunk_key key c) = Some (itoa c, b)"
    and other: "\<And>x y k. route H (px_placer px) x y = Some k \<Longrightarrow> (x, y) \<noteq> (key, c) \<Longrightarrow>
       route H (px_placer (sy_proxy sys)) x y = Some k \<and>
       view (sy_lambda sys) px (nat k) (chunk_key x y) = view (sy_lambda sys) (sy_proxy sys) (nat k) (chunk_key x y)"
  shows "placed_ok H (sys\<lparr>sy_proxy := px\<rparr>)"
    "spec_step (cache H sys, G) (EvSet (key, c) b) (cache H (sys\<lparr>sy_proxy := px\<rparr>), G)"
proof -
  have "\<exists>v. view (sy_lambda sys) px (nat k) (chunk_key x y) = Some (itoa y, v)" if "route H (px_placer px) x y = Some k" for x y k
    using that assms(1-3) other [OF that] by (cases "(x, y) = (key, c)") (auto simp: placed_ok_def)
  then show "placed_ok H (sys\<lparr>sy_proxy := px\<rparr>)" by (simp add: placed_ok_def)
  have "cache H (sys\<lparr>sy_proxy := px\<rparr>) y = cache H sys y \<or> cache H (sys\<lparr>sy_proxy := px\<rparr>) y = None" if "y \<noteq> (key, c)" for y
    using other [of "fst y" "snd y"] that by (cases "route H (px_placer px) (fst y) (snd y)") (auto simp: cache_def split_beta)
  then show "spec_step (cache H sys, G) (EvSet (key, c) b) (cache H (sys\<lparr>sy_proxy := px\<rparr>), G)"
    using assms(2,3) by (intro SpecSet) (simp_all add: cache_def)
qed

lemma simD:
  assumes "sim H fr n sys (M, G)"
  shows "placer_inv H n (px_placer (sy_proxy sys))" "named_ok H (px_placer (sy_proxy sys))" "queues_ok (sy_proxy sys)" "wired fr sys"
    "placed_ok H sys" "M = cache H sys" "gets_ok (sy_lambda sys) (sy_proxy sys) G"
  using assms by (auto simp: sim_def sys_inv_def)

text \<open>The requests that a SET appends: deletions of an evicted object \<open>v\<close>, then the chunk.\<close>

lemma set_appends:
  assumes q: "queues_ok px" and g: "gets_ok la px G" and "request_ok (snd d)" and cmd: "rq_Cmd (snd d) = ''set''"
    and ds: "\<forall>e \<in> set ds. request_ok (snd e) \<and> rq_Cmd (snd e) = ''del'' \<and> rq_Key (snd e) \<in> K"
  shows "queues_ok (enq (ds @ [d]) px)" "gets_ok la (enq (ds @ [d]) px) G"
    "x \<notin> K \<Longrightarrow> nat (fst d) \<noteq> k \<or> x \<noteq> rq_Key (snd d) \<Longrightarrow> view la (enq (ds @ [d]) px) k x = view la px k x"
    "view la (enq (ds @ [d]) px) (nat (fst d)) (rq_Key (snd d)) = Some (ChunkId (rq_Id (snd d)), stream_bytes (snd d))"
proof -
  let ?px = "enq ds px"
  have D: "only_dels K la px ?px" by (rule enq_dels [OF q ds])
  then have q1: "queues_ok ?px" by (simp add: only_dels_def)
  note V = view_enq1 [OF q1, of la d]
  show "queues_ok (enq (ds @ [d]) px)" using queues_ok_enq1 [OF q1 assms(3)] by simp
  have g1: "gets_ok la ?px G" by (rule gets_ok_dels [OF g q D])
  then have "G(px_nextReq ?px := None) = G" by (auto simp: gets_ok_def)
  then show "gets_ok la (enq (ds @ [d]) px) G" using gets_ok_enq1 [OF g1 q1, of d None] cmd by simp
  show "view la (enq (ds @ [d]) px) k x = view la px k x" if "x \<notin> K" "nat (fst d) \<noteq> k \<or> x \<noteq> rq_Key (snd d)"
    using V [of k] D that cmd by (auto simp: only_dels_def apply_req_def)
  show "view la (enq (ds @ [d]) px) (nat (fst d)) (rq_Key (snd d)) = Some (ChunkId (rq_Id (snd d)), stream_bytes (snd d))"
    using V [of "nat (fst d)"] cmd by (simp add: apply_req_def)
qed

lemma set_step_sim:
  assumes H: "hashmap_ok H" and n: "n \<le> 100" and sim: "sim H fr n sys (M, G)"
    and run: "HandleSet H now choice uuid c (sy_proxy sys) = Some (Inr (ws, px))"
    and ok: "set_cmd_ok n c" "ToLower (cc_Name c) = ''set''" "cc_body c = Inr (NewInlineReader b)"
  shows "\<exists>M'. spec_step (M, G) (EvSet (cc_key c, cc_chunk c) b) (M', G) \<and> sim H fr n (sys\<lparr>sy_proxy := px\<rparr>) (M', G)"
proof -
  let ?px = "sy_proxy sys" and ?la = "sy_lambda sys"
  note inv = simD [OF sim]
  define p where "p = px_placer px"
  have pp: "px_placer px = p" by (simp add: p_def)
  obtain meta ev where r: "placer_inv H n p" "set_routed H (cc_key c) (cc_chunk c) (px_placer ?px) p"
      "\<forall>v. ev = Some v \<longrightarrow> stored H p v \<and> Deleted (metas p v)"
      "hm_Get H (metaMap p) (cc_key c) = Some meta" "chunk_ready meta (cc_chunk c) p"
      "px = enq ((case ev of None \<Rightarrow> [] | Some v \<Rightarrow> drop_list uuid (metas p v)) @
                   [(chunk_dest c (metas p meta), chunk_request c (Some (NewInlineReader b)) (metas p meta))])
               ((collect_start ''set'' (cc_reqId c) (itoa (cc_chunk c)) ?px)\<lparr>px_placer := p\<rparr>)"
    using HandleSet_routes [OF H n inv(1) ok(1,3), of now choice uuid] run inv(2) unfolding p_def by auto
  define ds where "ds = (case ev of None \<Rightarrow> [] | Some v \<Rightarrow> drop_list uuid (metas p v))"
  define K where "K = (case ev of None \<Rightarrow> {} | Some v \<Rightarrow> range (chunk_key (Key (metas p v))))"
  define d where "d = (chunk_dest c (metas p meta), chunk_request c (Some (NewInlineReader b)) (metas p meta))"
  define px0 where "px0 = (collect_start ''set'' (cc_reqId c) (itoa (cc_chunk c)) ?px)\<lparr>px_placer := p\<rparr>"
  have px: "px = enq (ds @ [d]) px0" using r(6) by (simp add: ds_def d_def px0_def)
  have sq: "same_queues ?px px0" unfolding px0_def by (rule same_queues_collect_start)
  note W = same_queues_waiting [OF sq]
  have nm: "named_ok H p" using r(2) by (simp add: set_routed_def)
  have key: "Key (metas p meta) = cc_key c" using nm r(4) by (simp add: named_ok_def)
  have rq: "request_ok (snd d)" "rq_Cmd (snd d) = ''set''" "rq_Key (snd d) = chunk_key (cc_key c) (cc_chunk c)"
      "ChunkId (rq_Id (snd d)) = itoa (cc_chunk c)" "stream_bytes (snd d) = b"
    using chunk_request_set [OF ok(2) refl, of b "metas p meta"] key by (simp_all add: d_def)
  have ds: "\<forall>e \<in> set ds. request_ok (snd e) \<and> rq_Cmd (snd e) = ''del'' \<and> rq_Key (snd e) \<in> K"
    using drop_list_dels by (cases ev) (simp_all add: ds_def K_def)
  note A = set_appends [of px0 ?la G d ds K, OF _ _ rq(1,2) ds, unfolded W(2) gets_ok_same [OF sq], OF inv(3,7), folded px]
  have dest: "route H p (cc_key c) (cc_chunk c) = Some (fst d)"
    unfolding d_def fst_conv chunk_dest_def by (rule route_ready [OF r(4,5)])
  have notK: "chunk_key x y \<notin> K" if "route H p x y = Some k" for x y k
    using that evicted_unrouted [OF nm] r(3) by (auto simp: K_def split: option.splits)
  have other: "route H (px_placer ?px) x y = Some k \<and> view ?la px (nat k) (chunk_key x y) = view ?la ?px (nat k) (chunk_key x y)"
    if "route H p x y = Some k" "(x, y) \<noteq> (cc_key c, cc_chunk c)" for x y k
    using set_routedD [OF r(2) that(2)] A(3) [OF notK [OF that(1)], of "nat k"] that rq(3) W(3) by auto
  note C = cache_after_set [OF inv(5), of px, unfolded pp, OF dest _ other, of b]
  have "wired fr (sys\<lparr>sy_proxy := px\<rparr>)" unfolding px wired_enq using wired_same [OF sq] inv(4) by simp
  then show ?thesis using C A(1,2,4) r(1) nm inv(6) rq(3-5) by (auto simp: sim_def sys_inv_def pp)
qed

lemma get_step_sim:
  assumes sim: "sim H fr n sys (M, G)" and run: "HandleGet H Q now c (sy_proxy sys) = Inr (ws, px)"
    and ok: "0 \<le> cc_chunk c" "cc_chunk c < int n" "ToLower (cc_Name c) = ''get''"
  shows "\<exists>G'. spec_step (M, G) (if ws = [] then EvGet (cc_key c, cc_chunk c) (px_nextReq (sy_proxy sys)) else EvMiss (cc_key c, cc_chunk c)) (M, G') \<and>
     sim H fr n (sys\<lparr>sy_proxy := px\<rparr>) (M, G')"
proof -
  let ?px = "sy_proxy sys" and ?la = "sy_lambda sys"
  note inv = simD [OF sim]
  show ?thesis
  proof (cases "route H (px_placer ?px) (cc_key c) (cc_chunk c)")
    case None
    obtain px0 where p: "HandleGet H Q now c ?px = Inr ([AppendError (not_found_msg (itoa (cc_chunk c)) (cc_key c)), Flush], px0)"
        "same_queues ?px px0" "px_placer px0 = px_placer ?px"
      using HandleGet_misses [OF inv(1) None ok(1,2)] by blast
    then have e: "ws \<noteq> []" "px = px0" using run by auto
    note W = same_queues_waiting [OF p(2)]
    have "cache H (sys\<lparr>sy_proxy := px\<rparr>) = M" using W(3) p(3) inv(6) e(2) by (simp add: cache_def fun_eq_iff)
    moreover have "M (cc_key c, cc_chunk c) = None" using None inv(6) by (simp add: cache_def)
    moreover have "placed_ok H (sys\<lparr>sy_proxy := px\<rparr>)" using inv(5) W(3) p(3) e(2) by (simp add: placed_ok_def)
    ultimately show ?thesis
      using inv e p(3) W(2) wired_same [OF p(2)] gets_ok_same [OF p(2)]
      by (intro exI [of _ G]) (auto simp: sim_def sys_inv_def intro: SpecMiss)
  next
    case (Some k)
    obtain meta where m: "hm_Get H (metaMap (px_placer ?px)) (cc_key c) = Some meta" "chunk_ready meta (cc_chunk c) (px_placer ?px)"
        "k = pl_elems (Placement (metas (px_placer ?px) meta)) ! nat (cc_chunk c)"
      using route_SomeD [OF Some] by blast
    let ?d = "(chunk_dest c (metas (px_placer ?px) meta), chunk_request c None (metas (px_placer ?px) meta))"
    obtain px0 where p: "HandleGet H Q now c ?px = Inr ([], enq [?d] px0)" "same_queues ?px px0"
        "px_placer px0 = TouchObject now meta (px_placer ?px)"
      using HandleGet_routes [OF inv(1) m(1,2) ok(1,2), of Q now] by blast
    then have e: "ws = []" "px = enq1 ?d px0" using run by auto
    note W = same_queues_waiting [OF p(2)]
    have q0: "queues_ok px0" using W(2) inv(3) by simp
    have key: "Key (metas (px_placer ?px) meta) = cc_key c" using inv(2) m(1) by (simp add: named_ok_def)
    have rq: "request_ok (snd ?d)" "rq_Cmd (snd ?d) = ''get''" "rq_Key (snd ?d) = chunk_key (cc_key c) (cc_chunk c)"
        "ChunkId (rq_Id (snd ?d)) = itoa (cc_chunk c)" "fst ?d = k"
      using chunk_request_get(1-4) [OF ok(3) refl] key m(3) by (simp_all add: chunk_dest_def)
    obtain b where b: "view ?la ?px (nat k) (chunk_key (cc_key c) (cc_chunk c)) = Some (itoa (cc_chunk c), b)"
      using inv(5) Some unfolding placed_ok_def by blast
    have v: "view ?la px j = view ?la ?px j" for j
      unfolding e(2) using view_enq1 [OF q0, of ?la ?d j] rq(2) W(3) by (simp add: apply_req_def)
    have rt: "route H (px_placer px) = route H (px_placer ?px)" "named_ok H (px_placer px)"
      unfolding e(2) using p(3) inv(2) by simp_all
    have "cache H (sys\<lparr>sy_proxy := px\<rparr>) = M" using v rt inv(6) by (simp add: cache_def fun_eq_iff)
    moreover have "M (cc_key c, cc_chunk c) = Some b" using Some b inv(6) by (simp add: cache_def)
    moreover have "placed_ok H (sys\<lparr>sy_proxy := px\<rparr>)" using inv(5) v rt by (simp add: placed_ok_def)
    moreover have "gets_ok ?la px (G(px_nextReq ?px \<mapsto> b))"
      using gets_ok_enq1 [of ?la px0 G ?d "Some b"] gets_ok_same [OF p(2)] inv(7) q0 rq b W(3) p(2) e(2) by (simp add: same_queues_def)
    moreover have "queues_ok px" unfolding e(2) by (rule queues_ok_enq1 [OF q0 rq(1)])
    moreover have "wired fr (sys\<lparr>sy_proxy := px\<rparr>)" unfolding e(2) wired_enq1 using wired_same [OF p(2)] inv(4) by simp
    moreover have "placer_inv H n (px_placer px)"
      using Placer_Get_ok [OF inv(1) ok(1,2), of now "cc_key c"] Placer_Get_ready [OF m(1,2)] p(3) e(2) by simp
    ultimately show ?thesis
      using e(1) rt(2) by (intro exI [of _ "G(px_nextReq ?px \<mapsto> b)"]) (auto simp: sim_def sys_inv_def intro: SpecGet)
  qed
qed

end
