(* ===== verification/CacheRound.thy ===== *)
theory CacheRound
  imports CacheSystem
begin

text \<open>
  One request of an instance, from its queue to the answer: the request is written, the Lambda serves it, and the
  connection's goroutine hands the answer to the client's channel.
\<close>

section \<open>Writing the request\<close>

lemma ToLower_cmds [simp]: "ToLower ''set'' = ''set''" "ToLower ''get'' = ''get''" "ToLower ''del'' = ''del''"
  by code_simp+

lemma request_cmd: "request_ok q \<Longrightarrow> ToLower (rq_Cmd q) = rq_Cmd q"
  by (auto simp: request_ok_def)

text \<open>What the connection's goroutine sees of a request that has been written.\<close>

definition same_request :: "Request \<Rightarrow> Request \<Rightarrow> bool" where
  "same_request q q' \<longleftrightarrow> rq_Id q' = rq_Id q \<and> rq_Cmd q' = rq_Cmd q \<and> rq_responded q' = rq_responded q \<and>
     rq_ChanResponse q' = rq_ChanResponse q \<and> rq_Key q' = rq_Key q \<and> rq_Body q' = rq_Body q \<and> rq_BodyStream q' = rq_BodyStream q"

definition same_wiring :: "('m, 'r) lstore \<Rightarrow> ('m, 'r) lstore \<Rightarrow> bool" where
  "same_wiring s s' \<longleftrightarrow>
     (\<forall>k. in_chanReq (instances s' k) = in_chanReq (instances s k) \<and> in_cn (instances s' k) = in_cn (instances s k)) \<and>
     (\<forall>x. cn_instance (conns s' x) = cn_instance (conns s x))"

lemma same_wiring_refl [simp]: "same_wiring s s"
  by (simp add: same_wiring_def)

lemma same_wiring_trans: "same_wiring s t \<Longrightarrow> same_wiring t u \<Longrightarrow> same_wiring s u"
  by (simp add: same_wiring_def)

lemma prepare_writes:
  assumes "request_ok q"
  shows "\<exists>ws q1 ws' q2. prepare_request (rq_Cmd q) q = Some (ws, q1) \<and> Flush_request (\<lambda>_. None) q1 = (ws', None, q2) \<and>
     frames (ws @ ws') = request_frames q \<and> same_request q q2"
  using assms
  by (auto simp: request_ok_def prepare_request_def PrepareForSet_def PrepareForGet_def PrepareForDel_def Flush_request_def
      request_frames_def same_request_def)

lemma attempts_list: "\<exists>m. map f [0..<if b then MAX_RETRY else 1] = f 0 # m"
  by (auto simp: MAX_RETRY_def upt_rec)

lemma serve_command_no_panic:
  assumes "request_ok (reqs s r)"
  shows "serve_command k (\<lambda>_. (Some c, \<lambda>_. None)) (CmdRequest r) s \<noteq> Some (Inl e)"
proof -
  have "\<exists>m. map (\<lambda>_. (Some c, \<lambda>_. None)) [0..<if cmd_Retriable (CmdRequest r) s then MAX_RETRY else 1] = (Some c, \<lambda>_. None :: error option) # m"
    by (rule attempts_list)
  then show ?thesis
    using prepare_writes [OF assms]
    by (auto simp: serve_command_def handleRequest_def handle_client_request_def request_cmd [OF assms] Let_def split: if_splits)
qed

lemma serve_command_writes:
  assumes "request_ok (reqs s r)" and run: "serve_command k (\<lambda>_. (Some c, \<lambda>_. None)) (CmdRequest r) s = Some (Inr (go, s1))"
  shows "\<exists>ws q. frames ws = request_frames (reqs s r) \<and> same_request (reqs s r) q \<and> reqs s1 = (reqs s)(r := q) \<and>
     conns s1 = (conns s)(c := (conns s c)\<lparr>cn_w := cn_w (conns s c) @ ws, cn_chanWait := [r]\<rparr>) \<and>
     answered s1 = answered s \<and> same_wiring s s1"
proof -
  obtain ws q1 ws' q2 where w: "prepare_request (rq_Cmd (reqs s r)) (reqs s r) = Some (ws, q1)"
      "Flush_request (\<lambda>_. None) q1 = (ws', None, q2)" "frames (ws @ ws') = request_frames (reqs s r)" "same_request (reqs s r) q2"
    using prepare_writes [OF assms(1)] by blast
  have m: "\<exists>m. map (\<lambda>_. (Some c, \<lambda>_. None)) [0..<if cmd_Retriable (CmdRequest r) s then MAX_RETRY else 1] = (Some c, \<lambda>_. None :: error option) # m"
    by (rule attempts_list)
  then show ?thesis
    using run w
    by (intro exI [of _ "ws @ ws'"] exI [of _ q2])
       (auto simp: serve_command_def handleRequest_def handle_client_request_def request_cmd [OF assms(1)] Let_def same_wiring_def warmUp_def
         split: if_splits)
qed

section \<open>Answering\<close>

definition sent_to :: "Request \<Rightarrow> answer \<Rightarrow> (nat \<times> answer) list" where
  "sent_to q a = (case rq_ChanResponse q of Some ch \<Rightarrow> [(ch, a)] | None \<Rightarrow> [])"

lemma answer_req_open:
  assumes "\<not> rq_responded (reqs s r)"
  shows "\<exists>q. answer_req r a s = (True, s\<lparr>reqs := (reqs s)(r := q), answered := answered s @ sent_to (reqs s r) a\<rparr>)"
  using assms by (auto simp: answer_req_def SetResponse_def sent_to_def split: option.splits)

text \<open>The outcome of handling an answer on connection \<open>c\<close>, on which only request \<open>r\<close> was waiting.\<close>

definition finished :: "('r \<Rightarrow> frame list) \<Rightarrow> nat \<Rightarrow> nat \<Rightarrow> (nat \<times> answer) list \<Rightarrow> ('m, 'r) lstore \<Rightarrow> ('m, 'r) lstore \<Rightarrow> bool" where
  "finished fr c r as s s' \<longleftrightarrow>
     answered s' = answered s @ as \<and> same_wiring s s' \<and> (\<forall>x. x \<noteq> c \<longrightarrow> conns s' x = conns s x) \<and>
     (\<forall>x. x \<noteq> r \<longrightarrow> reqs s' x = reqs s x) \<and> fr (cn_r (conns s' c)) = []"

lemma finished_moved:
  assumes "finished fr c r as (upd_conn c (\<lambda>cn. cn\<lparr>cn_r := x\<rparr>) s) s'"
  shows "finished fr c r as s s'"
  using assms by (auto simp: finished_def same_wiring_def)

lemma conn_SetResponse_open:
  assumes "cn_chanWait (conns s c) = [r]" and "\<not> rq_responded (reqs s r)" and "IsResponse (reqs s r) rsp" and "fr (cn_r (conns s c)) = []"
  shows "\<exists>s'. conn_SetResponse c rsp s = ((Some r, True), s') \<and> finished fr c r (sent_to (reqs s r) (Answer rsp)) s s'"
  using assms answer_req_open [OF assms(2), of "Answer rsp"]
  by (auto simp: conn_SetResponse_def finished_def same_wiring_def)

lemma finished_collect: "finished fr c r as s s' \<Longrightarrow> finished fr c r as s (collect_proxy rsp res s')"
  by (simp add: finished_def same_wiring_def)

lemma finished_warm: "finished fr c r as s s' \<Longrightarrow> finished fr c r as s (upd_inst i warmUp s')"
  by (auto simp: finished_def same_wiring_def warmUp_def)

lemma setHandler_finishes:
  assumes R: "reader_ok R fr" and "fr (cn_r (conns s c)) = map FBulk [cid, ReqId (rq_Id (reqs s r)), ChunkId (rq_Id (reqs s r))]"
    and "cn_instance (conns s c) = Some k" and "cn_chanWait (conns s c) = [r]" and "\<not> rq_responded (reqs s r)" and "rq_Cmd (reqs s r) = ''set''"
  shows "\<exists>s' rsp. setHandler R c s = Inr s' \<and> finished fr c r (sent_to (reqs s r) (Answer rsp)) s s' \<and> rs_BodyStream rsp = None \<and>
     rs_Body rsp = Some (itoa (uint (d_id (in_dep (instances s k))))) \<and>
     ReqId (rs_Id rsp) = ReqId (rq_Id (reqs s r)) \<and> ChunkId (rs_Id rsp) = ChunkId (rq_Id (reqs s r))"
proof -
  let ?q = "reqs s r"
  let ?rsp = "(mk_response ''set'' cid (ReqId (rq_Id ?q)) (ChunkId (rq_Id ?q)))\<lparr>rs_Body := Some (itoa (uint (d_id (in_dep (instances s k)))))\<rparr>"
  obtain s1 s2 r' where rd: "read_string R c s = (cid, s1)" "read_string R c s1 = (ReqId (rq_Id ?q), s2)"
      "read_string R c s2 = (ChunkId (rq_Id ?q), upd_conn c (\<lambda>cn. cn\<lparr>cn_r := r'\<rparr>) s)" "fr r' = []"
    using read_three [OF R, of s c cid "ReqId (rq_Id ?q)" "ChunkId (rq_Id ?q)" "[]"] assms(2) by auto
  let ?s = "upd_conn c (\<lambda>cn. cn\<lparr>cn_r := r'\<rparr>) s"
  have "IsResponse ?q ?rsp" using assms(6) by (simp add: IsResponse_def mk_response_def)
  then obtain s' where s': "conn_SetResponse c ?rsp ?s = ((Some r, True), s')" "finished fr c r (sent_to ?q (Answer ?rsp)) ?s s'"
    using conn_SetResponse_open [of ?s c r ?rsp fr] assms(4,5) rd(4) by auto
  have "setHandler R c s = Inr (collect_proxy ?rsp (Some r, True) s')"
    by (simp add: setHandler_def assms(3) rd(1-3) s'(1) Let_def)
  moreover have "rs_BodyStream ?rsp = None" "ReqId (rs_Id ?rsp) = ReqId (rq_Id ?q)" "ChunkId (rs_Id ?rsp) = ChunkId (rq_Id ?q)"
    by (simp_all add: mk_response_def)
  ultimately show ?thesis using finished_collect [OF finished_moved [OF s'(2)]] by fastforce
qed

lemma delHandler_finishes:
  assumes R: "reader_ok R fr" and "fr (cn_r (conns s c)) = map FBulk [cid, ReqId (rq_Id (reqs s r)), ChunkId (rq_Id (reqs s r))]"
    and "cn_chanWait (conns s c) = [r]" and "\<not> rq_responded (reqs s r)" and "rq_Cmd (reqs s r) = ''del''" and "rq_ChanResponse (reqs s r) = None"
  shows "finished fr c r [] s (delHandler R c s)"
proof -
  let ?q = "reqs s r"
  let ?rsp = "mk_response ''del'' cid (ReqId (rq_Id ?q)) (ChunkId (rq_Id ?q))"
  obtain s1 s2 r' where rd: "read_string R c s = (cid, s1)" "read_string R c s1 = (ReqId (rq_Id ?q), s2)"
      "read_string R c s2 = (ChunkId (rq_Id ?q), upd_conn c (\<lambda>cn. cn\<lparr>cn_r := r'\<rparr>) s)" "fr r' = []"
    using read_three [OF R, of s c cid "ReqId (rq_Id ?q)" "ChunkId (rq_Id ?q)" "[]"] assms(2) by auto
  let ?s = "upd_conn c (\<lambda>cn. cn\<lparr>cn_r := r'\<rparr>) s"
  have "IsResponse ?q ?rsp" using assms(5) by (simp add: IsResponse_def mk_response_def)
  then obtain s' where s': "conn_SetResponse c ?rsp ?s = ((Some r, True), s')" "finished fr c r (sent_to ?q (Answer ?rsp)) ?s s'"
    using conn_SetResponse_open [of ?s c r ?rsp fr] assms(3,4) rd(4) by auto
  then show ?thesis using finished_moved [OF s'(2)] assms(6) rd(1-3) by (simp add: delHandler_def Let_def sent_to_def)
qed

lemma same_wiring_upd_conn: "(\<And>cn. cn_instance (f cn) = cn_instance cn) \<Longrightarrow> same_wiring s (upd_conn c f s)"
  by (simp add: same_wiring_def)

lemma same_wiring_answer_req: "same_wiring s (snd (answer_req r a s))"
  by (simp add: same_wiring_def answer_req_other)

lemma same_wiring_match: "match_waiting rsp rs s = (res, rs', s') \<Longrightarrow> same_wiring s s'"
proof (induction rsp rs s rule: match_waiting.induct)
  case (2 rsp r rs s)
  show ?case
  proof (cases "IsResponse (reqs s r) rsp")
    case True
    then show ?thesis using 2(2) same_wiring_answer_req [of s r "Answer rsp"] by (auto split: prod.splits)
  next
    case False
    then show ?thesis using 2 same_wiring_answer_req same_wiring_trans by fastforce
  qed
qed simp

lemma same_wiring_SetResponse: "same_wiring s (snd (conn_SetResponse c rsp s))"
proof (cases "match_waiting rsp (cn_chanWait (conns s c)) s")
  case (fields res rs s')
  have "same_wiring s (upd_conn c (\<lambda>cn. cn\<lparr>cn_chanWait := rs\<rparr>) s')"
    using same_wiring_match [OF fields] by (rule same_wiring_trans) (rule same_wiring_upd_conn, simp)
  then show ?thesis using fields by (simp add: conn_SetResponse_def)
qed

lemma same_wiring_collect: "same_wiring s s' \<Longrightarrow> same_wiring s (collect_proxy rsp res s')"
  by (simp add: same_wiring_def)

lemma same_wiring_read: "same_wiring s (snd (conn_read f c s))"
  by (simp add: conn_read_def split_beta same_wiring_upd_conn)

lemma same_wiring_get:
  "same_wiring s (get_abandon H R c rsp cr s)" "get_deliver R c rsp s = Inr s' \<Longrightarrow> same_wiring s s'"
proof -
  let ?t = "collect_proxy rsp (fst (conn_SetResponse c rsp s)) (snd (conn_SetResponse c rsp s))"
  have t: "same_wiring s ?t" by (rule same_wiring_collect [OF same_wiring_SetResponse])
  then have "same_wiring s (?t\<lparr>ReqMap := m\<rparr>)" for m by (simp add: same_wiring_def)
  with t show "same_wiring s (get_abandon H R c rsp cr s)"
    unfolding get_abandon_def skip_bulk_def Let_def split_beta by (intro same_wiring_trans [OF _ same_wiring_read]) (simp add: split_beta)
  show "same_wiring s s'" if "get_deliver R c rsp s = Inr s'"
    using that same_wiring_read [of s "rd_StreamBulk R" c]
    by (auto simp: get_deliver_def Let_def split_beta split: prod.splits sum.splits
        intro!: same_wiring_collect intro: same_wiring_trans [OF _ same_wiring_SetResponse])
qed

lemma replied_finished:
  "replied c r ch rsp s s' \<Longrightarrow> same_wiring s s' \<Longrightarrow> fr (cn_r (conns s' c)) = [] \<Longrightarrow> finished fr c r [(ch, Answer rsp)] s s'"
  by (simp add: replied_def finished_def)

lemma getHandler_finishes:
  assumes R: "reader_ok R fr" and fr: "fr (cn_r (conns s c)) = map FBulk [cid, ReqId (rq_Id (reqs s r)), ChunkId (rq_Id (reqs s r)), b]"
    and w: "cn_chanWait (conns s c) = [r]" "pending r ch s" and cmd: "rq_Cmd (reqs s r) = ''get''"
  shows "\<exists>s' as. getHandler H R c s = Inr s' \<and> finished fr c r as s s' \<and>
     (as = [] \<or> (\<exists>rsp. as = [(ch, Answer rsp)] \<and> carries (Some b) (Answer rsp)))"
proof -
  let ?q = "reqs s r"
  let ?rsp = "mk_response ''get'' cid (ReqId (rq_Id ?q)) (ChunkId (rq_Id ?q))"
  obtain s1 s2 r' where rd: "read_string R c s = (cid, s1)" "read_string R c s1 = (ReqId (rq_Id ?q), s2)"
      "read_string R c s2 = (ChunkId (rq_Id ?q), upd_conn c (\<lambda>cn. cn\<lparr>cn_r := r'\<rparr>) s)" "fr r' = [FBulk b]"
    using read_three [OF R, of s c cid "ReqId (rq_Id ?q)" "ChunkId (rq_Id ?q)" "[FBulk b]"] fr by auto
  let ?s = "upd_conn c (\<lambda>cn. cn\<lparr>cn_r := r'\<rparr>) s"
  have isr: "IsResponse ?q ?rsp" using cmd by (simp add: IsResponse_def mk_response_def)
  show ?thesis
  proof (cases "hm_Get H (ReqMap s) (ReqId (rq_Id ?q))")
    case None
    obtain r2 where r2: "conn_read (rd_SkipBulk R) c ?s = (Inr (), upd_conn c (\<lambda>cn. cn\<lparr>cn_r := r2\<rparr>) ?s)" "fr r2 = []"
      using conn_read_reads [OF reader_okD(9) [OF R], of ?s c "FBulk b" "[]"] rd(4) by auto
    have "getHandler H R c s = Inr (upd_conn c (\<lambda>cn. cn\<lparr>cn_r := r2\<rparr>) ?s)"
      using None r2(1) by (simp add: getHandler_def rd(1-3) skip_bulk_def Let_def del: upd_conn_twice)
    moreover have "finished fr c r [] s (upd_conn c (\<lambda>cn. cn\<lparr>cn_r := r2\<rparr>) ?s)" using r2(2) by (simp add: finished_def same_wiring_def)
    ultimately show ?thesis by blast
  next
    case (Some k)
    let ?cr = "(counters s k)\<lparr>cr_Counter := cr_Counter (counters s k) + 1\<rparr>"
    define t where "t = ?s\<lparr>counters := (counters s)(k := ?cr)\<rparr>"
    have t: "fr (cn_r (conns t c)) = [FBulk b]" "cn_chanWait (conns t c) = [r]" "pending r ch t" "IsResponse (reqs t r) ?rsp"
      using rd(4) w isr by (simp_all add: t_def pending_def)
    have lift: "finished fr c r sent s u" if "finished fr c r sent t u" for sent u
      using that by (auto simp: finished_def same_wiring_def t_def)
    have run: "getHandler H R c s = (if cr_DataShards ?cr < sint (cr_Counter ?cr) then Inr (get_abandon H R c ?rsp ?cr t) else get_deliver R c ?rsp t)"
      using Some by (simp add: getHandler_def rd(1-3) t_def Let_def)
    show ?thesis
    proof (cases "cr_DataShards ?cr < sint (cr_Counter ?cr)")
      case True
      have "finished fr c r [(ch, Answer ?rsp)] t (get_abandon H R c ?rsp ?cr t)"
        using get_abandon_ok [OF R t, of H ?cr] same_wiring_get(1) replied_finished by blast
      moreover have "carries (Some b) (Answer ?rsp)" by (simp add: carries_def mk_response_def)
      ultimately show ?thesis using run True lift by auto
    next
      case False
      obtain s' where s': "get_deliver R c ?rsp t = Inr s'" "fr (cn_r (conns s' c)) = []"
          "replied c r ch (?rsp\<lparr>rs_BodyStream := Some (NewInlineReader b)\<rparr>) t s'"
        using get_deliver_ok [OF R t] by blast
      have "finished fr c r [(ch, Answer (?rsp\<lparr>rs_BodyStream := Some (NewInlineReader b)\<rparr>))] t s'"
        by (rule replied_finished [OF s'(3) same_wiring_get(2) [OF s'(1)]]) (rule s'(2))
      moreover have "carries (Some b) (Answer (?rsp\<lparr>rs_BodyStream := Some (NewInlineReader b)\<rparr>))" by (simp add: carries_def NewInlineReader_def)
      ultimately show ?thesis using run False s'(1) lift by auto
    qed
  qed
qed

section \<open>One turn of the connection\<close>

lemma serve_once_bulk:
  assumes R: "reader_ok R fr" and "fr (cn_r (conns s c)) = FBulk cmd # fs"
  shows "\<exists>r. fr r = fs \<and> serve_once E H R False c s =
     bindR (dispatch E H R c cmd (upd_conn c (\<lambda>cn. cn\<lparr>cn_r := r\<rparr>) s)) (\<lambda>s2.
       Inr (True, case cn_instance (conns s2 c) of None \<Rightarrow> s2 | Some i \<Rightarrow> upd_inst i warmUp s2))"
proof -
  obtain r0 where r0: "rd_PeekType R (cn_r (conns s c)) = (Inr TypeBulk, r0)" "fr r0 = FBulk cmd # fs"
    using reader_okD(1) [OF R assms(2)] assms(2) by auto
  obtain r1 where r1: "rd_ReadBulkString R r0 = (Inr cmd, r1)" "fr r1 = fs"
    using reads_step [OF reader_okD(3) [OF R] r0(2), of cmd] by auto
  show ?thesis
    using r0(1) r1 by (intro exI [of _ r1]) (simp add: serve_once_def conn_read_def serve_response_def upd_conn_def)
qed

lemma serve_once_error:
  assumes R: "reader_ok R fr" and "fr (cn_r (conns s c)) = [FError m]"
    and "cn_chanWait (conns s c) = [r]" and "\<not> rq_responded (reqs s r)" and "rq_ChanResponse (reqs s r) = None"
  shows "\<exists>s'. serve_once E H R False c s = Inr (True, s') \<and> finished fr c r [] s s'"
proof -
  obtain r0 where r0: "rd_PeekType R (cn_r (conns s c)) = (Inr TypeError, r0)" "fr r0 = [FError m]"
    using reader_okD(1) [OF R assms(2)] assms(2) by auto
  obtain r1 where r1: "rd_ReadError R r0 = (Inr m, r1)" "fr r1 = []"
    using reads_step [OF reader_okD(6) [OF R] r0(2), of m] by auto
  let ?s = "upd_conn c (\<lambda>cn. cn\<lparr>cn_r := r1\<rparr>) (upd_conn c (\<lambda>cn. cn\<lparr>cn_r := r0\<rparr>) s)"
  let ?e = "ErrOther (''Response error: '' @ m)"
  obtain q where q: "answer_req r (Failure ?e) ?s = (True, ?s\<lparr>reqs := (reqs ?s)(r := q), answered := answered ?s @ sent_to (reqs ?s r) (Failure ?e)\<rparr>)"
    using answer_req_open [of ?s r "Failure ?e"] assms(4) by auto
  have f: "finished fr c r [] s (SetErrorResponse c ?e ?s)"
    using assms(3,5) r1(2) q by (simp add: SetErrorResponse_def finished_def same_wiring_def sent_to_def)
  have "serve_once E H R False c s = Inr (True, let s2 = SetErrorResponse c ?e ?s in
      case cn_instance (conns s2 c) of None \<Rightarrow> s2 | Some i \<Rightarrow> upd_inst i warmUp s2)"
    using r0(1) r1(1) by (simp add: serve_once_def conn_read_def serve_response_def Let_def)
  then show ?thesis using f finished_warm [OF f] by (auto simp: Let_def split: option.splits)
qed

lemma serve_once_dispatched:
  assumes R: "reader_ok R fr" and "fr (cn_r (conns s c)) = FBulk cmd # fs"
    and "\<And>r'. fr r' = fs \<Longrightarrow> \<exists>s'. dispatch E H R c cmd (upd_conn c (\<lambda>cn. cn\<lparr>cn_r := r'\<rparr>) s) = Inr s' \<and>
           (\<exists>as. finished fr c r as (upd_conn c (\<lambda>cn. cn\<lparr>cn_r := r'\<rparr>) s) s' \<and> P as)"
  shows "\<exists>s' as. serve_once E H R False c s = Inr (True, s') \<and> finished fr c r as s s' \<and> P as"
proof -
  obtain r' where r': "fr r' = fs" "serve_once E H R False c s =
     bindR (dispatch E H R c cmd (upd_conn c (\<lambda>cn. cn\<lparr>cn_r := r'\<rparr>) s)) (\<lambda>s2.
       Inr (True, case cn_instance (conns s2 c) of None \<Rightarrow> s2 | Some i \<Rightarrow> upd_inst i warmUp s2))"
    using serve_once_bulk [OF R assms(2)] by blast
  obtain s' as where d: "dispatch E H R c cmd (upd_conn c (\<lambda>cn. cn\<lparr>cn_r := r'\<rparr>) s) = Inr s'"
      "finished fr c r as (upd_conn c (\<lambda>cn. cn\<lparr>cn_r := r'\<rparr>) s) s'" "P as"
    using assms(3) [OF r'(1)] by blast
  then show ?thesis using r'(2) finished_moved [OF d(2)] finished_warm [OF finished_moved [OF d(2)]] by (cases "cn_instance (conns s' c)") auto
qed

text \<open>The answer of a Lambda to request \<open>q\<close>, when it holds the chunks \<open>m\<close>.\<close>

definition reply_ok :: "chunks \<Rightarrow> Request \<Rightarrow> frame list \<Rightarrow> bool" where
  "reply_ok m q fs \<longleftrightarrow>
     (\<exists>cid. rq_Cmd q = ''set'' \<and> fs = map FBulk [''set'', cid, ReqId (rq_Id q), ChunkId (rq_Id q)]) \<or>
     (\<exists>cid b. rq_Cmd q = ''get'' \<and> m (rq_Key q) = Some (ChunkId (rq_Id q), b) \<and> fs = map FBulk [''get'', cid, ReqId (rq_Id q), ChunkId (rq_Id q), b]) \<or>
     (\<exists>cid. rq_Cmd q = ''del'' \<and> fs = map FBulk [''del'', cid, ReqId (rq_Id q), ChunkId (rq_Id q)]) \<or>
     (\<exists>e. rq_Cmd q = ''del'' \<and> fs = [FError e])"

lemma lambda_replies:
  assumes "source_ok la" and "request_ok q"
    and "rq_Cmd q = ''get'' \<Longrightarrow> \<exists>b. repo_view (la_store la) (rq_Key q) = Some (ChunkId (rq_Id q), b)"
  shows "\<exists>la' ws. serve_frames f mem clk (request_frames q) la = Inr (la', ws) \<and> source_ok la' \<and>
     repo_view (la_store la') = apply_req q (repo_view (la_store la)) \<and> reply_ok (repo_view (la_store la)) q (frames ws)"
proof -
  consider (set) b where "rq_Cmd q = ''set''" "rq_Body q = None" "rq_BodyStream q = Some (NewInlineReader b)"
    | (get) "rq_Cmd q = ''get''" "rq_BodyStream q = None" | (del) "rq_Cmd q = ''del''" "rq_BodyStream q = None"
    using assms(2) by (auto simp: request_ok_def)
  then show ?thesis
  proof cases
    case set
    then show ?thesis
      using serve_set [OF assms(1) set_frames [OF set], of f mem clk]
      by (fastforce simp: apply_req_def stream_bytes_def NewInlineReader_def reply_ok_def)
  next
    case get
    then show ?thesis
      using serve_get [OF assms(1) get_frames [OF get], of f mem clk] assms(3) by (fastforce simp: apply_req_def reply_ok_def)
  next
    case del
    have "well_framed (request_frames q) [''del'', itoa (ConnId (rq_Id q)), ReqId (rq_Id q), ChunkId (rq_Id q), rq_Key q]"
      using del by (simp add: request_frames_def prepare_request_def PrepareForDel_def Flush_request_def well_framed_def)
    from serve_del [OF assms(1) this, of f mem clk] show ?thesis
      using del by (fastforce simp: apply_req_def reply_ok_def split: if_splits)
  qed
qed

lemma reply_finishes:
  assumes R: "reader_ok R fr" and rep: "reply_ok m (reqs s r) (fr (cn_r (conns s c)))" and "request_ok (reqs s r)"
    and "cn_chanWait (conns s c) = [r]" and "cn_instance (conns s c) = Some k"
  shows "\<exists>s' as. serve_once E H R False c s = Inr (True, s') \<and> finished fr c r as s s' \<and> length as \<le> 1 \<and>
     (\<forall>(ch, a) \<in> set as. carries (if rq_Cmd (reqs s r) = ''get'' then map_option snd (m (rq_Key (reqs s r))) else None) a)"
proof -
  let ?q = "reqs s r"
  let ?P = "\<lambda>as. length as \<le> 1 \<and> (\<forall>(ch, a) \<in> set as. carries (if rq_Cmd ?q = ''get'' then map_option snd (m (rq_Key ?q)) else None) a)"
  have nr: "\<not> rq_responded ?q" using assms(3) by (simp add: request_ok_def)
  let ?s = "\<lambda>r'. upd_conn c (\<lambda>cn. cn\<lparr>cn_r := r'\<rparr>) s"
  consider (set) cid where "rq_Cmd ?q = ''set''" "fr (cn_r (conns s c)) = map FBulk [''set'', cid, ReqId (rq_Id ?q), ChunkId (rq_Id ?q)]"
    | (get) cid b where "rq_Cmd ?q = ''get''" "m (rq_Key ?q) = Some (ChunkId (rq_Id ?q), b)"
        "fr (cn_r (conns s c)) = map FBulk [''get'', cid, ReqId (rq_Id ?q), ChunkId (rq_Id ?q), b]"
    | (del) cid where "rq_Cmd ?q = ''del''" "fr (cn_r (conns s c)) = map FBulk [''del'', cid, ReqId (rq_Id ?q), ChunkId (rq_Id ?q)]"
    | (err) e where "rq_Cmd ?q = ''del''" "fr (cn_r (conns s c)) = [FError e]"
    using rep unfolding reply_ok_def by blast
  then show ?thesis
  proof cases
    case set
    show ?thesis
    proof (rule serve_once_dispatched [OF R, of s c "''set''" "map FBulk [cid, ReqId (rq_Id ?q), ChunkId (rq_Id ?q)]"])
      fix r' assume "fr r' = map FBulk [cid, ReqId (rq_Id ?q), ChunkId (rq_Id ?q)]"
      then obtain s' rsp where "setHandler R c (?s r') = Inr s'" "finished fr c r (sent_to ?q (Answer rsp)) (?s r') s'" "rs_BodyStream rsp = None"
        using setHandler_finishes [OF R, of "?s r'" c cid r k] assms(4,5) nr set(1) by auto
      then show "\<exists>s'. dispatch E H R c ''set'' (?s r') = Inr s' \<and> (\<exists>as. finished fr c r as (?s r') s' \<and> ?P as)"
        by (intro exI [of _ s'] conjI exI [of _ "sent_to ?q (Answer rsp)"])
           (auto simp: dispatch_def sent_to_def carries_def split: option.splits)
    qed (use set in simp)
  next
    case get
    obtain ch where ch: "rq_ChanResponse ?q = Some ch" using assms(3) get(1) by (auto simp: request_ok_def)
    show ?thesis
    proof (rule serve_once_dispatched [OF R, of s c "''get''" "map FBulk [cid, ReqId (rq_Id ?q), ChunkId (rq_Id ?q), b]"])
      fix r' assume "fr r' = map FBulk [cid, ReqId (rq_Id ?q), ChunkId (rq_Id ?q), b]"
      then obtain s' as where "getHandler H R c (?s r') = Inr s'" "finished fr c r as (?s r') s'"
          "as = [] \<or> (\<exists>rsp. as = [(ch, Answer rsp)] \<and> carries (Some b) (Answer rsp))"
        using getHandler_finishes [OF R, of "?s r'" c cid r b ch H] assms(4) nr ch get(1) by (auto simp: pending_def)
      then show "\<exists>s'. dispatch E H R c ''get'' (?s r') = Inr s' \<and> (\<exists>as. finished fr c r as (?s r') s' \<and> ?P as)"
        using get(1,2) by (intro exI [of _ s'] conjI exI [of _ as]) (auto simp: dispatch_def)
    qed (use get in simp)
  next
    case del
    have ch: "rq_ChanResponse ?q = None" using assms(3) del(1) by (auto simp: request_ok_def)
    show ?thesis
    proof (rule serve_once_dispatched [OF R, of s c "''del''" "map FBulk [cid, ReqId (rq_Id ?q), ChunkId (rq_Id ?q)]"])
      fix r' assume "fr r' = map FBulk [cid, ReqId (rq_Id ?q), ChunkId (rq_Id ?q)]"
      then have "finished fr c r [] (?s r') (delHandler R c (?s r'))"
        using delHandler_finishes [OF R, of "?s r'" c cid r] assms(4) nr ch del(1) by auto
      then show "\<exists>s'. dispatch E H R c ''del'' (?s r') = Inr s' \<and> (\<exists>as. finished fr c r as (?s r') s' \<and> ?P as)"
        by (intro exI [of _ "delHandler R c (?s r')"] conjI exI [of _ "[]"]) (auto simp: dispatch_def)
    qed (use del in simp)
  next
    case err
    have "rq_ChanResponse ?q = None" using assms(3) err(1) by (auto simp: request_ok_def)
    then show ?thesis using serve_once_error [OF R err(2) assms(4) nr, of E H] by fastforce
  qed
qed

section \<open>The effect on the system\<close>

lemma request_ok_same: "same_request q q' \<Longrightarrow> request_ok q' = request_ok q"
  by (simp add: same_request_def request_ok_def)

lemma reply_ok_same: "same_request q q' \<Longrightarrow> reply_ok m q' fs = reply_ok m q fs"
  by (simp add: same_request_def reply_ok_def)

lemma waiting_head:
  assumes "queues_ok px" and "in_chanReq (instances (px_store px) k) = CmdRequest r # cmds"
  shows "request_ok (reqs (px_store px) r)"
proof -
  have "r \<in> set (waiting k px)" using assms(2) by (simp add: waiting_def queue_def map_filter_def)
  then show ?thesis using assms(1) by (auto simp: queues_ok_def)
qed

text \<open>The head of queue \<open>k\<close> is gone, and nothing else that is queued has changed.\<close>

definition popped :: "nat \<Rightarrow> nat \<Rightarrow> ('m, 'q, 'r) proxy \<Rightarrow> ('m, 'q, 'r) proxy \<Rightarrow> bool" where
  "popped k r px px' \<longleftrightarrow>
     queue k px = CmdRequest r # queue k px' \<and> (\<forall>j. j \<noteq> k \<longrightarrow> queue j px' = queue j px) \<and>
     (\<forall>x. x \<noteq> r \<longrightarrow> reqs (px_store px') x = reqs (px_store px) x) \<and>
     px_placer px' = px_placer px \<and> px_nextReq px' = px_nextReq px"

lemma popped_waiting:
  assumes "popped k r px px'"
  shows "waiting k px = r # waiting k px'" "j \<noteq> k \<Longrightarrow> waiting j px' = waiting j px"
  using assms by (auto simp: popped_def waiting_def map_filter_def)

lemma popped_rest:
  assumes p: "popped k r px px'" and q: "queues_ok px" and "x \<in> set (waiting j px')"
  shows "x \<noteq> r" "x \<in> set (waiting j px)" "reqs (px_store px') x = reqs (px_store px) x"
proof -
  note w = popped_waiting [OF p]
  show m: "x \<in> set (waiting j px)" using assms(3) w by (cases "j = k") auto
  show ne: "x \<noteq> r"
  proof (cases "j = k")
    case True
    then show ?thesis using q assms(3) w(1) by (auto simp: queues_ok_def dest: spec [of _ k])
  next
    case False
    then have "set (waiting j px) \<inter> set (waiting k px) = {}" using q by (simp add: queues_ok_def)
    then show ?thesis using m w(1) by auto
  qed
  then show "reqs (px_store px') x = reqs (px_store px) x" using p by (simp add: popped_def)
qed

lemma popped_queues_ok:
  assumes p: "popped k r px px'" and q: "queues_ok px"
  shows "queues_ok px'"
proof -
  note w = popped_waiting [OF p] and rest = popped_rest [OF p q]
  have l: "list_all (\<lambda>cmd. req_no cmd \<noteq> None) (queue j px') \<and> distinct (waiting j px')" for j
  proof (cases "j = k")
    case True
    have "list_all (\<lambda>cmd. req_no cmd \<noteq> None) (queue k px)" "distinct (waiting k px)" using q by (auto simp: queues_ok_def)
    then show ?thesis using True p w(1) by (simp add: popped_def)
  next
    case False
    then show ?thesis using q p w(2) by (simp add: popped_def queues_ok_def)
  qed
  moreover have "set (waiting i px') \<inter> set (waiting j px') = {}" if "i \<noteq> j" for i j
    using q rest(2) that unfolding queues_ok_def by blast
  moreover have "x < px_nextReq px' \<and> request_ok (reqs (px_store px') x)" if "x \<in> set (waiting j px')" for j x
    using rest [OF that] q p by (auto simp: queues_ok_def popped_def)
  ultimately show ?thesis unfolding queues_ok_def by blast
qed

definition advanced :: "nat \<Rightarrow> Request \<Rightarrow> (nat \<Rightarrow> repo lambda) \<Rightarrow> (nat \<Rightarrow> repo lambda) \<Rightarrow> bool" where
  "advanced k q la la' \<longleftrightarrow>
     repo_view (la_store (la' k)) = apply_req q (repo_view (la_store (la k))) \<and> (\<forall>j. j \<noteq> k \<longrightarrow> la' j = la j)"

lemma popped_view:
  assumes p: "popped k r px px'" and q: "queues_ok px" and la: "advanced k (reqs (px_store px) r) la la'"
  shows "view la' px' j = view la px j" "x \<in> set (waiting j px') \<Longrightarrow> expects la' px' j x = expects la px j x"
proof -
  note w = popped_waiting [OF p] and rest = popped_rest [OF p q]
  have e: "effect (reqs (px_store px')) (waiting j px') m = effect (reqs (px_store px)) (waiting j px') m"
      "expected (reqs (px_store px')) x (waiting j px') m = expected (reqs (px_store px)) x (waiting j px') m" for m
    using rest(3) by (intro effect_cong expected_cong; blast)+
  show "view la' px' j = view la px j" using e(1) la w by (cases "j = k") (simp_all add: view_def advanced_def)
  assume x: "x \<in> set (waiting j px')"
  show "expects la' px' j x = expects la px j x" using e(2) la w rest(1) [OF x] by (cases "j = k") (simp_all add: expects_def advanced_def)
qed

lemma gets_ok_popped:
  assumes g: "gets_ok la px G" and p: "popped k r px px'" and q: "queues_ok px" and la: "advanced k (reqs (px_store px) r) la la'"
  shows "gets_ok la' px' (G(r := None))"
proof -
  have "get_bound la' px' j x ((G(r := None)) x)" if x: "x \<in> set (waiting j px')" for j x
    using g popped_rest [OF p q x] popped_view(2) [OF p q la x] by (simp add: gets_ok_def get_bound_def)
  then show ?thesis using g p by (simp add: gets_ok_def popped_def)
qed

lemma round_effect:
  assumes R: "reader_ok R fr" and feed: "\<And>fs r. fr (feed fs r) = fr r @ fs"
    and q: "queues_ok (sy_proxy sys)" and w: "wired fr sys"
    and head: "in_chanReq (instances (px_store (sy_proxy sys)) k) = CmdRequest r # cmds"
    and get: "rq_Cmd (reqs (px_store (sy_proxy sys)) r) = ''get'' \<Longrightarrow>
       \<exists>b. repo_view (la_store (sy_lambda sys k)) (rq_Key (reqs (px_store (sy_proxy sys)) r)) = Some (ChunkId (rq_Id (reqs (px_store (sy_proxy sys)) r)), b)"
    and some: "serve_round E Q R feed f mem clk k sys \<noteq> None"
  shows "\<exists>sys' as. serve_round E Q R feed f mem clk k sys = Some (Inr sys') \<and> popped k r (sy_proxy sys) (sy_proxy sys') \<and> wired fr sys' \<and>
     advanced k (reqs (px_store (sy_proxy sys)) r) (sy_lambda sys) (sy_lambda sys') \<and>
     answered (px_store (sy_proxy sys')) = answered (px_store (sy_proxy sys)) @ as \<and> length as \<le> 1 \<and>
     (\<forall>(ch, a) \<in> set as. carries (if rq_Cmd (reqs (px_store (sy_proxy sys)) r) = ''get''
        then map_option snd (repo_view (la_store (sy_lambda sys k)) (rq_Key (reqs (px_store (sy_proxy sys)) r))) else None) a)"
proof -
  define st where "st = px_store (sy_proxy sys)"
  let ?q = "reqs st r" and ?la = "sy_lambda sys k"
  have ok: "request_ok ?q" unfolding st_def by (rule waiting_head [OF q head])
  obtain c where c: "in_cn (instances st k) = Some c"
    using some by (auto simp: serve_round_def st_def Let_def split: option.splits)
  have cw: "cn_instance (conns st c) = Some k" "fr (cn_r (conns st c)) = []" "source_ok ?la" using w c by (auto simp: wired_def st_def)
  define st0 where "st0 = upd_inst k (\<lambda>ins. ins\<lparr>in_chanReq := cmds\<rparr>) st"
  have st0: "reqs st0 = reqs st" "conns st0 = conns st" by (simp_all add: st0_def)
  obtain go st1 where s1: "serve_command k (\<lambda>_. (Some c, \<lambda>_. None)) (CmdRequest r) st0 = Some (Inr (go, st1))"
    using some head c serve_command_no_panic [of st0 r k c] ok
    by (auto simp: serve_round_def HandleRequests_def st_def [symmetric] st0_def [symmetric] st0 Let_def split: option.splits sum.splits)
  obtain ws q1 where W: "frames ws = request_frames ?q" "same_request ?q q1" "reqs st1 = (reqs st)(r := q1)"
      "conns st1 = (conns st)(c := (conns st c)\<lparr>cn_w := cn_w (conns st c) @ ws, cn_chanWait := [r]\<rparr>)"
      "answered st1 = answered st0" "same_wiring st0 st1"
    using serve_command_writes [OF _ s1] ok by (auto simp: st0)
  obtain la' vs where L: "serve_frames f mem clk (request_frames ?q) ?la = Inr (la', vs)" "source_ok la'"
      "repo_view (la_store la') = apply_req ?q (repo_view (la_store ?la))" "reply_ok (repo_view (la_store ?la)) ?q (frames vs)"
    using lambda_replies [OF cw(3) ok, of f mem clk] get unfolding st_def by blast
  define st2 where "st2 = upd_conn c (\<lambda>cn. cn\<lparr>cn_r := feed (frames vs) (cn_r cn)\<rparr>) st1"
  have st2: "reqs st2 r = q1" "cn_chanWait (conns st2 c) = [r]" "cn_instance (conns st2 c) = Some k" "fr (cn_r (conns st2 c)) = frames vs"
    using W(3,4) cw feed by (simp_all add: st2_def)
  obtain st3 as where F: "serve_once E Q R False c st2 = Inr (True, st3)" "finished fr c r as st2 st3" "length as \<le> 1"
      "\<forall>(ch, a) \<in> set as. carries (if rq_Cmd q1 = ''get'' then map_option snd (repo_view (la_store ?la) (rq_Key q1)) else None) a"
    using reply_finishes [OF R _ _ st2(2,3), of "repo_view (la_store ?la)" E Q] st2 L(4) reply_ok_same [OF W(2)] request_ok_same [OF W(2)] ok
    by auto
  let ?sys = "sys\<lparr>sy_proxy := (sy_proxy sys)\<lparr>px_store := st3\<rparr>, sy_lambda := (sy_lambda sys)(k := la')\<rparr>"
  have run: "serve_round E Q R feed f mem clk k sys = Some (Inr ?sys)"
    using head c s1 W(1,4) L(1) F(1)
    by (simp add: serve_round_def HandleRequests_def st_def [symmetric] st0_def [symmetric] st0 Let_def) (simp add: st2_def)
  have "same_wiring st1 st2" unfolding st2_def by (rule same_wiring_upd_conn) simp
  moreover have "same_wiring st2 st3" using F(2) by (simp add: finished_def)
  ultimately have wir: "same_wiring st0 st3" using W(6) same_wiring_trans by blast
  have other: "\<forall>x. x \<noteq> r \<longrightarrow> reqs st3 x = reqs st x" "\<forall>x. x \<noteq> c \<longrightarrow> conns st3 x = conns st x" "fr (cn_r (conns st3 c)) = []"
    using F(2) W(3,4) by (simp_all add: finished_def st2_def)
  have inst: "\<forall>j. in_chanReq (instances st3 j) = (if j = k then cmds else in_chanReq (instances st j)) \<and> in_cn (instances st3 j) = in_cn (instances st j)"
      "\<forall>x. cn_instance (conns st3 x) = cn_instance (conns st x)"
    using wir by (simp_all add: same_wiring_def st0_def)
  have pop: "popped k r (sy_proxy sys) (sy_proxy ?sys)"
    using inst(1) other(1) head by (simp add: popped_def queue_def st_def)
  have "wired fr ?sys"
    unfolding wired_def
  proof (intro allI impI)
    fix j d assume "in_cn (instances (px_store (sy_proxy ?sys)) j) = Some d"
    then have "in_cn (instances st j) = Some d" using inst(1) by simp
    then have "cn_instance (conns st d) = Some j" "fr (cn_r (conns st d)) = []" "source_ok (sy_lambda sys j)"
      using w by (auto simp: wired_def st_def)
    then show "cn_instance (conns (px_store (sy_proxy ?sys)) d) = Some j \<and> fr (cn_r (conns (px_store (sy_proxy ?sys)) d)) = [] \<and>
        source_ok (sy_lambda ?sys j)"
      using inst(2) other(2,3) L(2) by (cases "d = c") auto
  qed
  moreover have "advanced k ?q (sy_lambda sys) (sy_lambda ?sys)" using L(3) by (simp add: advanced_def)
  moreover have "answered st3 = answered st @ as" using F(2) W(5) by (simp add: finished_def st2_def st0_def)
  moreover have "rq_Cmd q1 = rq_Cmd ?q" "rq_Key q1 = rq_Key ?q" using W(2) by (simp_all add: same_request_def)
  note F(4) [unfolded this]
  ultimately show ?thesis
    unfolding st_def [symmetric] using run pop F(3) by (intro exI [of _ ?sys] exI [of _ as] conjI) simp_all
qed

lemma round_sim:
  assumes R: "reader_ok R fr" and feed: "\<And>fs r. fr (feed fs r) = fr r @ fs" and sim: "sim H fr n sys (M, G)"
    and head: "in_chanReq (instances (px_store (sy_proxy sys)) k) = CmdRequest r # cmds"
    and some: "serve_round E Q R feed f mem clk k sys \<noteq> None"
  shows "\<exists>sys' as. serve_round E Q R feed f mem clk k sys = Some (Inr sys') \<and>
     answered (px_store (sy_proxy sys')) = answered (px_store (sy_proxy sys)) @ as \<and>
     spec_step (M, G) (EvServed r as) (M, G(r := None)) \<and> sim H fr n sys' (M, G(r := None))"
proof -
  let ?px = "sy_proxy sys" and ?la = "sy_lambda sys"
  let ?q = "reqs (px_store ?px) r" and ?m = "repo_view (la_store (?la k))"
  note inv = simD [OF sim]
  have "r \<in> set (waiting k ?px)" "expects ?la ?px k r = (if rq_Cmd ?q = ''get'' then ?m (rq_Key ?q) else None)"
    using head by (simp_all add: waiting_def queue_def map_filter_def expects_def)
  then have g: "rq_Cmd ?q = ''get'' \<longrightarrow> (\<exists>b. ?m (rq_Key ?q) = Some (ChunkId (rq_Id ?q), b) \<and> G r = Some b)" "rq_Cmd ?q \<noteq> ''get'' \<longrightarrow> G r = None"
    using inv(7) by (fastforce simp: gets_ok_def get_bound_def)+
  then have gr: "(if rq_Cmd ?q = ''get'' then map_option snd (?m (rq_Key ?q)) else None) = G r" by auto
  obtain sys' as where S: "serve_round E Q R feed f mem clk k sys = Some (Inr sys')" "popped k r ?px (sy_proxy sys')" "wired fr sys'"
      "advanced k ?q ?la (sy_lambda sys')" "answered (px_store (sy_proxy sys')) = answered (px_store ?px) @ as" "length as \<le> 1" "\<forall>(ch, a) \<in> set as. carries (G r) a"
    using round_effect [OF R feed inv(3,4) head _ some] g(1) unfolding gr by blast
  note V = popped_view(1) [OF S(2) inv(3) S(4)]
  have p: "px_placer (sy_proxy sys') = px_placer ?px" using S(2) by (simp add: popped_def)
  have "sys_inv H fr n sys'"
    using inv popped_queues_ok [OF S(2) inv(3)] S(3) V p by (simp add: sys_inv_def placed_ok_def)
  moreover have "cache H sys' = M" using inv(6) V p by (simp add: cache_def)
  moreover have "gets_ok (sy_lambda sys') (sy_proxy sys') (G(r := None))" by (rule gets_ok_popped [OF inv(7) S(2) inv(3) S(4)])
  moreover have "spec_step (M, G) (EvServed r as) (M, G(r := None))" by (rule SpecServed) (use S(6,7) in auto)
  ultimately show ?thesis using S(1,5) by (auto simp: sim_def)
qed

end
