(* ===== verification/CacheRuns.thy ===== *)
theory CacheRuns
  imports CacheRound
begin

text \<open>
  Runs of the cache: every run of the system is a run of the specification, so what a GET delivers is what the last SET
  of its chunk stored before the handler of the GET ran.
\<close>

section \<open>Runs\<close>

inductive run_of :: "('s \<Rightarrow> 'e \<Rightarrow> 's \<Rightarrow> bool) \<Rightarrow> 's \<Rightarrow> 'e list \<Rightarrow> 's \<Rightarrow> bool" for step where
  run_nil: "run_of step s [] s"
| run_snoc: "run_of step s es t \<Longrightarrow> step t e u \<Longrightarrow> run_of step s (es @ [e]) u"

lemma run_one: "step s e t \<Longrightarrow> run_of step s [e] t"
  using run_snoc [OF run_nil, of step s e t] by simp

inductive_cases run_snocE: "run_of step s (es @ [e]) u"

lemma run_prefix: "run_of step s (es @ e # fs) u \<Longrightarrow> \<exists>t v. run_of step s es t \<and> step t e v"
proof (induction fs arbitrary: u rule: rev_induct)
  case Nil
  then show ?case by (auto elim!: run_snocE)
next
  case (snoc x fs)
  then obtain t where "run_of step s (es @ e # fs) t" using run_snocE [of step s "es @ e # fs" x u] by auto
  then show ?case using snoc.IH by blast
qed

lemma runs_simulate:
  assumes "run_of cstep s es t" and "rel s a" and "\<And>s a e t. rel s a \<Longrightarrow> cstep s e t \<Longrightarrow> \<exists>b. astep a e b \<and> rel t b"
  shows "\<exists>b. run_of astep a es b \<and> rel t b"
  using assms(1,2)
proof (induction rule: run_of.induct)
  case (run_nil s)
  then show ?case by (blast intro: run_of.intros)
next
  case (run_snoc s es t e u)
  then obtain b where "run_of astep a es b" "rel t b" by blast
  then show ?case using assms(3) [OF _ run_snoc.hyps(2)] run_of.run_snoc by metis
qed

section \<open>What the specification promises\<close>

definition last_write :: "chunk_name \<Rightarrow> event list \<Rightarrow> bytes option" where
  "last_write x es = fold (\<lambda>e w. case e of EvSet y b \<Rightarrow> if y = x then Some b else w | _ \<Rightarrow> w) es None"

lemma last_write_snoc: "last_write x (es @ [e]) = (case e of EvSet y b \<Rightarrow> if y = x then Some b else last_write x es | _ \<Rightarrow> last_write x es)"
  by (simp add: last_write_def split: event.splits)

definition read_by :: "event list \<Rightarrow> nat \<Rightarrow> bytes \<Rightarrow> bool" where
  "read_by es r b \<longleftrightarrow> (\<exists>x pre post. es = pre @ EvGet x r # post \<and> last_write x pre = Some b)"

lemma read_by_snoc: "read_by es r b \<Longrightarrow> read_by (es @ [e]) r b"
  by (auto simp: read_by_def) (metis append_Cons append_assoc)

lemma spec_reads:
  assumes "run_of spec_step (Map.empty, Map.empty) es (M, G)"
  shows "(\<forall>x b. M x = Some b \<longrightarrow> last_write x es = Some b) \<and> (\<forall>r b. G r = Some b \<longrightarrow> read_by es r b)"
  using assms
proof (induction "(Map.empty, Map.empty) :: cache_spec" es "(M, G)" arbitrary: M G rule: run_of.induct)
  case (run_snoc es t e)
  obtain N F where t: "t = (N, F)" by (cases t)
  then have IH: "\<And>x b. N x = Some b \<Longrightarrow> last_write x es = Some b" "\<And>r b. F r = Some b \<Longrightarrow> read_by es r b"
    using run_snoc.hyps(2) by auto
  have step: "spec_step (N, F) e (M, G)" using run_snoc.hyps(3) t by simp
  have new: "read_by (es @ [EvGet x r]) r b" if "N x = Some b" for x r b
    using IH(1) [OF that] unfolding read_by_def by blast
  from step show ?case
  proof cases
    case (SpecSet x b)
    have "last_write y (es @ [e]) = Some c" if "M y = Some c" for y c
      using that SpecSet(1,3) SpecSet(4) [of y] IH(1) [of y c] by (cases "y = x") (auto simp: last_write_snoc)
    then show ?thesis using IH(2) SpecSet(2) read_by_snoc by blast
  next
    case (SpecGet x b r)
    then show ?thesis using IH new by (auto simp: last_write_snoc read_by_snoc split: if_splits)
  next
    case (SpecMiss x)
    then show ?thesis using IH by (auto simp: last_write_snoc read_by_snoc)
  next
    case (SpecServed as r)
    then show ?thesis using IH by (auto simp: last_write_snoc read_by_snoc split: if_splits)
  qed
qed auto

lemma spec_serves:
  assumes "run_of spec_step (Map.empty, Map.empty) (pre @ EvServed r as # post) u" and "(ch, Answer rsp) \<in> set as" and "rs_BodyStream rsp = Some st"
  shows "\<exists>b. st_ReadAll st = Inr b \<and> read_by pre r b"
proof -
  obtain t v where t: "run_of spec_step (Map.empty, Map.empty) pre t" "spec_step t (EvServed r as) v"
    using run_prefix [OF assms(1)] by blast
  obtain M G where mg: "t = (M, G)" by (cases t)
  have "carries (G r) (Answer rsp)" using t(2) assms(2) mg by (auto elim: spec_servedE)
  then obtain b where "G r = Some b" "st_ReadAll st = Inr b" using assms(3) by (auto simp: carries_def)
  then show ?thesis using spec_reads t(1) mg by blast
qed

text \<open>A chunk that was stored is missed only when a SET of another chunk came in between.\<close>

lemma spec_forgets:
  assumes "run_of spec_step s (pre @ EvSet x b # post) (M, G)" and "M x = None"
  shows "\<exists>y v. y \<noteq> x \<and> EvSet y v \<in> set post"
  using assms
proof (induction post arbitrary: M G rule: rev_induct)
  case Nil
  then show ?case by (auto elim!: run_snocE elim: spec_step.cases)
next
  case (snoc e post)
  obtain N F where t: "run_of spec_step s (pre @ EvSet x b # post) (N, F)" "spec_step (N, F) e (M, G)"
    using run_snocE [of spec_step s "pre @ EvSet x b # post" e "(M, G)"] snoc.prems(1) by auto
  from t(2) show ?case
  proof cases
    case (SpecSet y v)
    then have "y \<noteq> x" using snoc.prems(2) by auto
    then show ?thesis using SpecSet(1) by (intro exI [of _ y] exI [of _ v]) simp
  qed (use snoc t(1) in \<open>fastforce+\<close>)
qed

lemma spec_misses:
  assumes "run_of spec_step s (pre @ EvSet x b # post @ EvMiss x # rest) u"
  shows "\<exists>y v. y \<noteq> x \<and> EvSet y v \<in> set post"
proof -
  obtain t v where t: "run_of spec_step s (pre @ EvSet x b # post) t" "spec_step t (EvMiss x) v"
    using run_prefix [of spec_step s "pre @ EvSet x b # post" "EvMiss x" rest u] assms by auto
  obtain M G where mg: "t = (M, G)" by (cases t)
  then have "M x = None" using t(2) by (auto elim: spec_step.cases)
  then show ?thesis using spec_forgets t(1) mg by blast
qed

section \<open>Runs of the system\<close>

definition fresh_system :: "('m, string, addr) hashmap \<Rightarrow> LMeta Group \<Rightarrow> ('r \<Rightarrow> frame list) \<Rightarrow> ('m, 'q, 'r) system \<Rightarrow> bool" where
  "fresh_system H g fr sys \<longleftrightarrow>
     px_placer (sy_proxy sys) = NewPlacer H g \<and> (\<forall>k. queue k (sy_proxy sys) = []) \<and> wired fr sys"

lemma fresh_sim:
  assumes "hashmap_ok H" and "insts_wf g" and "fresh_system H g fr sys"
  shows "sim H fr n sys (Map.empty, Map.empty)"
proof -
  have "route H (NewPlacer H g) key c = None" "named_ok H (NewPlacer H g)" for key c
    using assms(1) by (simp_all add: route_def named_ok_def NewPlacer_def hashmap_ok_def)
  then show ?thesis
    using assms placer_inv_NewPlacer [OF assms(1,2), of n]
    by (simp add: sim_def sys_inv_def fresh_system_def queues_ok_def waiting_def map_filter_def placed_ok_def cache_def gets_ok_def fun_eq_iff)
qed

lemma sys_step_sim:
  assumes "reader_ok R fr" and "\<And>fs r. fr (feed fs r) = fr r @ fs" and "hashmap_ok H" and "n \<le> 100"
    and "sim H fr n sys a" and "sys_step H Q E R feed f mem n sys e sys'"
  shows "\<exists>b. spec_step a e b \<and> sim H fr n sys' b"
proof -
  obtain M G where a: "a = (M, G)" by (cases a)
  have sim: "sim H fr n sys (M, G)" using assms(5) a by simp
  from assms(6) show ?thesis
  proof cases
    case (SysSet now choice uuid c ws px b)
    then show ?thesis using set_step_sim [OF assms(3,4) sim SysSet(3-6)] a by blast
  next
    case (SysGet now c ws px)
    then show ?thesis using get_step_sim [OF sim SysGet(3-6)] a by blast
  next
    case (SysServe clk k r cmds as)
    then have "serve_round E Q R feed f mem clk k sys \<noteq> None" by simp
    from round_sim [OF assms(1,2) sim SysServe(3) this] SysServe show ?thesis using a by auto
  qed
qed

lemma cache_runs:
  assumes "reader_ok R fr" and "\<And>fs r. fr (feed fs r) = fr r @ fs" and "hashmap_ok H" and "n \<le> 100" and "insts_wf g"
    and "fresh_system H g fr sys" and "run_of (sys_step H Q E R feed f mem n) sys es sys'"
  shows "\<exists>b. run_of spec_step (Map.empty, Map.empty) es b \<and> sim H fr n sys' b"
  using runs_simulate [OF assms(7), of "sim H fr n" "(Map.empty, Map.empty)" spec_step]
    fresh_sim [OF assms(3,5,6)] sys_step_sim [OF assms(1-4)] by blast

text \<open>A request at the head of a queue is served when nothing waits on the connection of its instance.\<close>

lemma round_possible:
  assumes "queues_ok (sy_proxy sys)" and "in_chanReq (instances (px_store (sy_proxy sys)) k) = CmdRequest r # cmds"
    and "in_cn (instances (px_store (sy_proxy sys)) k) = Some c" and "cn_chanWait (conns (px_store (sy_proxy sys)) c) = []"
  shows "serve_round E Q R feed f mem clk k sys \<noteq> None"
proof -
  have ok: "request_ok (reqs (px_store (sy_proxy sys)) r)" by (rule waiting_head [OF assms(1,2)])
  let ?s = "upd_inst k (\<lambda>ins. ins\<lparr>in_chanReq := cmds\<rparr>) (px_store (sy_proxy sys))"
  have "\<exists>m. map (\<lambda>_. (Some c, \<lambda>_. None)) [0..<if cmd_Retriable (CmdRequest r) ?s then MAX_RETRY else 1] = (Some c, \<lambda>_. None :: error option) # m"
    by (rule attempts_list)
  then have "\<exists>x. serve_command k (\<lambda>_. (Some c, \<lambda>_. None)) (CmdRequest r) ?s = Some (Inr x)"
    using prepare_writes [OF ok] assms(4)
    by (auto simp: serve_command_def handleRequest_def handle_client_request_def request_cmd [OF ok] Let_def)
  then show ?thesis using assms(2,3) by (auto simp: serve_round_def HandleRequests_def Let_def split: sum.splits)
qed

text \<open>The handler of a GET returns in every state of the simulation.\<close>

lemma get_possible:
  assumes "sim H fr n sys a" and "0 \<le> cc_chunk c" and "cc_chunk c < int n"
  shows "\<exists>ws px. HandleGet H Q now c (sy_proxy sys) = Inr (ws, px)"
proof -
  have inv: "placer_inv H n (px_placer (sy_proxy sys))" using assms(1) by (auto simp: sim_def sys_inv_def)
  show ?thesis
  proof (cases "route H (px_placer (sy_proxy sys)) (cc_key c) (cc_chunk c)")
    case None
    show ?thesis using HandleGet_misses [OF inv None assms(2,3), of Q now] by metis
  next
    case (Some k)
    then obtain meta where m: "hm_Get H (metaMap (px_placer (sy_proxy sys))) (cc_key c) = Some meta"
        "chunk_ready meta (cc_chunk c) (px_placer (sy_proxy sys))"
      using route_SomeD [OF Some] by blast
    show ?thesis using HandleGet_routes [OF inv m assms(2,3), of Q now] by metis
  qed
qed

text \<open>
  Whatever the order of the steps, the system shows the map of the specification, and it is not stuck: a GET is accepted,
  and a request at the head of the queue of a connected instance is answered as the specification allows, unless another
  request still waits on the connection.
\<close>

definition not_stuck ::
    "('m, string, addr) hashmap \<Rightarrow> ('q, string, nat) hashmap \<Rightarrow> lambda_env \<Rightarrow> 'r resp_reader \<Rightarrow> (frame list \<Rightarrow> 'r \<Rightarrow> 'r) \<Rightarrow>
     (repo \<Rightarrow> Chunk list) \<Rightarrow> int \<Rightarrow> nat \<Rightarrow> ('m, 'q, 'r) system \<Rightarrow> cache_spec \<Rightarrow> bool" where
  "not_stuck H Q E R feed f mem n sys a \<longleftrightarrow>
     (\<forall>c :: client_cmd. 0 \<le> cc_chunk c \<and> cc_chunk c < int n \<and> ToLower (cc_Name c) = ''get'' \<longrightarrow>
        (\<exists>e sys'. (e = EvMiss (cc_key c, cc_chunk c) \<or> e = EvGet (cc_key c, cc_chunk c) (px_nextReq (sy_proxy sys))) \<and>
           sys_step H Q E R feed f mem n sys e sys')) \<and>
     (\<forall>k r cmds c. in_chanReq (instances (px_store (sy_proxy sys)) k) = CmdRequest r # cmds \<and>
        in_cn (instances (px_store (sy_proxy sys)) k) = Some c \<and> cn_chanWait (conns (px_store (sy_proxy sys)) c) = [] \<longrightarrow>
        (\<exists>as a' sys'. sys_step H Q E R feed f mem n sys (EvServed r as) sys' \<and> spec_step a (EvServed r as) a'))"

lemma sim_not_stuck:
  assumes "reader_ok R fr" and "\<And>fs r. fr (feed fs r) = fr r @ fs" and "sim H fr n sys a"
  shows "not_stuck H Q E R feed f mem n sys a"
  unfolding not_stuck_def
proof (intro conjI allI impI)
  fix c :: client_cmd assume c: "0 \<le> cc_chunk c \<and> cc_chunk c < int n \<and> ToLower (cc_Name c) = ''get''"
  then obtain ws px where "HandleGet H Q 0 c (sy_proxy sys) = Inr (ws, px)" using get_possible [OF assms(3)] by blast
  from SysGet [OF this] c show "\<exists>e sys'. (e = EvMiss (cc_key c, cc_chunk c) \<or> e = EvGet (cc_key c, cc_chunk c) (px_nextReq (sy_proxy sys))) \<and>
      sys_step H Q E R feed f mem n sys e sys'"
    by (fastforce split: if_splits)
next
  fix k r cmds c
  assume h: "in_chanReq (instances (px_store (sy_proxy sys)) k) = CmdRequest r # cmds \<and>
    in_cn (instances (px_store (sy_proxy sys)) k) = Some c \<and> cn_chanWait (conns (px_store (sy_proxy sys)) c) = []"
  obtain M G where a: "a = (M, G)" by (cases a)
  then have sim: "sim H fr n sys (M, G)" using assms(3) by simp
  have "serve_round E Q R feed f mem (\<lambda>_. 0) k sys \<noteq> None" using round_possible simD(3) [OF sim] h by blast
  from round_sim [OF assms(1,2) sim conjunct1 [OF h] this] obtain sys' as where
    "serve_round E Q R feed f mem (\<lambda>_. 0) k sys = Some (Inr sys')"
    "answered (px_store (sy_proxy sys')) = answered (px_store (sy_proxy sys)) @ as"
    "spec_step (M, G) (EvServed r as) (M, G(r := None))"
    by blast
  then show "\<exists>as a' sys'. sys_step H Q E R feed f mem n sys (EvServed r as) sys' \<and> spec_step a (EvServed r as) a'"
    using SysServe h a by blast
qed

end
