(* ===== verification/ClientWire.thy ===== *)
theory ClientWire
  imports CacheRuns EcClient
begin

text \<open>
  The commands of the client on the wire and at the proxy: what \<open>set\<close> and \<open>get\<close> of \<open>src/client/ecRedis.go\<close> write is read by
  \<open>HandleSet\<close> and \<open>HandleGet\<close> of \<open>src/proxy/server/proxy.go\<close> as the chunk, the bytes and the counts the client meant, so the
  handlers make the steps of the specification.
\<close>

text \<open>The conversion of an argument reads what \<open>strconv.Itoa\<close> writes.\<close>

definition int_arg_ok :: "(string \<Rightarrow> int) \<Rightarrow> bool" where
  "int_arg_ok argInt \<longleftrightarrow> (\<forall>i. - (2 ^ 63) \<le> i \<longrightarrow> i < 2 ^ 63 \<longrightarrow> argInt (itoa i) = i)"

lemma int_arg_nat: "int_arg_ok argInt \<Longrightarrow> n < 2 ^ 62 \<Longrightarrow> argInt (itoa (int n)) = int n"
  by (simp add: int_arg_ok_def)

lemma well_framed_args: "well_framed fs as \<Longrightarrow> well_framed fs ss \<Longrightarrow> ss = as"
  using inj_map_eq_map [of FBulk ss as] by (auto simp: well_framed_def inj_def)

lemma set_calls_args:
  "well_framed (frames (set_calls S key val i l q c))
     [''set'', key, itoa (int i), itoa (int l), itoa (int S), q, itoa (int (kl_DataShards c)), itoa (int (kl_ParityShards c)), val]"
  by (simp add: well_framed_def set_calls_def NewInlineReader_def)

lemma get_calls_args:
  "well_framed (frames (get_calls key i q c))
     [''get'', key, itoa (int i), q, itoa (int (kl_DataShards c)), itoa (int (kl_ParityShards c))]"
  by (simp add: well_framed_def get_calls_def)

lemma client_set_command:
  assumes argInt: "int_arg_ok argInt" and n: "n = kl_DataShards c + kl_ParityShards c" "n < 2 ^ 62" and i: "i < n" "l < 2 ^ 62"
    and fs: "well_framed (frames (set_calls S key val i l q c)) (name # args @ [body])"
  shows "set_cmd_ok n (set_command argInt connId ch name args (Inr (NewInlineReader body)))"
    "cc_key (set_command argInt connId ch name args b) = key" "cc_chunk (set_command argInt connId ch name args b) = int i"
    "cc_reqId (set_command argInt connId ch name args b) = q" "name = ''set''" "body = val"
proof -
  have "name # args @ [body] =
    ''set'' # [key, itoa (int i), itoa (int l), itoa (int S), q, itoa (int (kl_DataShards c)), itoa (int (kl_ParityShards c))] @ [val]"
    using well_framed_args [OF set_calls_args fs] by simp
  then have a: "name = ''set''" "body = val"
      "args = [key, itoa (int i), itoa (int l), itoa (int S), q, itoa (int (kl_DataShards c)), itoa (int (kl_ParityShards c))]"
    by (simp_all only: list.inject append1_eq_conv)
  have "argInt (itoa (int i)) = int i" "argInt (itoa (int l)) = int l" "argInt (itoa (int (kl_DataShards c))) = int (kl_DataShards c)"
      "argInt (itoa (int (kl_ParityShards c))) = int (kl_ParityShards c)"
    using int_arg_nat [OF argInt] n i by auto
  then show "set_cmd_ok n (set_command argInt connId ch name args (Inr (NewInlineReader body)))"
      "cc_key (set_command argInt connId ch name args b) = key" "cc_chunk (set_command argInt connId ch name args b) = int i"
      "cc_reqId (set_command argInt connId ch name args b) = q" "name = ''set''" "body = val"
    using a n i by (simp_all add: set_command_def arg_at_def set_cmd_ok_def)
qed

lemma client_get_command:
  assumes argInt: "int_arg_ok argInt" and "i < 2 ^ 62"
    and fs: "well_framed (frames (get_calls key i q c)) (name # args)"
  shows "cc_key (get_command argInt connId ch name args) = key" "cc_chunk (get_command argInt connId ch name args) = int i"
    "cc_reqId (get_command argInt connId ch name args) = q" "name = ''get''"
  using well_framed_args [OF get_calls_args fs] int_arg_nat [OF argInt assms(2)] by (simp_all add: get_command_def arg_at_def)

lemma lower_names: "ToLower ''set'' = ''set''" "ToLower ''get'' = ''get''"
  by code_simp+

lemma client_set_step:
  assumes "int_arg_ok argInt" and "n = kl_DataShards c + kl_ParityShards c" and "n < 2 ^ 62" and "i < n" and "l < 2 ^ 62"
    and fs: "well_framed (frames (set_calls S key val i l q c)) (name # args @ [body])"
    and run: "HandleSet H now choice uuid (set_command argInt connId ch name args (Inr (NewInlineReader body))) (sy_proxy sys) = Some (Inr (ws, px))"
  shows "sys_step H Q E R feed f mem n sys (EvSet (key, int i) val) (sys\<lparr>sy_proxy := px\<rparr>)"
proof -
  note k = client_set_command [OF assms(1-5) fs]
  show ?thesis
    using SysSet [OF run k(1), of val] k(2,3,5,6) lower_names(1) by (simp add: set_command_def)
qed

lemma client_get_step:
  assumes "int_arg_ok argInt" and "i < n" and "n < 2 ^ 62"
    and fs: "well_framed (frames (get_calls key i q c)) (name # args)"
    and run: "HandleGet H Q now (get_command argInt connId ch name args) (sy_proxy sys) = Inr (ws, px)"
  shows "sys_step H Q E R feed f mem n sys (if ws = [] then EvGet (key, int i) (px_nextReq (sy_proxy sys)) else EvMiss (key, int i))
     (sys\<lparr>sy_proxy := px\<rparr>)"
proof -
  have "i < 2 ^ 62" using assms(2,3) by simp
  note k = client_get_command [OF assms(1) this fs]
  have "ToLower (cc_Name (get_command argInt connId ch name args)) = ''get''" using k(4) lower_names(2) by (simp add: get_command_def)
  note name = this
  show ?thesis by (rule SysGet [OF run _ _ name, unfolded k(1,2)]) (use assms(2) in simp_all)
qed

end
