(* ===== verification/ClientSet.thy ===== *)
theory ClientSet
  imports ClientWire
begin

text \<open>
  \<open>EcSet\<close> of \<open>src/client/ecRedis.go\<close> when the proxy answers: the answer to the SET of a chunk names the instance that stored it
  (\<open>setHandler\<close> of \<open>src/proxy/lambdastore/connection.go\<close>, \<open>HandleCallback\<close> of \<open>src/proxy/server/proxy.go\<close>), and the client returns
  the instances as placements.
\<close>

section \<open>The answer to a SET\<close>

definition set_reply :: "string \<Rightarrow> nat \<Rightarrow> int \<Rightarrow> Response \<Rightarrow> bool" where
  "set_reply reqId i k rsp \<longleftrightarrow>
     ReqId (rs_Id rsp) = reqId \<and> ChunkId (rs_Id rsp) = itoa (int i) \<and> rs_BodyStream rsp = None \<and> rs_Body rsp = Some (itoa k)"

lemma setHandler_replies:
  assumes "reader_ok R fr" and "fr (cn_r (conns s c)) = map FBulk [cid, ReqId (rq_Id (reqs s r)), ChunkId (rq_Id (reqs s r))]"
    and "cn_instance (conns s c) = Some k" and "cn_chanWait (conns s c) = [r]" and "\<not> rq_responded (reqs s r)" and "rq_Cmd (reqs s r) = ''set''"
    and "rq_ChanResponse (reqs s r) = Some ch" and "ChunkId (rq_Id (reqs s r)) = itoa (int i)"
  shows "\<exists>s' rsp. setHandler R c s = Inr s' \<and> answered s' = answered s @ [(ch, Answer rsp)] \<and>
     set_reply (ReqId (rq_Id (reqs s r))) i (uint (d_id (in_dep (instances s k)))) rsp"
  using setHandler_finishes [OF assms(1-6)] assms(7,8) by (fastforce simp: finished_def sent_to_def set_reply_def)

lemma set_reply_frames:
  assumes "set_reply reqId i k rsp"
  shows "callback_frames px ch [(ch, Answer rsp)] = chunk_answer reqId i (Some (itoa k))"
  using assms by (simp add: callback_frames_def HandleCallback_def PrepareFor_def Flush_rsp_def chunk_answer_def set_reply_def)

section \<open>Storing an object\<close>

text \<open>The connection for chunk \<open>i\<close> is open, and on it the proxy will answer the SET with the value \<open>v\<close>.\<close>

definition will_accept ::
    "'r knet \<Rightarrow> ('r \<Rightarrow> frame list) \<Rightarrow> nat \<Rightarrow> string \<Rightarrow> string \<Rightarrow> string \<Rightarrow> 'r EcClient \<Rightarrow> nat \<Rightarrow> bytes \<Rightarrow> nat \<Rightarrow> bytes \<Rightarrow> bool" where
  "will_accept N fr mx host key reqId c i val l v \<longleftrightarrow>
     i < length (kl_Conns c host) \<and> kt_oc N host i 0 = None \<and> kt_oc N host i 1 = None \<and>
     (\<exists>cn rest. kl_Conns c host ! i = Some cn \<and>
        fr (kt_peer N host i (frames (set_calls mx key val i l reqId c)) (kn_r cn)) = chunk_answer reqId i (Some v) @ rest)"

lemma cl_set_answer:
  assumes R: "reader_ok (kt_reader N) fr" and w: "will_accept N fr mx host key reqId c i val l v" and l: "i < length (er_Rets ret)"
  shows "\<exists>cs. cl_set N mx host key val i l reqId (c, ret) =
       Inr (c\<lparr>kl_Conns := (kl_Conns c)(host := cs)\<rparr>, ret\<lparr>er_Rets := (er_Rets ret)[i := Some (Inr v)]\<rparr>) \<and>
     length cs = length (kl_Conns c host) \<and> (\<forall>j. j \<noteq> i \<longrightarrow> cs ! j = kl_Conns c host ! j)"
proof -
  obtain cn rest where cn: "i < length (kl_Conns c host)" "kt_oc N host i 0 = None" "kt_oc N host i 1 = None" "kl_Conns c host ! i = Some cn"
      and fr: "fr (kt_peer N host i (frames (set_calls mx key val i l reqId c)) (kn_r cn)) = chunk_answer reqId i (Some v) @ rest"
    using w by (auto simp: will_accept_def)
  let ?ws = "set_calls mx key val i l reqId c @ [Flush]"
  have f: "frames ?ws = frames (set_calls mx key val i l reqId c)" by simp
  obtain r' where r': "rec_read (kt_reader N) reqId (kt_peer N host i (frames ?ws) (kn_r cn)) = (RcvValue v, r')"
    using rec_read_answer [OF R fr] f by auto
  let ?cn = "\<lparr>kn_r = kt_peer N host i (frames ?ws) (kn_r cn), kn_w = kn_w cn @ ?ws\<rparr>"
  show ?thesis
    using cn r' l
    by (intro exI [of _ "(kl_Conns c host)[i := Some (?cn\<lparr>kn_r := r'\<rparr>)]"])
       (auto simp: cl_set_def validate_conn_def get_conn_def kn_send_def put_conn_def cl_rec_def er_Set_def Let_def simp del: frames_simps)
qed

lemma set_calls_conns: "set_calls mx key val i l reqId (c\<lparr>kl_Conns := f\<rparr>) = set_calls mx key val i l reqId c"
  by (simp add: set_calls_def)

lemma set_all_answers:
  assumes R: "reader_ok (kt_reader N) fr" and "distinct is"
    and "\<forall>i \<in> set is. i < length shards \<and> shards ! i = Some (bodies i) \<and> i < length (er_Rets ret) \<and>
       will_accept N fr mx host key reqId c i (bodies i) (lam i) (vs i)"
  shows "\<exists>cs ret'. set_all N mx host key shards lam reqId is (c, ret) = Inr (c\<lparr>kl_Conns := (kl_Conns c)(host := cs)\<rparr>, ret') \<and>
     er_Err ret' = er_Err ret \<and> length (er_Rets ret') = length (er_Rets ret) \<and>
     (\<forall>j < length (er_Rets ret). er_Rets ret' ! j = (if j \<in> set is then Some (Inr (vs j)) else er_Rets ret ! j))"
  using assms(2-)
proof (induction "is" arbitrary: c ret)
  case Nil
  have "c = c\<lparr>kl_Conns := (kl_Conns c)(host := kl_Conns c host)\<rparr>" by simp
  then show ?case by (metis set_all.simps(1) list.set(1) empty_iff)
next
  case (Cons i "is")
  obtain cs where g: "cl_set N mx host key (bodies i) i (lam i) reqId (c, ret) =
       Inr (c\<lparr>kl_Conns := (kl_Conns c)(host := cs)\<rparr>, ret\<lparr>er_Rets := (er_Rets ret)[i := Some (Inr (vs i))]\<rparr>)"
     "length cs = length (kl_Conns c host)" "\<forall>j. j \<noteq> i \<longrightarrow> cs ! j = kl_Conns c host ! j"
    using cl_set_answer [OF R, of mx host key reqId c i "bodies i" "lam i" "vs i" ret] Cons.prems by auto
  let ?c = "c\<lparr>kl_Conns := (kl_Conns c)(host := cs)\<rparr>" and ?ret = "ret\<lparr>er_Rets := (er_Rets ret)[i := Some (Inr (vs i))]\<rparr>"
  have ni: "\<forall>j \<in> set is. j \<noteq> i" using Cons.prems(1) by auto
  have "\<forall>j \<in> set is. j < length shards \<and> shards ! j = Some (bodies j) \<and> j < length (er_Rets ?ret) \<and>
      will_accept N fr mx host key reqId ?c j (bodies j) (lam j) (vs j)"
    using Cons.prems(2) g(2,3) ni by (auto simp: will_accept_def set_calls_conns)
  then obtain cs' ret' where "set_all N mx host key shards lam reqId is (?c, ?ret) = Inr (?c\<lparr>kl_Conns := (kl_Conns ?c)(host := cs')\<rparr>, ret')"
     "er_Err ret' = er_Err ret" "length (er_Rets ret') = length (er_Rets ret)"
     "\<forall>j < length (er_Rets ret). er_Rets ret' ! j = (if j \<in> set is then Some (Inr (vs j)) else er_Rets ?ret ! j)"
    using Cons.IH [of ?ret ?c] Cons.prems(1) by (auto simp del: fun_upd_apply)
  then show ?case using g(1) Cons.prems(2)
    by (intro exI [of _ cs'] exI [of _ ret']) (auto simp: nth_list_update simp del: fun_upd_apply)
qed

lemma placed_values: "placed (map (\<lambda>v. Some (Inr v)) vs) = Inr (map Atoi_value vs)"
  by (induction vs) simp_all

lemma EcSet_stores:
  assumes R: "reader_ok (kt_reader N) fr" and enc: "encode (kl_EC c) obj = Inr (Inr (map Some bodies))" and n: "kl_Shards c = length bodies"
    and perm: "length bodies \<le> length (Perm mx)" and ring: "kl_Ring c \<noteq> None"
    and acc: "\<forall>i < length bodies. will_accept N fr mx (kt_Locate N key) key reqId c i (bodies ! i) (Perm mx ! i) (itoa (ids i))"
    and ids: "\<forall>i < length bodies. - (2 ^ 63) \<le> ids i \<and> ids i < 2 ^ 63"
  shows "\<exists>cs. EcSet N Perm mx reqId 0 (Some ps) key obj c =
     Inr ((True, if length bodies \<le> length ps then Some (map ids [0..<length bodies] @ drop (length bodies) ps) else None),
       c\<lparr>kl_Conns := (kl_Conns c)(kt_Locate N key := cs)\<rparr>)"
proof -
  let ?n = "length bodies" and ?host = "kt_Locate N key"
  obtain cs ret where s: "set_all N mx ?host key (map Some bodies) (\<lambda>i. take ?n (Perm mx) ! i) reqId [0..<?n] (c, newEcRet ?n) =
        Inr (c\<lparr>kl_Conns := (kl_Conns c)(?host := cs)\<rparr>, ret)" "er_Err ret = None" "length (er_Rets ret) = ?n"
      "\<forall>j < ?n. er_Rets ret ! j = Some (Inr (itoa (ids j)))"
    using set_all_answers [OF R, of "[0..<?n]" "map Some bodies" "\<lambda>i. bodies ! i" "newEcRet ?n" mx ?host key reqId c
        "\<lambda>i. take ?n (Perm mx) ! i" "\<lambda>i. itoa (ids i)"] acc
    by (auto simp: newEcRet_def)
  have rets: "er_Rets ret = map (\<lambda>v. Some (Inr v)) (map (\<lambda>i. itoa (ids i)) [0..<?n])" using s(3,4) by (intro nth_equalityI) auto
  have "placed (er_Rets ret) = Inr (map ids [0..<?n])"
    unfolding rets placed_values using ids by (simp add: Atoi_value_itoa)
  then show ?thesis
    using perm ring s by (intro exI [of _ cs]) (auto simp: EcSet_def random_def n enc Let_def)
qed

end
