(* ===== verification/ClientLog.thy ===== *)
theory ClientLog
  imports Resp
begin

text \<open>
  \<open>src/client/log.go\<close>: the benchmark log of the client on top of the package nanolog.  Creating the file and setting
  the writer of the package have outcomes; \<open>bl_nlogger\<close> is the function given to \<open>SetLogger\<close>, absent at first.
\<close>

datatype bench_handle = LogRec | LogDec | LogClient

record 'a bench_log =
  bl_writer :: "string option"
  bl_nlogger :: "(bench_handle \<Rightarrow> 'a list \<Rightarrow> error option) option"

definition bench_formats :: "bench_handle \<Rightarrow> string" where
  "bench_formats h =
     (case h of
        LogRec \<Rightarrow> ''chunk id is %i, '' @ ''Client send RECEIVE req timeStamp is %s '' @ ''Client Peek ChunkId time is %s'' @
          ''Client read ChunkId time is %s '' @ ''Client Peek chunkBody time is %s '' @ ''Client read chunkBody time is %s '' @
          ''RECEIVE goroutine duration time is %s ''
      | LogDec \<Rightarrow> ''DataStatus is %b, Decoding time is %s''
      | LogClient \<Rightarrow> ''%s,%s,%i64,%i64,%i64,%i64,%i64,%b,%b'')"

text \<open>An option that is missing or no string (\<open>Some None\<close>) fails the type assertion.\<close>

definition CreateLog ::
    "(string \<Rightarrow> string option option) \<Rightarrow> (string \<Rightarrow> error option) \<Rightarrow> (string \<Rightarrow> error option) \<Rightarrow> 'a bench_log \<Rightarrow> 'a bench_log res" where
  "CreateLog opts create setWriter bl =
     (case opts ''file'' of
        Some (Some file) \<Rightarrow>
          let path = file @ ''_bench.clog''
          in if create path \<noteq> None then Inl PanicCall
             else if setWriter path \<noteq> None then Inl PanicCall
             else Inr (bl\<lparr>bl_writer := Some path\<rparr>)
      | _ \<Rightarrow> Inl FailedTypeAssertion)"

definition FlushLog :: "error option \<Rightarrow> string list" where
  "FlushLog err = (case err of None \<Rightarrow> [] | Some e \<Rightarrow> [''log flush err''])"

definition SetLogger :: "(bench_handle \<Rightarrow> 'a list \<Rightarrow> error option) \<Rightarrow> 'a bench_log \<Rightarrow> 'a bench_log" where
  "SetLogger l bl = bl\<lparr>bl_nlogger := Some l\<rparr>"

text \<open>The result is the first argument, which is printed, and the outcome of the logger, which the caller drops.\<close>

definition nanoLog :: "bench_handle \<Rightarrow> 'a list \<Rightarrow> 'a bench_log \<Rightarrow> ('a \<times> error option) res" where
  "nanoLog handle args bl =
     bindR (index args 0) (\<lambda>a.
       case bl_nlogger bl of None \<Rightarrow> Inl NilDereference | Some l \<Rightarrow> Inr (a, l handle args))"

text \<open>The test for a logger is commented out: logging needs an argument and panics before \<open>SetLogger\<close>.\<close>

lemma nanoLog_returns: "(\<exists>x. nanoLog handle args bl = Inr x) \<longleftrightarrow> args \<noteq> [] \<and> bl_nlogger bl \<noteq> None"
  by (cases args) (auto simp: nanoLog_def index_def in_range_def split: option.splits)

lemma nanoLog_after_SetLogger: "nanoLog handle (a # args) (SetLogger l bl) = Inr (a, l handle (a # args))"
  by (simp add: nanoLog_def SetLogger_def index_def in_range_def)

end
