(* ===== verification/Loggers.thy ===== *)
theory Loggers
  imports Prelude
begin

text \<open>
  \<open>src/common/logger\<close>: the loggers the components are given.  A call of a logger is its formatted message; its
  result is the line printed, if any.  The package \<open>ansi\<close> that colours a line is a parameter.
\<close>

definition LOG_LEVEL_ALL :: int where "LOG_LEVEL_ALL = 0"
definition LOG_LEVEL_INFO :: int where "LOG_LEVEL_INFO = 1"
definition LOG_LEVEL_WARN :: int where "LOG_LEVEL_WARN = 2"
definition LOG_LEVEL_NONE :: int where "LOG_LEVEL_NONE = 3"

lemmas log_levels = LOG_LEVEL_ALL_def LOG_LEVEL_INFO_def LOG_LEVEL_WARN_def LOG_LEVEL_NONE_def

section \<open>Lines\<close>

abbreviation newline :: char where "newline \<equiv> CHR 0x0A"

fun split_lines :: "string \<Rightarrow> string list" where
  "split_lines [] = [[]]"
| "split_lines (c # cs) =
     (if c = newline then [] # split_lines cs
      else (case split_lines cs of l # ls \<Rightarrow> (c # l) # ls | [] \<Rightarrow> [[c]]))"

fun join_lines :: "string list \<Rightarrow> string" where
  "join_lines [] = []"
| "join_lines [l] = l"
| "join_lines (l # m # ls) = l @ newline # join_lines (m # ls)"

lemma split_lines_nonempty: "split_lines s \<noteq> []"
  by (induction s) (auto split: list.splits)

lemma join_lines_Cons: "ls \<noteq> [] \<Longrightarrow> join_lines (l # ls) = l @ newline # join_lines ls"
  by (cases ls) simp_all

lemma join_split_lines: "join_lines (split_lines s) = s"
proof (induction s)
  case (Cons c cs)
  obtain l ls where l: "split_lines cs = l # ls" using split_lines_nonempty [of cs] by (cases "split_lines cs") auto
  then show ?case using Cons.IH by (cases ls) auto
qed simp

section \<open>The loggers\<close>

record ColorLogger =
  lg_Verbose :: bool
  lg_Level :: int
  lg_Prefix :: string
  lg_Color :: bool

type_synonym ansi = "string \<Rightarrow> string \<Rightarrow> string"

definition log_msg :: "ansi \<Rightarrow> string \<Rightarrow> string \<Rightarrow> ColorLogger \<Rightarrow> string" where
  "log_msg ansi color msg lg =
     lg_Prefix lg @
     (if lg_Color lg \<and> color \<noteq> [] then join_lines (map (\<lambda>l. ansi l color) (split_lines msg)) else msg)"

definition log_Trace :: "ansi \<Rightarrow> string \<Rightarrow> ColorLogger \<Rightarrow> string option" where
  "log_Trace ansi msg lg = (if \<not> lg_Verbose lg then None else Some (log_msg ansi ''blue'' msg lg))"

definition log_Debug :: "ansi \<Rightarrow> string \<Rightarrow> ColorLogger \<Rightarrow> string option" where
  "log_Debug ansi msg lg = (if lg_Level lg > LOG_LEVEL_ALL then None else Some (log_msg ansi [] msg lg))"

definition log_Info :: "ansi \<Rightarrow> string \<Rightarrow> ColorLogger \<Rightarrow> string option" where
  "log_Info ansi msg lg = (if lg_Level lg > LOG_LEVEL_INFO then None else Some (log_msg ansi ''green'' msg lg))"

definition log_Warn :: "ansi \<Rightarrow> string \<Rightarrow> ColorLogger \<Rightarrow> string option" where
  "log_Warn ansi msg lg = (if lg_Level lg > LOG_LEVEL_WARN then None else Some (log_msg ansi ''yellow'' msg lg))"

definition log_Error :: "ansi \<Rightarrow> string \<Rightarrow> ColorLogger \<Rightarrow> string option" where
  "log_Error ansi msg lg = (if lg_Level lg > LOG_LEVEL_NONE then None else Some (log_msg ansi ''red'' msg lg))"

definition log_GetLevel :: "ColorLogger \<Rightarrow> int" where
  "log_GetLevel lg = lg_Level lg"

definition nil_log :: "string \<Rightarrow> string option" where
  "nil_log msg = None"

definition nil_GetLevel :: int where
  "nil_GetLevel = LOG_LEVEL_NONE"

lemmas log_defs = log_Debug_def log_Info_def log_Warn_def log_Error_def log_levels

text \<open>A message that is printed at one severity is printed at every higher one, and a colouring that leaves a
  line as it is leaves the message as it is, however many lines it has.\<close>

lemma log_monotone:
  "log_Debug ansi a lg \<noteq> None \<Longrightarrow> log_Info ansi b lg \<noteq> None"
  "log_Info ansi a lg \<noteq> None \<Longrightarrow> log_Warn ansi b lg \<noteq> None"
  "log_Warn ansi a lg \<noteq> None \<Longrightarrow> log_Error ansi b lg \<noteq> None"
  by (auto simp: log_defs)

lemma log_msg_plain: "(\<And>l. ansi l color = l) \<Longrightarrow> log_msg ansi color msg lg = lg_Prefix lg @ msg"
  by (simp add: log_msg_def join_split_lines)

end
