(* ===== verification/Forwarder.thy ===== *)
theory Forwarder
  imports HashMap Loggers Resp "HOL-Library.Sublist"
begin

text \<open>
  \<open>src/migrator/forward_connection.go\<close> and \<open>migrator.go\<close>: the server in the proxy that connects the two
  Lambdas of a migration and copies bytes in both directions.  A call of \<open>Read\<close> returns bytes and an optional
  error, a call of \<open>Write\<close> the number of bytes it took and an optional error.  The two goroutines \<open>pipe\<close> and
  closing interleave in \<open>fstep\<close>; what the two connections have been read and written is kept in the state.
\<close>

section \<open>Copying\<close>

record forwardConnection =
  fc_sentBytes :: uint64
  fc_receivedBytes :: uint64
  fc_closed :: bool
  fc_traceFormat :: string
  fc_Nagles :: bool
  fc_Debug :: bool
  fc_Binary :: bool

definition newForwardConnection :: forwardConnection where
  "newForwardConnection = \<lparr>fc_sentBytes = 0, fc_receivedBytes = 0, fc_closed = False, fc_traceFormat = [], fc_Nagles = False,
     fc_Debug = False, fc_Binary = False\<rparr>"

definition fc_close :: "forwardConnection \<Rightarrow> forwardConnection" where
  "fc_close f = (if fc_closed f then f else f\<lparr>fc_closed := True\<rparr>)"

definition fc_err :: "forwardConnection \<Rightarrow> forwardConnection" where
  "fc_err f = fc_close f"

definition count_bytes :: "bool \<Rightarrow> nat \<Rightarrow> forwardConnection \<Rightarrow> forwardConnection" where
  "count_bytes islocal n f =
     (if islocal then f\<lparr>fc_sentBytes := fc_sentBytes f + word_of_nat n\<rparr>
      else f\<lparr>fc_receivedBytes := fc_receivedBytes f + word_of_nat n\<rparr>)"

text \<open>The begin of \<open>forward\<close>: whether \<open>SetNoDelay\<close> is called on the two connections, and the connection.\<close>

definition forward_begin :: "forwardConnection \<Rightarrow> bool \<times> forwardConnection" where
  "forward_begin f = (fc_Nagles f, f\<lparr>fc_traceFormat := (if fc_Binary f then ''%x'' else ''%s'')\<rparr>)"

definition hex_digit :: "nat \<Rightarrow> char" where
  "hex_digit d = ''0123456789abcdef'' ! d"

definition hex_bytes :: "bytes \<Rightarrow> string" where
  "hex_bytes b = concat (map (\<lambda>c. [hex_digit (of_char c div 16), hex_digit (of_char c mod 16)]) b)"

text \<open>The messages that \<open>trace\<close> logs for a chunk of data.\<close>

definition fc_trace :: "bool \<Rightarrow> bytes \<Rightarrow> nat \<Rightarrow> forwardConnection \<Rightarrow> string list" where
  "fc_trace islocal b n f =
     (if \<not> fc_Debug f then []
      else let data = (if fc_traceFormat f = ''%x'' then hex_bytes b else b)
           in if islocal then [''>>> '' @ itoa (int n) @ '' bytes sent'', data]
              else [''<<< '' @ itoa (int n) @ '' bytes recieved'', data])"

lemma trace_after_begin:
  "fc_trace islocal b n (snd (forward_begin f)) =
     (if fc_Debug f then [if islocal then ''>>> '' @ itoa (int n) @ '' bytes sent'' else ''<<< '' @ itoa (int n) @ '' bytes recieved'',
        if fc_Binary f then hex_bytes b else b] else [])"
  by (simp add: fc_trace_def forward_begin_def)

text \<open>
  One round of \<open>pipe\<close>: the read returned \<open>(b, readErr)\<close>, \<open>wr\<close> is the outcome of writing \<open>b\<close>.  The result
  tells whether the loop goes on, what was handed to the destination and the state.
\<close>

definition pipe_round :: "bool \<Rightarrow> bytes \<times> error option \<Rightarrow> (bytes \<Rightarrow> nat \<times> error option) \<Rightarrow> forwardConnection
    \<Rightarrow> bool \<times> bytes \<times> forwardConnection" where
  "pipe_round islocal rd wr f =
     (let (b, readErr) = rd; n = length b
      in if readErr \<noteq> None \<and> fc_closed f then (False, [], f)
         else if readErr \<noteq> None \<and> \<not> (readErr = Some ErrEOF \<and> 0 < n) then (False, [], fc_err f)
         else
           let (k, writeErr) = wr b
           in if writeErr \<noteq> None then (False, take k b, fc_err f)
              else let f = count_bytes islocal k f
                   in if readErr \<noteq> None then (False, take k b, fc_close f) else (True, take k b, f))"

section \<open>Both directions\<close>

record fsys =
  fs_conn :: forwardConnection
  fs_lrun :: bool
  fs_rrun :: bool
  fs_lread :: bytes
  fs_rread :: bytes
  fs_lwritten :: bytes
  fs_rwritten :: bytes

definition fs_init :: fsys where
  "fs_init = \<lparr>fs_conn = snd (forward_begin newForwardConnection), fs_lrun = True, fs_rrun = True, fs_lread = [], fs_rread = [],
     fs_lwritten = [], fs_rwritten = []\<rparr>"

text \<open>A \<open>Write\<close> that takes fewer bytes than it was given returns an error.\<close>

definition writer_ok :: "(bytes \<Rightarrow> nat \<times> error option) \<Rightarrow> bool" where
  "writer_ok wr \<longleftrightarrow> (\<forall>b. fst (wr b) \<le> length b \<and> (snd (wr b) = None \<longrightarrow> fst (wr b) = length b))"

definition forward_local :: "bytes \<times> error option \<Rightarrow> (bytes \<Rightarrow> nat \<times> error option) \<Rightarrow> fsys \<Rightarrow> fsys" where
  "forward_local rd wr s =
     (let (go, out, f) = pipe_round True rd wr (fs_conn s)
      in s\<lparr>fs_conn := f, fs_lrun := go, fs_lread := fs_lread s @ fst rd, fs_rwritten := fs_rwritten s @ out\<rparr>)"

definition forward_remote :: "bytes \<times> error option \<Rightarrow> (bytes \<Rightarrow> nat \<times> error option) \<Rightarrow> fsys \<Rightarrow> fsys" where
  "forward_remote rd wr s =
     (let (go, out, f) = pipe_round False rd wr (fs_conn s)
      in s\<lparr>fs_conn := f, fs_rrun := go, fs_rread := fs_rread s @ fst rd, fs_lwritten := fs_lwritten s @ out\<rparr>)"

inductive fstep :: "fsys \<Rightarrow> fsys \<Rightarrow> bool" where
  LocalRound: "fs_lrun s \<Longrightarrow> writer_ok wr \<Longrightarrow> fstep s (forward_local rd wr s)"
| RemoteRound: "fs_rrun s \<Longrightarrow> writer_ok wr \<Longrightarrow> fstep s (forward_remote rd wr s)"
| CloseForward: "fstep s (s\<lparr>fs_conn := fc_close (fs_conn s)\<rparr>)"

text \<open>While a direction runs, what came out is what went in; afterwards it is a prefix.\<close>

definition forwarded :: "bool \<Rightarrow> bytes \<Rightarrow> bytes \<Rightarrow> bool" where
  "forwarded running inp out \<longleftrightarrow> (if running then out = inp else prefix out inp)"

definition fs_inv :: "fsys \<Rightarrow> bool" where
  "fs_inv s \<longleftrightarrow> forwarded (fs_lrun s) (fs_lread s) (fs_rwritten s) \<and> forwarded (fs_rrun s) (fs_rread s) (fs_lwritten s) \<and>
     (\<not> fs_lrun s \<or> \<not> fs_rrun s \<longrightarrow> fc_closed (fs_conn s)) \<and>
     (fs_lrun s \<longrightarrow> fc_sentBytes (fs_conn s) = word_of_nat (length (fs_rwritten s))) \<and>
     (fs_rrun s \<longrightarrow> fc_receivedBytes (fs_conn s) = word_of_nat (length (fs_lwritten s)))"

lemma pipe_round_ok:
  assumes "writer_ok wr" and "pipe_round islocal (b, e) wr f = (go, out, f')"
  shows "prefix out b" "go \<Longrightarrow> out = b \<and> f' = count_bytes islocal (length b) f" "\<not> go \<Longrightarrow> fc_closed f'"
    "fc_closed f \<Longrightarrow> fc_closed f'"
    "islocal \<Longrightarrow> fc_receivedBytes f' = fc_receivedBytes f" "\<not> islocal \<Longrightarrow> fc_sentBytes f' = fc_sentBytes f"
proof -
  obtain k w where w: "wr b = (k, w)" by (cases "wr b")
  have "w = None \<longrightarrow> k = length b" using assms(1) w unfolding writer_ok_def by (metis fst_conv snd_conv)
  then show "prefix out b" "go \<Longrightarrow> out = b \<and> f' = count_bytes islocal (length b) f" "\<not> go \<Longrightarrow> fc_closed f'"
    "fc_closed f \<Longrightarrow> fc_closed f'"
    "islocal \<Longrightarrow> fc_receivedBytes f' = fc_receivedBytes f" "\<not> islocal \<Longrightarrow> fc_sentBytes f' = fc_sentBytes f"
    using assms(2) take_is_prefix [of k b]
    by (auto simp: pipe_round_def w fc_err_def fc_close_def count_bytes_def Let_def split: if_splits)
qed

lemma fs_inv_step:
  assumes "fstep s s'" and "fs_inv s"
  shows "fs_inv s'"
  using assms
proof (cases rule: fstep.cases)
  case (LocalRound wr rd)
  obtain b e where rd: "rd = (b, e)" by (cases rd)
  obtain go out f where p: "pipe_round True (b, e) wr (fs_conn s) = (go, out, f)" by (cases "pipe_round True (b, e) wr (fs_conn s)") auto
  note r = pipe_round_ok [OF LocalRound(3) p]
  have "forwarded go (fs_lread s @ b) (fs_rwritten s @ out)"
    using assms(2) LocalRound(2) r(1,2) by (auto simp: fs_inv_def forwarded_def)
  moreover have "go \<longrightarrow> fc_sentBytes f = word_of_nat (length (fs_rwritten s @ out))"
    using assms(2) LocalRound(2) r(2) by (auto simp: fs_inv_def count_bytes_def)
  ultimately show ?thesis
    using assms(2) LocalRound(1,2) r p rd by (auto simp: fs_inv_def forward_local_def)
next
  case (RemoteRound wr rd)
  obtain b e where rd: "rd = (b, e)" by (cases rd)
  obtain go out f where p: "pipe_round False (b, e) wr (fs_conn s) = (go, out, f)" by (cases "pipe_round False (b, e) wr (fs_conn s)") auto
  note r = pipe_round_ok [OF RemoteRound(3) p]
  have "forwarded go (fs_rread s @ b) (fs_lwritten s @ out)"
    using assms(2) RemoteRound(2) r(1,2) by (auto simp: fs_inv_def forwarded_def)
  moreover have "go \<longrightarrow> fc_receivedBytes f = word_of_nat (length (fs_lwritten s @ out))"
    using assms(2) RemoteRound(2) r(2) by (auto simp: fs_inv_def count_bytes_def)
  ultimately show ?thesis
    using assms(2) RemoteRound(1,2) r p rd by (auto simp: fs_inv_def forward_remote_def)
next
  case CloseForward
  then show ?thesis using assms(2) by (auto simp: fs_inv_def fc_close_def)
qed

lemma fs_inv_reachable: "fstep\<^sup>*\<^sup>* fs_init s \<Longrightarrow> fs_inv s"
proof (induction rule: rtranclp_induct)
  case base
  then show ?case by (simp add: fs_inv_def fs_init_def forward_begin_def newForwardConnection_def forwarded_def)
next
  case (step s s')
  then show ?case using fs_inv_step by blast
qed

section \<open>The servers\<close>

text \<open>
  Servers and forwarding connections are heap objects; \<open>all\<close> registers the latest server of each port.
  \<open>sv_listener\<close> tells whether there is a listener.  \<open>Serve\<close> blocks in \<open>forward\<close> until the connection is closed,
  so it is split there into \<open>Serve_begin\<close> (the outcomes \<open>a1\<close> and \<open>a2\<close> of accepting the source and the destination;
  accepting on a nil listener is an error) and \<open>Serve_end\<close>; a call of \<open>Close\<close> may come between them.
\<close>

record Server =
  sv_port :: int
  sv_Addr :: string
  sv_Debug :: bool
  sv_log :: ColorLogger
  sv_LastError :: "error option"
  sv_listener :: bool
  sv_fconn :: "nat option"

record 'h migrators =
  mg_servers :: "Server list"
  mg_fconns :: "forwardConnection list"
  mg_all :: 'h

definition no_migrators :: "('h, int, nat) hashmap \<Rightarrow> 'h migrators" where
  "no_migrators H = \<lparr>mg_servers = [], mg_fconns = [], mg_all = hm_New H\<rparr>"

definition upd_server :: "nat \<Rightarrow> (Server \<Rightarrow> Server) \<Rightarrow> 'h migrators \<Rightarrow> 'h migrators" where
  "upd_server i f mg = mg\<lparr>mg_servers := (mg_servers mg)[i := f (mg_servers mg ! i)]\<rparr>"

definition getLoggerLevel :: "bool \<Rightarrow> int" where
  "getLoggerLevel debug = (if debug then LOG_LEVEL_ALL else LOG_LEVEL_INFO)"

definition server_log :: "int \<Rightarrow> bool \<Rightarrow> ColorLogger" where
  "server_log port debug =
     \<lparr>lg_Verbose = False, lg_Level = getLoggerLevel debug, lg_Prefix = ''Migrator '' @ itoa port @ '' '', lg_Color = True\<rparr>"

text \<open>The logger of a server is not verbose, so the messages of \<open>fc_trace\<close> are never printed, whatever \<open>Debug\<close> is.\<close>

lemma trace_not_printed: "log_Trace ansi msg (server_log port debug) = None"
  by (simp add: log_Trace_def server_log_def)

definition New_server :: "('h, int, nat) hashmap \<Rightarrow> int \<Rightarrow> bool \<Rightarrow> 'h migrators \<Rightarrow> nat \<times> 'h migrators" where
  "New_server H port debug mg =
     (length (mg_servers mg),
      mg\<lparr>mg_servers := mg_servers mg @ [\<lparr>sv_port = port, sv_Addr = CHR '':'' # itoa port, sv_Debug = debug, sv_log = server_log port debug,
                                         sv_LastError = None,
                                         sv_listener = False, sv_fconn = None\<rparr>],
         mg_all := hm_Set H (mg_all mg) port (length (mg_servers mg))\<rparr>)"

definition Listen :: "error option \<Rightarrow> Server \<Rightarrow> error option \<times> Server" where
  "Listen r srv =
     (case r of
        Some e \<Rightarrow> (Some e, srv\<lparr>sv_listener := False, sv_LastError := Some e\<rparr>)
      | None \<Rightarrow> (None, srv\<lparr>sv_listener := True\<rparr>))"

definition Close_server :: "nat \<Rightarrow> 'h migrators \<Rightarrow> 'h migrators" where
  "Close_server i mg =
     (let mg1 = (if sv_listener (mg_servers mg ! i) then upd_server i (\<lambda>srv. srv\<lparr>sv_listener := False\<rparr>) mg else mg)
      in case sv_fconn (mg_servers mg1 ! i) of
           None \<Rightarrow> mg1
         | Some f \<Rightarrow>
             upd_server i (\<lambda>srv. srv\<lparr>sv_fconn := None\<rparr>)
               (mg1\<lparr>mg_fconns := (mg_fconns mg1)[f := fc_close (mg_fconns mg1 ! f)]\<rparr>))"

text \<open>The result tells whether \<open>forward\<close> is entered; otherwise the deferred \<open>Close\<close> has run.\<close>

definition Serve_begin :: "error option \<Rightarrow> error option \<Rightarrow> nat \<Rightarrow> 'h migrators \<Rightarrow> bool \<times> 'h migrators" where
  "Serve_begin a1 a2 i mg =
     (case (if sv_listener (mg_servers mg ! i) then a1 else Some (ErrOther ''invalid argument'')) of
        Some e \<Rightarrow> (False, Close_server i (upd_server i (\<lambda>srv. srv\<lparr>sv_LastError := Some e\<rparr>) mg))
      | None \<Rightarrow>
          (case a2 of
             Some e \<Rightarrow> (False, Close_server i (upd_server i (\<lambda>srv. srv\<lparr>sv_LastError := Some e\<rparr>) mg))
           | None \<Rightarrow>
               (True, upd_server i (\<lambda>srv. srv\<lparr>sv_listener := False, sv_fconn := Some (length (mg_fconns mg))\<rparr>)
                        (mg\<lparr>mg_fconns := mg_fconns mg @ [snd (forward_begin (newForwardConnection\<lparr>fc_Debug := sv_Debug (mg_servers mg ! i)\<rparr>))]\<rparr>))))"

definition Serve_end :: "('h, int, nat) hashmap \<Rightarrow> nat \<Rightarrow> 'h migrators \<Rightarrow> 'h migrators" where
  "Serve_end H i mg =
     (let mg1 = upd_server i (\<lambda>srv. srv\<lparr>sv_fconn := None\<rparr>) mg;
          mg2 = mg1\<lparr>mg_all := hm_Del H (mg_all mg1) (sv_port (mg_servers mg1 ! i))\<rparr>
      in Close_server i mg2)"

definition CleanUp :: "('h, int, nat) hashmap \<Rightarrow> 'h migrators \<Rightarrow> 'h migrators" where
  "CleanUp H mg = fold Close_server (map snd (hm_Iter H (mg_all mg))) mg"

section \<open>Closing every server\<close>

definition migrators_wf :: "('h, int, nat) hashmap \<Rightarrow> 'h migrators \<Rightarrow> bool" where
  "migrators_wf H mg \<longleftrightarrow>
     (\<forall>port i. hm_Get H (mg_all mg) port = Some i \<longrightarrow> i < length (mg_servers mg) \<and> sv_port (mg_servers mg ! i) = port) \<and>
     (\<forall>srv \<in> set (mg_servers mg). \<forall>f. sv_fconn srv = Some f \<longrightarrow> f < length (mg_fconns mg))"

definition server_closed :: "Server \<Rightarrow> bool" where
  "server_closed srv \<longleftrightarrow> \<not> sv_listener srv \<and> sv_fconn srv = None"

lemma length_upd_server [simp]: "length (mg_servers (upd_server i f mg)) = length (mg_servers mg)"
  by (simp add: upd_server_def)

lemma upd_server_same [simp]: "mg_all (upd_server i f mg) = mg_all mg" "mg_fconns (upd_server i f mg) = mg_fconns mg"
  by (simp_all add: upd_server_def)

lemma nth_upd_server:
  "j < length (mg_servers mg) \<Longrightarrow>
     mg_servers (upd_server i f mg) ! j = (if i = j then f (mg_servers mg ! j) else mg_servers mg ! j)"
  by (auto simp: upd_server_def)

lemma Close_server_same [simp]:
  "length (mg_servers (Close_server i mg)) = length (mg_servers mg)"
  "length (mg_fconns (Close_server i mg)) = length (mg_fconns mg)" "mg_all (Close_server i mg) = mg_all mg"
  by (simp_all add: Close_server_def Let_def split: option.splits)

lemma nth_Close_server:
  assumes "j < length (mg_servers mg)"
  shows "mg_servers (Close_server i mg) ! j =
     (if i = j then (mg_servers mg ! j)\<lparr>sv_listener := False, sv_fconn := None\<rparr> else mg_servers mg ! j)"
proof (cases "i = j")
  case True
  then show ?thesis
    using assms by (auto simp: Close_server_def Let_def upd_server_def split: option.splits intro!: Server.equality)
next
  case False
  then show ?thesis using assms by (auto simp: Close_server_def Let_def upd_server_def split: option.splits)
qed

lemma Close_server_closes:
  assumes "i < length (mg_servers mg)" and "sv_fconn (mg_servers mg ! i) = Some f" and "f < length (mg_fconns mg)"
  shows "fc_closed (mg_fconns (Close_server i mg) ! f)"
  using assms by (auto simp: Close_server_def Let_def nth_upd_server fc_close_def)

lemma closed_update:
  "fc_closed (fs ! k) \<Longrightarrow> k < length fs \<Longrightarrow> fc_closed (fs[j := fc_close (fs ! j)] ! k)"
  by (cases "j = k") (auto simp: fc_close_def)

lemma fconn_stays_closed:
  assumes "fc_closed (mg_fconns mg ! f)" and "f < length (mg_fconns mg)"
  shows "fc_closed (mg_fconns (Close_server i mg) ! f)"
  using assms by (simp add: Close_server_def Let_def closed_update split: option.splits)

lemma fold_Close_closed:
  assumes "server_closed (mg_servers mg ! j) \<or> j \<in> set is" and "j < length (mg_servers mg)"
  shows "server_closed (mg_servers (fold Close_server is mg) ! j)"
  using assms
proof (induction "is" arbitrary: mg)
  case (Cons i "is")
  have "server_closed (mg_servers (Close_server i mg) ! j) \<or> j \<in> set is"
    using Cons.prems by (auto simp: nth_Close_server server_closed_def)
  then show ?case using Cons.IH [of "Close_server i mg"] Cons.prems(2) by simp
qed simp

lemma fold_Close_fconn:
  assumes "fc_closed (mg_fconns mg ! f) \<or> j \<in> set is \<and> sv_fconn (mg_servers mg ! j) = Some f"
    and "j < length (mg_servers mg)" and "f < length (mg_fconns mg)"
  shows "fc_closed (mg_fconns (fold Close_server is mg) ! f)"
  using assms
proof (induction "is" arbitrary: mg)
  case (Cons i "is")
  have "fc_closed (mg_fconns (Close_server i mg) ! f) \<or>
      j \<in> set is \<and> sv_fconn (mg_servers (Close_server i mg) ! j) = Some f"
    using Cons.prems fconn_stays_closed [of mg f i] Close_server_closes [of j mg f]
    by (cases "i = j") (auto simp: nth_Close_server)
  then show ?case using Cons.IH [of "Close_server i mg"] Cons.prems(2,3) by simp
qed simp

lemma CleanUp_closes_registered:
  assumes "hashmap_ok H" and "migrators_wf H mg" and "hm_Get H (mg_all mg) port = Some i"
  shows "server_closed (mg_servers (CleanUp H mg) ! i)"
    "sv_fconn (mg_servers mg ! i) = Some f \<Longrightarrow> fc_closed (mg_fconns (CleanUp H mg) ! f)"
proof -
  have i: "i < length (mg_servers mg)" using assms(2,3) by (simp add: migrators_wf_def)
  have r: "i \<in> set (map snd (hm_Iter H (mg_all mg)))"
    using map_of_SomeD [of "hm_Iter H (mg_all mg)" port i] assms(3) hm_Iter_Get [OF assms(1)] by force
  show "server_closed (mg_servers (CleanUp H mg) ! i)"
    unfolding CleanUp_def using r i by (intro fold_Close_closed) auto
  assume f: "sv_fconn (mg_servers mg ! i) = Some f"
  then have "f < length (mg_fconns mg)" using assms(2) i by (force simp: migrators_wf_def)
  then show "fc_closed (mg_fconns (CleanUp H mg) ! f)"
    unfolding CleanUp_def using r i f by (intro fold_Close_fconn [of _ _ i]) auto
qed

lemma migrators_wf_none: "hashmap_ok H \<Longrightarrow> migrators_wf H (no_migrators H)"
  by (simp add: migrators_wf_def no_migrators_def hm_Get_New)

lemma migrators_wf_New:
  assumes "hashmap_ok H" and "migrators_wf H mg"
  shows "migrators_wf H (snd (New_server H port debug mg))"
  using assms(2)
  by (auto simp: migrators_wf_def New_server_def nth_append hm_Get_Set [OF assms(1)] less_Suc_eq split: if_splits)

lemma migrators_wf_upd:
  assumes "migrators_wf H mg" and "sv_port (f (mg_servers mg ! i)) = sv_port (mg_servers mg ! i)"
    and "sv_fconn (f (mg_servers mg ! i)) = sv_fconn (mg_servers mg ! i)"
  shows "migrators_wf H (upd_server i f mg)"
proof (cases "i < length (mg_servers mg)")
  case True
  have "\<forall>srv \<in> insert (f (mg_servers mg ! i)) (set (mg_servers mg)). \<forall>k. sv_fconn srv = Some k \<longrightarrow> k < length (mg_fconns mg)"
    using assms(1,3) True by (auto simp: migrators_wf_def)
  then have "\<forall>srv \<in> set ((mg_servers mg)[i := f (mg_servers mg ! i)]). \<forall>k. sv_fconn srv = Some k \<longrightarrow> k < length (mg_fconns mg)"
    using set_update_subset_insert [of "mg_servers mg" i "f (mg_servers mg ! i)"] by blast
  then show ?thesis
    using assms(1,2) True by (auto simp: migrators_wf_def upd_server_def nth_list_update)
next
  case False
  then show ?thesis using assms(1) by (simp add: upd_server_def list_update_beyond)
qed

end
