(* ===== verification/MigrationScheduler.thy ===== *)
theory MigrationScheduler
  imports Forwarder ProxyServer
begin

text \<open>
  The second half of \<open>src/proxy/server/scheduler.go\<close>: the scheduler as the registry of the instances and as
  the migration scheduler of the connections, and the shutdown of the proxy (\<open>CleanUpScheduler\<close> after
  \<open>Release\<close>, \<open>src/proxy/proxy.go\<close>).  The servers that \<open>StartMigrator\<close> starts are those of theory
  \<open>Forwarder\<close>; the argument \<open>r\<close> is the outcome of listening on the port.
\<close>

definition BaseMigratorPort :: int where "BaseMigratorPort = 6380"

text \<open>The port is \<open>BaseMigratorPort + int(lambdaId)\<close>, computed on a signed 64-bit integer.\<close>

definition StartMigrator_sched :: "('h, int, nat) hashmap \<Rightarrow> error option \<Rightarrow> uint64 \<Rightarrow> 'h migrators \<Rightarrow> (error + string) \<times> 'h migrators" where
  "StartMigrator_sched M r lambdaId mg =
     (let (m, mg1) = New_server M (sint (word_of_int BaseMigratorPort + lambdaId)) True mg;
          (err, srv) = Listen r (mg_servers mg1 ! m);
          mg2 = upd_server m (\<lambda>_. srv) mg1
      in case err of Some e \<Rightarrow> (Inl e, mg2) | None \<Rightarrow> (Inr (sv_Addr srv), mg2))"

definition GetDestination_sched :: "('a, uint64, ref) hashmap \<Rightarrow> uint64 \<Rightarrow> 'a sched \<Rightarrow> error + Deployment" where
  "GetDestination_sched A lambdaId s =
     (case ReserveForInstance A lambdaId s of
        None \<Rightarrow> Inl (ErrOther (''Instance '' @ itoa (uint lambdaId) @ '' not found.''))
      | Some d \<Rightarrow> Inr (deps s (dep_ref s d)))"

text \<open>What \<open>initMigrateHandler\<close> sees of the scheduler and of the servers.\<close>

definition sched_env ::
    "('a, uint64, ref) hashmap \<Rightarrow> ('h, int, nat) hashmap \<Rightarrow> (uint64 \<Rightarrow> nat option) \<Rightarrow> (uint64 \<Rightarrow> error option) \<Rightarrow>
     string \<Rightarrow> 'a sched \<Rightarrow> 'h migrators \<Rightarrow> lambda_env" where
  "sched_env A M reg lis ip s mg =
     \<lparr>Registry = reg, GetDestination = (\<lambda>k. GetDestination_sched A k s),
      StartMigrator = (\<lambda>k. fst (StartMigrator_sched M (lis k) k mg)), ServerIp = ip\<rparr>"

definition CleanUpScheduler ::
    "('a, uint64, ref) hashmap \<Rightarrow> ('h, int, nat) hashmap \<Rightarrow> 'a sched \<Rightarrow> 'h migrators \<Rightarrow> ('a sched \<times> 'h migrators) option" where
  "CleanUpScheduler A M s mg = map_option (\<lambda>s'. (s', CleanUp M mg)) (ClearAll A s)"

text \<open>The last calls of the proxy's main program.\<close>

definition shutdown ::
    "('a, uint64, ref) hashmap \<Rightarrow> ('h, int, nat) hashmap \<Rightarrow> 'a sched \<Rightarrow> 'h migrators \<Rightarrow> ('a sched \<times> 'h migrators) res option" where
  "shutdown A M s mg =
     (case Release A s of
        None \<Rightarrow> None
      | Some (Inl e) \<Rightarrow> Some (Inl e)
      | Some (Inr s') \<Rightarrow> map_option Inr (CleanUpScheduler A M s' mg))"

lemma migrators_wf_StartMigrator:
  assumes "hashmap_ok M" and "migrators_wf M mg"
  shows "migrators_wf M (snd (StartMigrator_sched M r lambdaId mg))"
proof -
  obtain m mg1 where n: "New_server M (sint (word_of_int BaseMigratorPort + lambdaId)) True mg = (m, mg1)" by (meson surj_pair)
  have w: "migrators_wf M mg1" using migrators_wf_New [OF assms] n by (metis snd_conv)
  obtain err srv where l: "Listen r (mg_servers mg1 ! m) = (err, srv)" by (meson surj_pair)
  then have "sv_port srv = sv_port (mg_servers mg1 ! m)" "sv_fconn srv = sv_fconn (mg_servers mg1 ! m)"
    by (auto simp: Listen_def split: option.splits)
  then have "migrators_wf M (upd_server m (\<lambda>_. srv) mg1)" by (intro migrators_wf_upd [OF w])
  then show ?thesis by (simp add: StartMigrator_sched_def n l Let_def split: option.splits)
qed

section \<open>The group holds active instances\<close>

definition slots_active :: "('a, uint64, ref) hashmap \<Rightarrow> nat \<Rightarrow> 'a sched \<Rightarrow> bool" where
  "slots_active A k s \<longleftrightarrow>
     (\<exists>gs. length gs = k \<and> take k (All (s_group s)) = map Some gs \<and> distinct gs \<and> (\<forall>g \<in> set gs. \<exists>q. hm_Get A (actives s) q = Some g))"

lemma slots_active_get:
  assumes A: "hashmap_ok A" and inv: "sched_inv A D s" and run: "GetForGroup A (int i) s = Some (Inr (x, s'))"
    and act: "slots_active A i s"
  shows "slots_active A (Suc i) s'"
proof -
  obtain q where q: "hm_Get A (actives s) q = None" "hm_Get A (actives s') = (hm_Get A (actives s))(q \<mapsto> Suc (nextRef s))"
      "All (s_group s') = (All (s_group s))[i := Some (Suc (nextRef s))]"
    using GetForGroup_active [OF A inv run] by auto
  have i: "i < length (All (s_group s))" using GetForGroup_needs(2) [OF run] by simp
  obtain gs where gs: "length gs = i" "take i (All (s_group s)) = map Some gs" "distinct gs"
      "\<forall>g \<in> set gs. \<exists>q. hm_Get A (actives s) q = Some g"
    using act by (auto simp: slots_active_def)
  have "\<forall>g \<in> set gs. g < nextRef s" using gs(4) sched_invD(9) [OF inv] by blast
  then have "distinct (gs @ [Suc (nextRef s)])" using gs(3) by auto
  moreover have "take (Suc i) (All (s_group s')) = map Some (gs @ [Suc (nextRef s)])"
    using gs(2) i q(3) by (simp add: take_Suc_conv_app_nth)
  moreover have "\<exists>q. hm_Get A (actives s') q = Some g" if "g \<in> set (gs @ [Suc (nextRef s)])" for g
  proof (cases "g \<in> set gs")
    case True
    then obtain j where j: "hm_Get A (actives s) j = Some g" using gs(4) by blast
    then have "j \<noteq> q" using q(1) by auto
    then show ?thesis using j q(2) by (intro exI [of _ j]) simp
  next
    case False
    then show ?thesis using that q(2) by (intro exI [of _ q]) simp
  qed
  ultimately show ?thesis using gs(1) unfolding slots_active_def by (intro exI [of _ "gs @ [Suc (nextRef s)]"]) simp
qed

lemma register_active:
  assumes A: "hashmap_ok A" and "sched_inv A D s" and "slots_active A i s" and "register A i k (s, g) = Some (Inr (s', g'))"
  shows "slots_active A (i + k) s' \<and> length (All (s_group s')) = length (All (s_group s))"
  using assms(2-)
proof (induction k arbitrary: i s g)
  case (Suc k)
  obtain x s1 where s1: "GetForGroup A (int i) s = Some (Inr (x, s1))"
      "register A (Suc i) k (s1, set_instance g (int i) registered_meta) = Some (Inr (s', g'))"
    using Suc.prems(3) by (auto split: option.splits sum.splits)
  then show ?case
    using Suc.IH [OF _ slots_active_get [OF A Suc.prems(1) s1(1) Suc.prems(2)] s1(2)] GetForGroup_active [OF A Suc.prems(1) s1(1)]
    by auto
qed simp

lemma release_nodes_ok:
  assumes A: "hashmap_ok A" and "sched_inv A D s" and "distinct gs" and "\<forall>g \<in> set gs. \<exists>q. hm_Get A (actives s) q = Some g"
  shows "\<exists>s'. release_nodes A i (map Some gs) s = Some (Inr s') \<and> sched_inv A D s'"
  using assms(2-)
proof (induction gs arbitrary: i s)
  case (Cons g gs)
  obtain q where q: "hm_Get A (actives s) q = Some g" using Cons.prems(3) by auto
  obtain s1 where s1: "Recycle A (gi_deployment (ginsts s g)) s = Some s1" "sched_inv A D s1"
      "hm_Get A (actives s1) = (hm_Get A (actives s))(q := None)"
    using Recycle_inv [OF A Cons.prems(1) q] by auto
  let ?s = "s1\<lparr>s_group := (s_group s1)\<lparr>All := (All (s_group s1))[i := None]\<rparr>\<rparr>"
  have "\<exists>j. hm_Get A (actives ?s) j = Some h" if h: "h \<in> set gs" for h
  proof -
    obtain j where j: "hm_Get A (actives s) j = Some h" using h Cons.prems(3) by auto
    then have "j \<noteq> q" using q h Cons.prems(2) by auto
    then show ?thesis using j s1(3) by (intro exI [of _ j]) simp
  qed
  moreover have "sched_inv A D ?s"
    using s1(2) by (simp add: sched_inv_def held_def dep_ref_def cong: LambdaDeployment.case_cong)
  ultimately show ?case using Cons.IH [of ?s "Suc i"] Cons.prems(2) s1(1) by simp
qed simp

lemma shutdown_ok:
  assumes A: "hashmap_ok A" and n: "n < 2 ^ 62" "0 < k" "k \<le> n" and M: "hashmap_ok M" and mg: "migrators_wf M mg"
    and start: "New_proxy A k (NewScheduler A namePrefix c n) = Some (Inr (s, g))"
  shows "\<exists>s' mg'. shutdown A M s mg = Some (Inr (s', mg')) \<and> hm_Get A (actives s') = Map.empty \<and> distinct (s_pool s') \<and>
     set (s_pool s') = {..<n} \<and> (\<forall>port i. hm_Get M (mg_all mg) port = Some i \<longrightarrow> server_closed (mg_servers mg' ! i))"
proof -
  let ?s = "(NewScheduler A namePrefix c n)\<lparr>s_group := NewGroup (int k)\<rparr>"
  have "sched_inv A {..<n} ?s"
    using NewScheduler_inv(1) [OF A, of n namePrefix c] n
    by (simp add: sched_inv_def held_def dep_ref_def cong: LambdaDeployment.case_cong)
  moreover have "slots_active A 0 ?s" by (simp add: slots_active_def)
  moreover have l: "length (All (s_group ?s)) = k" by (simp add: NewGroup_def)
  ultimately have act: "slots_active A k s" "length (All (s_group s)) = k"
    using register_active [OF A, of _ ?s 0 k "NewGroup (int k)" s g] start by (simp_all add: New_proxy_def)
  obtain gs where gs: "All (s_group s) = map Some gs" "distinct gs" "\<forall>g \<in> set gs. \<exists>q. hm_Get A (actives s) q = Some g"
    using act by (auto simp: slots_active_def)
  have inv: "sched_inv A {..<n} s" using New_proxy_ok [OF A n, of namePrefix c] start by auto
  obtain s1 where s1: "release_nodes A 0 (map Some gs) s = Some (Inr s1)" "sched_inv A {..<n} s1"
    using release_nodes_ok [OF A inv gs(2,3), of 0] by blast
  obtain s2 where s2: "Clear A s1 = Some s2" "sched_inv A {..<n} s2" using Clear_inv [OF A s1(2)] by blast
  obtain s3 where s3: "ClearAll A s2 = Some s3" "hm_Get A (actives s3) = Map.empty" "distinct (s_pool s3)" "set (s_pool s3) = {..<n}"
    using ClearAll_inv [OF A s2(2)] by blast
  have "shutdown A M s mg = Some (Inr (s3, CleanUp M mg))"
    using s1 s2 s3 gs(1) by (simp add: shutdown_def Release_def CleanUpScheduler_def)
  then show ?thesis using s3 CleanUp_closes_registered(1) [OF M mg] by auto
qed

end
