(* ===== verification/ProxyMain.thy ===== *)
theory ProxyMain
  imports MigrationScheduler Loggers
begin

text \<open>
  \<open>src/proxy/proxy.go\<close> and the initialisers of \<open>src/proxy/global/global.go\<close>: the main program of the proxy.  Its two
  goroutines, the one that serves clients and the one that handles signals, are the step relation \<open>mstep\<close>; steps marked
  \<open>Env\<close> are those of the system and of the goroutines of other theories.  The server of the package \<open>redeo\<close> is seen
  only through \<open>ServeAsync\<close>, which returns some time, and \<open>Close\<close>.
\<close>

section \<open>Initialisation\<close>

definition AWSRegion :: string where "AWSRegion = ''us-east-1''"
definition ServerPublicIp :: string where "ServerPublicIp = []"
definition BasePort :: int where "BasePort = 6378"

record globals =
  gl_Log :: "ColorLogger option"
  gl_ServerIp :: string
  gl_Prefix :: string
  gl_AWSRegion :: string

text \<open>The package \<open>global\<close>: the logger is the one that drops everything (\<open>None\<close>).\<close>

definition global_init :: "error + string \<Rightarrow> globals \<Rightarrow> globals res" where
  "global_init privateIp gl0 =
     (let gl = gl0\<lparr>gl_Log := None\<rparr>
      in if gl_ServerIp gl = []
         then (case privateIp of Inl err \<Rightarrow> Inl PanicCall | Inr ip \<Rightarrow> Inr (gl\<lparr>gl_ServerIp := ip\<rparr>))
         else Inr gl)"

definition main_log :: ColorLogger where
  "main_log = \<lparr>lg_Verbose = False, lg_Level = LOG_LEVEL_WARN, lg_Prefix = [], lg_Color = False\<rparr>"

definition main_init :: "globals \<Rightarrow> globals" where
  "main_init gl =
     (let gl1 = gl\<lparr>gl_Log := Some main_log, gl_AWSRegion := AWSRegion\<rparr>
      in if ServerPublicIp \<noteq> [] then gl1\<lparr>gl_ServerIp := ServerPublicIp\<rparr> else gl1)"

lemma globals_initialised:
  "global_init (GetPrivateIp str (Inr as)) \<lparr>gl_Log = None, gl_ServerIp = [], gl_Prefix = [], gl_AWSRegion = []\<rparr> =
     (case find IsPrivateIp (List.map_filter id as) of
        None \<Rightarrow> Inl PanicCall
      | Some a \<Rightarrow> Inr \<lparr>gl_Log = None, gl_ServerIp = str a, gl_Prefix = [], gl_AWSRegion = []\<rparr>)"
  by (simp add: global_init_def GetPrivateIp_def first_private_find split: option.splits)

section \<open>State\<close>

record proxy_flags =
  pf_replica :: bool
  pf_debug :: bool
  pf_prefix :: string

text \<open>Where the two goroutines are: the call they make next, or the channel they wait on.\<close>

datatype main_pc = MReady | MServing | MSelect | MWait | MExited | MPanicked panic

datatype handler_pc = HNone | HSig | HTaken | HStop | HClose | HCollect | HData | HLis | HFinish | HEnd

record ('a, 'h, 'm, 'q, 'r) main_sys =
  ms_main :: main_pc
  ms_handler :: handler_pc
  ms_sig :: bool
  ms_sigClosed :: bool
  ms_done :: bool
  ms_warming :: nat
  ms_ready :: "32 word \<times> bool"
  ms_clientLis :: bool
  ms_lambdaLis :: bool
  ms_pid :: bool
  ms_globals :: globals
  ms_flusher :: flusher
  ms_proxy :: "('m, 'q, 'r) proxy"
  ms_sched :: "'a sched"
  ms_migrators :: "'h migrators"

text \<open>The program up to \<open>prxy.Ready()\<close>; on the left the status of an early exit.\<close>

definition main_start ::
    "('a, uint64, ref) hashmap \<Rightarrow> ('m, string, addr) hashmap \<Rightarrow> proxy_flags \<Rightarrow> (string \<Rightarrow> error option) \<Rightarrow> (string \<Rightarrow> error option)
      \<Rightarrow> (int \<Rightarrow> error option) \<Rightarrow> globals \<Rightarrow> ('m, 'q, 'r) proxy \<Rightarrow> 'h migrators \<Rightarrow> (nat + ('a, 'h, 'm, 'q, 'r) main_sys) res option" where
  "main_start A H fl create setw listen gl0 px mg =
     (let gl1 = gl0\<lparr>gl_Prefix := pf_prefix fl\<rparr>
      in case Create_collector (pf_prefix fl) create setw of
           Inl e \<Rightarrow> Some (Inl e)
         | Inr fu \<Rightarrow>
             let gl = (if pf_debug fl then gl1\<lparr>gl_Log := map_option (\<lambda>lg. lg\<lparr>lg_Level := LOG_LEVEL_ALL\<rparr>) (gl_Log gl1)\<rparr> else gl1)
             in if listen BasePort \<noteq> None then Some (Inr (Inl 1))
                else if listen (BasePort + 1) \<noteq> None then Some (Inr (Inl 1))
                else (case New_proxy A NumLambdaClusters (newScheduler A) of
                        None \<Rightarrow> None
                      | Some (Inl e) \<Rightarrow> Some (Inl e)
                      | Some (Inr (sch, g)) \<Rightarrow>
                          Some (Inr (Inr \<lparr>ms_main = MReady, ms_handler = HNone, ms_sig = False, ms_sigClosed = False, ms_done = False,
                             ms_warming = NumLambdaClusters, ms_ready = (0, False), ms_clientLis = True, ms_lambdaLis = True, ms_pid = False,
                             ms_globals = gl, ms_flusher = fu, ms_proxy = px\<lparr>px_placer := NewPlacer H g\<rparr>, ms_sched = sch,
                             ms_migrators = mg\<rparr>))))"

definition ms_running :: "('a, 'h, 'm, 'q, 'r) main_sys \<Rightarrow> bool" where
  "ms_running s = (case ms_main s of MExited \<Rightarrow> False | MPanicked _ \<Rightarrow> False | _ \<Rightarrow> True)"

section \<open>Steps\<close>

datatype who = Env | Main | Handler

text \<open>
  \<open>signal.Notify\<close> sends to the channel without blocking, so a second signal is dropped while one waits; on a closed
  channel the send panics.
\<close>

definition signalled :: "('a, 'h, 'm, 'q, 'r) main_sys \<Rightarrow> ('a, 'h, 'm, 'q, 'r) main_sys" where
  "signalled s = (if ms_sigClosed s then s\<lparr>ms_main := MPanicked SendOnClosedChannel\<rparr> else s\<lparr>ms_sig := True\<rparr>)"

inductive mstep ::
    "('a, uint64, ref) hashmap \<Rightarrow> ('h, int, nat) hashmap \<Rightarrow> who \<Rightarrow> ('a, 'h, 'm, 'q, 'r) main_sys \<Rightarrow> ('a, 'h, 'm, 'q, 'r) main_sys \<Rightarrow> bool"
  for A M where
  Signal: "ms_running s \<Longrightarrow> mstep A M Env s (signalled s)"
| Others: "ms_running s \<Longrightarrow> mstep A M Env s (s\<lparr>ms_proxy := px, ms_sched := sch, ms_migrators := mg\<rparr>)"
| Flusher: "ms_running s \<Longrightarrow> flstep (ms_flusher s) f \<Longrightarrow> fu_stopped f = fu_stopped (ms_flusher s) \<Longrightarrow> mstep A M Env s (s\<lparr>ms_flusher := f\<rparr>)"
| Warmed: "ms_running s \<Longrightarrow> ms_warming s = Suc k \<Longrightarrow>
    mstep A M Env s (s\<lparr>ms_warming := k, ms_ready := warmed_up NumLambdaClusters (ms_ready s)\<rparr>)"
| Ready: "ms_main s = MReady \<Longrightarrow> snd (ms_ready s) \<Longrightarrow>
    mstep A M Main s (s\<lparr>ms_pid := ((err :: error option) = None), ms_handler := HSig, ms_main := MServing\<rparr>)"
| Served: "ms_main s = MServing \<Longrightarrow> mstep A M Env s (s\<lparr>ms_main := (if (err :: error option) = None then MWait else MSelect)\<rparr>)"
| SelectSig: "ms_main s = MSelect \<Longrightarrow> ms_sig s \<or> ms_sigClosed s \<Longrightarrow> mstep A M Main s (s\<lparr>ms_sig := False, ms_main := MWait\<rparr>)"
| SelectDefault: "ms_main s = MSelect \<Longrightarrow> \<not> ms_sig s \<Longrightarrow> \<not> ms_sigClosed s \<Longrightarrow> mstep A M Main s (s\<lparr>ms_main := MWait\<rparr>)"
| Exit: "ms_main s = MWait \<Longrightarrow> ms_done s \<Longrightarrow> shutdown A M (ms_sched s) (ms_migrators s) = Some (Inr (sch, mg)) \<Longrightarrow>
    mstep A M Main s (s\<lparr>ms_sched := sch, ms_migrators := mg, ms_pid := ((err :: error option) \<noteq> None \<and> ms_pid s), ms_main := MExited\<rparr>)"
| ExitPanics: "ms_main s = MWait \<Longrightarrow> ms_done s \<Longrightarrow> shutdown A M (ms_sched s) (ms_migrators s) = Some (Inl e) \<Longrightarrow>
    mstep A M Main s (s\<lparr>ms_main := MPanicked e\<rparr>)"
| Receive: "ms_running s \<Longrightarrow> ms_handler s = HSig \<Longrightarrow> ms_sig s \<Longrightarrow> mstep A M Handler s (s\<lparr>ms_sig := False, ms_handler := HTaken\<rparr>)"
| CloseSig: "ms_running s \<Longrightarrow> ms_handler s = HTaken \<Longrightarrow> mstep A M Handler s (s\<lparr>ms_sigClosed := True, ms_handler := HStop\<rparr>)"
| StopLog: "ms_running s \<Longrightarrow> ms_handler s = HStop \<Longrightarrow> mstep A M Handler s (s\<lparr>ms_flusher := Stop_flusher (ms_flusher s), ms_handler := HClose\<rparr>)"
| CloseSrv: "ms_running s \<Longrightarrow> ms_handler s = HClose \<Longrightarrow> mstep A M Handler s (s\<lparr>ms_clientLis := False, ms_handler := HCollect\<rparr>)"
| Collect: "ms_running s \<Longrightarrow> ms_handler s = HCollect \<Longrightarrow> CollectData (ms_proxy s) = Inr px \<Longrightarrow>
    mstep A M Handler s (s\<lparr>ms_proxy := px, ms_handler := HData\<rparr>)"
| CollectPanics: "ms_running s \<Longrightarrow> ms_handler s = HCollect \<Longrightarrow> CollectData (ms_proxy s) = Inl e \<Longrightarrow>
    mstep A M Handler s (s\<lparr>ms_main := MPanicked e\<rparr>)"
| Collected: "ms_running s \<Longrightarrow> ms_handler s = HData \<Longrightarrow> DataCollected (px_store (ms_proxy s)) = 0 \<Longrightarrow> mstep A M Handler s (s\<lparr>ms_handler := HLis\<rparr>)"
| CloseLis: "ms_running s \<Longrightarrow> ms_handler s = HLis \<Longrightarrow> mstep A M Handler s (s\<lparr>ms_lambdaLis := False, ms_handler := HFinish\<rparr>)"
| CloseDone: "ms_running s \<Longrightarrow> ms_handler s = HFinish \<Longrightarrow> mstep A M Handler s (s\<lparr>ms_done := True, ms_handler := HEnd\<rparr>)"

abbreviation any_mstep where "any_mstep A M s t \<equiv> \<exists>w. mstep A M w s t"

section \<open>Order of the shutdown\<close>

primrec hstage :: "handler_pc \<Rightarrow> nat" where
  "hstage HNone = 0"
| "hstage HSig = 1"
| "hstage HTaken = 2"
| "hstage HStop = 3"
| "hstage HClose = 4"
| "hstage HCollect = 5"
| "hstage HData = 6"
| "hstage HLis = 7"
| "hstage HFinish = 8"
| "hstage HEnd = 9"

primrec mstage :: "main_pc \<Rightarrow> nat" where
  "mstage MReady = 4"
| "mstage MServing = 3"
| "mstage MSelect = 2"
| "mstage MWait = 1"
| "mstage MExited = 0"
| "mstage (MPanicked e) = 0"

definition main_inv :: "('a, 'h, 'm, 'q, 'r) main_sys \<Rightarrow> bool" where
  "main_inv s \<longleftrightarrow>
     (ms_sigClosed s \<longleftrightarrow> 3 \<le> hstage (ms_handler s)) \<and> (fu_stopped (ms_flusher s) \<longleftrightarrow> 4 \<le> hstage (ms_handler s)) \<and>
     (ms_clientLis s \<longleftrightarrow> hstage (ms_handler s) \<le> 4) \<and> (ms_lambdaLis s \<longleftrightarrow> hstage (ms_handler s) \<le> 7) \<and>
     (ms_done s \<longleftrightarrow> ms_handler s = HEnd) \<and> (ms_main s = MExited \<longrightarrow> ms_done s) \<and> (ms_main s = MReady \<longrightarrow> ms_handler s = HNone) \<and>
     (ms_handler s = HNone \<longrightarrow> ms_main s = MReady \<or> (\<exists>e. ms_main s = MPanicked e)) \<and>
     ms_warming s \<le> NumLambdaClusters \<and> ms_ready s = (warmed_up NumLambdaClusters ^^ (NumLambdaClusters - ms_warming s)) (0, False)"

lemma main_inv_step:
  assumes "main_inv s" and "mstep A M w s t"
  shows "main_inv t"
  using assms(2)
proof cases
  case (Warmed k)
  then have "Suc k \<le> NumLambdaClusters" using assms(1) by (simp add: main_inv_def)
  then have "NumLambdaClusters - k = Suc (NumLambdaClusters - Suc k)" by (rule Suc_diff_Suc [symmetric, OF Suc_le_lessD])
  then show ?thesis using assms(1) Warmed by (auto simp: main_inv_def)
qed (use assms(1) in \<open>auto simp: main_inv_def signalled_def ms_running_def Stop_flusher_def split: main_pc.splits\<close>)

lemma main_inv_start: "main_start A H fl create setw listen gl px mg = Some (Inr (Inr s)) \<Longrightarrow> main_inv s"
  by (auto simp: main_start_def main_inv_def Create_collector_def Create_flusher_def Let_def split: if_splits option.splits sum.splits)

lemma main_inv_reachable:
  assumes "main_start A H fl create setw listen gl px mg = Some (Inr (Inr s0))" and "(any_mstep A M)\<^sup>*\<^sup>* s0 s"
  shows "main_inv s"
  using assms(2,1) by (induction rule: rtranclp_induct) (auto intro: main_inv_start main_inv_step)

section \<open>The program ends\<close>

definition main_left :: "('a, 'h, 'm, 'q, 'r) main_sys \<Rightarrow> nat" where
  "main_left s = mstage (ms_main s) + (9 - hstage (ms_handler s))"

lemma main_left_step: "mstep A M w s t \<Longrightarrow> main_inv s \<Longrightarrow> w \<noteq> Env \<Longrightarrow> main_left t < main_left s"
  by (erule mstep.cases) (auto simp: main_left_def main_inv_def ms_running_def split: main_pc.splits)

lemma main_left_mono: "mstep A M w s t \<Longrightarrow> main_inv s \<Longrightarrow> main_left t \<le> main_left s"
  by (erule mstep.cases) (auto simp: main_left_def main_inv_def ms_running_def signalled_def split: main_pc.splits)

text \<open>Runs with the number of steps of the two goroutines, among any number of other steps.\<close>

inductive mrun ::
    "('a, uint64, ref) hashmap \<Rightarrow> ('h, int, nat) hashmap \<Rightarrow> nat \<Rightarrow> ('a, 'h, 'm, 'q, 'r) main_sys \<Rightarrow> ('a, 'h, 'm, 'q, 'r) main_sys \<Rightarrow> bool"
  for A M where
  RunNone: "mrun A M 0 s s"
| RunStep: "mrun A M n s t \<Longrightarrow> mstep A M w t u \<Longrightarrow> mrun A M (if w = Env then n else Suc n) s u"

lemma mrun_bounded:
  assumes "mrun A M n s t" "main_inv s"
  shows "n + main_left t \<le> main_left s \<and> main_inv t"
  using assms
proof (induction)
  case (RunStep n s t w u)
  then have i: "n + main_left t \<le> main_left s" "main_inv t" by auto
  show ?case
    using i main_left_mono [OF RunStep.hyps(2) i(2)] main_left_step [OF RunStep.hyps(2) i(2)] main_inv_step [OF i(2) RunStep.hyps(2)]
    by auto
qed simp

lemma main_left_13: "main_left s \<le> 13"
  by (cases "ms_main s") (simp_all add: main_left_def)

lemma warmed_ready: "main_inv s \<Longrightarrow> ms_warming s = 0 \<Longrightarrow> snd (ms_ready s)"
  using ready_after_all [of NumLambdaClusters NumLambdaClusters] by (simp add: main_inv_def NumLambdaClusters_def)

lemma ready_possible:
  assumes "main_inv s" and "ms_main s = MReady" and "ms_warming s = 0"
  shows "\<exists>t. mstep A M Main s t"
  using Ready [OF assms(2) warmed_ready [OF assms(1,3)]] by blast

text \<open>
  Once the signal is taken, the program waits only for the data of the Lambdas, for \<open>ServeAsync\<close>, and for the shutdown
  of the scheduler.
\<close>

definition ms_waits :: "('a, uint64, ref) hashmap \<Rightarrow> ('h, int, nat) hashmap \<Rightarrow> ('a, 'h, 'm, 'q, 'r) main_sys \<Rightarrow> bool" where
  "ms_waits A M s \<longleftrightarrow>
     ms_handler s = HData \<and> DataCollected (px_store (ms_proxy s)) \<noteq> 0 \<or>
     ms_handler s = HEnd \<and> ms_main s = MServing \<or>
     ms_handler s = HEnd \<and> ms_main s = MWait \<and> shutdown A M (ms_sched s) (ms_migrators s) = None"

lemma handler_progress:
  assumes "ms_running s" and "2 \<le> hstage (ms_handler s)" and "ms_handler s \<noteq> HEnd"
    and "ms_handler s = HData \<longrightarrow> DataCollected (px_store (ms_proxy s)) = 0"
  shows "\<exists>t. mstep A M Handler s t"
proof (cases "ms_handler s")
  case HCollect
  then show ?thesis using Collect CollectPanics assms(1) by (cases "CollectData (ms_proxy s)") blast+
qed (use assms in \<open>auto intro: mstep.intros\<close>)

lemma main_progress:
  assumes inv: "main_inv s" and run: "ms_running s" and "ms_handler s = HEnd" and "\<not> ms_waits A M s"
  shows "\<exists>t. mstep A M Main s t"
proof -
  have d: "ms_done s" "ms_sigClosed s" "ms_main s \<noteq> MReady" "ms_main s \<noteq> MServing" using assms by (auto simp: main_inv_def ms_waits_def)
  show ?thesis
  proof (cases "ms_main s")
    case MSelect
    then show ?thesis using SelectSig d(2) by blast
  next
    case MWait
    then obtain r where "shutdown A M (ms_sched s) (ms_migrators s) = Some r" using assms(3,4) by (auto simp: ms_waits_def)
    then show ?thesis using Exit ExitPanics MWait d(1) by (cases r) (auto, blast+)
  qed (use d run in \<open>auto simp: ms_running_def\<close>)
qed

lemma stopping_progress:
  assumes "main_inv s" and "ms_running s" and "2 \<le> hstage (ms_handler s)" and "\<not> ms_waits A M s"
  shows "\<exists>w t. w \<noteq> Env \<and> mstep A M w s t"
proof (cases "ms_handler s = HEnd")
  case True
  then show ?thesis using main_progress [OF assms(1,2) True assms(4)] by blast
next
  case False
  then have "\<exists>t. mstep A M Handler s t" using handler_progress assms(2,3,4) by (auto simp: ms_waits_def)
  then show ?thesis by blast
qed

section \<open>Start\<close>

lemma main_start_ok:
  assumes "hashmap_ok A" and "listen BasePort = None" and "listen (BasePort + 1) = None" and "\<And>path. create path = None" and "\<And>path. setw path = None"
  shows "\<exists>s. main_start A H fl create setw listen gl px mg = Some (Inr (Inr s)) \<and> insts_wf (pgroup (px_placer (ms_proxy s)))"
proof -
  obtain sch g where "New_proxy A NumLambdaClusters (newScheduler A) = Some (Inr (sch, g))" "insts_wf g"
    using New_proxy_ok [OF assms(1), of LambdaMaxDeployments NumLambdaClusters LambdaPrefix "int NumLambdaClusters"]
    unfolding newScheduler_def by (auto simp: LambdaMaxDeployments_def NumLambdaClusters_def)
  then show ?thesis using assms(2-5) by (auto simp: main_start_def Create_collector_def NewPlacer_def Let_def)
qed

lemma main_startD:
  assumes "main_start A H fl create setw listen gl px mg = Some (Inr (Inr s))"
  shows "ms_main s = MReady" "ms_handler s = HNone" "\<not> ms_sigClosed s" "\<not> ms_done s"
  using assms by (auto simp: main_start_def Let_def split: if_splits option.splits sum.splits)

lemma warm_ups:
  assumes "ms_running s"
  shows "\<exists>r. (any_mstep A M)\<^sup>*\<^sup>* s (s\<lparr>ms_warming := 0, ms_ready := r\<rparr>)"
  using assms
proof (induction "ms_warming s" arbitrary: s)
  case 0
  have "s\<lparr>ms_warming := 0, ms_ready := ms_ready s\<rparr> = s" using 0(1) by simp
  then show ?case by (metis rtranclp.rtrancl_refl)
next
  case (Suc k)
  let ?t = "s\<lparr>ms_warming := k, ms_ready := warmed_up NumLambdaClusters (ms_ready s)\<rparr>"
  have "mstep A M Env s ?t" using Warmed [OF Suc.prems] Suc.hyps(2) by simp
  moreover have "ms_running ?t" using Suc.prems by (simp add: ms_running_def)
  then obtain r where "(any_mstep A M)\<^sup>*\<^sup>* ?t (?t\<lparr>ms_warming := 0, ms_ready := r\<rparr>)" using Suc.hyps(1) [of ?t] by auto
  ultimately show ?case by (intro exI [of _ r] converse_rtranclp_into_rtranclp [of "any_mstep A M" s ?t]) auto
qed

lemma serving_reachable:
  assumes "main_start A H fl create setw listen gl px mg = Some (Inr (Inr s))"
  shows "\<exists>t. (any_mstep A M)\<^sup>*\<^sup>* s t \<and> ms_main t = MServing \<and> ms_handler t = HSig \<and> \<not> ms_sigClosed t \<and> \<not> ms_done t"
proof -
  note d = main_startD [OF assms]
  have "ms_running s" using d(1) by (simp add: ms_running_def)
  then obtain r where r: "(any_mstep A M)\<^sup>*\<^sup>* s (s\<lparr>ms_warming := 0, ms_ready := r\<rparr>)" using warm_ups by blast
  let ?t = "s\<lparr>ms_warming := 0, ms_ready := r\<rparr>"
  have "snd (ms_ready ?t)" using warmed_ready main_inv_reachable [OF assms r] by fastforce
  from Ready [OF _ this, of A M None] have "mstep A M Main ?t (?t\<lparr>ms_pid := True, ms_handler := HSig, ms_main := MServing\<rparr>)"
    using d(1) by simp
  then show ?thesis using rtranclp.rtrancl_into_rtrancl [OF r] d by fastforce
qed

section \<open>Signals\<close>

text \<open>A second signal after the channel is closed crashes the program, before the scheduler is cleaned up.\<close>

lemma second_signal:
  assumes "ms_main s = MServing" and "ms_handler s = HSig" and "\<not> ms_sigClosed s"
  shows "(any_mstep A M)\<^sup>*\<^sup>* s (s\<lparr>ms_sig := False, ms_handler := HStop, ms_sigClosed := True, ms_main := MPanicked SendOnClosedChannel\<rparr>)"
proof -
  define s1 where "s1 = s\<lparr>ms_sig := True\<rparr>"
  define s2 where "s2 = s1\<lparr>ms_sig := False, ms_handler := HTaken\<rparr>"
  define s3 where "s3 = s2\<lparr>ms_sigClosed := True, ms_handler := HStop\<rparr>"
  have r: "ms_running s" "ms_running s1" "ms_running s2" "ms_running s3" using assms(1) by (simp_all add: ms_running_def s1_def s2_def s3_def)
  have "mstep A M Env s s1" using Signal [OF r(1)] assms(3) by (simp add: signalled_def s1_def)
  moreover have "mstep A M Handler s1 s2" unfolding s2_def by (rule Receive [OF r(2)]) (simp_all add: s1_def assms(2))
  moreover have "mstep A M Handler s2 s3" unfolding s3_def by (rule CloseSig [OF r(3)]) (simp add: s2_def)
  moreover have "mstep A M Env s3 (signalled s3)" by (rule Signal [OF r(4)])
  moreover have "signalled s3 = s\<lparr>ms_sig := False, ms_handler := HStop, ms_sigClosed := True, ms_main := MPanicked SendOnClosedChannel\<rparr>"
    by (simp add: signalled_def s3_def s2_def s1_def)
  ultimately show ?thesis by (metis (no_types, lifting) converse_rtranclp_into_rtranclp rtranclp.rtrancl_refl)
qed

text \<open>
  When serving fails by itself, the goroutine of \<open>main\<close> looks into the channel of the signals too.  A signal that
  arrives then is taken by it, and both goroutines wait for ever, unless there is another signal.
\<close>

definition deaf :: "('a, 'h, 'm, 'q, 'r) main_sys \<Rightarrow> bool" where
  "deaf s \<longleftrightarrow> ms_main s = MWait \<and> ms_handler s = HSig \<and> \<not> ms_sig s \<and> \<not> ms_done s"

lemma signal_taken:
  assumes "ms_main s = MServing" and "ms_handler s = HSig" and "\<not> ms_sigClosed s" and "\<not> ms_done s"
  shows "\<exists>t. (any_mstep A M)\<^sup>*\<^sup>* s t \<and> deaf t"
proof -
  define s1 where "s1 = s\<lparr>ms_main := MSelect\<rparr>"
  define s2 where "s2 = s1\<lparr>ms_sig := True\<rparr>"
  define s3 where "s3 = s2\<lparr>ms_sig := False, ms_main := MWait\<rparr>"
  have "mstep A M Env s s1" using Served [OF assms(1), of A M "Some ErrEOF"] by (simp add: s1_def)
  moreover have "mstep A M Env s1 s2" using Signal [of s1 A M] assms(3) by (simp add: s1_def s2_def ms_running_def signalled_def)
  moreover have "mstep A M Main s2 s3" unfolding s3_def by (rule SelectSig) (simp_all add: s2_def s1_def)
  ultimately have "(any_mstep A M)\<^sup>*\<^sup>* s s3" by (metis (no_types, lifting) converse_rtranclp_into_rtranclp rtranclp.rtrancl_refl)
  then show ?thesis using assms(2,4) by (auto simp: deaf_def s3_def s2_def s1_def)
qed

lemma deaf_step: "deaf s \<Longrightarrow> mstep A M w s t \<Longrightarrow> deaf t \<or> t = signalled s"
  by (erule mstep.cases) (auto simp: deaf_def)

lemma signals_hurt:
  assumes "main_start A H fl create setw listen gl px mg = Some (Inr (Inr s))"
  shows "\<exists>t. (any_mstep A M)\<^sup>*\<^sup>* s t \<and> ms_main t = MPanicked SendOnClosedChannel \<and> ms_lambdaLis t"
    "\<exists>t. (any_mstep A M)\<^sup>*\<^sup>* s t \<and> deaf t"
proof -
  obtain u where u: "(any_mstep A M)\<^sup>*\<^sup>* s u" "ms_main u = MServing" "ms_handler u = HSig" "\<not> ms_sigClosed u" "\<not> ms_done u"
    using serving_reachable [OF assms] by blast
  have "ms_lambdaLis u" using main_inv_reachable [OF assms u(1)] u(3) by (simp add: main_inv_def)
  with rtranclp_trans [OF u(1) second_signal [OF u(2-4), of A M]]
  show "\<exists>t. (any_mstep A M)\<^sup>*\<^sup>* s t \<and> ms_main t = MPanicked SendOnClosedChannel \<and> ms_lambdaLis t"
    by (intro exI conjI) (assumption, simp_all)
  show "\<exists>t. (any_mstep A M)\<^sup>*\<^sup>* s t \<and> deaf t" using signal_taken [OF u(2-5), of A M] u(1) by (meson rtranclp_trans)
qed

end
