(* ===== verification/DeployTool.thy ===== *)
theory DeployTool
  imports GoFloat "HOL-Library.Multiset"
begin

text \<open>
  \<open>src/deploy/deploy_function.go\<close>: the tool that creates the Lambda functions of the cache and updates their
  code and configuration.  The AWS service is a parameter: for each call its result, or an error, which is an
  AWS error with a code and a text or another error with a text only.  Updates run in goroutines, a batch at a time.
  The goroutines of a batch run concurrently: the orders in which their calls reach the service and their lines are
  printed are parameters, any permutations of the batch.  The outcome tells whether the program
  goes on: it does not when \<open>wg.Wait\<close> never returns.  Integers are \<open>int64\<close> (\<open>wrap_int\<close>), and the number of
  groups is the \<open>float64\<close> quotient rounded up (\<open>ceil_div64\<close>).
\<close>

section \<open>Flags, calls and errors\<close>

record flags =
  fl_code :: bool
  fl_config :: bool
  fl_create :: bool
  fl_timeout :: int
  fl_prefix :: string
  fl_vpc :: bool
  fl_key :: string
  fl_from :: int
  fl_to :: int
  fl_batch :: int
  fl_mem :: int
  fl_bucket :: string

definition ROLE :: string where "ROLE = ''arn:aws:iam::[aws account id]:role/[role name]''"

record VpcConfig =
  SubnetIds :: "string list"
  SecurityGroupIds :: "string list"

definition subnet :: "string list" where "subnet = [''sb-your-subnet-1'', ''sb-your-subnet-2'']"
definition securityGroup :: "string list" where "securityGroup = [''sg-your-security-group'']"

definition vpcConfig :: "flags \<Rightarrow> VpcConfig" where
  "vpcConfig fl = (if fl_vpc fl then \<lparr>SubnetIds = subnet, SecurityGroupIds = securityGroup\<rparr> else \<lparr>SubnetIds = [], SecurityGroupIds = []\<rparr>)"

datatype api_call =
    CreateFunction (ac_name: string) (ac_bucket: string) (ac_s3key: string) string int string string int VpcConfig
  | UpdateFunctionCode (ac_name: string) (ac_bucket: string) (ac_s3key: string)
  | UpdateFunctionConfiguration (ac_name: string) string int string int VpcConfig

datatype api_error = AwsError string string | OtherError string

type_synonym service = "api_call \<Rightarrow> api_error + string"

section \<open>One call\<close>

text \<open>What the \<open>switch\<close> on the error prints; \<open>codes\<close> are its cases.\<close>

definition print_error :: "string list \<Rightarrow> api_error \<Rightarrow> string" where
  "print_error codes e =
     (case e of
        AwsError c msg \<Rightarrow> if c \<in> set codes then c @ '' '' @ msg else msg
      | OtherError msg \<Rightarrow> msg)"

definition configCodes :: "string list" where
  "configCodes = [''ServiceException'', ''ResourceNotFoundException'', ''InvalidParameterValueException'',
     ''TooManyRequestsException'', ''ResourceConflictException'', ''PreconditionFailedException'']"

definition codeCodes :: "string list" where
  "codeCodes = [''ServiceException'', ''ResourceNotFoundException'', ''InvalidParameterValueException'',
     ''TooManyRequestsException'', ''CodeStorageExceededException'', ''PreconditionFailedException'']"

definition createCodes :: "string list" where
  "createCodes = [''ServiceException'', ''InvalidParameterValueException'', ''ResourceNotFoundException'',
     ''ResourceConflictException'', ''TooManyRequestsException'', ''CodeStorageExceededException'']"

text \<open>The state of the program: the calls made and the lines printed.\<close>

record deploy =
  dp_calls :: "api_call list"
  dp_out :: "string list"

definition dp_call :: "api_call \<Rightarrow> string \<Rightarrow> deploy \<Rightarrow> deploy" where
  "dp_call c line d = d\<lparr>dp_calls := dp_calls d @ [c], dp_out := dp_out d @ [line]\<rparr>"

text \<open>
  What the goroutine of an update does: whether it calls \<open>wg.Done\<close>, its call, and the line it prints.
\<close>

type_synonym update = "bool \<times> api_call \<times> string"

definition config_input :: "flags \<Rightarrow> string \<Rightarrow> api_call" where
  "config_input fl name = UpdateFunctionConfiguration name (fl_key fl) (fl_mem fl) ROLE (fl_timeout fl) (vpcConfig fl)"

definition updateConfig :: "flags \<Rightarrow> service \<Rightarrow> string \<Rightarrow> update" where
  "updateConfig fl svc name =
     (let input = config_input fl name
      in case svc input of
           Inl e \<Rightarrow> (False, input, print_error configCodes e)
         | Inr result \<Rightarrow> (True, input, name @ '' '' @ [CHR 0x0A] @ '' '' @ result))"

definition code_input :: "flags \<Rightarrow> string \<Rightarrow> api_call" where
  "code_input fl name = UpdateFunctionCode name (fl_bucket fl) (fl_key fl @ ''.zip'')"

definition updateCode :: "flags \<Rightarrow> service \<Rightarrow> string \<Rightarrow> update" where
  "updateCode fl svc name =
     (let input = code_input fl name
      in case svc input of
           Inl e \<Rightarrow> (False, input, print_error codeCodes e)
         | Inr result \<Rightarrow> (True, input, name @ '' '' @ [CHR 0x0A] @ '' '' @ result))"

text \<open>The newline between name and result is a character constant, which \<open>Println\<close> prints as the number 10.\<close>

definition create_input :: "flags \<Rightarrow> string \<Rightarrow> api_call" where
  "create_input fl name =
     CreateFunction name (fl_bucket fl) (fl_key fl @ ''.zip'') (fl_key fl) (fl_mem fl) ROLE ''go1.x'' (fl_timeout fl) (vpcConfig fl)"

definition createFunction :: "flags \<Rightarrow> service \<Rightarrow> string \<Rightarrow> deploy \<Rightarrow> deploy" where
  "createFunction fl svc name d =
     (let d = d\<lparr>dp_out := dp_out d @ [''create: '' @ name]\<rparr>; input = create_input fl name
      in case svc input of
           Inl e \<Rightarrow> dp_call input (print_error createCodes e) d
         | Inr result \<Rightarrow> dp_call input (name @ '' 10 '' @ result) d)"

section \<open>The program\<close>

definition group_count :: "flags \<Rightarrow> int" where
  "group_count fl = ceil_div64 (wrap_int (fl_to fl - fl_from fl)) (fl_batch fl)"

definition node_name :: "flags \<Rightarrow> int \<Rightarrow> string" where
  "node_name fl i = fl_prefix fl @ itoa i"

text \<open>The loop that starts the goroutines of group \<open>j\<close>; \<open>n\<close> is the number of iterations left to \<open>batch\<close>.\<close>

fun start_batch :: "flags \<Rightarrow> int \<Rightarrow> int \<Rightarrow> nat \<Rightarrow> int list" where
  "start_batch fl j i 0 = []"
| "start_batch fl j i (Suc n) =
     (let k = wrap_int (wrap_int (wrap_int (j * fl_batch fl) + fl_from fl) + i)
      in if k < fl_to fl then k # start_batch fl j (i + 1) n else [])"

text \<open>The order of the calls and of the printed lines of each batch, in each of the two phases.\<close>

datatype phase = CodePhase | ConfigPhase
datatype effect = Calls | Lines

type_synonym orders = "phase \<Rightarrow> effect \<Rightarrow> int \<Rightarrow> int list \<Rightarrow> int list"

definition run_batch :: "(int \<Rightarrow> update) \<Rightarrow> (effect \<Rightarrow> int list \<Rightarrow> int list) \<Rightarrow> int list \<Rightarrow> deploy \<Rightarrow> bool \<times> deploy" where
  "run_batch upd ord ids d =
     (list_all (fst \<circ> upd) ids,
      d\<lparr>dp_calls := dp_calls d @ map (fst \<circ> snd \<circ> upd) (ord Calls ids), dp_out := dp_out d @ map (snd \<circ> snd \<circ> upd) (ord Lines ids)\<rparr>)"

text \<open>The loop over the groups: \<open>wg.Wait\<close> returns when every goroutine of the group has called \<open>Done\<close>.\<close>

fun update_groups :: "(string \<Rightarrow> update) \<Rightarrow> (effect \<Rightarrow> int \<Rightarrow> int list \<Rightarrow> int list) \<Rightarrow> flags \<Rightarrow> int \<Rightarrow> nat \<Rightarrow> deploy \<Rightarrow> bool \<times> deploy" where
  "update_groups upd ord fl j 0 d = (True, d)"
| "update_groups upd ord fl j (Suc n) d =
     (case run_batch (upd \<circ> node_name fl) (\<lambda>e. ord e j) (start_batch fl j 0 (nat (fl_batch fl))) (d\<lparr>dp_out := dp_out d @ [itoa j]\<rparr>) of
        (False, d1) \<Rightarrow> (False, d1)
      | (True, d1) \<Rightarrow> update_groups upd ord fl (j + 1) n d1)"

fun create_loop :: "flags \<Rightarrow> service \<Rightarrow> int \<Rightarrow> nat \<Rightarrow> deploy \<Rightarrow> deploy" where
  "create_loop fl svc i 0 d = d"
| "create_loop fl svc i (Suc n) d = create_loop fl svc (i + 1) n (createFunction fl svc (node_name fl i) d)"

definition deploy_main :: "flags \<Rightarrow> service \<Rightarrow> orders \<Rightarrow> deploy \<Rightarrow> bool \<times> deploy" where
  "deploy_main fl svc ord d =
     (let d1 = (if fl_create fl then create_loop fl svc (fl_from fl) (nat (fl_to fl - fl_from fl)) d else d);
          (ok, d2) = (if fl_code fl then update_groups (updateCode fl svc) (ord CodePhase) fl 0 (nat (group_count fl)) d1 else (True, d1))
      in if \<not> ok then (False, d2)
         else if fl_config fl then update_groups (updateConfig fl svc) (ord ConfigPhase) fl 0 (nat (group_count fl)) d2 else (True, d2))"

section \<open>What is updated\<close>

text \<open>
  Flags for which the integers do not wrap and the number of groups is not rounded; and orders that run every goroutine
  of a batch once.
\<close>

definition flags_ok :: "flags \<Rightarrow> bool" where
  "flags_ok fl \<longleftrightarrow> 0 \<le> fl_from fl \<and> fl_from fl \<le> fl_to fl \<and> fl_to fl < 2 ^ 53 \<and> 0 < fl_batch fl \<and> fl_batch fl < 2 ^ 53"

definition orders_ok :: "orders \<Rightarrow> bool" where
  "orders_ok ord \<longleftrightarrow> (\<forall>p e j ids. mset (ord p e j ids) = mset ids)"

definition batch_of :: "flags \<Rightarrow> int \<Rightarrow> int" where
  "batch_of fl k = (k - fl_from fl) div fl_batch fl"

text \<open>The functions of a phase, each once and batch by batch.\<close>

definition in_batches :: "flags \<Rightarrow> int list \<Rightarrow> bool" where
  "in_batches fl ids \<longleftrightarrow> mset ids = mset [fl_from fl .. fl_to fl - 1] \<and> sorted (map (batch_of fl) ids)"

lemma group_count_bounds:
  assumes "flags_ok fl"
  shows "fl_to fl - fl_from fl \<le> group_count fl * fl_batch fl" "(group_count fl - 1) * fl_batch fl < fl_to fl - fl_from fl"
    "0 \<le> group_count fl"
proof -
  have w: "wrap_int (fl_to fl - fl_from fl) = fl_to fl - fl_from fl"
    using assms by (intro wrap_int_id) (auto simp: flags_ok_def)
  have c: "group_count fl = ceil_div (fl_to fl - fl_from fl) (fl_batch fl)"
    using assms unfolding group_count_def w by (intro ceil_div_exact) (auto simp: flags_ok_def)
  show "fl_to fl - fl_from fl \<le> group_count fl * fl_batch fl" "(group_count fl - 1) * fl_batch fl < fl_to fl - fl_from fl"
    unfolding c using assms ceil_div_bounds by (auto simp: flags_ok_def)
  then show "0 \<le> group_count fl"
    using assms by (smt (verit) flags_ok_def mult_less_0_iff)
qed

lemma start_batch_upto:
  assumes "flags_ok fl" "0 \<le> j" "0 \<le> i" "j * fl_batch fl < 2 ^ 54" "i + int n \<le> fl_batch fl"
  shows "start_batch fl j i n =
     [j * fl_batch fl + fl_from fl + i .. min (j * fl_batch fl + fl_from fl + i + int n) (fl_to fl) - 1]"
  using assms(3,5)
proof (induction n arbitrary: i)
  case (Suc n)
  let ?a = "j * fl_batch fl + fl_from fl + i"
  have b: "0 \<le> j * fl_batch fl" "0 \<le> fl_from fl" "fl_from fl < 2 ^ 53" "i < 2 ^ 53"
    using assms(1,2) Suc.prems by (auto simp: flags_ok_def)
  have "wrap_int (j * fl_batch fl) = j * fl_batch fl" using assms(4) b by (intro wrap_int_id) auto
  moreover have "wrap_int (j * fl_batch fl + fl_from fl) = j * fl_batch fl + fl_from fl"
    using assms(4) b by (intro wrap_int_id) auto
  moreover have "wrap_int ?a = ?a" using assms(4) b Suc.prems by (intro wrap_int_id) auto
  ultimately have k: "wrap_int (wrap_int (wrap_int (j * fl_batch fl) + fl_from fl) + i) = ?a" by simp
  have IH: "start_batch fl j (i + 1) n = [?a + 1 .. min (?a + int (Suc n)) (fl_to fl) - 1]"
    using Suc.IH [of "i + 1"] Suc.prems by (simp add: algebra_simps)
  show ?case
  proof (cases "?a < fl_to fl")
    case True
    have "[?a .. min (?a + int (Suc n)) (fl_to fl) - 1] = ?a # [?a + 1 .. min (?a + int (Suc n)) (fl_to fl) - 1]"
      using True by (intro upto_rec1) simp
    then show ?thesis using True k IH by (simp add: Let_def)
  qed (use k in simp)
qed simp


lemma batch_of_batch:
  assumes "0 < fl_batch fl" "j * fl_batch fl + fl_from fl \<le> k" "k < (j + 1) * fl_batch fl + fl_from fl"
  shows "batch_of fl k = j"
  unfolding batch_of_def
  by (rule int_div_pos_eq [where r = "k - fl_from fl - j * fl_batch fl"]) (use assms in \<open>auto simp: algebra_simps\<close>)

lemma batch_of_ge:
  assumes "0 < fl_batch fl" "j * fl_batch fl + fl_from fl \<le> k"
  shows "j \<le> batch_of fl k"
  using zdiv_mono1 [of "j * fl_batch fl" "k - fl_from fl" "fl_batch fl"] assms by (simp add: batch_of_def)

text \<open>The functions of the groups \<open>j\<close> to \<open>j + n\<close>, exclusive.\<close>

abbreviation group_range :: "flags \<Rightarrow> int \<Rightarrow> nat \<Rightarrow> int list" where
  "group_range fl j n \<equiv> [j * fl_batch fl + fl_from fl .. min ((j + int n) * fl_batch fl + fl_from fl) (fl_to fl) - 1]"

lemma group_range_Suc:
  assumes "0 < fl_batch fl"
  shows "group_range fl j (Suc n) = group_range fl j 1 @ group_range fl (j + 1) n"
proof -
  let ?b = "fl_batch fl" and ?f = "fl_from fl" and ?t = "fl_to fl"
  have j: "j + int (Suc n) = j + 1 + int n" "j + int 1 = j + 1" by simp_all
  have le: "(j + 1) * ?b \<le> (j + 1 + int n) * ?b" "j * ?b \<le> (j + 1) * ?b" using assms by simp_all
  show ?thesis
  proof (cases "?t \<le> (j + 1) * ?b + ?f")
    case True
    then have m: "min ((j + 1) * ?b + ?f) ?t = ?t" "min ((j + 1 + int n) * ?b + ?f) ?t = ?t" using le by linarith+
    show ?thesis unfolding j m using True by simp
  next
    case False
    then have m: "min ((j + 1) * ?b + ?f) ?t = (j + 1) * ?b + ?f" by simp
    show ?thesis unfolding j m
      using upto_split1 [of "j * ?b + ?f" "(j + 1) * ?b + ?f" "min ((j + 1 + int n) * ?b + ?f) ?t - 1"] le False
      by (cases "(j + 1) * ?b + ?f \<le> min ((j + 1 + int n) * ?b + ?f) ?t - 1") (auto simp: min_def)
  qed
qed

lemma start_batch_group:
  assumes "flags_ok fl" "0 \<le> j" "j < group_count fl"
  shows "start_batch fl j 0 (nat (fl_batch fl)) = group_range fl j 1"
proof -
  have b: "0 < fl_batch fl" using assms(1) by (simp add: flags_ok_def)
  have "j * fl_batch fl \<le> (group_count fl - 1) * fl_batch fl" using assms(3) b by (intro mult_right_mono) auto
  then have "j * fl_batch fl < fl_to fl - fl_from fl" using group_count_bounds(2) [OF assms(1)] by linarith
  then have "j * fl_batch fl < 2 ^ 54" using assms(1) by (simp add: flags_ok_def)
  then show ?thesis
    using start_batch_upto [OF assms(1,2), of 0 "nat (fl_batch fl)"] b by (simp add: algebra_simps)
qed

text \<open>An update makes one call, and is done when the call succeeds.\<close>

locale updater =
  fixes upd :: "string \<Rightarrow> update" and inp :: "string \<Rightarrow> api_call" and ok :: "string \<Rightarrow> bool"
  assumes upd_done: "fst (upd name) = ok name"
    and upd_call: "fst (snd (upd name)) = inp name"
begin

lemma run_batch_calls:
  "run_batch (upd \<circ> node_name fl) ord ids d =
     (\<forall>k \<in> set ids. ok (node_name fl k),
      d\<lparr>dp_calls := dp_calls d @ map (inp \<circ> node_name fl) (ord Calls ids), dp_out := dp_out d @ map (snd \<circ> snd \<circ> upd \<circ> node_name fl) (ord Lines ids)\<rparr>)"
  by (simp add: run_batch_def list_all_iff upd_done upd_call comp_def)

text \<open>The groups from \<open>j\<close> on cover the functions from the start of group \<open>j\<close> to the end of the last one.\<close>

lemma update_groups_calls:
  assumes "flags_ok fl" "\<And>e j ids. mset (ord e j ids) = mset ids" "0 \<le> j" "j + int n \<le> group_count fl"
  shows "\<exists>d' ids. update_groups upd ord fl j n d = (\<forall>k \<in> set (group_range fl j n). ok (node_name fl k), d') \<and>
     dp_calls d' = dp_calls d @ map (inp \<circ> node_name fl) ids \<and>
     (fst (update_groups upd ord fl j n d) \<longrightarrow> mset ids = mset (group_range fl j n) \<and> sorted (map (batch_of fl) ids))"
  using assms(3,4)
proof (induction n arbitrary: j d)
  case (Suc n)
  have b: "0 < fl_batch fl" using assms(1) by (simp add: flags_ok_def)
  let ?ids = "group_range fl j 1" and ?ns = "\<lambda>ids. \<forall>k \<in> set ids. ok (node_name fl k)"
  let ?d = "d\<lparr>dp_out := dp_out d @ [itoa j]\<rparr>"
  have sb: "start_batch fl j 0 (nat (fl_batch fl)) = ?ids" using start_batch_group [OF assms(1)] Suc.prems by simp
  obtain d1 where d1: "run_batch (upd \<circ> node_name fl) (\<lambda>e. ord e j) ?ids ?d = (?ns ?ids, d1)"
      "dp_calls d1 = dp_calls d @ map (inp \<circ> node_name fl) (ord Calls j ?ids)"
    by (simp add: run_batch_calls)
  have "0 \<le> j + 1" "j + 1 + int n \<le> group_count fl" using Suc.prems by simp_all
  from Suc.IH [OF this, of d1]
  obtain d2 ids2 where d2: "update_groups upd ord fl (j + 1) n d1 = (?ns (group_range fl (j + 1) n), d2)"
      "dp_calls d2 = dp_calls d1 @ map (inp \<circ> node_name fl) ids2"
      "fst (update_groups upd ord fl (j + 1) n d1) \<longrightarrow> mset ids2 = mset (group_range fl (j + 1) n) \<and> sorted (map (batch_of fl) ids2)"
    by (elim exE conjE) (rule that)
  show ?case
  proof (cases "?ns ?ids")
    case False
    then have "run_batch (upd \<circ> node_name fl) (\<lambda>e. ord e j) ?ids ?d = (False, d1)" using d1(1) by (simp only:)
    then have "update_groups upd ord fl j (Suc n) d = (False, d1)" using sb by simp
    moreover have "?ns (group_range fl j (Suc n)) = False" unfolding group_range_Suc [OF b] using False by auto
    ultimately show ?thesis
      using d1(2) by (intro exI [of _ d1] exI [of _ "ord Calls j ?ids"]) (simp only: fst_conv simp_thms)
  next
    case True
    then have u: "update_groups upd ord fl j (Suc n) d = (?ns (group_range fl (j + 1) n), d2)" using d1(1) d2(1) sb by simp
    have "sorted (map (batch_of fl) (ord Calls j ?ids @ ids2))" if "?ns (group_range fl (j + 1) n)"
    proof -
      have i2: "mset ids2 = mset (group_range fl (j + 1) n)" "sorted (map (batch_of fl) ids2)" using d2(1,3) that by simp_all
      have "batch_of fl k = j" if "k \<in> set (ord Calls j ?ids)" for k
        using that mset_eq_setD [OF assms(2) [of Calls j ?ids]] by (auto intro!: batch_of_batch [OF b])
      moreover have "j \<le> batch_of fl k" if "k \<in> set ids2" for k
        using that mset_eq_setD [OF i2(1)] batch_of_ge [OF b, of "j + 1" k] by auto
      moreover have "map (batch_of fl) (ord Calls j ?ids) = replicate (length (ord Calls j ?ids)) j"
        using calculation(1) by (intro replicate_eqI) auto
      ultimately show ?thesis using i2(2) by (auto simp: sorted_append sorted_replicate)
    qed
    moreover have "mset (ord Calls j ?ids @ ids2) = mset (group_range fl j (Suc n))" if "?ns (group_range fl (j + 1) n)"
      unfolding group_range_Suc [OF b] using d2(1,3) that assms(2) by simp
    moreover have "?ns (group_range fl j (Suc n)) = ?ns (group_range fl (j + 1) n)"
      unfolding group_range_Suc [OF b] using True by auto
    ultimately show ?thesis
      unfolding u using d1(2) d2(2) by (intro exI [of _ d2] exI [of _ "ord Calls j ?ids @ ids2"]) simp
  qed
qed simp

lemma update_all:
  assumes "flags_ok fl" "\<And>e j ids. mset (ord e j ids) = mset ids"
  shows "\<exists>d' ids. update_groups upd ord fl 0 (nat (group_count fl)) d = (\<forall>k \<in> {fl_from fl ..< fl_to fl}. ok (node_name fl k), d') \<and>
     dp_calls d' = dp_calls d @ map (inp \<circ> node_name fl) ids \<and>
     ((\<forall>k \<in> {fl_from fl ..< fl_to fl}. ok (node_name fl k)) \<longrightarrow> in_batches fl ids)"
proof -
  note g = group_count_bounds [OF assms(1)]
  have r: "group_range fl 0 (nat (group_count fl)) = [fl_from fl .. fl_to fl - 1]"
  proof -
    have "min ((0 + int (nat (group_count fl))) * fl_batch fl + fl_from fl) (fl_to fl) = fl_to fl" using g(1,3) by simp
    then show ?thesis by (simp only: mult_zero_left add_0)
  qed
  have e: "set [fl_from fl .. fl_to fl - 1] = {fl_from fl ..< fl_to fl}" by auto
  have "\<exists>d' ids. update_groups upd ord fl 0 (nat (group_count fl)) d = (\<forall>k \<in> {fl_from fl ..< fl_to fl}. ok (node_name fl k), d') \<and>
     dp_calls d' = dp_calls d @ map (inp \<circ> node_name fl) ids \<and>
     (fst (update_groups upd ord fl 0 (nat (group_count fl)) d) \<longrightarrow> in_batches fl ids)"
    using update_groups_calls [OF assms(1), of ord 0 "nat (group_count fl)" d, unfolded r e] assms(2) g(3)
    unfolding in_batches_def by simp
  then show ?thesis by (elim exE conjE) (auto simp only: fst_conv)
qed

end

interpretation code: updater "updateCode fl svc" "code_input fl" "\<lambda>name. \<exists>r. svc (code_input fl name) = Inr r"
  by unfold_locales (auto simp: updateCode_def Let_def split: sum.splits)

interpretation config: updater "updateConfig fl svc" "config_input fl" "\<lambda>name. \<exists>r. svc (config_input fl name) = Inr r"
  by unfold_locales (auto simp: updateConfig_def Let_def split: sum.splits)

lemma create_loop_calls:
  "dp_calls (create_loop fl svc i n d) = dp_calls d @ map (create_input fl \<circ> node_name fl) [i .. i + int n - 1]"
proof (induction n arbitrary: i d)
  case (Suc n)
  have "[i .. i + int (Suc n) - 1] = i # [i + 1 .. i + 1 + int n - 1]" by (subst upto_rec1) auto
  then show ?case
    using Suc.IH [of "i + 1"] by (simp add: createFunction_def dp_call_def Let_def split: sum.splits)
qed simp

abbreviation all_updated :: "flags \<Rightarrow> service \<Rightarrow> (flags \<Rightarrow> string \<Rightarrow> api_call) \<Rightarrow> bool" where
  "all_updated fl svc inp \<equiv> \<forall>k \<in> {fl_from fl ..< fl_to fl}. \<exists>r. svc (inp fl (node_name fl k)) = Inr r"

text \<open>The calls of the program: the creations in order, then the two phases.\<close>

definition deploy_calls :: "flags \<Rightarrow> int list \<Rightarrow> int list \<Rightarrow> api_call list" where
  "deploy_calls fl codes configs =
     (if fl_create fl then map (create_input fl \<circ> node_name fl) [fl_from fl .. fl_to fl - 1] else []) @
     (if fl_code fl then map (code_input fl \<circ> node_name fl) codes else []) @
     (if fl_config fl then map (config_input fl \<circ> node_name fl) configs else [])"

lemma deploy_main_calls:
  assumes "flags_ok fl" "orders_ok ord"
  shows "\<exists>d' codes configs. deploy_main fl svc ord d =
      ((fl_code fl \<longrightarrow> all_updated fl svc code_input) \<and> (fl_config fl \<longrightarrow> all_updated fl svc config_input), d') \<and>
     (fst (deploy_main fl svc ord d) \<longrightarrow> dp_calls d' = dp_calls d @ deploy_calls fl codes configs \<and>
        (fl_code fl \<longrightarrow> in_batches fl codes) \<and> (fl_config fl \<longrightarrow> in_batches fl configs))"
proof -
  have o: "mset (ord p e j ids) = mset ids" for p e j ids using assms(2) by (simp add: orders_ok_def)
  define d1 where "d1 = (if fl_create fl then create_loop fl svc (fl_from fl) (nat (fl_to fl - fl_from fl)) d else d)"
  have "[fl_from fl .. fl_from fl + int (nat (fl_to fl - fl_from fl)) - 1] = [fl_from fl .. fl_to fl - 1]" by auto
  then have c1: "dp_calls d1 = dp_calls d @ (if fl_create fl then map (create_input fl \<circ> node_name fl) [fl_from fl .. fl_to fl - 1] else [])"
    by (simp add: d1_def create_loop_calls del: nat_diff_distrib)
  obtain d2 codes where c2: "update_groups (updateCode fl svc) (ord CodePhase) fl 0 (nat (group_count fl)) d1 = (all_updated fl svc code_input, d2)"
      "dp_calls d2 = dp_calls d1 @ map (code_input fl \<circ> node_name fl) codes"
      "all_updated fl svc code_input \<Longrightarrow> in_batches fl codes"
    using code.update_all [OF assms(1), of "ord CodePhase" fl svc d1] o by blast
  define d3 where "d3 = (if fl_code fl then d2 else d1)"
  obtain d4 configs where c4: "update_groups (updateConfig fl svc) (ord ConfigPhase) fl 0 (nat (group_count fl)) d3 = (all_updated fl svc config_input, d4)"
      "dp_calls d4 = dp_calls d3 @ map (config_input fl \<circ> node_name fl) configs"
      "all_updated fl svc config_input \<Longrightarrow> in_batches fl configs"
    using config.update_all [OF assms(1), of "ord ConfigPhase" fl svc d3] o by blast
  have run: "deploy_main fl svc ord d =
      (if fl_code fl \<and> \<not> all_updated fl svc code_input then (False, d2)
       else if fl_config fl then (all_updated fl svc config_input, d4) else (True, d3))"
    using c2(1) c4(1) unfolding deploy_main_def d1_def [symmetric] by (cases "fl_code fl") (auto simp: Let_def d3_def)
  show ?thesis
  proof (cases "(fl_code fl \<longrightarrow> all_updated fl svc code_input) \<and> (fl_config fl \<longrightarrow> all_updated fl svc config_input)")
    case True
    let ?d = "if fl_config fl then d4 else d3"
    have "deploy_main fl svc ord d = (True, ?d)" using True by (simp only: run) auto
    moreover have "dp_calls d3 = dp_calls d1 @ (if fl_code fl then map (code_input fl \<circ> node_name fl) codes else [])"
      using c2(2) by (simp add: d3_def)
    then have "dp_calls ?d = dp_calls d @ deploy_calls fl codes configs" using c1 c4(2) by (simp add: deploy_calls_def)
    ultimately show ?thesis using True c2(3) c4(3) by (intro exI [of _ ?d] exI [of _ codes] exI [of _ configs]) auto
  next
    case False
    then have "fst (deploy_main fl svc ord d) = False" by (simp only: run) auto
    then obtain d' where "deploy_main fl svc ord d = (False, d')" by (cases "deploy_main fl svc ord d") simp
    moreover have "((fl_code fl \<longrightarrow> all_updated fl svc code_input) \<and> (fl_config fl \<longrightarrow> all_updated fl svc config_input)) = False"
      using False by blast
    ultimately show ?thesis by (simp only: fst_conv simp_thms prod.inject)
  qed
qed

end
