(* ===== verification/Spec2Isabelle.thy ===== *)
theory Spec2Isabelle
  imports Validation ClientSet ClientLog ProxyMain DeployTool
begin

text \<open>
  This development verifies InfiniCache (\<open>src/\<close>), an in-memory object cache on top of cloud functions.  A client library
  (\<open>client\<close>) splits an object into \<open>d\<close> data and \<open>p\<close> parity chunks and sends every chunk on a connection of its own
  to the proxy (\<open>proxy\<close>).  The proxy keeps the metadata of all objects, chooses the Lambda instance for every chunk, evicts
  old objects with a clock, keeps the connections to the Lambdas, wakes them up, and forwards the requests.  A Lambda
  (\<open>lambda\<close>) keeps its chunks in memory, answers requests while its billing cycle lasts, and moves its chunks to a fresh
  Lambda before it is reclaimed, over a forwarding server in the proxy (\<open>migrator\<close>).

  \<^bold>\<open>Theories and sources.\<close>  Names are those of the code; a suffix or prefix tells apart methods of different types.

  \<^item> \<open>Prelude\<close>: panics as the left side of \<open>'a res\<close>, \<open>bindR\<close>, indexing and assignment with bounds, \<open>strconv.Itoa\<close> and
    \<open>Atoi\<close>, wrap-around of \<open>int\<close>; \<open>HashMap\<close>: the operations of the third-party hash map as a parameter.
  \<^item> \<open>LambdaMeta\<close> (\<open>proxy/lambdastore/meta.go\<close>), \<open>GroupSlice\<close> (\<open>proxy/server/group.go\<close>), \<open>ObjectMeta\<close>
    (\<open>proxy/server/meta.go\<close>, \<open>metastore.go\<close>), \<open>Placer\<close> (\<open>proxy/server/placer.go\<close>): the placer.  Metadata objects are heap
    objects with addresses, because the two arrays of the clock, the map and the eviction share them.  Its proofs are
    \<open>PlacerInv\<close> (the arrays of the clock), \<open>Eviction\<close> (the eviction loop), \<open>PlacerSys\<close> (the invariant of the placer and
    that no operation panics), \<open>PlacerTidy\<close> (no object twice in the rotation), \<open>PlacerSize\<close> (sizes), \<open>PlacerLive\<close> (when
    a SET returns, what a GET finds).
  \<^item> \<open>Scheduler\<close> (\<open>proxy/server/scheduler.go\<close>, \<open>proxy/lambdastore/deployment.go\<close>), \<open>MigrationScheduler\<close> (its second half
    and the shutdown of \<open>proxy/proxy.go\<close>), \<open>Forwarder\<close> (\<open>migrator/\<close>).
  \<^item> \<open>Resp\<close>: errors, frames, readers and writers of the RESP protocol; \<open>ProxyTypes\<close> (\<open>proxy/types/\<close>), \<open>ProxyCollector\<close>
    (\<open>proxy/collector/collector.go\<close>, \<open>proxy/global/ip.go\<close>), \<open>LambdaInstance\<close> and \<open>LambdaConnection\<close>
    (\<open>proxy/lambdastore/instance.go\<close>, \<open>connection.go\<close>), \<open>Validation\<close> (\<open>Instance.validate\<close> with its goroutines),
    \<open>GetReplies\<close> (the answers to a GET), \<open>ChunkRoutes\<close> (which instance the placer names for a chunk, and what a SET
    changes of it), \<open>ProxyServer\<close> (\<open>proxy/server/proxy.go\<close>), \<open>ProxyMain\<close> (\<open>proxy/proxy.go\<close>, \<open>proxy/global/global.go\<close>).
  \<^item> \<open>LambdaStorage\<close> (\<open>lambda/storage/storage.go\<close>), \<open>LambdaLifetime\<close> (\<open>lambda/lifetime/\<close>), \<open>LambdaCollector\<close>
    (\<open>lambda/collector/collector.go\<close>), \<open>LambdaHandler\<close> (\<open>lambda/handler.go\<close>), \<open>MigratorClient\<close> and \<open>StorageAdapter\<close>
    (\<open>lambda/migrator/\<close>), \<open>Migration\<close> (two Lambdas in a migration).
  \<^item> \<open>ErasureCode\<close> (\<open>client/ec.go\<close> and the coding in \<open>ecRedis.go\<close>), \<open>EcClient\<close> (\<open>client/client.go\<close>, \<open>ecRedis.go\<close>,
    \<open>example/main.go\<close>), \<open>ClientLog\<close> (\<open>client/log.go\<close>).
  \<^item> \<open>Loggers\<close> (\<open>common/logger/\<close>), \<open>DeployTool\<close> (\<open>deploy/deploy_function.go\<close>).
  \<^item> \<open>EndToEnd\<close> and \<open>ObjectPath\<close>: one chunk and one object on their way through all parts.  \<open>CacheQueues\<close>, \<open>CacheSystem\<close>,
    \<open>CacheRound\<close> and \<open>CacheRuns\<close>: handlers, request loops, connections and Lambdas as one system (\<open>sys_step\<close>), the
    specification of the cache (\<open>spec_step\<close>) and the simulation between them; \<open>ClientWire\<close> and \<open>ClientSet\<close>: the client's
    commands at the proxy and the answers to its SETs.  This theory states the properties.

  \<^bold>\<open>Conventions.\<close>  State is passed explicitly.  A panic is \<open>Inl\<close> of \<open>panic\<close>, a Go error is a value of \<open>error\<close>.  \<open>int64\<close>,
  \<open>uint64\<close> and \<open>uint32\<close> counters are words; \<open>int\<close> is a HOL integer with the wrap-around written out where the code
  computes with it.  What blocks for ever or never terminates is the outcome \<open>None\<close> of an operation.  Goroutines that
  share state are step relations (\<open>tstep\<close>: a handler and the timer; \<open>vstep\<close>: validations; \<open>fstep\<close>: the two copying
  directions; \<open>flstep\<close>: the flusher; \<open>sched_step\<close>: the scheduler's operations; \<open>sys_step\<close>: the cache; \<open>mstep\<close>: the proxy's main
  program), and statements about them are about every interleaving.  Code outside the repository is a parameter with its documented laws as hypotheses: the hash map
  (\<open>hashmap_ok\<close>), the RESP readers (\<open>reader_ok\<close>), the Reed-Solomon package (locale \<open>erasure_code\<close>), the order of \<open>range\<close>
  over a map (\<open>range_ok\<close>), the consistent-hash ring, the AWS services, the network.  Witnesses run them on association
  lists, lists of frames and a copying code.

  \<^bold>\<open>Interfaces.\<close>  The contracts between components are locales, interpreted on the definitions of the model:
  \<open>size_counter\<close> (\<open>lsize\<close>), \<open>address_slice\<close> (\<open>gslice\<close>), \<open>chunk_store\<close> (\<open>lstore\<close>), \<open>storage_contract\<close> (\<open>repo_store\<close>),
  \<open>migration_peer\<close> and \<open>migrating_store\<close> (\<open>migr\<close>: the handlers of the source Lambda behind the wire; a sublocale shows
  that the adapter around a store again keeps the contract of a store), \<open>erasure_code\<close> (\<open>dummy\<close>: the encoder of the
  repository), \<open>updater\<close> (\<open>code\<close>, \<open>config\<close>: the updates of the deployment tool).

  \<^bold>\<open>What is shown.\<close>  The cache is a map that may forget: in every order of SETs, GETs and answers the system refines it, a
  GET delivers the bytes of the last SET before it, and only the SET of another chunk makes it forget.  In this statement
  a request and the Lambda's answer to it are one step on an instance that has a connection, and instances keep their
  Lambdas; failing connections and migrations are treated on their own.  The placer keeps its invariant and never panics, its size counters are exact, a SET returns whenever
  something can be evicted and hangs otherwise, a GET finds what a SET placed, evicted chunks are deleted.  Deployments are
  never lost or given twice, from the start of the proxy to its shutdown.  A request is answered or waits on a
  connection; responses are matched in order; of the answers to a GET the first \<open>d\<close> are delivered; validations never ping
  a missing connection.  The Lambda's handlers keep its state well formed for any input, its timeout ends with the billing
  cycle and only when idle.  A migration moves exactly the chunks of the source, and requests served during it behave as
  on one map.  The proxy's main program stops in order.  An object comes back through Lambdas, proxy and client in whatever order the Lambdas answer.  Where the
  code does not do what it means to, the theorem says what it does (\<open>set_hangs\<close>, \<open>self_eviction_duplicates\<close>,
  \<open>swap_exceeds_capacity\<close>, \<open>instance_of_reserved_panics\<close>, \<open>reset_can_wedge\<close>, \<open>stream_resent\<close>, \<open>overtaken_validation\<close>,
  \<open>deleted_key_set_lost\<close>, \<open>data_stops_initiation\<close>, \<open>signals_crash_or_lost\<close>).

  \<^bold>\<open>Bounds.\<close>  The eviction loop is a \<open>partial_function\<close> (\<open>None\<close> is not returning; \<open>set_returns\<close> and \<open>set_hangs\<close> decide which);
  all other loops are total functions, so there is no fuel.  Objects have at most 100 chunks, all of the same number in one
  placer, because the code's placement array has 100 entries and the eviction indexes one object's placement by the
  other's; a group has fewer than \<open>2 ^ 62\<close> instances; the chunks of one GET are fewer than \<open>2 ^ 31\<close>; the flags of the
  deployment tool are below \<open>2 ^ 53\<close>.

  \<^bold>\<open>Not modelled.\<close>  Logging calls inside the components, deadlines of sockets and the nanolog and S3 writes are output.
  \<open>main\<close> of \<open>lambda/handler.go\<close> registers the modelled handlers, and the initialiser of that package sets \<open>GOMAXPROCS\<close>.
  The flag \<open>replica\<close> of \<open>New\<close> only changes a message.  The goroutines of one client request run one after the
  other, because each works on its own connection and slot; there is one group, as in the proxy.
\<close>

section \<open>Concrete systems for the witnesses\<close>

definition demo_group :: "nat \<Rightarrow> uint64 \<Rightarrow> LMeta Group" where
  "demo_group k cap =
     \<lparr>All = replicate k (Some (zeroLMeta\<lparr>Capacity := cap\<rparr>)), g_size = int k, sliceBase = 0\<rparr>"

definition demo_placer :: "nat \<Rightarrow> uint64 \<Rightarrow> (string \<times> addr) list placer" where
  "demo_placer k cap = NewPlacer alist_hashmap (demo_group k cap)"

definition demo_set :: "string \<Rightarrow> int \<Rightarrow> int64 \<Rightarrow> placer_op" where
  "demo_set key chunk sz = OpSet 0 0 key 1 chunk 0 sz"

lemma demo_group_wf: "0 < k \<Longrightarrow> int k < 2 ^ 62 \<Longrightarrow> insts_wf (demo_group k cap)"
  by (simp add: insts_wf_def group_wf_def demo_group_def)

lemma demo_placer_inv: "0 < k \<Longrightarrow> int k < 2 ^ 62 \<Longrightarrow> placer_inv alist_hashmap n (demo_placer k cap)"
  unfolding demo_placer_def by (intro placer_inv_NewPlacer alist_hashmap_ok demo_group_wf)

section \<open>The placer\<close>

text \<open>
  C2: however SET, GET and post-process requests with the same number of chunks follow each
  other on a new placer, no request panics, and the invariant of the placer holds after each of
  them; the only other outcome is a SET that never returns.
\<close>

theorem placer_never_panics:
  assumes "hashmap_ok H" and "insts_wf g" and "n \<le> 100" and "list_all (op_ok n) xs"
  shows "run_ops H n xs (NewPlacer H g) = None \<or>
     (\<exists>p. run_ops H n xs (NewPlacer H g) = Some (Inr p) \<and> placer_inv H n p)"
  using assms by (intro run_ops_no_panic placer_inv_NewPlacer)

theorem placer_never_panics_witness:
  "\<exists>p. run_ops alist_hashmap 1 [demo_set ''a'' 0 12, demo_set ''b'' 0 8] (demo_placer 1 20) = Some (Inr p) \<and>
     placer_inv alist_hashmap 1 p"
proof -
  have "run_ops alist_hashmap 1 [demo_set ''a'' 0 12, demo_set ''b'' 0 8] (demo_placer 1 20) \<noteq> None"
    by code_simp
  then show ?thesis
    using placer_never_panics [OF alist_hashmap_ok demo_group_wf [of 1 20], of 1 "[demo_set ''a'' 0 12, demo_set ''b'' 0 8]"]
    by (auto simp: demo_placer_def demo_set_def simp del: run_ops.simps run_op.simps)
qed



text \<open>
  C10: a SET returns whenever the clock's primary array holds another object that is unreferenced or
  complete, whatever the state of the clock.
\<close>

theorem set_returns:
  assumes "hashmap_ok H" and "n \<le> 100" and "placer_inv H n p"
    and "op_ok n (OpSet now choice key ss chunk lam cs)"
    and "Some m \<in> set (P_of p)" and "hm_Get H (metaMap p) key \<noteq> Some m" and "vis p m \<longrightarrow> complete (metas p m)"
  shows "\<exists>p'. run_op H n (OpSet now choice key ss chunk lam cs) p = Some (Inr p') \<and> placer_inv H n p'"
  using assms by (rule run_set_returns)

theorem set_returns_witness:
  "\<exists>p p'. run_op alist_hashmap 1 (demo_set ''a'' 0 12) (demo_placer 1 20) = Some (Inr p) \<and>
     run_op alist_hashmap 1 (demo_set ''b'' 0 8) p = Some (Inr p') \<and> placer_inv alist_hashmap 1 p'"
proof -
  have "case run_op alist_hashmap 1 (demo_set ''a'' 0 12) (demo_placer 1 20) of
     Some (Inr p) \<Rightarrow> Some 0 \<in> set (P_of p) \<and> map_of (metaMap p) ''b'' \<noteq> Some 0 \<and> complete (metas p 0) | _ \<Rightarrow> False"
    by code_simp
  then obtain p where p: "run_op alist_hashmap 1 (demo_set ''a'' 0 12) (demo_placer 1 20) = Some (Inr p)"
      "Some 0 \<in> set (P_of p)" "map_of (metaMap p) ''b'' \<noteq> Some 0" "complete (metas p 0)"
    by (auto split: option.splits sum.splits)
  have "placer_inv alist_hashmap 1 p"
    using run_op_ok [OF alist_hashmap_ok _ demo_placer_inv [of 1 1 20], of "demo_set ''a'' 0 12"] p(1)
    by (auto simp: demo_set_def simp del: run_op.simps)
  then show ?thesis
    using set_returns [OF alist_hashmap_ok, of 1 p 0 0 "''b''" 1 0 0 8 0] p by (auto simp: demo_set_def simp del: run_op.simps)
qed

text \<open>
  C35: when the chunk fits on no instance and every object in the primary array is referenced and
  incomplete (or there is none), a SET of a new key never returns: the loop around
  \<open>NextAvailableObject\<close> does not terminate.
\<close>

theorem set_hangs:
  assumes "hashmap_ok H" and "n \<le> 100" and "placer_inv H n p"
    and "op_ok n (OpSet now choice key ss chunk lam cs)"
    and "hm_Get H (metaMap p) key = None" and "cursor p = 0"
    and "\<And>ins. Some ins \<in> set (All (pgroup p)) \<Longrightarrow> \<not> Size ins + cs < Capacity ins"
    and "\<And>m. Some m \<in> set (P_of p) \<Longrightarrow> vis p m \<and> \<not> complete (metas p m)"
  shows "run_op H n (OpSet now choice key ss chunk lam cs) p = None"
  using assms by (rule run_set_hangs)

theorem set_hangs_witness:
  "run_op alist_hashmap 1 (demo_set ''a'' 0 20) (demo_placer 2 20) = None"
  unfolding demo_set_def
  by (rule set_hangs [OF alist_hashmap_ok])
     (simp_all add: demo_placer_inv,
      simp_all add: demo_placer_def NewPlacer_def demo_group_def Size_def zeroLMeta_def)

text \<open>
  C16: a chunk whose SET has returned is found by the next GET of the chunk, which is a hit on a
  live object whose recorded place is an instance of the group.
\<close>

theorem set_then_get:
  assumes "hashmap_ok H" and "n \<le> 100" and "placer_inv H n p"
    and "op_ok n (OpSet now choice key ss chunk lam cs)"
    and "run_op H n (OpSet now choice key ss chunk lam cs) p = Some (Inr p')"
  shows "\<exists>meta. Placer_Get H now' key chunk p' = Inr (Some meta, True, TouchObject now' meta p') \<and>
     in_group (g_size (pgroup p')) (pl_elems (Placement (metas p' meta)) ! nat chunk)"
  using assms by (rule run_set_then_get)

theorem set_then_get_witness:
  "\<exists>p' meta. run_op alist_hashmap 1 (demo_set ''a'' 0 12) (demo_placer 1 20) = Some (Inr p') \<and>
     Placer_Get alist_hashmap 7 ''a'' 0 p' = Inr (Some meta, True, TouchObject 7 meta p')"
proof -
  have "case run_op alist_hashmap 1 (demo_set ''a'' 0 12) (demo_placer 1 20) of Some (Inr p) \<Rightarrow> True | _ \<Rightarrow> False"
    by code_simp
  then obtain p' where p': "run_op alist_hashmap 1 (demo_set ''a'' 0 12) (demo_placer 1 20) = Some (Inr p')"
    by (auto split: option.splits sum.splits)
  then show ?thesis
    using set_then_get [OF alist_hashmap_ok _ demo_placer_inv [of 1 1 20], of 0 0 "''a''" 1 0 0 12 p' 7]
    by (auto simp: demo_set_def simp del: run_op.simps)
qed

text \<open>
  A SET that evicts on behalf of an object the clock has already passed enters the object
  into the rotation a second time.
\<close>

theorem self_eviction_duplicates:
  "case run_ops alist_hashmap 2 [demo_set ''a'' 0 2, demo_set ''b'' 0 2, demo_set ''b'' 1 2, demo_set ''a'' 1 2]
          (demo_placer 1 8) of
     Some (Inr p) \<Rightarrow> S_of p = [None, Some 0, Some 0] \<and> Key (metas p 0) = ''a'' \<and> \<not> Deleted (metas p 0)
   | _ \<Rightarrow> False"
  by code_simp

text \<open>
  An eviction for a bigger chunk takes the place of the evicted chunk without checking the
  capacity of the instance, which can be exceeded.
\<close>

theorem swap_exceeds_capacity:
  "case run_ops alist_hashmap 1 [demo_set ''a'' 0 12, demo_set ''b'' 0 50] (demo_placer 1 20) of
     Some (Inr p) \<Rightarrow> inst_size (pgroup p) 0 = 50 \<and> (case All (pgroup p) ! 0 of Some i \<Rightarrow> Capacity i = 20 | None \<Rightarrow> False)
   | _ \<Rightarrow> False"
  by code_simp

text \<open>
  Once the base of an object's slice is drawn, different Lambda numbers below the size of
  the group are mapped to different instances of the group.
\<close>

theorem slice_addresses_distinct:
  assumes "slice_ready (s, g)" and "distinct is" and "\<forall>i \<in> set is. 0 \<le> i \<and> i < g_size g"
  shows "distinct (map (slice_addr (s, g)) is) \<and> (\<forall>k \<in> set (map (slice_addr (s, g)) is). in_group (g_size g) k)"
  using gslice.distinct_addresses [of "(s, g)" "is"] assms by (auto simp: in_group_def)

theorem slice_addresses_distinct_witness:
  "distinct (map (slice_addr (zeroSlice\<lparr>once_done := True, base := 2\<rparr>, demo_group 3 8)) [0, 2])"
proof -
  have r: "slice_ready (zeroSlice\<lparr>once_done := True, base := 2\<rparr>, demo_group 3 8)"
    by (simp add: slice_ready_def slice_wf_def group_wf_def demo_group_def)
  show ?thesis using slice_addresses_distinct [OF r, of "[0, 2]"] by (simp add: demo_group_def)
qed

section \<open>The scheduler\<close>

text \<open>
  C20: however deployments are given to the group, reserved, looked up and switched by
  \<open>Instance\<close>, and released, and with \<open>Clear\<close> and \<open>ClearAll\<close> called once the group is released (as \<open>Release\<close> and
  \<open>CleanUpScheduler\<close> do), every one of the scheduler's deployments is either in the pool or active, once.  Looking up
  an active number whose slot of the group is filled never blocks or panics and leaves the slot's instance active under
  that number; clearing never blocks and returns all deployments to the pool.
\<close>

theorem scheduler_conserves_deployments:
  assumes "hashmap_ok H" and "n < 2 ^ 64" and "(sched_step H)\<^sup>*\<^sup>* (NewScheduler H namePrefix c n) s"
  shows "distinct (s_pool s) \<and> set (s_pool s) \<union> ran (held H s) = {..<n} \<and> set (s_pool s) \<inter> ran (held H s) = {} \<and>
     (\<forall>k g v. hm_Get H (actives s) k = Some g \<and> in_range (gi_idx (ginsts s g)) (All (s_group s)) \<and>
         All (s_group s) ! nat (gi_idx (ginsts s g)) = Some v \<longrightarrow>
        (\<exists>j s'. Instance_of H k s = Some (Inr (Some j, s')) \<and> gi_deployment (ginsts s' v) = DIns j \<and>
           hm_Get H (actives s') k = Some v)) \<and>
     (\<exists>s'. ClearAll H s = Some s' \<and> hm_Get H (actives s') = Map.empty \<and> distinct (s_pool s') \<and> set (s_pool s') = {..<n})"
proof -
  have i: "sched_inv H {..<n} s" "slots_ok H s"
    using sched_reachable_inv [OF assms(1,3) NewScheduler_inv(1) [OF assms(1,2)] NewScheduler_slots] by auto
  obtain s' where "ClearAll H s = Some s'" "hm_Get H (actives s') = Map.empty" "distinct (s_pool s')" "set (s_pool s') = {..<n}"
    using ClearAll_inv [OF assms(1) i(1)] by auto
  then show ?thesis using sched_invD(1,2,3) [OF i(1)] Instance_of_inv [OF assms(1) i] by blast
qed

theorem scheduler_conserves_deployments_witness:
  "\<exists>s1 s2. (sched_step alist_hashmap)\<^sup>*\<^sup>* (NewScheduler alist_hashmap ''node'' 2 3) s1 \<and> s_pool s1 = [2] \<and>
     set (s_pool s1) \<union> ran (held alist_hashmap s1) = {..<3} \<and>
     (\<exists>j. Instance_of alist_hashmap 1 s1 = Some (Inr (Some j, s2))) \<and> s_pool s2 = [2, 1] \<and>
     set (s_pool s2) \<union> ran (held alist_hashmap s2) = {..<3}"
proof -
  let ?H = "alist_hashmap :: ((uint64 \<times> nat) list, uint64, nat) hashmap" and ?s = "NewScheduler alist_hashmap ''node'' 2 3"
  define s0 where "s0 = (case GetForGroup ?H 1 ?s of Some (Inr (_, s)) \<Rightarrow> s | _ \<Rightarrow> ?s)"
  define s1 where "s1 = snd (ReserveForGroup ?H 1 s0)"
  define s2 where "s2 = (case Instance_of ?H 1 s1 of Some (Inr (_, s)) \<Rightarrow> s | _ \<Rightarrow> s1)"
  have get: "\<exists>d. GetForGroup ?H 1 ?s = Some (Inr (d, s0))"
    by (simp add: s0_def GetForGroup_def NewInstanceFromDeployment_def Reserve_def Set_group_def NewScheduler_def add_deployments_eq
        NewGroup_def upt_rec in_range_def Let_def)
  have a: "map_of (actives s1) 1 = Some 5" "gi_idx (ginsts s1 5) = 1" "All (s_group s1) ! 1 = Some 4" "length (All (s_group s1)) = 2"
      "s_pool s1 = [2]" "s_pool s2 = [2, 1]"
    unfolding s2_def s1_def s0_def by code_simp+
  have r1: "(sched_step ?H)\<^sup>*\<^sup>* ?s s1"
    using get StepGet [of ?H 1 ?s] StepReserve [of ?H 1 s0 _ s1]
    by (metis (no_types, lifting) r_into_rtranclp rtranclp.rtrancl_into_rtrancl prod.collapse s1_def)
  have n: "(3::nat) < 2 ^ 64" by simp
  note c1 = scheduler_conserves_deployments [OF alist_hashmap_ok n r1]
  have "hm_Get ?H (actives s1) 1 = Some 5 \<and> in_range (gi_idx (ginsts s1 5)) (All (s_group s1)) \<and>
      All (s_group s1) ! nat (gi_idx (ginsts s1 5)) = Some 4"
    using a(1-4) by (simp add: in_range_def)
  then have "\<exists>j s'. Instance_of ?H 1 s1 = Some (Inr (Some j, s'))" using c1 by blast
  then obtain j where j: "Instance_of ?H 1 s1 = Some (Inr (Some j, s2))" by (auto simp: s2_def)
  have r2: "(sched_step ?H)\<^sup>*\<^sup>* ?s s2" using r1 StepInstance [OF j] by (rule rtranclp.rtrancl_into_rtrancl)
  note e = c1 [THEN conjunct2, THEN conjunct1] scheduler_conserves_deployments [OF alist_hashmap_ok n r2, THEN conjunct2, THEN conjunct1]
  show ?thesis using r1 a(5,6) e j by (intro exI [of _ s1] exI [of _ s2] conjI exI [of _ j])
qed

text \<open>
  Looking up an active instance whose slot of the group is still empty (a reservation)
  panics: \<open>Validate\<close> fills the slot and returns the nil it found there.
\<close>

theorem instance_of_reserved_panics:
  assumes "hm_Get H (actives s) k = Some g" and "in_range (gi_idx (ginsts s g)) (All (s_group s))"
    and "All (s_group s) ! nat (gi_idx (ginsts s g)) = None"
  shows "Instance_of H k s = Some (Inl NilDereference)"
  using assms by (rule Instance_of_unset)

theorem instance_of_reserved_panics_witness:
  "Instance_of alist_hashmap 0 (snd (ReserveForGroup alist_hashmap 1 (NewScheduler alist_hashmap ''node'' 2 3))) =
     Some (Inl NilDereference)"
  by (rule instance_of_reserved_panics [of _ _ _ 3])
     (simp_all add: ReserveForGroup_def Reserve_def gi_Id_def ld_Id_def dep_ref_def NewScheduler_def add_deployments_eq
       NewDeployment_def upt_rec alist_hashmap_def NewGroup_def in_range_def)

section \<open>The Lambda's store\<close>

text \<open>
  C30: the store of a Lambda returns what was stored last under a key, with its chunk id, nothing
  after a deletion, and other keys are unaffected; a stream that fails leaves the store as it was.
\<close>

theorem store_get_after_set_del:
  "fst (Storage_Get t' k' (Storage_Set t k i b s)) = (if k' = k then Inr (i, b) else fst (Storage_Get t' k' s)) \<and>
   fst (Storage_Get t' k' (snd (Storage_Del t k i s))) = (if k' = k then Inl ErrNotFound else fst (Storage_Get t' k' s)) \<and>
   (case st_ReadAll st of
      Inl e \<Rightarrow> snd (Storage_SetStream t k i st s) = s
    | Inr v \<Rightarrow> fst (Storage_Get t' k (snd (Storage_SetStream t k i st s))) = Inr (i, v))"
  by (simp add: lstore.get_after_set lstore.get_after_del Storage_SetStream_def split: sum.splits)

text \<open>
  C31: \<open>Keys\<close> lists every key of the store once, those accessed last first, whatever the order in
  which the map is visited.
\<close>

theorem store_keys_recent_first:
  assumes "repo_wf s" and "range_ok f"
  shows "mset (Storage_Keys f s) = mset (map fst s) \<and> distinct (Storage_Keys f s) \<and>
     (\<forall>i j. i < j \<and> j < Storage_Len s \<longrightarrow>
        (\<exists>a b. map_of s (Storage_Keys f s ! i) = Some a \<and> map_of s (Storage_Keys f s ! j) = Some b \<and>
               c_Accessed b \<le> c_Accessed a))"
proof (intro conjI allI impI)
  note c = Storage_Keys_complete [OF assms]
  fix i j assume "i < j \<and> j < Storage_Len s"
  then have ij: "i < j" "j < length (Storage_Keys f s)" using c(3) by simp_all
  have "set (Storage_Keys f s) = fst ` set s" using mset_eq_setD [OF c(1)] by simp
  then have "Storage_Keys f s ! i \<in> fst ` set s" "Storage_Keys f s ! j \<in> fst ` set s"
    using ij by (metis nth_mem less_trans)+
  then obtain a b where "map_of s (Storage_Keys f s ! i) = Some a" "map_of s (Storage_Keys f s ! j) = Some b"
    by (metis map_of_eq_None_iff not_None_eq)
  then show "\<exists>a b. map_of s (Storage_Keys f s ! i) = Some a \<and> map_of s (Storage_Keys f s ! j) = Some b \<and>
      c_Accessed b \<le> c_Accessed a"
    using Storage_Keys_recent_first [OF assms ij] by blast
qed (use Storage_Keys_complete [OF assms] in auto)

theorem store_keys_recent_first_witness:
  "distinct (Storage_Keys (map snd) (Storage_Set 5 ''b'' ''1'' ''y'' (Storage_Set 3 ''a'' ''0'' ''x'' New_storage)))"
  using store_keys_recent_first [OF repo_wf_Set [OF repo_wf_Set [OF repo_wf_New]], of "map snd"] by (simp add: range_ok_def)

section \<open>The Lambda's timeout\<close>

text \<open>
  C22: while the time since the start and the extension stay below 2 ^ 53 nanoseconds (104 days;
  a Lambda runs for minutes), the timeout chosen for an extension ends the margin \<open>TICK_ERROR\<close> before a multiple of the
  billing tick: at most that margin before the end of the extension, and less than one tick less the margin after it.
  The timer of a new timeout, whose start is not known yet and whose sums wrap around, is within the same bounds.
\<close>

theorem timeout_ends_billing_cycle:
  assumes "0 \<le> ext" and "0 \<le> Since now t" and "Since now t + ext < 2 ^ 53" and "getTimeout mem now t ext = (timeout, due)"
    and "0 \<le> created"
  shows "due = Since now t + timeout \<and> TICK dvd due + TICK_ERROR mem \<and>
     Since now t + ext - TICK_ERROR mem \<le> due \<and> due < Since now t + ext + TICK - TICK_ERROR mem \<and>
     (\<exists>d. t_timer (NewTimeout mem created (TICK_ERROR_EXTEND mem)) = Some (created + d) \<and>
        TICK_ERROR_EXTEND mem - TICK_ERROR mem \<le> d \<and> d < TICK_ERROR_EXTEND mem + TICK - TICK_ERROR mem)"
  using getTimeout_ends_cycle [OF assms(1-4)] NewTimeout_timer [OF assms(5)] first_timer_bounds by blast

theorem timeout_ends_billing_cycle_witness:
  "TICK dvd snd (getTimeout 1792 30000000 (Start 10000000 (NewTimeout 1792 0 0)) 1000000000) + 2 * Millisecond"
proof -
  let ?t = "Start 10000000 (NewTimeout 1792 0 0)"
  obtain a b where ab: "getTimeout 1792 30000000 ?t 1000000000 = (a, b)" by fastforce
  have s: "Since 30000000 ?t = 20000000" by (simp add: Since_def Start_def StartWithCalibration_def time_Since_def saturate_def)
  have h: "(0::int) \<le> 1000000000" "0 \<le> Since 30000000 ?t" "Since 30000000 ?t + 1000000000 < 2 ^ 53" by (simp_all add: s)
  have "TICK dvd b + TICK_ERROR 1792" using timeout_ends_billing_cycle [OF h ab order_refl] by blast
  then show ?thesis by (simp add: ab TICK_ERROR_def)
qed



text \<open>
  C36: a handler that finds the reset channel full can be overtaken by the timer goroutine, which
  empties it; the handler then waits forever, holding the lock of the session.
\<close>

theorem reset_can_wedge:
  "\<exists>s. (tstep mem)\<^sup>*\<^sup>* (tsys_init mem now) s \<and> wedged s \<and> (\<forall>s'. (tstep mem)\<^sup>*\<^sup>* s s' \<longrightarrow> wedged s')"
  using wedged_reachable wedged_forever by blast

theorem reset_can_wedge_witness:
  "\<exists>s. (tstep 1792)\<^sup>*\<^sup>* (tsys_init 1792 0) s \<and> wedged s"
  using reset_can_wedge [of 1792 0] by blast

section \<open>Instances and their connections\<close>

definition demo_request :: Request where
  "demo_request = \<lparr>rq_Id = \<lparr>ConnId = 1, ReqId = ''r'', ChunkId = ''0''\<rparr>, rq_Cmd = ''set'', rq_Key = ''k'', rq_Body = None,
     rq_BodyStream = Some (NewInlineReader ''abc''), rq_ChanResponse = Some 4, rq_EnableCollector = False, rq_w = False,
     rq_responded = False, rq_streamingStarted = False\<rparr>"


definition demo_store :: "((string \<times> nat) list, frame list) lstore" where
  "demo_store =
     \<lparr>reqs = (\<lambda>r. demo_request\<lparr>rq_ChanResponse := Some r\<rparr>), conns = (\<lambda>_. NewConnection []),
      instances = (\<lambda>i. NewInstance ''node'' (word_of_nat i) False), ReqMap = [],
      counters = (\<lambda>_. \<lparr>cr_Cmd = ''get'', cr_DataShards = 1, cr_ParityShards = 1, cr_Counter = 0\<rparr>), answered = [],
      collected = [], DataCollected = 0\<rparr>"

text \<open>
  C13: a request taken from an instance's queue while every validation yields an idle connection is
  never lost: serving it returns, and then it either waits for its response on one of those
  connections or its client has been sent an error, once.
\<close>

theorem request_not_lost:
  assumes "\<And>k. k < MAX_RETRY \<Longrightarrow> \<exists>c. fst (vs k) = Some c \<and> cn_chanWait (conns s c) = []" and "pending r ch s"
  shows "\<exists>s'. serve_command i vs (CmdRequest r) s = Some (Inr (True, s')) \<and>
     (pending r ch s' \<and> answered s' = answered s \<and> (\<exists>k c. k < MAX_RETRY \<and> fst (vs k) = Some c \<and> cn_chanWait (conns s' c) = [r]) \<or>
      rq_responded (reqs s' r) \<and> (\<exists>e. answered s' = answered s @ [(ch, Failure e)]))"
proof -
  obtain s' where "serve_command i vs (CmdRequest r) s = Some (Inr (True, s'))"
      "kept r ch {c. \<exists>k < MAX_RETRY. fst (vs k) = Some c} s s'"
    using serve_command_keeps [of vs s r ch i] assms by blast
  then show ?thesis unfolding kept_def by blast
qed

theorem request_not_lost_witness:
  "\<exists>s'. serve_command 0 (\<lambda>_. (Some 0, \<lambda>_. Some ErrTimeout)) (CmdRequest 7) demo_store = Some (Inr (True, s'))"
  using request_not_lost [of "\<lambda>_. (Some 0, \<lambda>_. Some ErrTimeout)" demo_store 7 7 0]
  by (auto simp: demo_store_def NewConnection_def pending_def demo_request_def)

text \<open>
  C37: a SET whose streamed body fails half-way is sent again on the next connection from the same,
  already consumed stream: the number of attempts is fixed before the first one, although the
  request is no longer retriable.
\<close>

theorem stream_resent:
  assumes "rq_BodyStream (reqs s r) = Some st" and "ToLower (rq_Cmd (reqs s r)) = ''set''"
    and "\<not> rq_streamingStarted (reqs s r)" and "rq_Body (reqs s r) = None"
    and "c \<noteq> d" and "cn_chanWait (conns s c) = []" and "cn_chanWait (conns s d) = []"
    and "vs 0 = (Some c, \<lambda>k. if k = 1 then Some e else None)" and "vs 1 = (Some d, \<lambda>k. None)"
  shows "\<exists>s'. serve_command i vs (CmdRequest r) s = Some (Inr (True, s')) \<and>
     CopyBulk st \<in> set (cn_w (conns s' c)) \<and> CopyBulk st \<in> set (cn_w (conns s' d)) \<and> \<not> Retriable (reqs s' r)"
  using assms by (rule stream_sent_again)

theorem stream_resent_witness:
  "\<exists>s'. serve_command 0 (\<lambda>k. (Some k, \<lambda>j. if k = 0 \<and> j = 1 then Some ErrTimeout else None)) (CmdRequest 3) demo_store =
     Some (Inr (True, s')) \<and> \<not> Retriable (reqs s' 3)"
proof -
  have "ToLower (rq_Cmd (reqs demo_store 3)) = ''set''" by code_simp
  then show ?thesis
    using stream_resent [of demo_store 3 "NewInlineReader ''abc''" 0 1
        "\<lambda>k. (Some k, \<lambda>j. if k = 0 \<and> j = 1 then Some ErrTimeout else None)" ErrTimeout 0]
    by (auto simp: demo_store_def demo_request_def NewConnection_def)
qed

text \<open>
  C18: a response from a Lambda answers the first waiting request it matches; the requests that were
  waiting before it are told that their response is missing, the later ones keep waiting.
\<close>

theorem response_matched:
  assumes "cn_chanWait (conns s c) = pre @ r # post" and "all_pending ch (pre @ r # post) s"
    and "\<forall>p \<in> set pre. \<not> IsResponse (reqs s p) rsp" and "IsResponse (reqs s r) rsp"
  shows "\<exists>s'. conn_SetResponse c rsp s = ((Some r, True), s') \<and> cn_chanWait (conns s' c) = post \<and>
     answered s' = answered s @ map (\<lambda>p. (ch p, Failure ErrMissingResponse)) pre @ [(ch r, Answer rsp)] \<and>
     all_pending ch post s'"
  using assms by (rule conn_SetResponse_skips)

theorem response_matched_witness:
  "let s = demo_store\<lparr>reqs := (\<lambda>r. demo_request\<lparr>rq_ChanResponse := Some r, rq_Id := \<lparr>ConnId = 1, ReqId = ''r'', ChunkId = itoa (int r)\<rparr>\<rparr>),
       conns := (\<lambda>_. (NewConnection [])\<lparr>cn_chanWait := [0, 1]\<rparr>)\<rparr>;
       rsp = mk_response ''set'' ''1'' ''r'' ''1''
   in \<exists>s'. conn_SetResponse 0 rsp s = ((Some 1, True), s') \<and> answered s' = [(0, Failure ErrMissingResponse), (1, Answer rsp)]"
proof -
  let ?s = "demo_store\<lparr>reqs := (\<lambda>r. demo_request\<lparr>rq_ChanResponse := Some r, rq_Id := \<lparr>ConnId = 1, ReqId = ''r'', ChunkId = itoa (int r)\<rparr>\<rparr>),
       conns := (\<lambda>_. (NewConnection [])\<lparr>cn_chanWait := [0, 1]\<rparr>)\<rparr>"
  have i: "itoa 1 = ''1''" "itoa 0 = ''0''" by code_simp+
  show ?thesis
    using response_matched [of ?s 0 "[0]" 1 "[]" id "mk_response ''set'' ''1'' ''r'' ''1''"] i
    by (auto simp: demo_store_def demo_request_def all_pending_def pending_def IsResponse_def mk_response_def)
qed

text \<open>
  C19: closing a connection answers every request that waits on it with an error and leaves none
  waiting.
\<close>

theorem closing_answers_all:
  assumes "all_pending ch (cn_chanWait (conns s c)) s"
  shows "cn_chanWait (conns (close_conn c s) c) = [] \<and> cn_closed (conns (close_conn c s) c) \<and>
     answered (close_conn c s) = answered s @ map (\<lambda>r. (ch r, Failure ErrConnectionClosed)) (cn_chanWait (conns s c))"
  using close_conn_answers [OF assms] by blast

theorem closing_answers_all_witness:
  "answered (close_conn 0 (demo_store\<lparr>conns := (\<lambda>_. (NewConnection [])\<lparr>cn_chanWait := [4, 2]\<rparr>)\<rparr>)) =
     [(4, Failure ErrConnectionClosed), (2, Failure ErrConnectionClosed)]"
  using closing_answers_all [of id "demo_store\<lparr>conns := (\<lambda>_. (NewConnection [])\<lparr>cn_chanWait := [4, 2]\<rparr>)\<rparr>" 0]
  by (simp add: demo_store_def demo_request_def all_pending_def pending_def)

text \<open>
  C11: of the answers to a GET the first \<open>DataShards\<close> carry their chunk to the client and the later ones
  are empty, in whatever order the Lambdas answer; the entry of the request is removed exactly when the last
  shard has answered, provided there are parity shards.
\<close>

theorem get_first_shards:
  assumes "reader_ok R fr" and "hashmap_ok H"
    and "hm_Get H (ReqMap s) reqId = Some k" and "cr_Counter (counters s k) = 0"
    and "cr_DataShards (counters s k) = int d" and "cr_ParityShards (counters s k) = int p"
    and "length xs \<le> d + p" and "d + p < 2 ^ 31"
    and "distinct (map gi_conn xs)" and "distinct (map gi_req xs)" and "\<forall>x \<in> set xs. item_ready fr reqId x s"
  shows "\<exists>s'. get_replies E H R (map gi_conn xs) s = Inr s' \<and>
     answered s' = answered s @ map (item_answer d reqId) (enumerate 0 xs) \<and>
     (hm_Get H (ReqMap s') reqId = None \<longleftrightarrow> xs \<noteq> [] \<and> 0 < p \<and> length xs = d + p)"
  using get_replies_ok [of R fr H s reqId k 0 d p xs E] assms by simp

definition demo_env :: lambda_env where
  "demo_env = \<lparr>Registry = Map.empty, GetDestination = (\<lambda>_. Inl ErrNotFound), StartMigrator = (\<lambda>_. Inl ErrNotFound), ServerIp = []\<rparr>"

definition demo_items :: "get_item list" where
  "demo_items = [\<lparr>gi_conn = 1, gi_req = 1, gi_chan = 5, gi_connId = ''9'', gi_chunk = ''1'', gi_body = ''bb''\<rparr>,
                 \<lparr>gi_conn = 0, gi_req = 0, gi_chan = 5, gi_connId = ''9'', gi_chunk = ''0'', gi_body = ''aa''\<rparr>]"

definition demo_gets :: "((string \<times> nat) list, frame list) lstore" where
  "demo_gets = demo_store\<lparr>ReqMap := [(''q'', 0)],
     reqs := (\<lambda>r. demo_request\<lparr>rq_Cmd := ''get'', rq_ChanResponse := Some 5, rq_Id := \<lparr>ConnId = 9, ReqId = ''q'', ChunkId = if r = 0 then ''0'' else ''1''\<rparr>\<rparr>),
     conns := (\<lambda>c. (NewConnection [FBulk ''get'', FBulk ''9'', FBulk ''q'', FBulk (if c = 0 then ''0'' else ''1''), FBulk (if c = 0 then ''aa'' else ''bb'')])
        \<lparr>cn_chanWait := [c]\<rparr>)\<rparr>"

theorem get_first_shards_witness:
  "\<exists>s'. get_replies demo_env alist_hashmap list_reader [1, 0] demo_gets = Inr s' \<and> map_of (ReqMap s') ''q'' = None \<and>
     answered s' = map (item_answer 1 ''q'') (enumerate 0 demo_items)"
proof -
  have "\<forall>x \<in> set demo_items. item_ready id ''q'' x demo_gets"
    by (simp add: demo_items_def item_ready_def demo_gets_def demo_store_def demo_request_def pending_def IsResponse_def
        mk_response_def NewConnection_def)
  moreover have "map_of (ReqMap demo_gets) ''q'' = Some 0" "cr_Counter (counters demo_gets 0) = 0" "answered demo_gets = []"
      "cr_DataShards (counters demo_gets 0) = int 1" "cr_ParityShards (counters demo_gets 0) = int 1"
    by (simp_all add: demo_gets_def demo_store_def)
  moreover have "map gi_conn demo_items = [1, 0]" "map gi_req demo_items = [1, 0]" "length demo_items = 2" "demo_items \<noteq> []"
    by (simp_all add: demo_items_def)
  ultimately show ?thesis
    using get_first_shards [OF list_reader_ok alist_hashmap_ok, of demo_gets "''q''" 0 1 1 demo_items demo_env]
    by (auto simp del: get_replies.simps)
qed

text \<open>
  C23: in every interleaving of validations, pongs, byes, closings and returning invocations, a
  ping is sent on an existing connection: \<open>validate\<close> never dereferences nil.
\<close>

theorem ping_has_connection:
  assumes "vinit i s" and "(vstep i)\<^sup>*\<^sup>* s s'"
  shows "pcs s' p \<noteq> VPanic \<and> (in_awake (vins i s') \<noteq> INSTANCE_SLEEP \<longrightarrow> in_cn (vins i s') \<noteq> None)"
  using connected_inv_reachable [OF assms(2) connected_inv_init [OF assms(1)]] by (simp add: connected_inv_def)

definition demo_vsys :: "((string \<times> nat) list, frame list) vsys" where
  "demo_vsys = \<lparr>vstore = demo_store, pcs = (\<lambda>_. VOut), vgen = 0, running = 0, ending = 0\<rparr>"

lemma demo_vinit: "vinit 3 demo_vsys"
  by (simp add: vinit_def vins_def demo_vsys_def demo_store_def NewInstance_def NewInstance_of_def)

theorem ping_has_connection_witness:
  "\<exists>s'. (vstep 3)\<^sup>*\<^sup>* demo_vsys s' \<and> pcs s' 0 = VSelect 1 \<and> in_awake (vins 3 s') = INSTANCE_AWAKE \<and> in_cn (vins 3 s') \<noteq> None"
proof -
  define st1 where "st1 = snd (projr (flagValidated 3 (Some 0) demo_store))"
  define st2 where "st2 = snd (projr (flagValidated 3 (Some 0) st1))"
  define s1 where "s1 = demo_vsys\<lparr>vstore := st1\<rparr>"
  define s2 where "s2 = s1\<lparr>vstore := st2\<rparr>"
  define s3 where "s3 = goto 0 (VLoop False) (vupd 3 (\<lambda>_. snd (validate_begin (vins 3 s2))) s2)\<lparr>vgen := Suc (vgen s2)\<rparr>"
  define s4 where "s4 = goto 0 (VNot False) s3"
  define s5 where "s5 = goto 0 (VSelect (vgen s4)) s4\<lparr>vstore := Ping 0 (vstore s4)\<rparr>"
  note f = flagValidated_def flagValidatedLocked_def warmUp_def demo_store_def NewInstance_def NewInstance_of_def Let_def
  note d = s1_def s2_def s3_def s4_def s5_def st1_def st2_def demo_vsys_def vins_def goto_def vupd_def validate_begin_def Ping_def f
  have p: "flagValidated 3 (Some 0) (vstore demo_vsys) = Inr (fst (projr (flagValidated 3 (Some 0) demo_store)), st1)"
      "flagValidated 3 (Some 0) (vstore s1) = Inr (fst (projr (flagValidated 3 (Some 0) st1)), st2)"
    by (simp_all add: st1_def st2_def s1_def demo_vsys_def f)
  have "vstep 3 demo_vsys s1" "vstep 3 s1 s2"
    unfolding s1_def s2_def by (rule vstep.Pong [OF p(1)]) (rule vstep.Pong [OF p(2), unfolded s1_def])
  moreover have "vstep 3 s2 s3" unfolding s3_def by (rule vstep.Enter) (simp_all add: d)
  moreover have "vstep 3 s3 s4" unfolding s4_def by (rule vstep.LoopAwake) (simp_all add: d)
  moreover have "vstep 3 s4 s5" unfolding s5_def by (rule vstep.PingSent) (simp_all add: d)
  ultimately have r: "(vstep 3)\<^sup>*\<^sup>* demo_vsys s5" by (meson rtranclp.rtrancl_into_rtrancl rtranclp.rtrancl_refl)
  have "pcs s5 0 = VSelect 1" "in_awake (vins 3 s5) = INSTANCE_AWAKE" by (simp_all add: d)
  then show ?thesis using ping_has_connection [OF demo_vinit r, of 0] r by auto
qed

text \<open>
  C24: when a single goroutine validates an instance, a validation that returns returns a connection,
  unless the instance has been closed.
\<close>

theorem serial_validation:
  assumes "vinit i s" and "(solo_step i p)\<^sup>*\<^sup>* s s'" and "pcs s' p = VRet None"
  shows "in_closed (vins i s')"
  using solo_reachable [OF assms(2,1)] assms(3) by (simp add: solo_inv_def)

theorem serial_validation_witness:
  "\<exists>s'. (solo_step 3 0)\<^sup>*\<^sup>* demo_vsys s' \<and> pcs s' 0 = VRet None \<and> in_closed (vins 3 s')"
proof -
  define s1 where "s1 = goto 0 (VLoop False) (vupd 3 (\<lambda>_. snd (validate_begin (vins 3 demo_vsys))) demo_vsys)\<lparr>vgen := Suc (vgen demo_vsys)\<rparr>"
  define s2 where "s2 = goto 0 (VTry False) s1"
  define s3 where "s3 = goto 0 VGo s2\<lparr>running := Suc (running s2)\<rparr>"
  define s4 where "s4 = goto 0 (VWait (vgen s3)) s3"
  define s5 where "s5 = s4\<lparr>vstore := Close_instance 3 (vstore s4)\<rparr>"
  define s6 where "s6 = goto 0 VRead s5"
  define s7 where "s7 = goto 0 (VRet (in_lastValidated (vins 3 s6))) s6"
  note d = s1_def s2_def s3_def s4_def s5_def s6_def s7_def demo_vsys_def demo_store_def NewInstance_def NewInstance_of_def
    vins_def goto_def vupd_def validate_begin_def
  have "vstep 3 demo_vsys s1" unfolding s1_def by (rule vstep.Enter) (simp_all add: d)
  moreover have "vstep 3 s1 s2" unfolding s2_def by (rule vstep.LoopSleep) (simp_all add: d)
  moreover have "vstep 3 s2 s3" unfolding s3_def by (rule vstep.Trigger [of _ _ False]) (simp_all add: d tryTriggerLambda_def)
  moreover have "vstep 3 s3 s4" unfolding s4_def by (rule vstep.StartWait) (simp add: d)
  moreover have "vstep 3 s4 s5" unfolding s5_def by (rule vstep.CloseIns)
  moreover have "vstep 3 s5 s6" unfolding s6_def
    by (rule vstep.Waited [of _ _ "vgen s3"]) (simp_all add: d validated_chan_def Close_instance_def flagValidatedLocked_def)
  moreover have "vstep 3 s6 s7" unfolding s7_def by (rule vstep.Returned) (simp add: d)
  moreover have "\<forall>q. q \<noteq> 0 \<longrightarrow> pcs s q = VOut" if "s \<in> {s1, s2, s3, s4, s5, s6, s7}" for s
    using that by (auto simp: d)
  ultimately have "solo_step 3 0 demo_vsys s1" "solo_step 3 0 s1 s2" "solo_step 3 0 s2 s3" "solo_step 3 0 s3 s4"
      "solo_step 3 0 s4 s5" "solo_step 3 0 s5 s6" "solo_step 3 0 s6 s7"
    by (simp_all add: solo_step_def)
  then have r: "(solo_step 3 0)\<^sup>*\<^sup>* demo_vsys s7"
    by (meson rtranclp.rtrancl_into_rtrancl rtranclp.rtrancl_refl)
  have "pcs s7 0 = VRet None"
    by (simp add: d Close_instance_def flagValidatedLocked_def)
  then show ?thesis using serial_validation [OF demo_vinit r] r by blast
qed

text \<open>
  C38: with two goroutines that validate the same instance (the warm-up of a new proxy and the
  request loop), a validation can return no connection although the instance is not closed; the
  request loop takes that for a closed instance and ends.
\<close>

theorem overtaken_validation:
  assumes "vinit i s"
  shows "\<exists>s'. (vstep i)\<^sup>*\<^sup>* s s' \<and> pcs s' 0 = VRet None \<and> \<not> in_closed (vins i s')"
  using assms by (rule overtaken)

theorem overtaken_validation_witness:
  "\<exists>s'. (vstep 3)\<^sup>*\<^sup>* demo_vsys s' \<and> pcs s' 0 = VRet None \<and> \<not> in_closed (vins 3 s')"
  using overtaken_validation [OF demo_vinit] .

section \<open>The proxy's handlers\<close>

definition demo_proxy :: "((string \<times> addr) list, (string \<times> nat) list, frame list) proxy" where
  "demo_proxy = \<lparr>px_placer = demo_placer 2 20, px_store = demo_store, px_nextReq = 0, px_nextCounter = 0\<rparr>"

definition demo_cmd :: client_cmd where
  "demo_cmd = \<lparr>cc_connId = 1, cc_responses = 8, cc_Name = ''set'', cc_key = ''k'', cc_chunk = 0, cc_lambda = 1, cc_randBase = 1,
     cc_reqId = ''q'', cc_data = 1, cc_parity = 0, cc_body = Inr (NewInlineReader ''abc'')\<rparr>"

text \<open>
  C17: a SET of a well-formed command never panics.  When it returns, the invariant of the placer holds
  and at most one object \<open>ev\<close> has been evicted: every object that was not deleted before and is deleted now is \<open>ev\<close>, and
  \<open>ev\<close> is a deleted object of the cache.  The instances have been sent exactly the deletions of all chunks of
  \<open>ev\<close>, each to the instance that holds the chunk, and then the new chunk.
\<close>

theorem eviction_deletes_chunks:
  assumes "hashmap_ok H" and "n \<le> 100" and "placer_inv H n (px_placer px)" and "set_cmd_ok n c" and "cc_body c = Inr body"
  shows "HandleSet H now choice uuid c px = None \<or>
     (\<exists>px' meta ev. HandleSet H now choice uuid c px = Some (Inr ([], px')) \<and> placer_inv H n (px_placer px') \<and>
        (\<forall>v. Deleted (metas (px_placer px') v) \<and> \<not> Deleted (metas (px_placer px) v) \<longrightarrow> ev = Some v) \<and>
        (\<forall>v. ev = Some v \<longrightarrow> stored H (px_placer px') v \<and> Deleted (metas (px_placer px') v)) \<and>
        hm_Get H (metaMap (px_placer px')) (cc_key c) = Some meta \<and>
        in_group (g_size (pgroup (px_placer px'))) (chunk_dest c (metas (px_placer px') meta)) \<and>
        px' = enq ((case ev of None \<Rightarrow> [] | Some v \<Rightarrow> drop_list uuid (metas (px_placer px') v)) @
                   [(chunk_dest c (metas (px_placer px') meta), chunk_request c (Some body) (metas (px_placer px') meta))])
               ((collect_start ''set'' (cc_reqId c) (itoa (cc_chunk c)) px)\<lparr>px_placer := px_placer px'\<rparr>))"
  using HandleSet_routes [OF assms, of now choice uuid] by blast

definition tight_proxy :: "((string \<times> addr) list, (string \<times> nat) list, frame list) proxy" where
  "tight_proxy = demo_proxy\<lparr>px_placer := demo_placer 1 6\<rparr>"

theorem eviction_deletes_chunks_witness:
  "case HandleSet alist_hashmap 0 0 ''u'' demo_cmd tight_proxy of
     Some (Inr (_, px1)) \<Rightarrow>
       (case HandleSet alist_hashmap 1 0 ''u'' (demo_cmd\<lparr>cc_key := ''b''\<rparr>) px1 of
          Some (Inr (_, px2)) \<Rightarrow> placer_inv alist_hashmap 1 (px_placer px2) \<and>
            map (\<lambda>r. rq_Cmd (reqs (px_store px2) r)) [0, 1, 2] = [''set'', ''del'', ''set''] \<and>
            rq_Key (reqs (px_store px2) 1) = ''0@k'' \<and> queue 0 px2 = map CmdRequest [0, 1, 2]
        | _ \<Rightarrow> False)
   | _ \<Rightarrow> False"
proof -
  let ?b = "NewInlineReader ''abc''" and ?c2 = "demo_cmd\<lparr>cc_key := ''b''\<rparr>"
  have i: "placer_inv alist_hashmap 1 (px_placer tight_proxy)" using demo_placer_inv [of 1 1 6] by (simp add: tight_proxy_def)
  have c: "set_cmd_ok 1 demo_cmd" "set_cmd_ok 1 ?c2" "cc_body demo_cmd = Inr ?b" "cc_body ?c2 = Inr ?b"
    by (simp_all add: demo_cmd_def set_cmd_ok_def)
  have e: "case HandleSet alist_hashmap 0 0 ''u'' demo_cmd tight_proxy of
       Some (Inr (_, px1)) \<Rightarrow>
         (case HandleSet alist_hashmap 1 0 ''u'' ?c2 px1 of
            Some (Inr (_, px2)) \<Rightarrow> map (\<lambda>r. rq_Cmd (reqs (px_store px2) r)) [0, 1, 2] = [''set'', ''del'', ''set''] \<and>
              rq_Key (reqs (px_store px2) 1) = ''0@k'' \<and> queue 0 px2 = map CmdRequest [0, 1, 2]
          | _ \<Rightarrow> False)
     | _ \<Rightarrow> False"
    by code_simp
  obtain w1 px1 where p1: "HandleSet alist_hashmap 0 0 ''u'' demo_cmd tight_proxy = Some (Inr (w1, px1))"
    using e by (auto split: option.splits sum.splits)
  have i1: "placer_inv alist_hashmap 1 (px_placer px1)"
    using eviction_deletes_chunks [OF alist_hashmap_ok _ i c(1,3), of 0 0 "''u''"] p1 by auto
  obtain w2 px2 where p2: "HandleSet alist_hashmap 1 0 ''u'' ?c2 px1 = Some (Inr (w2, px2))"
    using e p1 by (auto split: option.splits sum.splits)
  have "placer_inv alist_hashmap 1 (px_placer px2)"
    using eviction_deletes_chunks [OF alist_hashmap_ok _ i1 c(2,4), of 1 0 "''u''"] p2 by auto
  then show ?thesis using e p1 p2 by simp
qed

text \<open>
  C32: a new proxy gives every slot of its group a deployment of the scheduler and an instance
  with the configured capacity and overhead.  Shutting it down neither panics nor blocks on the pool: afterwards no
  instance is active, every deployment is back in the pool, once, and every registered migration server is closed.
\<close>

theorem proxy_starts_and_stops:
  assumes "hashmap_ok A" and "n < 2 ^ 62" and "0 < k" and "k \<le> n" and "hashmap_ok M" and "migrators_wf M mg"
  shows "\<exists>s g. New_proxy A k (NewScheduler A namePrefix c n) = Some (Inr (s, g)) \<and>
     s_pool s = [k..<n] \<and> insts_wf g \<and> g_size g = int k \<and> All g = replicate k (Some registered_meta) \<and>
     Size registered_meta = 100000000 \<and> Capacity registered_meta = 1536000000 \<and>
     (\<exists>s' mg'. shutdown A M s mg = Some (Inr (s', mg')) \<and> hm_Get A (actives s') = Map.empty \<and> distinct (s_pool s') \<and>
        set (s_pool s') = {..<n} \<and> (\<forall>port i. hm_Get M (mg_all mg) port = Some i \<longrightarrow> server_closed (mg_servers mg' ! i)))"
proof -
  obtain s g where n: "New_proxy A k (NewScheduler A namePrefix c n) = Some (Inr (s, g))"
    "s_pool s = [k..<n] \<and> insts_wf g \<and> g_size g = int k \<and> All g = replicate k (Some registered_meta)"
    using New_proxy_ok [OF assms(1-4), of namePrefix c] by blast
  have m: "Size registered_meta = 100000000" "Capacity registered_meta = 1536000000"
    by (simp_all add: registered_meta_def IncreaseSize_def Size_def zeroLMeta_def InstanceCapacity_def InstanceOverhead_def)
  show ?thesis
    by (rule exI [of _ s], rule exI [of _ g]) (use n m shutdown_ok [OF assms n(1)] in simp)
qed

definition demo_migrators :: "(int \<times> nat) list migrators" where
  "demo_migrators = snd (StartMigrator_sched alist_hashmap None 3 (no_migrators alist_hashmap))"

theorem proxy_starts_and_stops_witness:
  "\<exists>s g s' mg'. New_proxy alist_hashmap 400 (NewScheduler alist_hashmap ''node'' 400 400) = Some (Inr (s, g)) \<and>
     shutdown alist_hashmap alist_hashmap s demo_migrators = Some (Inr (s', mg')) \<and> set (s_pool s') = {..<400} \<and>
     \<not> server_closed (mg_servers demo_migrators ! 0) \<and> server_closed (mg_servers mg' ! 0)"
proof -
  have w: "migrators_wf alist_hashmap demo_migrators"
    unfolding demo_migrators_def by (intro migrators_wf_StartMigrator migrators_wf_none alist_hashmap_ok)
  have a: "map_of (mg_all demo_migrators) 6383 = Some 0" "\<not> server_closed (mg_servers demo_migrators ! 0)"
    by (simp_all add: demo_migrators_def StartMigrator_sched_def no_migrators_def New_server_def Listen_def upd_server_def
        BaseMigratorPort_def server_closed_def)
  obtain s g s' mg' where r: "New_proxy alist_hashmap 400 (NewScheduler alist_hashmap ''node'' 400 400) = Some (Inr (s, g))"
      "shutdown alist_hashmap alist_hashmap s demo_migrators = Some (Inr (s', mg'))" "set (s_pool s') = {..<400}"
      "\<forall>port i. map_of (mg_all demo_migrators) port = Some i \<longrightarrow> server_closed (mg_servers mg' ! i)"
    using proxy_starts_and_stops [OF alist_hashmap_ok _ _ _ alist_hashmap_ok w, of 400 400 "''node''" 400] by auto
  have "server_closed (mg_servers mg' ! 0)" using r(4) a(1) by blast
  then show ?thesis using r(1-3) a(2) by blast
qed

section \<open>The Lambda function\<close>

text \<open>
  C7: a SET request and a later GET request of the same chunk, written by the proxy and served
  by the handlers of the Lambda, end with the stored bytes in the channel of the GET's client, under the request
  id of the GET, as long as the GET still needs chunks.
\<close>

theorem set_get_end_to_end:
  assumes "reader_ok R fr" and "hashmap_ok H" and "source_ok la"
    and "rq_Cmd q = ''set''" and "rq_Body q = None" and "rq_BodyStream q = Some (NewInlineReader b)"
    and "rq_Cmd g = ''get''" and "rq_BodyStream g = None" and "rq_Key g = rq_Key q" and "ChunkId (rq_Id g) = ChunkId (rq_Id q)"
    and "reqs s r = g" and "pending r ch s" and "cn_chanWait (conns s c) = [r]"
    and "hm_Get H (ReqMap s) (ReqId (rq_Id g)) = Some k" and "cr_Counter (counters s k) = word_of_nat n"
    and "cr_DataShards (counters s k) = int d" and "cr_ParityShards (counters s k) = int p" and "n < d" and "d + p < 2 ^ 31"
    and "- (2 ^ 63) \<le> ConnId (rq_Id g)" and "ConnId (rq_Id g) < 2 ^ 63"
  shows "\<exists>la1 ws1 la2 ws2. serve_frames f mem clk (request_frames q) la = Inr (la1, ws1) \<and>
     serve_frames f mem clk' (request_frames g) la1 = Inr (la2, ws2) \<and>
     (fr (cn_r (conns s c)) = frames ws2 \<longrightarrow>
      (\<exists>s' rsp. serve_response E H R c TypeBulk s = Inr s' \<and> answered s' = answered s @ [(ch, Answer rsp)] \<and>
        rs_Id rsp = rq_Id g \<and> rs_BodyStream rsp = Some (NewInlineReader b)))"
proof -
  obtain la1 ws1 la2 ws2 where l: "serve_frames f mem clk (request_frames q) la = Inr (la1, ws1)"
      "serve_frames f mem clk' (request_frames g) la1 = Inr (la2, ws2)"
      "frames ws2 = map FBulk [''get'', itoa (ConnId (rq_Id g)), ReqId (rq_Id g), ChunkId (rq_Id q), b]"
    using lambda_set_get [OF assms(3-9), of f mem clk clk'] by blast
  let ?rsp = "get_reply True (itoa (ConnId (rq_Id g))) (ReqId (rq_Id g)) (ChunkId (rq_Id q)) b"
  have rsp: "rs_Id ?rsp = rq_Id g" "rs_BodyStream ?rsp = Some (NewInlineReader b)"
    using assms(10,20,21) by (simp_all add: get_reply_def mk_response_def Atoi_value_itoa)
  have i: "IsResponse (reqs s r) (mk_response ''get'' (itoa (ConnId (rq_Id g))) (ReqId (rq_Id g)) (ChunkId (rq_Id q)))"
    using assms(7,10,11) by (simp add: IsResponse_def mk_response_def)
  have "n < d + p" using assms(18) by simp
  note sr = serve_response_get [OF assms(1,2) _ assms(14-17) this assms(19,13,12) i, of b "[]" E]
  have "\<exists>s'. serve_response E H R c TypeBulk s = Inr s' \<and> answered s' = answered s @ [(ch, Answer ?rsp)]"
    if "fr (cn_r (conns s c)) = frames ws2"
    using sr that l(3) assms(18) by (auto simp: replied_def)
  then show ?thesis using l(1,2) rsp by blast
qed

definition demo_chunks :: repo where
  "demo_chunks = snd (Storage_Del 3 ''old'' ''0'' (Storage_Set 2 ''old'' ''0'' ''x'' (Storage_Set 1 ''k'' ''1'' ''ab'' New_storage)))"

definition demo_session :: "Client \<Rightarrow> session" where
  "demo_session m = (GetOrCreateSession 128 0 None)\<lparr>ss_Migrator := Some m, ss_Connection := Some 1\<rparr>"

definition demo_lambda :: "Client \<Rightarrow> repo lambda" where
  "demo_lambda m =
     \<lparr>la_lifetime = New_lifetime 0 9, la_store = demo_chunks, la_storeId = 7, la_proxy = [], la_proxyConn = None,
      la_pongLimiter = False, la_session = Some (demo_session m),
      la_collector = \<lparr>co_Prefix = [], co_HostName = [], co_FunctionName = [], co_gatherer = [], co_depository = [],
        co_deposited = 0, co_S3 = (\<lambda>_. True), co_uploads = []\<rparr>, la_closed = [], la_logLevel = 0\<rparr>"

definition demo_ready :: Client where
  "demo_ready = NewClient\<lparr>cl_closed := True\<rparr>"

lemma demo_chunks_wf: "repo_wf demo_chunks"
  by (simp add: demo_chunks_def repo_wf_Del repo_wf_Set repo_wf_New)

lemma demo_lambda_ok: "source_ok (demo_lambda m)" "ready_to_send (demo_lambda demo_ready)" "repo_wf (la_store (demo_lambda m))"
  by (simp_all add: source_ok_def ready_to_send_def demo_lambda_def demo_session_def demo_ready_def NewClient_def status_def demo_chunks_wf)

definition demo_req2 :: "string \<Rightarrow> rstream option \<Rightarrow> Request" where
  "demo_req2 cmd body =
     \<lparr>rq_Id = \<lparr>ConnId = 4, ReqId = ''q'', ChunkId = ''2''\<rparr>, rq_Cmd = cmd, rq_Key = ''new'', rq_Body = None, rq_BodyStream = body,
      rq_ChanResponse = Some 8, rq_EnableCollector = False, rq_w = False, rq_responded = False, rq_streamingStarted = False\<rparr>"

definition demo_answer :: "((string \<times> nat) list, frame list) lstore" where
  "demo_answer = demo_store\<lparr>
     reqs := (\<lambda>_. demo_req2 ''get'' None),
     conns := (\<lambda>c. (NewConnection (map FBulk [''get'', ''4'', ''q'', ''2'', ''val'']))\<lparr>cn_chanWait := [0]\<rparr>),
     ReqMap := [(''q'', 0)],
     counters := (\<lambda>_. \<lparr>cr_Cmd = ''get'', cr_DataShards = 1, cr_ParityShards = 1, cr_Counter = 0\<rparr>)\<rparr>"

theorem set_get_end_to_end_witness:
  "\<exists>s' rsp. serve_response demo_env alist_hashmap list_reader 0 TypeBulk demo_answer = Inr s' \<and>
     answered s' = answered demo_answer @ [(8, Answer rsp)] \<and> rs_BodyStream rsp = Some (NewInlineReader ''val'')"
proof -
  let ?q = "demo_req2 ''set'' (Some (NewInlineReader ''val''))" and ?g = "demo_req2 ''get'' None"
  let ?la = "demo_lambda NewClient"
  have "case serve_frames (map snd) 128 (\<lambda>_. 5) (request_frames ?q) ?la of
      Inr (la1, _) \<Rightarrow> (case serve_frames (map snd) 128 (\<lambda>_. 5) (request_frames ?g) la1 of
        Inr (_, ws2) \<Rightarrow> frames ws2 = map FBulk [''get'', ''4'', ''q'', ''2'', ''val''] | Inl _ \<Rightarrow> False) | Inl _ \<Rightarrow> False"
    by code_simp
  moreover have "rq_Cmd ?q = ''set''" "rq_Body ?q = None" "rq_BodyStream ?q = Some (NewInlineReader ''val'')" "rq_Cmd ?g = ''get''"
      "rq_BodyStream ?g = None" "rq_Key ?g = rq_Key ?q" "ChunkId (rq_Id ?g) = ChunkId (rq_Id ?q)" "reqs demo_answer 0 = ?g"
      "pending 0 8 demo_answer" "cn_chanWait (conns demo_answer 0) = [0]" "map_of (ReqMap demo_answer) (ReqId (rq_Id ?g)) = Some 0"
      "cr_Counter (counters demo_answer 0) = word_of_nat 0" "cr_DataShards (counters demo_answer 0) = int 1"
      "cr_ParityShards (counters demo_answer 0) = int 1" "- (2 ^ 63) \<le> ConnId (rq_Id ?g)" "ConnId (rq_Id ?g) < 2 ^ 63"
      "cn_r (conns demo_answer 0) = map FBulk [''get'', ''4'', ''q'', ''2'', ''val'']"
    by (simp_all add: demo_req2_def demo_answer_def pending_def NewConnection_def)
  ultimately show ?thesis
    using set_get_end_to_end [OF list_reader_ok alist_hashmap_ok demo_lambda_ok(1), of ?q "''val''" ?g demo_answer 0 8 0 0 0 1 1
        "map snd" 128 "\<lambda>_. 5" NewClient "\<lambda>_. 5" demo_env]
    by (auto split: sum.splits prod.splits)
qed



section \<open>Migration\<close>

text \<open>
  C12: when the source of a migration answers \<open>mhello\<close> and the destination, whose store is empty, runs
  \<open>Migrate\<close> against the handlers of the source, the store it is left with holds exactly the chunks of the source.
\<close>

theorem migration_complete:
  assumes "repo_wf (la_store la)" and "range_ok f" and "ready_to_send la" and "Storage_Len (la_store la) < 2 ^ 63"
    and "repo_wf s" and "repo_view s = Map.empty"
  shows "\<exists>la' ws a. mhello_handler (repo_if f) t la = Some (Inr (la', ws)) \<and>
     Client_Migrate (repo_if f) (source_wire f mem clk) t' (newStorageAdapter (la', frames ws) s) = Inr a \<and>
     repo_view (fst (Restore a)) = repo_view (la_store la)"
  using assms by (rule Client_Migrate_all)

lemma map_snd_range_ok: "range_ok (map snd)"
  by (simp add: range_ok_def)

lemma New_storage_view: "repo_view New_storage = Map.empty"
  by (simp add: repo_view_def New_storage_def fun_eq_iff)

theorem migration_complete_witness:
  "\<exists>la' ws a. mhello_handler (repo_if (map snd)) 5 (demo_lambda demo_ready) = Some (Inr (la', ws)) \<and>
     Client_Migrate (repo_if (map snd)) (source_wire (map snd) 128 (\<lambda>_. 6)) 7 (newStorageAdapter (la', frames ws) New_storage) = Inr a \<and>
     repo_view (fst (Restore a)) ''k'' = Some (''1'', ''ab'')"
proof -
  have "Storage_Len (la_store (demo_lambda demo_ready)) = 2" by code_simp
  then have l: "Storage_Len (la_store (demo_lambda demo_ready)) < 2 ^ 63" by simp
  have v: "repo_view (la_store (demo_lambda demo_ready)) ''k'' = Some (''1'', ''ab'')" by code_simp
  obtain la' ws a where "mhello_handler (repo_if (map snd)) 5 (demo_lambda demo_ready) = Some (Inr (la', ws))"
     "Client_Migrate (repo_if (map snd)) (source_wire (map snd) 128 (\<lambda>_. 6)) 7 (newStorageAdapter (la', frames ws) New_storage) = Inr a"
     "repo_view (fst (Restore a)) = repo_view (la_store (demo_lambda demo_ready))"
    using migration_complete [OF demo_lambda_ok(3) map_snd_range_ok demo_lambda_ok(2) l repo_wf_New New_storage_view,
        of 5 128 "\<lambda>_. 6" 7] by blast
  then show ?thesis using v by (intro exI [of _ la'] exI [of _ ws] exI [of _ a]) simp
qed






text \<open>
  C26: although the two lists of \<open>mhello\<close> share one array, the answer is the one two separate lists would
  give: it announces the number of keys and lists first the deleted and then the other keys, each once, with the
  most recently accessed first.
\<close>

theorem mhello_lists_keys:
  assumes "repo_wf (la_store la)" and "range_ok f" and "ready_to_send la"
  shows "\<exists>la' ws. mhello_handler (repo_if f) t la = Some (Inr (la', ws)) \<and>
     frames ws = map FBulk (''mhello'' # itoa (int (Storage_Len (la_store la))) #
        map ((@) (itoa OP_DEL)) (filter (\<lambda>k. repo_view (la_store la) k = None) (Storage_Keys f (la_store la))) @
        map ((@) (itoa OP_GET)) (filter (\<lambda>k. repo_view (la_store la) k \<noteq> None) (Storage_Keys f (la_store la)))) \<and>
     distinct (Storage_Keys f (la_store la)) \<and> length (Storage_Keys f (la_store la)) = Storage_Len (la_store la)"
  using mhello_ok [OF assms, of t] Storage_Keys_complete(2,3) [OF assms(1,2)] by blast

theorem mhello_lists_keys_witness:
  "\<exists>la' ws. mhello_handler (repo_if (map snd)) 5 (demo_lambda demo_ready) = Some (Inr (la', ws)) \<and>
     frames ws = map FBulk [''mhello'', ''2'', ''2old'', ''1k'']"
proof -
  have "''mhello'' # itoa (int (Storage_Len (la_store (demo_lambda demo_ready)))) #
        map ((@) (itoa OP_DEL)) (filter (\<lambda>k. repo_view (la_store (demo_lambda demo_ready)) k = None) (Storage_Keys (map snd) (la_store (demo_lambda demo_ready)))) @
        map ((@) (itoa OP_GET)) (filter (\<lambda>k. repo_view (la_store (demo_lambda demo_ready)) k \<noteq> None) (Storage_Keys (map snd) (la_store (demo_lambda demo_ready))))
      = [''mhello'', ''2'', ''2old'', ''1k'']"
    by code_simp
  then show ?thesis
    using mhello_lists_keys [OF demo_lambda_ok(3) map_snd_range_ok demo_lambda_ok(2), of 5] by metis
qed

text \<open>
  C40: the \<open>data\<close> command the proxy sends when it closes panics in a Lambda that has initiated its
  migration but has not yet been told where to connect: the client of the migration has no connection to close.
\<close>

theorem data_stops_initiation:
  assumes "Wait_timeout I now werr la = Inr (Initiating la')"
  shows "data_handler werr' la' = Some (Inl NilDereference)"
  using assms
  by (auto simp: Wait_timeout_def data_handler_def data_migrator_def NewClient_def SetError_def recv_ready_def send_ready_def
      Close_client_def Let_def split: option.splits if_splits)

theorem data_stops_initiation_witness:
  "\<exists>la'. Wait_timeout (repo_if (map snd)) 10 (\<lambda>_. None) (demo_lambda NewClient) = Inr (Initiating la') \<and>
     data_handler (\<lambda>_. None) la' = Some (Inl NilDereference)"
proof -
  have "case Wait_timeout (repo_if (map snd)) 10 (\<lambda>_. None) (demo_lambda NewClient) of Inr (Initiating _) \<Rightarrow> True | _ \<Rightarrow> False"
    by code_simp
  then obtain la' where "Wait_timeout (repo_if (map snd)) 10 (\<lambda>_. None) (demo_lambda NewClient) = Inr (Initiating la')"
    by (auto split: sum.splits waited.splits)
  then show ?thesis using data_stops_initiation by blast
qed



section \<open>The client library\<close>

text \<open>
  C8: with an erasure code that recovers up to \<open>p\<close> missing shards, a GET returns the object that was encoded
  whenever every connection answers with its chunk or, for at most \<open>p\<close> chunks, with the notice that the chunk came too late.
\<close>

theorem ecget_decodes:
  assumes "erasure_code E p" and "reader_ok (kt_reader N) fr" and "kl_EC c = E" and "encode E obj = Inr (Inr shards)"
    and "erased p shards xs" and "kl_Shards c = length shards"
    and "\<forall>i < length shards. will_answer N fr (kt_Locate N key) key reqId xs c i" and "kl_Ring c \<noteq> None"
  shows "\<exists>c'. EcGet N mx reqId reqId' 0 key (int (length obj)) c = Inr ((Some (Inr (obj, None)), True), c')"
  using assms(2-) by (rule erasure_code.EcGet_decodes [OF assms(1)])

text \<open>A code with one data and one parity shard for the witness: the parity shard is a copy.\<close>

definition copy_code :: encoder where
  "copy_code = \<lparr>
     en_Encode = (\<lambda>xs. Inr [hd xs, hd xs]),
     en_Verify = (\<lambda>xs. (length xs = 2 \<and> xs ! 0 = xs ! 1 \<and> xs ! 0 \<noteq> None, None)),
     en_Reconstruct = (\<lambda>xs. case filter (\<lambda>x. x \<noteq> None) xs of [] \<Rightarrow> Inl ErrTooFewShards | x # _ \<Rightarrow> Inr [x, x]),
     en_Split = (\<lambda>b. Inr (if b = [] then Inl ErrShortData else Inr [Some b, None])),
     en_Join = (\<lambda>xs n. Inr (case xs of Some b # _ \<Rightarrow> (take (nat n) b, None) | _ \<Rightarrow> ([], Some ErrReconstructRequired)))\<rparr>"

lemma encode_copy: "encode copy_code obj = Inr (Inr shards) \<longleftrightarrow> obj \<noteq> [] \<and> shards = [Some obj, Some obj]"
  by (auto simp: encode_def copy_code_def)

lemma erased_copy:
  assumes "erased 1 [Some obj, Some obj] xs"
  shows "xs \<in> {[Some obj, Some obj], [None, Some obj], [Some obj, None]}"
  using assms by (auto simp: erased_def list_all2_Cons1 split: if_splits)

lemma copy_code_ok: "erasure_code copy_code 1"
proof unfold_locales
  fix obj shards xs
  assume "encode copy_code obj = Inr (Inr shards)"
  then have e: "shards = [Some obj, Some obj]" by (simp add: encode_copy)
  then show "en_Verify copy_code shards = (True, None)" "en_Join copy_code shards (int (length obj)) = Inr (obj, None)"
    by (simp_all add: copy_code_def)
  assume "erased 1 shards xs" "xs \<noteq> shards"
  then have "xs \<in> {[None, Some obj], [Some obj, None]}"
    using e erased_copy by auto
  with e show "\<not> fst (en_Verify copy_code xs)" "en_Reconstruct copy_code xs = Inr shards"
    by (auto simp: copy_code_def)
qed

definition demo_net :: "frame list knet" where
  "demo_net = \<lparr>kt_reader = list_reader, kt_Dial = (\<lambda>_ _. Inr []),
     kt_peer = (\<lambda>_ i _ _. chunk_answer ''q'' i (if i = 0 then None else Some ''obj'')),
     kt_oc = (\<lambda>_ _ _. None), kt_Locate = (\<lambda>_. ''p'')\<rparr>"

definition demo_client :: "frame list EcClient" where
  "demo_client = (NewEcClient (\<lambda>_ _. copy_code) 1 1)\<lparr>kl_Ring := Some [''p''], kl_Conns := (\<lambda>_. replicate 2 (Some \<lparr>kn_r = [], kn_w = []\<rparr>))\<rparr>"

theorem ecget_decodes_witness:
  "\<exists>c'. EcGet demo_net 400 ''q'' ''q2'' 0 ''k'' 3 demo_client = Inr ((Some (Inr (''obj'', None)), True), c')"
proof -
  have "kl_EC demo_client = copy_code" "kl_Shards demo_client = 2" "kt_reader demo_net = list_reader" "kl_Ring demo_client \<noteq> None"
    by (simp_all add: demo_client_def NewEcClient_def NewEncoder_def demo_net_def)
  moreover have "erased 1 [Some ''obj'', Some ''obj''] [None, Some ''obj'']" by (simp add: erased_def)
  moreover have "will_answer demo_net id (kt_Locate demo_net ''k'') ''k'' ''q'' [None, Some ''obj''] demo_client i" if "i < 2" for i
    using that by (auto simp: will_answer_def demo_client_def demo_net_def less_2_cases_iff)
  ultimately show ?thesis
    using ecget_decodes [OF copy_code_ok, of demo_net id demo_client "''obj''" "[Some ''obj'', Some ''obj'']" "[None, Some ''obj'']"
        "''k''" "''q''" 400 "''q2''"] list_reader_ok
    by (simp add: encode_copy)
qed

text \<open>
  C9: an object whose shards the code produces is stored when the proxy answers the SET of every chunk: \<open>EcSet\<close>
  returns true, and the placements it is given are replaced by the instances that the answers name.
\<close>

theorem ecset_stores:
  assumes "reader_ok (kt_reader N) fr" and "encode (kl_EC c) obj = Inr (Inr (map Some bodies))" and "kl_Shards c = length bodies"
    and "length bodies \<le> length (Perm mx)" and "kl_Ring c \<noteq> None" and "host = kt_Locate N key"
    and "\<forall>i < length bodies. open_conn N c host i \<and> kt_oc N host i 0 = None"
    and "\<forall>i < length bodies. set_reply reqId i (ids i) (rsp i) \<and> - (2 ^ 63) \<le> ids i \<and> ids i < 2 ^ 63"
    and "\<forall>i < length bodies. fr (kt_peer N host i (frames (set_calls mx key (bodies ! i) i (Perm mx ! i) reqId c)) (conn_reader c host i)) =
           callback_frames px (ch i) [(ch i, Answer (rsp i))]"
  shows "\<exists>c'. EcSet N Perm mx reqId 0 (Some ps) key obj c =
     Inr ((True, if length bodies \<le> length ps then Some (map ids [0..<length bodies] @ drop (length bodies) ps) else None), c')"
proof -
  have "will_accept N fr mx (kt_Locate N key) key reqId c i (bodies ! i) (Perm mx ! i) (itoa (ids i))" if i: "i < length bodies" for i
    using i assms(6-9) set_reply_frames [of reqId i "ids i" "rsp i" px "ch i"]
    by (fastforce simp: will_accept_def open_conn_def conn_reader_def)
  then show ?thesis using EcSet_stores [of N fr c obj bodies Perm mx key reqId ids ps, OF assms(1-5)] assms(8) by blast
qed

theorem ecset_stores_witness:
  "\<exists>c'. EcSet (demo_net\<lparr>kt_peer := (\<lambda>_ i _ _. map FBulk [''q'', itoa (int i), ''7''])\<rparr>) (\<lambda>n. [0..<n]) 2 ''q'' 0 (Some [0, 0]) ''k'' ''obj'' demo_client =
     Inr ((True, Some [7, 7]), c')"
proof -
  let ?N = "demo_net\<lparr>kt_peer := (\<lambda>_ i _ _. map FBulk [''q'', itoa (int i), ''7''])\<rparr>"
  let ?rsp = "\<lambda>i :: nat. (mk_response ''set'' ''1'' ''q'' (itoa (int i)))\<lparr>rs_Body := Some ''7''\<rparr>"
  have r: "set_reply ''q'' i 7 (?rsp i)" for i by (simp add: set_reply_def mk_response_def) code_simp
  have f: "callback_frames demo_proxy i [(i, Answer (?rsp i))] = map FBulk [''q'', itoa (int i), ''7'']" for i
    unfolding set_reply_frames [OF r] by (simp add: chunk_answer_def) code_simp
  have c: "kl_EC demo_client = copy_code" "kl_Shards demo_client = length [''obj'', ''obj'']" "kl_Ring demo_client \<noteq> None"
    by (simp_all add: demo_client_def NewEcClient_def NewEncoder_def)
  have e: "encode (kl_EC demo_client) ''obj'' = Inr (Inr (map Some [''obj'', ''obj'']))" by (simp add: encode_copy c(1))
  have o: "open_conn ?N demo_client host i \<and> kt_oc ?N host i 0 = None" if "i < length [''obj'', ''obj'']" for i host
    using that by (simp add: open_conn_def demo_client_def demo_net_def)
  have R: "reader_ok (kt_reader ?N) id" using list_reader_ok by (simp add: demo_net_def)
  have "\<exists>c'. EcSet ?N (\<lambda>n. [0..<n]) 2 ''q'' 0 (Some [0, 0]) ''k'' ''obj'' demo_client =
     Inr ((True, if length [''obj'', ''obj''] \<le> length [0 :: int, 0] then Some (map (\<lambda>_. 7) [0..<length [''obj'', ''obj'']] @ drop (length [''obj'', ''obj'']) [0, 0]) else None), c')"
    by (rule ecset_stores [where Perm = "\<lambda>n. [0..<n]" and mx = 2 and ids = "\<lambda>_. 7" and rsp = ?rsp and px = demo_proxy and ch = "\<lambda>i. i"
          and ps = "[0, 0]" and key = "''k''" and reqId = "''q''", OF R e c(2) _ c(3) refl])
      (use o r f in \<open>auto simp: demo_net_def\<close>)
  then show ?thesis by (simp add: upt_rec)
qed

text \<open>
  C3: an object is encoded into \<open>d + p\<close> chunks, each is stored by a SET request on its Lambda, and later read by
  a GET request.  In whatever order the answers of the Lambdas reach the proxy, the proxy's connections handle all of
  them, what the callback then writes to the connections of the client makes \<open>EcGet\<close> return the object: the first
  \<open>d\<close> chunks carry their bytes, the later ones are announced as late.
\<close>

theorem object_roundtrip:
  assumes "erasure_code C p" and "encode C obj = Inr (Inr (map Some bodies))" and "length bodies = d + p" and "d + p < 2 ^ 31"
    and "reader_ok R fr" and "hashmap_ok H" and "reader_ok (kt_reader N) frc"
    and "\<forall>i < d + p. source_ok (la i)" and "\<forall>i < d + p. chunk_requests reqId i (bodies ! i) (q i) (g i)"
    and "get_entry H reqId d p s" and "\<forall>i < d + p. awaits (cn i) (r i) (ch i) (g i) s"
    and "inj_on cn {..<d + p}" and "inj_on r {..<d + p}" and "inj_on ch {..<d + p}"
    and "kl_EC c = C" and "kl_Shards c = d + p" and "\<forall>i < d + p. open_conn N c (kt_Locate N key) i"
    and "distinct is" and "set is = {..<d + p}" and "kl_Ring c \<noteq> None"
  shows "\<exists>la1 ws1 la2 ws2.
     (\<forall>i < d + p. serve_frames f mem clk (request_frames (q i)) (la i) = Inr (la1 i, ws1 i) \<and>
        serve_frames f mem clk' (request_frames (g i)) (la1 i) = Inr (la2 i, ws2 i)) \<and>
     ((\<forall>i < d + p. fr (cn_r (conns s (cn i))) = frames (ws2 i)) \<longrightarrow>
      (\<exists>s' new. get_replies V H R (map cn is) s = Inr s' \<and> answered s' = answered s @ new \<and>
        ((\<forall>i < d + p. frc (kt_peer N (kt_Locate N key) i (frames (get_calls key i reqId c)) (conn_reader c (kt_Locate N key) i)) =
             callback_frames px (ch i) new) \<longrightarrow>
         (\<exists>c'. EcGet N mx reqId reqId' 0 key (int (length obj)) c = Inr ((Some (Inr (obj, None)), True), c')))))"
proof -
  obtain la1 ws1 la2 ws2 where l: "\<forall>i < d + p. serve_frames f mem clk (request_frames (q i)) (la i) = Inr (la1 i, ws1 i) \<and>
      serve_frames f mem clk' (request_frames (g i)) (la1 i) = Inr (la2 i, ws2 i) \<and>
      frames (ws2 i) = map FBulk [''get'', itoa (ConnId (rq_Id (g i))), reqId, itoa (int i), bodies ! i]"
    using lambdas_answer [OF assms(8,9), of f mem clk clk'] by blast
  have "\<exists>s' new. get_replies V H R (map cn is) s = Inr s' \<and> answered s' = answered s @ new \<and>
      (\<forall>i < d + p. callback_frames px (ch i) new = chunk_answer reqId i (first_chunks d is bodies ! i))"
    if "\<forall>i < d + p. fr (cn_r (conns s (cn i))) = frames (ws2 i)"
    using proxy_answers [OF assms(5,6,3,4,18,19,12,13,14,10,9,11), of V px] that l by simp
  then show ?thesis
    using l client_decodes [OF assms(1,2,3,18,19,7,15,16,17) _ assms(20), of reqId mx reqId'] by (metis (no_types, lifting))
qed

definition demo_chunk_req :: "string \<Rightarrow> nat \<Rightarrow> rstream option \<Rightarrow> Request" where
  "demo_chunk_req cmd i body =
     \<lparr>rq_Id = \<lparr>ConnId = 4, ReqId = ''q'', ChunkId = itoa (int i)\<rparr>, rq_Cmd = cmd, rq_Key = CHR ''k'' # itoa (int i), rq_Body = None,
      rq_BodyStream = body, rq_ChanResponse = Some i, rq_EnableCollector = False, rq_w = False, rq_responded = False,
      rq_streamingStarted = False\<rparr>"

definition demo_chunk_gets :: "((string \<times> nat) list, frame list) lstore" where
  "demo_chunk_gets = demo_store\<lparr>
     reqs := (\<lambda>i. demo_chunk_req ''get'' i None),
     conns := (\<lambda>i. (NewConnection (map FBulk [''get'', ''4'', ''q'', itoa (int i), ''obj'']))\<lparr>cn_chanWait := [i]\<rparr>),
     ReqMap := [(''q'', 0)],
     counters := (\<lambda>_. \<lparr>cr_Cmd = ''get'', cr_DataShards = 1, cr_ParityShards = 1, cr_Counter = 0\<rparr>)\<rparr>"

lemma demo_chunk_served:
  assumes "i < 2"
    and "serve_frames (map snd) 128 (\<lambda>_. 5) (request_frames (demo_chunk_req ''set'' i (Some (NewInlineReader ''obj'')))) (demo_lambda NewClient) = Inr (la1, ws1)"
    and "serve_frames (map snd) 128 (\<lambda>_. 5) (request_frames (demo_chunk_req ''get'' i None)) la1 = Inr (la2, ws2)"
  shows "frames ws2 = map FBulk [''get'', ''4'', ''q'', itoa (int i), ''obj'']"
proof -
  have "itoa 4 = ''4''" by code_simp
  then show ?thesis
    using lambda_set_get [OF demo_lambda_ok(1), of "demo_chunk_req ''set'' i (Some (NewInlineReader ''obj''))" "''obj''"
        "demo_chunk_req ''get'' i None" "map snd" 128 "\<lambda>_. 5" NewClient "\<lambda>_. 5"] assms(2,3)
    by (auto simp: demo_chunk_req_def)
qed

theorem object_roundtrip_witness:
  "\<exists>s' c'. get_replies demo_env alist_hashmap list_reader [1, 0] demo_chunk_gets = Inr s' \<and>
     EcGet demo_net 400 ''q'' ''q2'' 0 ''k'' 3 demo_client = Inr ((Some (Inr (''obj'', None)), True), c')"
proof -
  let ?q = "\<lambda>i. demo_chunk_req ''set'' i (Some (NewInlineReader ''obj''))" and ?g = "\<lambda>i. demo_chunk_req ''get'' i None"
  have two: "\<forall>i < 1 + 1. P i" if "P 0" "P 1" for P :: "nat \<Rightarrow> bool" using that by (auto simp: less_Suc_eq)
  have h2: "encode copy_code ''obj'' = Inr (Inr (map Some [''obj'', ''obj'']))" by (simp add: encode_copy)
  have h3: "length [''obj'', ''obj''] = 1 + 1" "(1 + 1 :: nat) < 2 ^ 31" by simp_all
  have h7: "reader_ok (kt_reader demo_net) id" using list_reader_ok by (simp add: demo_net_def)
  have h8: "\<forall>i < 1 + 1 :: nat. source_ok (demo_lambda NewClient)" using demo_lambda_ok(1) by simp
  have h9: "\<forall>i < 1 + 1. chunk_requests ''q'' i ([''obj'', ''obj''] ! i) (?q i) (?g i)"
    by (rule two) (simp_all add: chunk_requests_def demo_chunk_req_def)
  have h10: "get_entry alist_hashmap ''q'' 1 1 demo_chunk_gets" by (simp add: get_entry_def demo_chunk_gets_def)
  have h11: "\<forall>i < 1 + 1. awaits i i i (?g i) demo_chunk_gets"
    by (simp add: awaits_def demo_chunk_gets_def pending_def demo_chunk_req_def)
  have h12: "inj_on (\<lambda>i. i) {..<1 + 1 :: nat}" by simp
  have h15: "kl_EC demo_client = copy_code" "kl_Shards demo_client = 1 + 1"
    by (simp_all add: demo_client_def NewEcClient_def NewEncoder_def)
  have h17: "\<forall>i < 1 + 1. open_conn demo_net demo_client (kt_Locate demo_net ''k'') i"
    by (simp add: open_conn_def demo_client_def demo_net_def)
  have h20: "kl_Ring demo_client \<noteq> None" by (simp add: demo_client_def)
  have h18: "distinct [1, 0 :: nat]" "set [1, 0] = {..<1 + 1 :: nat}" by auto
  have p: "kt_Locate demo_net ''k'' = ''p''" "map (\<lambda>i. i) [1, 0 :: nat] = [1, 0]" by (simp_all add: demo_net_def)
  note t = object_roundtrip [OF copy_code_ok h2 h3 list_reader_ok alist_hashmap_ok h7 h8 h9 h10 h11 h12 h12 h12 h15 h17 h18 h20,
      of "map snd" 128 "\<lambda>_. 5" "\<lambda>_. 5" demo_env demo_proxy 400 "''q2''", unfolded p id_apply]
  obtain la1 ws1 la2 ws2 where
      l: "\<forall>i < 1 + 1. serve_frames (map snd) 128 (\<lambda>_. 5) (request_frames (?q i)) (demo_lambda NewClient) = Inr (la1 i, ws1 i) \<and>
        serve_frames (map snd) 128 (\<lambda>_. 5) (request_frames (?g i)) (la1 i) = Inr (la2 i, ws2 i)"
      and r: "(\<forall>i < 1 + 1. cn_r (conns demo_chunk_gets i) = frames (ws2 i)) \<longrightarrow>
      (\<exists>s' new. get_replies demo_env alist_hashmap list_reader [1, 0] demo_chunk_gets = Inr s' \<and> answered s' = answered demo_chunk_gets @ new \<and>
        ((\<forall>i < 1 + 1. kt_peer demo_net ''p'' i (frames (get_calls ''k'' i ''q'' demo_client)) (conn_reader demo_client ''p'' i) =
             callback_frames demo_proxy i new) \<longrightarrow>
         (\<exists>c'. EcGet demo_net 400 ''q'' ''q2'' 0 ''k'' (int (length ''obj'')) demo_client = Inr ((Some (Inr (''obj'', None)), True), c'))))"
    using t by blast
  have "\<forall>i < 1 + 1. cn_r (conns demo_chunk_gets i) = frames (ws2 i)"
  proof (intro allI impI)
    fix i :: nat assume "i < 1 + 1"
    then have "frames (ws2 i) = map FBulk [''get'', ''4'', ''q'', itoa (int i), ''obj'']"
      using l by (intro demo_chunk_served [of i "la1 i" "ws1 i" "la2 i"]) auto
    then show "cn_r (conns demo_chunk_gets i) = frames (ws2 i)" by (simp add: demo_chunk_gets_def NewConnection_def)
  qed
  then obtain s' new where s': "get_replies demo_env alist_hashmap list_reader [1, 0] demo_chunk_gets = Inr s'"
      "answered s' = answered demo_chunk_gets @ new"
      "(\<forall>i < 1 + 1. kt_peer demo_net ''p'' i (frames (get_calls ''k'' i ''q'' demo_client)) (conn_reader demo_client ''p'' i) =
             callback_frames demo_proxy i new) \<longrightarrow>
         (\<exists>c'. EcGet demo_net 400 ''q'' ''q2'' 0 ''k'' (int (length ''obj'')) demo_client = Inr ((Some (Inr (''obj'', None)), True), c'))"
    using r by blast
  have new: "new = answered s'" using s'(2) by (simp add: demo_chunk_gets_def demo_store_def)
  have "case get_replies demo_env alist_hashmap list_reader [1, 0] demo_chunk_gets of
      Inr s' \<Rightarrow> callback_frames demo_proxy 0 (answered s') = chunk_answer ''q'' 0 None \<and>
        callback_frames demo_proxy 1 (answered s') = chunk_answer ''q'' 1 (Some ''obj'')
    | Inl _ \<Rightarrow> False" by code_simp
  then have "callback_frames demo_proxy 0 new = chunk_answer ''q'' 0 None" "callback_frames demo_proxy 1 new = chunk_answer ''q'' 1 (Some ''obj'')"
    unfolding s'(1) new by simp_all
  then have "\<forall>i < 1 + 1. kt_peer demo_net ''p'' i (frames (get_calls ''k'' i ''q'' demo_client)) (conn_reader demo_client ''p'' i) =
             callback_frames demo_proxy i new"
    by (intro two) (simp_all add: demo_net_def)
  then show ?thesis using s'(1,3) by auto
qed

text \<open>
  C29: without parity shards an object of \<open>n\<close> bytes is encoded exactly when its last shard gets a
  byte, that is when \<open>d - 1\<close> shards of \<open>\<lceil>n / d\<rceil>\<close> bytes do not already hold it; other objects cannot be stored.  What is encoded
  is decoded to the object.
\<close>

theorem dummy_encoder_stores:
  assumes "0 < d" and "obj \<noteq> []"
  shows "((\<exists>shards. encode (DummyEncoder d) obj = Inr (Inr shards)) \<longleftrightarrow> per_shard d obj * (d - 1) < length obj) \<and>
    (\<forall>shards stats. encode (DummyEncoder d) obj = Inr (Inr shards) \<longrightarrow>
      (\<exists>stats'. decode (DummyEncoder d) shards (int (length obj)) stats = (stats', Inr (Inr (obj, None)), shards)))"
proof (intro conjI allI impI)
  show "(\<exists>shards. encode (DummyEncoder d) obj = Inr (Inr shards)) \<longleftrightarrow> per_shard d obj * (d - 1) < length obj"
    using encode_dummy [OF assms] by auto
  fix shards stats
  assume e: "encode (DummyEncoder d) obj = Inr (Inr shards)"
  show "\<exists>stats'. decode (DummyEncoder d) shards (int (length obj)) stats = (stats', Inr (Inr (obj, None)), shards)"
    using dummy.decode_erased [OF e erased_encoded [OF e]] .
qed

theorem dummy_encoder_stores_witness:
  "(\<nexists>shards. encode (DummyEncoder 4) ''12345'' = Inr (Inr shards)) \<and>
   (\<exists>shards. encode (DummyEncoder 4) ''1234567'' = Inr (Inr shards)) \<and>
   (\<exists>stats'. decode (DummyEncoder 2) [Some ''ab'', Some ''c''] 3 \<lparr>ds_AllGood = False, ds_Corrupted = False\<rparr> =
      (stats', Inr (Inr (''abc'', None)), [Some ''ab'', Some ''c'']))"
proof -
  have "per_shard 4 ''12345'' = 2" "per_shard 4 ''1234567'' = 2" "encode (DummyEncoder 2) ''abc'' = Inr (Inr [Some ''ab'', Some ''c''])"
    by code_simp+
  then show ?thesis
    using dummy_encoder_stores [of 4 "''12345''"] dummy_encoder_stores [of 4 "''1234567''"] dummy_encoder_stores [of 2 "''abc''"]
    by simp
qed

section \<open>The cache as a whole\<close>

definition demo_system :: "((string \<times> addr) list, (string \<times> nat) list, frame list) system" where
  "demo_system =
     \<lparr>sy_proxy = demo_proxy\<lparr>px_store := demo_store\<lparr>conns := (\<lambda>c. (NewConnection [])\<lparr>cn_instance := Some c\<rparr>),
        instances := (\<lambda>i. (NewInstance ''node'' (word_of_nat i) False)\<lparr>in_cn := Some i\<rparr>)\<rparr>\<rparr>,
      sy_lambda = (\<lambda>_. demo_lambda NewClient)\<rparr>"

lemma demo_system_fresh: "fresh_system alist_hashmap (demo_group 2 20) id demo_system"
  by (simp add: fresh_system_def demo_system_def demo_proxy_def demo_placer_def queue_def wired_def demo_lambda_ok NewInstance_def NewInstance_of_def NewConnection_def)

definition demo_round :: "nat \<Rightarrow> ((string \<times> addr) list, (string \<times> nat) list, frame list) system \<Rightarrow>
    ((string \<times> addr) list, (string \<times> nat) list, frame list) system res option" where
  "demo_round k = serve_round demo_env alist_hashmap list_reader (\<lambda>fs r. r @ fs) (map snd) 128 (\<lambda>_. 5) k"


definition demo_set_get ::
    "(((string \<times> addr) list, (string \<times> nat) list, frame list) system \<times> ((string \<times> addr) list, (string \<times> nat) list, frame list) system \<times> wcall list \<times> ((string \<times> addr) list, (string \<times> nat) list, frame list) system \<times> ((string \<times> addr) list, (string \<times> nat) list, frame list) system) option" where
  "demo_set_get = (case HandleSet alist_hashmap 0 0 ''u'' demo_cmd (sy_proxy demo_system) of
     Some (Inr (_, px1)) \<Rightarrow> (let s1 = demo_system\<lparr>sy_proxy := px1\<rparr> in case demo_round 1 s1 of
        Some (Inr s2) \<Rightarrow> (case HandleGet alist_hashmap alist_hashmap 1 (demo_cmd\<lparr>cc_Name := ''get''\<rparr>) (sy_proxy s2) of
            Inr (ws, px3) \<Rightarrow> (let s3 = s2\<lparr>sy_proxy := px3\<rparr> in case demo_round 1 s3 of
                Some (Inr s4) \<Rightarrow> Some (s1, s2, ws, s3, s4)
              | _ \<Rightarrow> None)
          | _ \<Rightarrow> None)
      | _ \<Rightarrow> None)
   | _ \<Rightarrow> None)"

abbreviation demo_step where
  "demo_step \<equiv> sys_step alist_hashmap alist_hashmap demo_env list_reader (\<lambda>fs r. r @ fs) (map snd) 128 1"


definition demo_reply :: "string \<Rightarrow> string option \<Rightarrow> rstream option \<Rightarrow> Response" where
  "demo_reply cmd body stream = (mk_response cmd ''1'' ''q'' ''0'')\<lparr>rs_Body := body, rs_BodyStream := stream\<rparr>"

abbreviation demo_events :: "event list" where
  "demo_events \<equiv> [EvSet (''k'', 0) ''abc'', EvServed 0 [(8, Answer (demo_reply ''set'' (Some ''1'') None))], EvGet (''k'', 0) 1]"

abbreviation demo_served :: event where
  "demo_served \<equiv> EvServed 1 [(8, Answer (demo_reply ''get'' None (Some (NewInlineReader ''abc''))))]"

lemma demo_system_runs: "\<exists>sys'. run_of demo_step demo_system (demo_events @ [demo_served]) sys'"
proof -
  have "case demo_set_get of Some (s1, s2, ws, s3, s4) \<Rightarrow>
      in_chanReq (instances (px_store (sy_proxy s1)) 1) = [CmdRequest 0] \<and> in_chanReq (instances (px_store (sy_proxy s3)) 1) = [CmdRequest 1] \<and>
      ws = [] \<and> px_nextReq (sy_proxy s2) = 1 \<and>
      answered (px_store (sy_proxy s2)) = answered (px_store (sy_proxy s1)) @ [(8, Answer (demo_reply ''set'' (Some ''1'') None))] \<and>
      answered (px_store (sy_proxy s4)) = answered (px_store (sy_proxy s3)) @ [(8, Answer (demo_reply ''get'' None (Some (NewInlineReader ''abc''))))]
    | None \<Rightarrow> False"
    by code_simp
  then obtain ws px1 s2 px3 s4 where d: "HandleSet alist_hashmap 0 0 ''u'' demo_cmd (sy_proxy demo_system) = Some (Inr (ws, px1))"
      "demo_round 1 (demo_system\<lparr>sy_proxy := px1\<rparr>) = Some (Inr s2)"
      "HandleGet alist_hashmap alist_hashmap 1 (demo_cmd\<lparr>cc_Name := ''get''\<rparr>) (sy_proxy s2) = Inr ([], px3)"
      "demo_round 1 (s2\<lparr>sy_proxy := px3\<rparr>) = Some (Inr s4)"
    and e: "in_chanReq (instances (px_store px1) 1) = [CmdRequest 0]" "in_chanReq (instances (px_store px3) 1) = [CmdRequest 1]"
      "px_nextReq (sy_proxy s2) = 1" "answered (px_store (sy_proxy s2)) = answered (px_store px1) @ [(8, Answer (demo_reply ''set'' (Some ''1'') None))]"
      "answered (px_store (sy_proxy s4)) = answered (px_store px3) @ [(8, Answer (demo_reply ''get'' None (Some (NewInlineReader ''abc''))))]"
    by (auto simp: demo_set_get_def Let_def split: option.splits sum.splits prod.splits)
  have c: "set_cmd_ok 1 demo_cmd" "ToLower ''set'' = ''set''" "ToLower ''get'' = ''get''" by code_simp+
  have "demo_step demo_system (EvSet (''k'', 0) ''abc'') (demo_system\<lparr>sy_proxy := px1\<rparr>)"
    using SysSet [OF d(1) c(1), of "''abc''"] c(2) by (simp add: demo_cmd_def)
  moreover have "demo_step (demo_system\<lparr>sy_proxy := px1\<rparr>) (EvServed 0 [(8, Answer (demo_reply ''set'' (Some ''1'') None))]) s2"
    by (rule SysServe [OF d(2) [unfolded demo_round_def]]) (use e in simp_all)
  moreover have "demo_step s2 (EvGet (''k'', 0) 1) (s2\<lparr>sy_proxy := px3\<rparr>)"
    using SysGet [OF d(3), of 1] c(3) e(3) by (simp add: demo_cmd_def)
  moreover have "demo_step (s2\<lparr>sy_proxy := px3\<rparr>) demo_served s4"
    by (rule SysServe [OF d(4) [unfolded demo_round_def]]) (use e in simp_all)
  ultimately show ?thesis
    using run_snoc [OF run_snoc [OF run_snoc [OF run_snoc [OF run_nil]]], of demo_step demo_system] by fastforce
qed



text \<open>
  C5: bytes that are delivered for a GET request are the bytes of the last SET of its chunk before
  the GET arrived, whatever other commands, evictions and answers come in between.
\<close>

theorem get_returns_last_set:
  assumes "reader_ok R fr" and "\<And>fs r. fr (feed fs r) = fr r @ fs" and "hashmap_ok H" and "n \<le> 100" and "insts_wf g"
    and "fresh_system H g fr sys" and "run_of (sys_step H Q E R feed f mem n) sys (pre @ EvServed r as # post) sys'"
    and "(ch, Answer rsp) \<in> set as" and "rs_BodyStream rsp = Some st"
  shows "\<exists>b x early late. st_ReadAll st = Inr b \<and> pre = early @ EvGet x r # late \<and> last_write x early = Some b"
proof -
  obtain u where "run_of spec_step (Map.empty, Map.empty) (pre @ EvServed r as # post) u"
    using cache_runs [OF assms(1-7)] by blast
  from spec_serves [OF this assms(8,9)] show ?thesis unfolding read_by_def by blast
qed

theorem get_returns_last_set_witness:
  "\<exists>b x early late. st_ReadAll (NewInlineReader ''abc'') = Inr b \<and> demo_events = early @ EvGet x 1 # late \<and> last_write x early = Some b"
proof -
  obtain sys' where s: "run_of demo_step demo_system (demo_events @ demo_served # []) sys'" using demo_system_runs by blast
  show ?thesis
    by (rule get_returns_last_set [OF list_reader_ok _ alist_hashmap_ok _ demo_group_wf demo_system_fresh s])
      (auto simp: demo_reply_def)
qed

text \<open>
  C14: a GET of a chunk that was stored is missed only when another chunk was stored since, so
  the cache forgets only to make room.
\<close>

theorem miss_after_eviction:
  assumes "reader_ok R fr" and "\<And>fs r. fr (feed fs r) = fr r @ fs" and "hashmap_ok H" and "n \<le> 100" and "insts_wf g"
    and "fresh_system H g fr sys" and "run_of (sys_step H Q E R feed f mem n) sys (pre @ EvSet x b # post @ EvMiss x # rest) sys'"
  shows "\<exists>y v. y \<noteq> x \<and> EvSet y v \<in> set post"
  using cache_runs [OF assms] spec_misses by blast

definition small_system :: "((string \<times> addr) list, (string \<times> nat) list, frame list) system" where
  "small_system = demo_system\<lparr>sy_proxy := (sy_proxy demo_system)\<lparr>px_placer := demo_placer 1 6\<rparr>\<rparr>"

theorem miss_after_eviction_witness:
  "\<exists>sys'. run_of demo_step small_system ([] @ EvSet (''k'', 0) ''abc'' # [EvSet (''b'', 0) ''abc''] @ EvMiss (''k'', 0) # []) sys' \<and>
     (\<exists>y v. y \<noteq> (''k'', 0) \<and> EvSet y v \<in> set [EvSet (''b'', 0) ''abc''])"
proof -
  let ?b = "demo_cmd\<lparr>cc_key := ''b''\<rparr>" and ?g = "demo_cmd\<lparr>cc_Name := ''get''\<rparr>"
  have "case HandleSet alist_hashmap 0 0 ''u'' demo_cmd (sy_proxy small_system) of
      Some (Inr (_, px1)) \<Rightarrow> (case HandleSet alist_hashmap 1 0 ''u'' ?b px1 of
        Some (Inr (_, px2)) \<Rightarrow> route alist_hashmap (px_placer px2) ''k'' 0 = None | _ \<Rightarrow> False)
    | _ \<Rightarrow> False"
    by code_simp
  then obtain w1 px1 where d1: "HandleSet alist_hashmap 0 0 ''u'' demo_cmd (sy_proxy small_system) = Some (Inr (w1, px1))"
    and "case HandleSet alist_hashmap 1 0 ''u'' ?b px1 of Some (Inr (_, px2)) \<Rightarrow> route alist_hashmap (px_placer px2) ''k'' 0 = None | _ \<Rightarrow> False"
    by (elim case_optionE case_sumE) auto
  then obtain w2 px2 where d2: "HandleSet alist_hashmap 1 0 ''u'' ?b px1 = Some (Inr (w2, px2))" "route alist_hashmap (px_placer px2) ''k'' 0 = None"
    by (elim case_optionE case_sumE) auto
  have c: "set_cmd_ok 1 demo_cmd" "set_cmd_ok 1 ?b" "ToLower ''set'' = ''set''" "ToLower ''get'' = ''get''" by code_simp+
  let ?s1 = "small_system\<lparr>sy_proxy := px1\<rparr>" and ?s2 = "small_system\<lparr>sy_proxy := px2\<rparr>"
  have "demo_step small_system (EvSet (''k'', 0) ''abc'') ?s1" using SysSet [OF d1 c(1), of "''abc''"] c(3) by (simp add: demo_cmd_def)
  moreover have "demo_step ?s1 (EvSet (''b'', 0) ''abc'') ?s2"
    using SysSet [of alist_hashmap 1 0 "''u''" ?b ?s1 w2 px2 1 "''abc''"] d2(1) c(2,3) by (simp add: demo_cmd_def)
  ultimately have r2: "run_of demo_step small_system [EvSet (''k'', 0) ''abc'', EvSet (''b'', 0) ''abc''] ?s2"
    using run_snoc [OF run_snoc [OF run_nil], of demo_step small_system] by fastforce
  have fresh: "fresh_system alist_hashmap (demo_group 1 6) id small_system"
    using demo_system_fresh by (simp add: fresh_system_def small_system_def demo_placer_def queue_def wired_def)
  obtain a where "sim alist_hashmap id 1 ?s2 a"
    using cache_runs [OF list_reader_ok _ alist_hashmap_ok _ demo_group_wf fresh r2] by auto
  then have "placer_inv alist_hashmap 1 (px_placer px2)" by (auto simp: sim_def sys_inv_def)
  then obtain px3 where "HandleGet alist_hashmap alist_hashmap 2 ?g px2 = Inr ([AppendError (not_found_msg (itoa 0) ''k''), Flush], px3)"
    using HandleGet_misses [of alist_hashmap 1 px2 ?g alist_hashmap 2] d2(2) by (auto simp: demo_cmd_def)
  then have "demo_step ?s2 (EvMiss (''k'', 0)) (small_system\<lparr>sy_proxy := px3\<rparr>)"
    using SysGet [of alist_hashmap alist_hashmap 2 ?g ?s2 "[AppendError (not_found_msg (itoa 0) ''k''), Flush]" px3 1] c(4)
    by (simp add: demo_cmd_def)
  then have r: "run_of demo_step small_system ([] @ EvSet (''k'', 0) ''abc'' # [EvSet (''b'', 0) ''abc''] @ EvMiss (''k'', 0) # []) (small_system\<lparr>sy_proxy := px3\<rparr>)"
    using run_snoc [OF r2] by fastforce
  show ?thesis using miss_after_eviction [OF list_reader_ok _ alist_hashmap_ok _ demo_group_wf fresh r] r by auto
qed

text \<open>
  C15: what the client writes to store or to read chunk \<open>i\<close> of an object is one well-framed command, and the
  handler of the proxy, given its arguments, makes the step of the cache for this chunk: a SET of the client's bytes, or
  a GET that is accepted or missed.  \<open>argInt\<close> is the conversion of arguments of the package \<open>redeo\<close>.
\<close>

theorem client_commands_arrive:
  assumes "int_arg_ok argInt" and "n = kl_DataShards c + kl_ParityShards c" and "n < 2 ^ 62" and "i < n" and "l < 2 ^ 62"
  shows "\<exists>set_args get_args. well_framed (frames (set_calls S key val i l q c)) (''set'' # set_args @ [val]) \<and>
     well_framed (frames (get_calls key i q c)) (''get'' # get_args) \<and>
     (\<forall>ws px. HandleSet H now choice uuid (set_command argInt connId ch ''set'' set_args (Inr (NewInlineReader val))) (sy_proxy sys) = Some (Inr (ws, px)) \<longrightarrow>
        sys_step H Q E R feed f mem n sys (EvSet (key, int i) val) (sys\<lparr>sy_proxy := px\<rparr>)) \<and>
     (\<forall>ws px. HandleGet H Q now (get_command argInt connId ch ''get'' get_args) (sy_proxy sys) = Inr (ws, px) \<longrightarrow>
        sys_step H Q E R feed f mem n sys (if ws = [] then EvGet (key, int i) (px_nextReq (sy_proxy sys)) else EvMiss (key, int i))
          (sys\<lparr>sy_proxy := px\<rparr>))"
proof -
  let ?d = "itoa (int (kl_DataShards c))" and ?p = "itoa (int (kl_ParityShards c))"
  let ?sa = "[key, itoa (int i), itoa (int l), itoa (int S), q, ?d, ?p]" and ?ga = "[key, itoa (int i), q, ?d, ?p]"
  have w: "well_framed (frames (set_calls S key val i l q c)) (''set'' # ?sa @ [val])"
      "well_framed (frames (get_calls key i q c)) (''get'' # ?ga)"
    using set_calls_args get_calls_args by simp_all
  show ?thesis
    by (intro exI [of _ ?sa] exI [of _ ?ga] conjI allI impI w)
      (erule client_set_step [OF assms w(1)], erule client_get_step [OF assms(1,4,3) w(2)])
qed

theorem client_commands_arrive_witness:
  "\<exists>args. well_framed (frames (set_calls 400 ''k'' ''abc'' 0 1 ''q'' demo_client)) (''set'' # args @ [''abc'']) \<and>
     (\<forall>ws px. HandleSet alist_hashmap 0 0 ''u'' (set_command Atoi_value 1 8 ''set'' args (Inr (NewInlineReader ''abc''))) (sy_proxy demo_system) =
          Some (Inr (ws, px)) \<longrightarrow>
        sys_step alist_hashmap alist_hashmap demo_env list_reader (\<lambda>fs r. r @ fs) (map snd) 128 2 demo_system (EvSet (''k'', 0) ''abc'')
          (demo_system\<lparr>sy_proxy := px\<rparr>))"
proof -
  have "int_arg_ok Atoi_value" by (simp add: int_arg_ok_def Atoi_value_itoa)
  moreover have "2 = kl_DataShards demo_client + kl_ParityShards demo_client" by (simp add: demo_client_def NewEcClient_def)
  ultimately obtain args where
      "well_framed (frames (set_calls 400 ''k'' ''abc'' 0 1 ''q'' demo_client)) (''set'' # args @ [''abc''])"
      "\<forall>ws px. HandleSet alist_hashmap 0 0 ''u'' (set_command Atoi_value 1 8 ''set'' args (Inr (NewInlineReader ''abc''))) (sy_proxy demo_system) =
          Some (Inr (ws, px)) \<longrightarrow>
        sys_step alist_hashmap alist_hashmap demo_env list_reader (\<lambda>fs r. r @ fs) (map snd) 128 2 demo_system (EvSet (''k'', int 0) ''abc'')
          (demo_system\<lparr>sy_proxy := px\<rparr>)"
    using client_commands_arrive [of Atoi_value 2 demo_client 0 1 400 "''k''" "''abc''" "''q''" alist_hashmap 0 0 "''u''" 1 8 demo_system
        alist_hashmap demo_env list_reader "\<lambda>fs r. r @ fs" "map snd" 128] by auto
  then show ?thesis by auto
qed

section \<open>The main program of the proxy\<close>

text \<open>
  C33: in every run of the main program of the proxy, a normal exit comes after the signal handler has closed the
  listeners, stopped the log and collected the data of the Lambdas; its two goroutines take at most 13 steps, however
  many steps of the system and of other goroutines come between; it starts to serve when all instances are warmed up;
  a waiting signal can be taken by the handler; and once the handler has taken a signal, the program goes on
  unless it waits for the data, for the server to return, or for the scheduler.  (A signal taken by \<open>main\<close> instead,
  after serving has failed, is lost: \<open>signals_crash_or_lost\<close> below.)
\<close>

theorem proxy_main_stops:
  assumes "main_start A H fl create setw listen gl px mg = Some (Inr (Inr s0))" and "(any_mstep A M)\<^sup>*\<^sup>* s0 s"
  shows "(ms_main s = MExited \<longrightarrow> ms_handler s = HEnd \<and> \<not> ms_clientLis s \<and> \<not> ms_lambdaLis s \<and> fu_stopped (ms_flusher s)) \<and>
     (\<forall>n t. mrun A M n s t \<longrightarrow> n + main_left t \<le> main_left s \<and> n \<le> 13) \<and>
     (ms_main s = MReady \<and> ms_warming s = 0 \<longrightarrow> (\<exists>t. mstep A M Main s t)) \<and>
     (ms_running s \<and> ms_handler s = HSig \<and> ms_sig s \<longrightarrow> (\<exists>t. mstep A M Handler s t \<and> ms_handler t = HTaken)) \<and>
     (ms_running s \<and> 2 \<le> hstage (ms_handler s) \<and> \<not> ms_waits A M s \<longrightarrow> (\<exists>w t. w \<noteq> Env \<and> mstep A M w s t))"
proof -
  have inv: "main_inv s" by (rule main_inv_reachable [OF assms])
  have 1: "ms_main s = MExited \<longrightarrow> ms_handler s = HEnd \<and> \<not> ms_clientLis s \<and> \<not> ms_lambdaLis s \<and> fu_stopped (ms_flusher s)"
    using inv by (auto simp: main_inv_def)
  have 2: "n + main_left t \<le> main_left s \<and> n \<le> 13" if "mrun A M n s t" for n t
    using mrun_bounded [OF that inv] main_left_13 [of s] by linarith
  have 3: "\<exists>t. mstep A M Handler s t \<and> ms_handler t = HTaken" if "ms_running s" "ms_handler s = HSig" "ms_sig s"
    using Receive [OF that, of A M] by fastforce
  show ?thesis using 1 2 3 ready_possible [OF inv] stopping_progress [OF inv] by blast
qed

theorem proxy_main_stops_witness:
  "\<exists>s0 s. main_start alist_hashmap alist_hashmap \<lparr>pf_replica = False, pf_debug = True, pf_prefix = ''log''\<rparr> (\<lambda>_. None) (\<lambda>_. None) (\<lambda>_. None)
       (main_init \<lparr>gl_Log = None, gl_ServerIp = ''10.0.0.1'', gl_Prefix = [], gl_AWSRegion = []\<rparr>) demo_proxy demo_migrators =
       Some (Inr (Inr s0)) \<and>
     (any_mstep alist_hashmap alist_hashmap)\<^sup>*\<^sup>* s0 s \<and> ms_main s = MServing \<and> ms_handler s = HTaken \<and>
     (\<exists>w t. w \<noteq> Env \<and> mstep alist_hashmap alist_hashmap w s t)"
proof -
  let ?A = "alist_hashmap :: ((uint64 \<times> nat) list, uint64, nat) hashmap" and ?M = "alist_hashmap :: ((int \<times> nat) list, int, nat) hashmap"
  obtain s0 where s0: "main_start ?A alist_hashmap \<lparr>pf_replica = False, pf_debug = True, pf_prefix = ''log''\<rparr> (\<lambda>_. None) (\<lambda>_. None) (\<lambda>_. None)
       (main_init \<lparr>gl_Log = None, gl_ServerIp = ''10.0.0.1'', gl_Prefix = [], gl_AWSRegion = []\<rparr>) demo_proxy demo_migrators =
       Some (Inr (Inr s0))"
    using main_start_ok [OF alist_hashmap_ok, of "\<lambda>_. None" "\<lambda>_. None" "\<lambda>_. None", OF refl refl refl refl] by blast
  obtain u where u: "(any_mstep ?A ?M)\<^sup>*\<^sup>* s0 u" "ms_main u = MServing" "ms_handler u = HSig" "\<not> ms_sigClosed u"
    using serving_reachable [OF s0] by blast
  let ?v = "u\<lparr>ms_sig := True\<rparr>" and ?s = "u\<lparr>ms_sig := False, ms_handler := HTaken\<rparr>"
  have "mstep ?A ?M Env u ?v" using Signal [of u ?A ?M] u(2,4) by (simp add: ms_running_def signalled_def)
  moreover have "mstep ?A ?M Handler ?v ?s" using Receive [of ?v ?A ?M] u(2,3) by (simp add: ms_running_def)
  ultimately have "any_mstep ?A ?M u ?v" "any_mstep ?A ?M ?v ?s" by blast+
  then have r: "(any_mstep ?A ?M)\<^sup>*\<^sup>* s0 ?s"
    by (rule rtranclp.rtrancl_into_rtrancl [OF rtranclp.rtrancl_into_rtrancl [OF u(1)]])
  have "ms_running ?s \<and> 2 \<le> hstage (ms_handler ?s) \<and> \<not> ms_waits ?A ?M ?s" using u(2) by (simp add: ms_running_def ms_waits_def)
  then have "\<exists>w t. w \<noteq> Env \<and> mstep ?A ?M w ?s t" using proxy_main_stops [OF s0 r] by blast
  then show ?thesis using s0 r u(2) by (intro exI [of _ s0] exI [of _ ?s]) simp
qed

text \<open>
  Signals can hurt the program: a second one after the first was taken makes the send to the closed channel panic, before
  the deployments are given back; and one that arrives when serving has failed by itself can be taken by the wrong
  goroutine, after which only another signal can end the program.
\<close>

theorem signals_crash_or_lost:
  assumes "main_start A H fl create setw listen gl px mg = Some (Inr (Inr s0))"
  shows "(\<exists>t. (any_mstep A M)\<^sup>*\<^sup>* s0 t \<and> ms_main t = MPanicked SendOnClosedChannel \<and> ms_lambdaLis t) \<and>
     (\<exists>t. (any_mstep A M)\<^sup>*\<^sup>* s0 t \<and> deaf t \<and> (\<forall>w u. mstep A M w t u \<longrightarrow> deaf u \<or> u = signalled t))"
  using signals_hurt [OF assms, of M] deaf_step by blast

section \<open>The migration server and the latency records\<close>

text \<open>
  C27: however the two directions of the forwarding connection and its closing interleave, what each
  side is sent is a prefix of what the other side sent, and all of it while the direction runs; the byte counters
  are the lengths, modulo \<open>2 ^ 64\<close>; a direction stops only with the connection closed.
\<close>

theorem forward_keeps_bytes:
  assumes "fstep\<^sup>*\<^sup>* fs_init s"
  shows "prefix (fs_rwritten s) (fs_lread s) \<and> prefix (fs_lwritten s) (fs_rread s) \<and>
     (fs_lrun s \<longrightarrow> fs_rwritten s = fs_lread s \<and> fc_sentBytes (fs_conn s) = word_of_nat (length (fs_lread s))) \<and>
     (fs_rrun s \<longrightarrow> fs_lwritten s = fs_rread s \<and> fc_receivedBytes (fs_conn s) = word_of_nat (length (fs_rread s))) \<and>
     (\<not> fc_closed (fs_conn s) \<longrightarrow> fs_lrun s \<and> fs_rrun s)"
  using fs_inv_reachable [OF assms] by (auto simp: fs_inv_def forwarded_def split: if_splits)

theorem forward_keeps_bytes_witness:
  "\<exists>s. fstep\<^sup>*\<^sup>* fs_init s \<and> fs_rwritten s = ''ab'' \<and> fc_sentBytes (fs_conn s) = 2"
proof -
  let ?wr = "\<lambda>b::bytes. (length b, None::error option)"
  let ?s = "forward_local (''ab'', None) ?wr fs_init"
  have "fstep fs_init ?s" by (rule fstep.LocalRound) (simp_all add: fs_init_def writer_ok_def)
  then have r: "fstep\<^sup>*\<^sup>* fs_init ?s" by simp
  have "fs_lrun ?s" "fs_lread ?s = ''ab''"
    by (simp_all add: forward_local_def pipe_round_def fs_init_def newForwardConnection_def count_bytes_def)
  then show ?thesis using forward_keeps_bytes [OF r] r by auto
qed

text \<open>
  the three calls the proxy makes for a chunk log one record, with the times relative to the start of the
  request; the entry stays in the table for ever.
\<close>

theorem latency_logged:
  "\<exists>pc'. chunk_calls cmd reqId chunkId start (first, l2s, rb) (s2c, ab, fl, end_time) pc = Inr (None, pc') \<and>
     pc_log pc' = pc_log pc @ [(new_entry cmd reqId chunkId start)\<lparr>le_firstByte := first - start, le_lambda2Server := l2s,
        le_readBulk := rb, le_server2Client := s2c, le_appendBulk := ab, le_flush := fl, le_duration := end_time - start\<rparr>] \<and>
     map_of (pc_reqMap pc') (entry_key cmd reqId chunkId) \<noteq> None"
  by (rule chunk_calls_log)

section \<open>The deployment tool\<close>

text \<open>
  C34: for numbers below 2 ^ 53 and a positive batch size, and whatever the order in which the concurrent
  goroutines of a batch make their calls and print, the deployment tool returns exactly when every update it is asked
  for succeeds: an update that fails does not call \<open>wg.Done\<close>, and \<open>wg.Wait\<close> waits for ever.  When it returns it has
  created every function in order and updated every one exactly once, no update before those of an earlier batch.
\<close>

theorem deploy_completes:
  assumes "flags_ok fl" and "orders_ok ord"
  shows "(fst (deploy_main fl svc ord d) \<longleftrightarrow>
       (fl_code fl \<longrightarrow> all_updated fl svc code_input) \<and> (fl_config fl \<longrightarrow> all_updated fl svc config_input)) \<and>
     (fst (deploy_main fl svc ord d) \<longrightarrow>
       (\<exists>codes configs. dp_calls (snd (deploy_main fl svc ord d)) = dp_calls d @ deploy_calls fl codes configs \<and>
          (fl_code fl \<longrightarrow> in_batches fl codes) \<and> (fl_config fl \<longrightarrow> in_batches fl configs)))"
  using deploy_main_calls [OF assms, of svc d] by (elim exE conjE) (simp only: fst_conv snd_conv, blast)

definition demo_flags :: flags where
  "demo_flags = \<lparr>fl_code = True, fl_config = False, fl_create = False, fl_timeout = 60, fl_prefix = ''N'', fl_vpc = False, fl_key = ''lambda'',
     fl_from = 1, fl_to = 4, fl_batch = 2, fl_mem = 1024, fl_bucket = ''b''\<rparr>"

definition demo_orders :: orders where
  "demo_orders = (\<lambda>p e j ids. rev ids)"

theorem deploy_completes_witness:
  "mset (map ac_name (dp_calls (snd (deploy_main demo_flags (\<lambda>_. Inr ''ok'') demo_orders \<lparr>dp_calls = [], dp_out = []\<rparr>)))) =
     {# ''N1'', ''N2'', ''N3'' #} \<and>
   \<not> fst (deploy_main demo_flags (\<lambda>c. if ac_name c = ''N2'' then Inl (OtherError ''gone'') else Inr ''ok'') demo_orders
       \<lparr>dp_calls = [], dp_out = []\<rparr>)"
proof -
  let ?d = "\<lparr>dp_calls = [], dp_out = []\<rparr>"
  have i: "itoa 1 = ''1''" "itoa 2 = ''2''" "itoa 3 = ''3''" by code_simp+
  have ok: "flags_ok demo_flags" "orders_ok demo_orders"
    by (simp_all add: flags_ok_def demo_flags_def orders_ok_def demo_orders_def)
  have "map (ac_name \<circ> (code_input demo_flags \<circ> node_name demo_flags)) [1 .. 3] = [''N1'', ''N2'', ''N3'']"
    by (simp add: demo_flags_def code_input_def node_name_def upto.simps i)
  moreover obtain codes where "dp_calls (snd (deploy_main demo_flags (\<lambda>_. Inr ''ok'') demo_orders ?d)) =
      map (code_input demo_flags \<circ> node_name demo_flags) codes" "mset codes = mset [1 .. 3]"
    using deploy_completes [OF ok, of "\<lambda>_. Inr ''ok''" ?d] by (auto simp: demo_flags_def deploy_calls_def in_batches_def)
  ultimately have "mset (map ac_name (dp_calls (snd (deploy_main demo_flags (\<lambda>_. Inr ''ok'') demo_orders ?d)))) =
      mset [''N1'', ''N2'', ''N3'']"
    by (metis (no_types, lifting) map_map mset_map)
  moreover have "ac_name (code_input demo_flags (node_name demo_flags 2)) = ''N2''"
    by (simp add: code_input_def node_name_def demo_flags_def i)
  moreover have "(2 :: int) \<in> {fl_from demo_flags ..< fl_to demo_flags}" by (simp add: demo_flags_def)
  ultimately have "\<not> all_updated demo_flags (\<lambda>c. if ac_name c = ''N2'' then Inl (OtherError ''gone'') else Inr ''ok'') code_input"
    by (metis Inl_Inr_False)
  then show ?thesis
    using \<open>mset (map ac_name _) = _\<close>
      deploy_completes [OF ok, of "\<lambda>c. if ac_name c = ''N2'' then Inl (OtherError ''gone'') else Inr ''ok''" ?d]
    by (simp add: demo_flags_def)
qed

end
